(* ===== verification/Prelude.thy ===== *)
theory Prelude
  imports Main "HOL-Library.Sublist"
begin

text \<open>
  What the components share: Go errors as values, Go's fixed-width integer arithmetic, decimal
  printing and parsing, the few functions of package strings the sources call, and generic
  lemmas on lists, maps and sums over finite maps.
\<close>

subsection \<open>Collections of rewrite rules\<close>

named_theorems always_simps \<open>weakest-precondition rules of the transaction layer\<close>
named_theorems sql_defs \<open>definitions of single SQL statements\<close>
named_theorems go_defs \<open>definitions of small pure Go helpers\<close>

subsection \<open>Go errors\<close>

text \<open>
  An error value is a package-level sentinel (compared by identity), a fresh errors.New or
  fmt.Errorf text, a MySQL server error with its number, another driver error, or the wrapping
  of an error by fmt.Errorf with the verb %w (prefix, cause, suffix).
\<close>

datatype goerr =
    Sentinel string
  | ErrNew string
  | MySQLError int string
  | DriverError string
  | Wrapf string goerr string

text \<open>errors.Is walks the chain of wrapped errors.\<close>

fun err_is :: "goerr \<Rightarrow> goerr \<Rightarrow> bool" where
  "err_is (Wrapf pre e suf) t = (Wrapf pre e suf = t \<or> err_is e t)"
| "err_is e t = (e = t)"

text \<open>errors.As for *mysql.MySQLError: the first MySQL error of the chain.\<close>

fun as_mysql :: "goerr \<Rightarrow> int option" where
  "as_mysql (MySQLError n _) = Some n"
| "as_mysql (Wrapf _ e _) = as_mysql e"
| "as_mysql _ = None"

text \<open>err.Error().\<close>

fun err_text :: "goerr \<Rightarrow> string" where
  "err_text (Sentinel s) = s"
| "err_text (ErrNew s) = s"
| "err_text (MySQLError _ s) = s"
| "err_text (DriverError s) = s"
| "err_text (Wrapf pre e suf) = pre @ err_text e @ suf"

abbreviation ErrNoRows :: goerr where
  "ErrNoRows \<equiv> Sentinel ''sql: no rows in result set''"

abbreviation ErrRecordNotFound :: goerr where
  "ErrRecordNotFound \<equiv> Sentinel ''record not found''"

abbreviation Canceled :: goerr where
  "Canceled \<equiv> Sentinel ''context canceled''"

abbreviation DeadlineExceeded :: goerr where
  "DeadlineExceeded \<equiv> Sentinel ''context deadline exceeded''"

subsection \<open>Fixed-width integers\<close>

text \<open>
  A Go int64 is an int in the range of the type; arithmetic that can leave the range is written
  with the wrap-around of two's complement.
\<close>

definition in_int64 :: "int \<Rightarrow> bool" where
  "in_int64 x \<longleftrightarrow> - (2 ^ 63) \<le> x \<and> x < 2 ^ 63"

definition wrap64 :: "int \<Rightarrow> int" where
  "wrap64 x = (x + 2 ^ 63) mod 2 ^ 64 - 2 ^ 63"

lemma wrap64_id [simp]: "in_int64 x \<Longrightarrow> wrap64 x = x"
  by (simp add: in_int64_def wrap64_def)

lemma wrap64_range: "in_int64 (wrap64 x)"
proof -
  have "0 \<le> (x + 2 ^ 63) mod 2 ^ 64" "(x + 2 ^ 63) mod 2 ^ 64 < 2 ^ 64"
    by (simp_all del: power_numeral)
  then show ?thesis by (simp add: in_int64_def wrap64_def)
qed

text \<open>Go's integer division truncates towards zero.\<close>

definition go_div :: "int \<Rightarrow> int \<Rightarrow> int" where
  "go_div a b = sgn a * sgn b * (\<bar>a\<bar> div \<bar>b\<bar>)"

lemma go_div_pos: "0 \<le> a \<Longrightarrow> 0 < b \<Longrightarrow> go_div a b = a div b"
  by (cases "a = 0") (auto simp: go_div_def)

subsection \<open>Decimal numbers\<close>

definition digit_char :: "nat \<Rightarrow> char" where
  "digit_char d = char_of (48 + d)"

definition char_digit :: "char \<Rightarrow> nat option" where
  "char_digit c = (let n = of_char c :: nat in if 48 \<le> n \<and> n \<le> 57 then Some (n - 48) else None)"

lemma char_digit_digit_char [simp]: "d < 10 \<Longrightarrow> char_digit (digit_char d) = Some d"
  by (simp add: char_digit_def digit_char_def)

fun show_nat :: "nat \<Rightarrow> string" where
  "show_nat n = (if n < 10 then [digit_char n] else show_nat (n div 10) @ [digit_char (n mod 10)])"

declare show_nat.simps [simp del]

text \<open>strconv.FormatInt(n, 10), and the verb %d of fmt.Sprintf.\<close>

definition show_int :: "int \<Rightarrow> string" where
  "show_int i = (if i < 0 then ''-'' @ show_nat (nat (- i)) else show_nat (nat i))"

fun parse_digits :: "nat \<Rightarrow> string \<Rightarrow> nat option" where
  "parse_digits acc [] = Some acc"
| "parse_digits acc (c # cs) =
     (case char_digit c of None \<Rightarrow> None | Some d \<Rightarrow> parse_digits (acc * 10 + d) cs)"

definition parse_nat :: "string \<Rightarrow> nat option" where
  "parse_nat s = (if s = [] then None else parse_digits 0 s)"

text \<open>
  strconv.Atoi and strconv.ParseInt(s, 10, 64): an optional sign, at least one digit, and a value
  in the range of int64; anything else is an error (None).
\<close>

definition atoi :: "string \<Rightarrow> int option" where
  "atoi s =
     (case s of
        [] \<Rightarrow> None
      | c # cs \<Rightarrow>
          (case (if c = CHR ''-'' then map_option (\<lambda>n. - int n) (parse_nat cs)
                 else if c = CHR ''+'' then map_option int (parse_nat cs)
                 else map_option int (parse_nat s)) of
             None \<Rightarrow> None
           | Some i \<Rightarrow> if in_int64 i then Some i else None))"

lemma parse_digits_append:
  "parse_digits acc (xs @ ys) =
     (case parse_digits acc xs of None \<Rightarrow> None | Some a \<Rightarrow> parse_digits a ys)"
  by (induction acc xs rule: parse_digits.induct) (auto split: option.splits)

lemma show_nat_nonempty [simp]: "show_nat n \<noteq> []"
  by (subst show_nat.simps) simp

lemma parse_digits_show_nat: "parse_digits 0 (show_nat n) = Some n"
proof (induction n rule: show_nat.induct)
  case (1 n)
  then show ?case
    by (cases "n < 10") (simp_all add: show_nat.simps [of n] parse_digits_append)
qed

lemma parse_nat_show_nat [simp]: "parse_nat (show_nat n) = Some n"
  by (simp add: parse_nat_def parse_digits_show_nat)

lemma show_nat_digits: "c \<in> set (show_nat n) \<Longrightarrow> char_digit c \<noteq> None"
proof (induction n rule: show_nat.induct)
  case (1 n)
  then show ?case
    by (cases "n < 10") (auto simp: show_nat.simps [of n])
qed

lemma hd_show_nat: "hd (show_nat n) \<noteq> CHR ''-'' \<and> hd (show_nat n) \<noteq> CHR ''+''"
proof -
  have "char_digit (hd (show_nat n)) \<noteq> None"
    by (rule show_nat_digits [OF hd_in_set]) simp
  then show ?thesis by (auto simp: char_digit_def)
qed

lemma atoi_show_int: "in_int64 i \<Longrightarrow> atoi (show_int i) = Some i"
proof -
  assume r: "in_int64 i"
  obtain c cs where s: "show_nat (nat i) = c # cs"
    using show_nat_nonempty by (cases "show_nat (nat i)") auto
  have h: "c \<noteq> CHR ''-''" "c \<noteq> CHR ''+''" using hd_show_nat [of "nat i"] s by auto
  have p: "parse_nat (c # cs) = Some (nat i)" using parse_nat_show_nat [of "nat i"] s by simp
  show ?thesis
    using r h p s by (auto simp: atoi_def show_int_def)
qed

lemma show_int_chars: "c \<in> set (show_int i) \<Longrightarrow> c = CHR ''-'' \<or> char_digit c \<noteq> None"
  using show_nat_digits by (auto simp: show_int_def split: if_splits)

lemma show_int_no_colon: "CHR '':'' \<notin> set (show_int i)"
  using show_int_chars [of "CHR '':''" i] by (auto simp: char_digit_def)

lemma show_int_inject: "in_int64 i \<Longrightarrow> in_int64 j \<Longrightarrow> show_int i = show_int j \<Longrightarrow> i = j"
  using atoi_show_int by (metis option.inject)

subsection \<open>Package strings\<close>

text \<open>
  Strings are byte lists, as Go's are. The white space that TrimSpace removes is modelled for the
  ASCII bytes (tab, line feed, vertical tab, form feed, carriage return, blank).
\<close>

definition is_space :: "char \<Rightarrow> bool" where
  "is_space c \<longleftrightarrow> of_char c \<in> {9, 10, 11, 12, 13, 32 :: nat}"

definition TrimSpace :: "string \<Rightarrow> string" where
  "TrimSpace s = rev (dropWhile is_space (rev (dropWhile is_space s)))"

definition TrimRight :: "string \<Rightarrow> char \<Rightarrow> string" where
  "TrimRight s c = rev (dropWhile (\<lambda>x. x = c) (rev s))"

definition HasPrefix :: "string \<Rightarrow> string \<Rightarrow> bool" where
  "HasPrefix s p \<longleftrightarrow> take (length p) s = p"

lemma dropWhile_idem [simp]: "dropWhile P (dropWhile P xs) = dropWhile P xs"
  by (induction xs) auto

lemma dropWhile_hd: "dropWhile P xs = [] \<or> \<not> P (hd (dropWhile P xs))"
  by (induction xs) auto

subsection \<open>Maps and sums over finite maps\<close>

text \<open>
  A table keyed by its primary key is a finite map; sum_rows adds a column over the rows
  that satisfy a predicate.
\<close>

definition sum_rows :: "('v \<Rightarrow> bool) \<Rightarrow> ('v \<Rightarrow> int) \<Rightarrow> ('k \<Rightarrow> 'v option) \<Rightarrow> int" where
  "sum_rows P f m = (\<Sum>k \<in> dom m. if P (the (m k)) then f (the (m k)) else 0)"

lemma sum_rows_upd:
  assumes "finite (dom m)"
  shows "sum_rows P f (m(k \<mapsto> v)) =
    sum_rows P f m - (case m k of None \<Rightarrow> 0 | Some w \<Rightarrow> if P w then f w else 0) + (if P v then f v else 0)"
proof -
  let ?g = "\<lambda>m k. if P (the (m k)) then f (the (m k)) else 0 :: int"
  have eq: "sum (?g (m(k \<mapsto> v))) (dom m - {k}) = sum (?g m) (dom m - {k})"
    by (rule sum.cong) auto
  have l: "sum (?g (m(k \<mapsto> v))) (dom (m(k \<mapsto> v))) =
      ?g (m(k \<mapsto> v)) k + sum (?g (m(k \<mapsto> v))) (dom m - {k})"
    using assms by (simp add: sum.insert_remove)
  show ?thesis
  proof (cases "m k")
    case None
    then have "dom m - {k} = dom m" by auto
    with None l eq show ?thesis by (simp add: sum_rows_def)
  next
    case (Some w)
    then have "k \<in> dom m" by auto
    then have "sum (?g m) (dom m) = ?g m k + sum (?g m) (dom m - {k})"
      using assms by (simp add: sum.remove)
    with Some l eq show ?thesis by (simp add: sum_rows_def)
  qed
qed

lemma sum_rows_empty [simp]: "sum_rows P f Map.empty = 0"
  by (simp add: sum_rows_def)

lemma sum_rows_nonneg: "(\<And>k v. m k = Some v \<Longrightarrow> P v \<Longrightarrow> 0 \<le> f v) \<Longrightarrow> 0 \<le> sum_rows P f m"
  unfolding sum_rows_def by (rule sum_nonneg) auto

lemma sum_rows_ge:
  assumes "finite (dom m)" and "m k = Some v" and "P v"
    and "\<And>k v. m k = Some v \<Longrightarrow> P v \<Longrightarrow> 0 \<le> f v"
  shows "f v \<le> sum_rows P f m"
proof -
  have "(if P (the (m k)) then f (the (m k)) else 0) \<le> sum_rows P f m"
    unfolding sum_rows_def using assms by (intro member_le_sum) auto
  with assms show ?thesis by simp
qed

end
