(* ===== verification/Sql_Tx.thy ===== *)
theory Sql_Tx
  imports Prelude
begin

text \<open>
  The database interface of the services: a transaction works on a record of tables and on the
  driver. The driver is adversarial: its plan says, statement by statement, the server's clock and
  whether the statement fails (a lost connection, a deadlock, a lock wait timeout), and for a
  commit whether it fails cleanly or is applied although the client only sees an error. A
  statement that fails leaves the tables as they are (statement atomicity of the storage engine).
  Nothing is assumed of the plan: theorems quantify over it.

  The interface always says that a result holds of every run, whatever the plan; its rewrite rules
  (always_simps) compute it through an operation as a verification condition.
\<close>

subsection \<open>Runs\<close>

text \<open>What the driver reports: a server error, a broken connection, an expired context.\<close>

datatype drv_error =
    DrvMySQL int string
  | DrvConn string
  | DrvCanceled
  | DrvDeadline

fun drv :: "drv_error \<Rightarrow> goerr" where
  "drv (DrvMySQL n s) = MySQLError n s"
| "drv (DrvConn s) = DriverError s"
| "drv DrvCanceled = Canceled"
| "drv DrvDeadline = DeadlineExceeded"

datatype db_event =
    DbOk int                \<comment> \<open>the statement runs, at this server time\<close>
  | DbFail drv_error int    \<comment> \<open>the statement fails with this driver error\<close>
  | DbLost drv_error int    \<comment> \<open>a commit that is applied while the client sees an error\<close>

lemma drv_not_no_rows [simp]:
  "drv e \<noteq> ErrNoRows" "drv e \<noteq> ErrRecordNotFound" "drv e \<noteq> ErrNew s" "drv e \<noteq> Wrapf pre x suf"
  "\<not> err_is (drv e) ErrNoRows" "\<not> err_is (drv e) ErrRecordNotFound"
  by (cases e; simp)+

record 't tx_state =
  tables :: 't
  plan :: "nat \<Rightarrow> db_event"

type_synonym ('t, 'a) tx = "'t tx_state \<Rightarrow> (goerr + 'a) \<times> 't tx_state"

text \<open>A statement computes its result and the new tables from the server time and the tables.\<close>

type_synonym ('t, 'a) sql = "int \<Rightarrow> 't \<Rightarrow> (goerr + 'a) \<times> 't"

definition stmt :: "('t, 'a) sql \<Rightarrow> ('t, 'a) tx" where
  "stmt f s =
     (case plan s 0 of
        DbOk now \<Rightarrow>
          (case f now (tables s) of (r, t) \<Rightarrow> (r, s\<lparr>tables := t, plan := \<lambda>i. plan s (Suc i)\<rparr>))
      | DbFail e now \<Rightarrow> (Inl (drv e), s\<lparr>plan := \<lambda>i. plan s (Suc i)\<rparr>)
      | DbLost e now \<Rightarrow> (Inl (drv e), s\<lparr>plan := \<lambda>i. plan s (Suc i)\<rparr>))"

definition tx_return :: "'a \<Rightarrow> ('t, 'a) tx" where
  "tx_return x s = (Inr x, s)"

definition tx_fail :: "goerr \<Rightarrow> ('t, 'a) tx" where
  "tx_fail e s = (Inl e, s)"

text \<open>
  x, err := m; ... : the continuation sees the result and the error. tx_bind is the common form
  that returns a non-nil error at once (if err != nil { return err }).
\<close>

definition tx_then :: "('t, 'a) tx \<Rightarrow> (goerr + 'a \<Rightarrow> ('t, 'b) tx) \<Rightarrow> ('t, 'b) tx" where
  "tx_then m k s = (case m s of (r, s') \<Rightarrow> k r s')"

definition tx_bind :: "('t, 'a) tx \<Rightarrow> ('a \<Rightarrow> ('t, 'b) tx) \<Rightarrow> ('t, 'b) tx" where
  "tx_bind m k = tx_then m (\<lambda>r. case r of Inl e \<Rightarrow> tx_fail e | Inr x \<Rightarrow> k x)"

definition begin_tx :: "('t, unit) tx" where
  "begin_tx = stmt (\<lambda>now t. (Inr (), t))"

text \<open>
  Commit of a transaction that began on the tables t0: a clean failure restores them.
\<close>

definition commit_tx :: "'t \<Rightarrow> ('t, unit) tx" where
  "commit_tx t0 s =
     (case plan s 0 of
        DbOk now \<Rightarrow> (Inr (), s\<lparr>plan := \<lambda>i. plan s (Suc i)\<rparr>)
      | DbFail e now \<Rightarrow> (Inl (drv e), s\<lparr>tables := t0, plan := \<lambda>i. plan s (Suc i)\<rparr>)
      | DbLost e now \<Rightarrow> (Inl (drv e), s\<lparr>plan := \<lambda>i. plan s (Suc i)\<rparr>))"

definition rollback_tx :: "'t \<Rightarrow> 't tx_state \<Rightarrow> 't tx_state" where
  "rollback_tx t0 s = s\<lparr>tables := t0\<rparr>"

text \<open>The driver that never fails, with the server clock standing at one time.\<close>

definition no_fault :: "int \<Rightarrow> nat \<Rightarrow> db_event" where
  "no_fault now = (\<lambda>_. DbOk now)"

definition quiet :: "int \<Rightarrow> 't \<Rightarrow> 't tx_state" where
  "quiet now t = \<lparr>tables = t, plan = no_fault now\<rparr>"

lemma stmt_quiet [simp]:
  "stmt f (quiet now t) = (case f now t of (r, t') \<Rightarrow> (r, quiet now t'))"
  by (simp add: stmt_def quiet_def no_fault_def split: prod.splits)

lemma commit_quiet [simp]: "commit_tx t0 (quiet now t) = (Inr (), quiet now t)"
  by (simp add: commit_tx_def quiet_def no_fault_def)

lemma begin_quiet [simp]: "begin_tx (quiet now t) = (Inr (), quiet now t)"
  by (simp add: begin_tx_def)

lemma rollback_quiet [simp]: "rollback_tx t0 (quiet now t) = quiet now t0"
  by (simp add: rollback_tx_def quiet_def)

lemma tables_quiet [simp]: "tables (quiet now t) = t"
  by (simp add: quiet_def)

lemma tx_steps:
  "tx_bind (tx_return x) k = k x" "tx_bind (tx_fail e) k = tx_fail e"
  "tx_then (tx_return x) l = l (Inr x)" "tx_then (tx_fail e) l = l (Inl e)"
  by (auto simp: tx_bind_def tx_then_def tx_return_def tx_fail_def)

lemmas tx_run = tx_return_def tx_fail_def tx_then_def tx_bind_def

subsection \<open>Statements about every run\<close>

definition always :: "('t, 'a) tx \<Rightarrow> 't \<Rightarrow> (goerr + 'a \<Rightarrow> 't \<Rightarrow> bool) \<Rightarrow> bool" where
  "always m t Q \<longleftrightarrow> (\<forall>p. case m \<lparr>tables = t, plan = p\<rparr> of (r, s') \<Rightarrow> Q r (tables s'))"

lemma alwaysD: "always m (tables s) Q \<Longrightarrow> m s = (r, s') \<Longrightarrow> Q r (tables s')"
  by (cases s) (auto simp: always_def dest: spec [of _ "plan s"])

lemma always_mono: "always m t Q \<Longrightarrow> (\<And>r t'. Q r t' \<Longrightarrow> R r t') \<Longrightarrow> always m t R"
  unfolding always_def by (auto split: prod.splits)

lemma always_conj: "always m t P \<Longrightarrow> always m t Q \<Longrightarrow> always m t (\<lambda>r t'. P r t' \<and> Q r t')"
  unfolding always_def by (auto split: prod.splits)

lemma always_return [always_simps]: "always (tx_return x) t Q \<longleftrightarrow> Q (Inr x) t"
  by (simp add: always_def tx_return_def)

lemma always_fail [always_simps]: "always (tx_fail e) t Q \<longleftrightarrow> Q (Inl e) t"
  by (simp add: always_def tx_fail_def)

lemma all_plans: "(\<forall>p :: nat \<Rightarrow> db_event. P (p 0) (\<lambda>i. p (Suc i))) \<longleftrightarrow> (\<forall>e p. P e p)"
proof
  assume a: "\<forall>p :: nat \<Rightarrow> db_event. P (p 0) (\<lambda>i. p (Suc i))"
  show "\<forall>e p. P e p"
  proof (intro allI)
    fix e p
    from a have "P (case_nat e p 0) (\<lambda>i. case_nat e p (Suc i))" by (rule spec)
    then show "P e p" by simp
  qed
qed blast

lemma all_events: "(\<forall>e. P e) \<longleftrightarrow> (\<forall>now. P (DbOk now)) \<and> (\<forall>e now. P (DbFail e now)) \<and> (\<forall>e now. P (DbLost e now))"
  by (metis db_event.exhaust)

text \<open>
  A statement followed by its continuation: the failing run of the statement, and the run that
  executes it.
\<close>

lemma always_stmt_then [always_simps]:
  "always (tx_then (stmt f) k) t Q \<longleftrightarrow>
     (\<forall>e. always (k (Inl (drv e))) t Q) \<and> (\<forall>now. case f now t of (r, t') \<Rightarrow> always (k r) t' Q)"
proof -
  have "always (tx_then (stmt f) k) t Q \<longleftrightarrow>
    (\<forall>e p. case (case e of
        DbOk now \<Rightarrow> (case f now t of (r, t') \<Rightarrow> k r \<lparr>tables = t', plan = p\<rparr>)
      | DbFail err now \<Rightarrow> k (Inl (drv err)) \<lparr>tables = t, plan = p\<rparr>
      | DbLost err now \<Rightarrow> k (Inl (drv err)) \<lparr>tables = t, plan = p\<rparr>) of (r, s') \<Rightarrow> Q r (tables s'))"
    unfolding always_def
    by (subst all_plans [symmetric])
      (auto simp: tx_then_def stmt_def split: db_event.splits prod.splits)
  also have "\<dots> \<longleftrightarrow> (\<forall>e. always (k (Inl (drv e))) t Q) \<and>
      (\<forall>now. case f now t of (r, t') \<Rightarrow> always (k r) t' Q)"
    by (subst all_events) (auto simp: always_def split: prod.splits)
  finally show ?thesis .
qed

lemma always_stmt [always_simps]:
  "always (stmt f) t Q \<longleftrightarrow> (\<forall>e. Q (Inl (drv e)) t) \<and> (\<forall>now. case f now t of (r, t') \<Rightarrow> Q r t')"
proof -
  have "stmt f = tx_then (stmt f) (\<lambda>r s. (r, s))"
    by (rule ext) (simp add: tx_then_def)
  then have "always (stmt f) t Q = always (tx_then (stmt f) (\<lambda>r s. (r, s))) t Q"
    by simp
  then show ?thesis
    by (simp only: always_stmt_then) (simp add: always_def)
qed

lemma always_stmt_bind [always_simps]:
  "always (tx_bind (stmt f) k) t Q \<longleftrightarrow>
     (\<forall>e. Q (Inl (drv e)) t) \<and>
     (\<forall>now. case f now t of (Inl e, t') \<Rightarrow> Q (Inl e) t' | (Inr x, t') \<Rightarrow> always (k x) t' Q)"
  by (auto simp: tx_bind_def always_simps split: prod.splits sum.splits)

lemma always_if [always_simps]:
  "always (if b then m else n) t Q \<longleftrightarrow> (if b then always m t Q else always n t Q)"
  by simp

lemma always_then:
  "always m t (\<lambda>r t'. always (k r) t' Q) \<Longrightarrow> always (tx_then m k) t Q"
  by (auto simp: always_def tx_then_def split: prod.splits)
     (metis (mono_tags, lifting) case_prod_conv tx_state.surjective old.unit.exhaust)

lemma always_bind:
  assumes "always m t R"
    and "\<And>e t'. R (Inl e) t' \<Longrightarrow> Q (Inl e) t'"
    and "\<And>x t'. R (Inr x) t' \<Longrightarrow> always (k x) t' Q"
  shows "always (tx_bind m k) t Q"
  unfolding tx_bind_def
  by (rule always_then, rule always_mono [OF assms(1)])
    (use assms(2,3) in \<open>auto simp: always_simps split: sum.splits\<close>)

subsection \<open>Transactions\<close>

text \<open>
  db.Transaction of gorm: begin, the body, commit if the body returned nil and roll back otherwise.
\<close>

definition Transaction :: "('t, 'a) tx \<Rightarrow> ('t, 'a) tx" where
  "Transaction body s =
     (case begin_tx s of
        (Inl e, s1) \<Rightarrow> (Inl e, s1)
      | (Inr _, s1) \<Rightarrow>
          (case body s1 of
             (Inl e, s2) \<Rightarrow> (Inl e, rollback_tx (tables s1) s2)
           | (Inr x, s2) \<Rightarrow>
               (case commit_tx (tables s1) s2 of
                  (Inl e, s3) \<Rightarrow> (Inl e, s3)
                | (Inr _, s3) \<Rightarrow> (Inr x, s3))))"

lemma Transaction_quiet_ok [simp]:
  "body (quiet now t) = (Inr x, quiet now t') \<Longrightarrow> Transaction body (quiet now t) = (Inr x, quiet now t')"
  by (simp add: Transaction_def)

lemma Transaction_quiet_fail [simp]:
  "body (quiet now t) = (Inl e, quiet now t') \<Longrightarrow> Transaction body (quiet now t) = (Inl e, quiet now t)"
  by (simp add: Transaction_def)

text \<open>
  After a transaction the tables are those before it, with an error, or those a successful body
  leaves, then possibly with an error too: a commit whose reply is lost.
\<close>

lemma always_Transaction:
  assumes "always body t (\<lambda>r t'. case r of Inl e \<Rightarrow> Q (Inl e) t
      | Inr x \<Rightarrow> Q (Inr x) t' \<and> (\<forall>e. Q (Inl e) t') \<and> (\<forall>e. Q (Inl e) t))"
    and "\<And>e. Q (Inl (drv e)) t"
  shows "always (Transaction body) t Q"
  unfolding always_def
proof
  fix p
  let ?s = "\<lparr>tables = t, plan = p\<rparr>"
  obtain r1 s1 where b: "begin_tx ?s = (r1, s1)" by (cases "begin_tx ?s")
  then have t1: "tables s1 = t" by (auto simp: begin_tx_def stmt_def split: db_event.splits)
  show "case Transaction body ?s of (r, s') \<Rightarrow> Q r (tables s')"
  proof (cases r1)
    case (Inl e)
    with b have "\<exists>e'. e = drv e'" by (auto simp: begin_tx_def stmt_def split: db_event.splits)
    with b Inl t1 assms(2) show ?thesis by (auto simp: Transaction_def)
  next
    case (Inr u)
    obtain r2 s2 where o: "body s1 = (r2, s2)" by (cases "body s1")
    have q: "case r2 of Inl e \<Rightarrow> Q (Inl e) t
        | Inr x \<Rightarrow> Q (Inr x) (tables s2) \<and> (\<forall>e. Q (Inl e) (tables s2)) \<and> (\<forall>e. Q (Inl e) t)"
      by (rule alwaysD [OF assms(1) [folded t1] o, unfolded t1])
    then show ?thesis
      using b Inr o t1
      by (auto simp: Transaction_def rollback_tx_def commit_tx_def split: sum.splits prod.splits db_event.splits)
  qed
qed

lemma always_Transaction_keeps:
  assumes "always body t (\<lambda>r t'. case r of Inl e \<Rightarrow> True | Inr x \<Rightarrow> I t')" and "I t"
  shows "always (Transaction body) t (\<lambda>_. I)"
  by (rule always_Transaction, rule always_mono [OF assms(1)]) (use assms(2) in \<open>auto split: sum.splits\<close>)

subsection \<open>Invariants of runs\<close>

text \<open>
  yields I m P: whatever the driver does, m keeps the invariant I, and a value it returns satisfies
  P. The rules follow the structure of an operation.
\<close>

definition yields :: "('t \<Rightarrow> bool) \<Rightarrow> ('t, 'a) tx \<Rightarrow> ('a \<Rightarrow> bool) \<Rightarrow> bool" where
  "yields I m P \<longleftrightarrow> (\<forall>t. I t \<longrightarrow> always m t (\<lambda>r t'. I t' \<and> (\<forall>x. r = Inr x \<longrightarrow> P x)))"

lemma yieldsD: "yields I m P \<Longrightarrow> I (tables s) \<Longrightarrow> m s = (r, s') \<Longrightarrow> I (tables s') \<and> (\<forall>x. r = Inr x \<longrightarrow> P x)"
  unfolding yields_def by (drule spec [of _ "tables s"]) (auto dest: alwaysD)

lemma yields_weaken: "yields I m P \<Longrightarrow> (\<And>x. P x \<Longrightarrow> Q x) \<Longrightarrow> yields I m Q"
  unfolding yields_def by (auto elim!: always_mono)

lemma yields_stmt: "(\<And>now t. I t \<Longrightarrow> case f now t of (r, t') \<Rightarrow> I t' \<and> (\<forall>x. r = Inr x \<longrightarrow> P x)) \<Longrightarrow> yields I (stmt f) P"
  unfolding yields_def by (simp add: always_simps)

lemma yields_stmt_parts:
  "(\<And>now t. I t \<Longrightarrow> I (snd (f now t)) \<and> (\<forall>x. fst (f now t) = Inr x \<longrightarrow> P x)) \<Longrightarrow> yields I (stmt f) P"
  by (rule yields_stmt) (simp add: split_beta)

lemma always_stmt_parts:
  "always (tx_then (stmt f) k) t Q \<longleftrightarrow>
     (\<forall>e. always (k (Inl (drv e))) t Q) \<and> (\<forall>now. always (k (fst (f now t))) (snd (f now t)) Q)"
  by (simp add: always_stmt_then split_beta)

lemma yields_return: "P x \<Longrightarrow> yields I (tx_return x) P"
  by (simp add: yields_def always_simps)

lemma yields_fail: "yields I (tx_fail e) P"
  by (simp add: yields_def always_simps)

lemma yields_then:
  assumes "yields I m P" and "\<And>r. (\<And>x. r = Inr x \<Longrightarrow> P x) \<Longrightarrow> yields I (k r) Q"
  shows "yields I (tx_then m k) Q"
  unfolding yields_def
proof (intro allI impI always_then)
  fix t assume "I t"
  then have "always m t (\<lambda>r t'. I t' \<and> (\<forall>x. r = Inr x \<longrightarrow> P x))" using assms(1) by (simp add: yields_def)
  then show "always m t (\<lambda>r t'. always (k r) t' (\<lambda>r t'. I t' \<and> (\<forall>x. r = Inr x \<longrightarrow> Q x)))"
    by (elim always_mono) (use assms(2) in \<open>auto simp: yields_def\<close>)
qed

lemma yields_bind:
  "yields I m P \<Longrightarrow> (\<And>x. P x \<Longrightarrow> yields I (k x) Q) \<Longrightarrow> yields I (tx_bind m k) Q"
  unfolding tx_bind_def by (rule yields_then) (auto intro: yields_fail split: sum.splits)

lemma yields_if: "(b \<Longrightarrow> yields I m P) \<Longrightarrow> (\<not> b \<Longrightarrow> yields I n P) \<Longrightarrow> yields I (if b then m else n) P"
  by simp

lemma yields_sum:
  "(\<And>e. r = Inl e \<Longrightarrow> yields I (f e) P) \<Longrightarrow> (\<And>x. r = Inr x \<Longrightarrow> yields I (g x) P) \<Longrightarrow>
     yields I (case r of Inl e \<Rightarrow> f e | Inr x \<Rightarrow> g x) P"
  by (cases r) auto

lemma yields_option:
  "(r = None \<Longrightarrow> yields I m P) \<Longrightarrow> (\<And>x. r = Some x \<Longrightarrow> yields I (g x) P) \<Longrightarrow>
     yields I (case r of None \<Rightarrow> m | Some x \<Rightarrow> g x) P"
  by (cases r) auto

lemma yields_prod: "(\<And>a b. p = (a, b) \<Longrightarrow> yields I (f a b) P) \<Longrightarrow> yields I (case p of (a, b) \<Rightarrow> f a b) P"
  by (cases p) auto

lemma yields_let: "yields I (f x) P \<Longrightarrow> yields I (let y = x in f y) P"
  by simp

lemma yields_Transaction: "yields I body P \<Longrightarrow> yields I (Transaction body) P"
  unfolding yields_def
proof (intro allI impI)
  fix t assume a: "\<forall>t. I t \<longrightarrow> always body t (\<lambda>r t'. I t' \<and> (\<forall>x. r = Inr x \<longrightarrow> P x))" and i: "I t"
  show "always (Transaction body) t (\<lambda>r t'. I t' \<and> (\<forall>x. r = Inr x \<longrightarrow> P x))"
    by (rule always_Transaction, rule always_mono [OF a [rule_format, OF i]]) (use i in \<open>auto split: sum.splits\<close>)
qed

lemmas yields_rules = yields_return yields_fail yields_if yields_sum yields_option yields_prod yields_let
  yields_Transaction

text \<open>The case without a promise of the value: the structure of the operation decides.\<close>

abbreviation keeps :: "('t \<Rightarrow> bool) \<Rightarrow> ('t, 'a) tx \<Rightarrow> bool" where
  "keeps I m \<equiv> yields I m (\<lambda>_. True)"

lemma keeps_bind: "keeps I m \<Longrightarrow> (\<And>x. keeps I (k x)) \<Longrightarrow> keeps I (tx_bind m k)"
  by (rule yields_bind)

lemma keeps_then: "keeps I m \<Longrightarrow> (\<And>r. keeps I (k r)) \<Longrightarrow> keeps I (tx_then m k)"
  by (rule yields_then)

lemma keeps_stmt: "(\<And>now t. I t \<Longrightarrow> I (snd (f now t))) \<Longrightarrow> keeps I (stmt f)"
  by (rule yields_stmt_parts) simp

lemma keeps_return: "keeps I (tx_return x)"
  by (rule yields_return) simp

lemmas keeps_rules = keeps_bind keeps_then keeps_return yields_fail yields_if yields_sum yields_option yields_prod
  yields_let yields_Transaction

lemma keeps_yields: "yields I m P \<Longrightarrow> keeps I m"
  by (erule yields_weaken) simp

lemma keeps_state_fun: "(\<And>s. keeps I (\<lambda>s'. m s s')) \<Longrightarrow> keeps I (\<lambda>s. m s s)"
  unfolding yields_def always_def by (auto split: prod.splits)

lemma keeps_fold:
  "(\<And>q. q \<in> set qs \<Longrightarrow> keeps I (serve q)) \<Longrightarrow> I (tables s) \<Longrightarrow> I (tables (fold (\<lambda>q s. snd (serve q s)) qs s))"
proof (induction qs arbitrary: s)
  case (Cons q qs)
  have "I (tables (snd (serve q s)))"
    using yieldsD [OF Cons.prems(1) [of q] Cons.prems(2), of "fst (serve q s)" "snd (serve q s)"] by simp
  with Cons show ?case by simp
qed simp

end
