(* ===== verification/Mall_Model.thy ===== *)
theory Mall_Model
  imports Sql_Tx
begin

text \<open>
  Data of the points mall (internal/rpc/mall/domain/model.go, http.go, mutations.go): the rows of
  the three databases, the payload every Saga branch receives, the error values, and the parts
  every branch shares: the payload check and the retry loop around local transactions.
  Primary keys are the keys of the table maps; keys are compared as Go compares strings.
\<close>

subsection \<open>Status values and rows\<close>

abbreviation OrderPending :: string where "OrderPending \<equiv> ''pending''"
abbreviation OrderConfirmed :: string where "OrderConfirmed \<equiv> ''confirmed''"
abbreviation OrderCompensated :: string where "OrderCompensated \<equiv> ''compensated''"
abbreviation ReservationReserved :: string where "ReservationReserved \<equiv> ''reserved''"
abbreviation ReservationConfirmed :: string where "ReservationConfirmed \<equiv> ''confirmed''"
abbreviation ReservationReleased :: string where "ReservationReleased \<equiv> ''released''"

record product =
  prod_ID :: int
  prod_Name :: string
  prod_Description :: string
  prod_PointsPrice :: int
  prod_Active :: bool

record order =
  ord_ID :: string
  ord_UserID :: int
  ord_RequestID :: string
  ord_ProductID :: int
  ord_Quantity :: int
  ord_TotalPoints :: int
  ord_Status :: string
  ord_SagaGID :: string
  ord_CreatedAt :: int
  ord_UpdatedAt :: int

record inventory =
  inv_ProductID :: int
  inv_Available :: int
  inv_Reserved :: int
  inv_Sold :: int
  inv_Version :: int
  inv_UpdatedAt :: int

record reservation =
  res_OrderID :: string
  res_ProductID :: int
  res_Quantity :: int
  res_Status :: string
  res_CreatedAt :: int
  res_UpdatedAt :: int

record points_account =
  acc_UserID :: int
  acc_Balance :: int
  acc_Version :: int
  acc_UpdatedAt :: int

record points_ledger =
  led_OrderID :: string
  led_Operation :: string
  led_UserID :: int
  led_Delta :: int
  led_CreatedAt :: int

record saga_payload =
  OrderID :: string
  UserID :: int
  RequestID :: string
  ProductID :: int
  Quantity :: int
  PointsPrice :: int
  TotalPoints :: int
  SagaGID :: string
  FailAt :: string

subsection \<open>Errors\<close>

abbreviation ErrInsufficientStock :: goerr where
  "ErrInsufficientStock \<equiv> Sentinel ''insufficient stock''"
abbreviation ErrInsufficientPoints :: goerr where
  "ErrInsufficientPoints \<equiv> Sentinel ''insufficient points''"
abbreviation ErrIdempotencyConflict :: goerr where
  "ErrIdempotencyConflict \<equiv> Sentinel ''idempotency key reused with different payload''"
abbreviation ErrInjectedFailure :: goerr where
  "ErrInjectedFailure \<equiv> Sentinel ''injected branch failure''"

text \<open>MySQL refuses an arithmetic result that leaves the range of a BIGINT column.\<close>

definition ErrOutOfRange :: goerr where
  "ErrOutOfRange = MySQLError 1690 ''BIGINT value is out of range''"

definition isMySQLDeadlock :: "goerr \<Rightarrow> bool" where
  "isMySQLDeadlock e \<longleftrightarrow> as_mysql e = Some 1213"

subsection \<open>Payload check\<close>

definition validatePayload :: "saga_payload \<Rightarrow> goerr option" where
  "validatePayload p =
     (if TrimSpace (OrderID p) = '''' \<or> UserID p \<le> 0 \<or> ProductID p \<le> 0 \<or> Quantity p \<le> 0 \<or>
         TotalPoints p \<le> 0 \<or> TrimSpace (RequestID p) = ''''
      then Some (ErrNew ''invalid saga payload'') else None)"

subsection \<open>Local mutations: one transaction, retried on deadlocks only\<close>

text \<open>
  branchMaxAttempts reads an environment variable; getenv is the process environment.
\<close>

definition branchMaxAttempts :: "(string \<Rightarrow> string) \<Rightarrow> nat" where
  "branchMaxAttempts getenv =
     (case atoi (getenv ''LIVECLASS_MALL_BRANCH_MAX_ATTEMPTS'') of
        Some value \<Rightarrow> if 1 \<le> value \<and> value \<le> 10 then nat value else 3
      | None \<Rightarrow> 3)"

text \<open>
  One attempt of the loop body: begin, the operation, and commit or rollback. The second component
  tells whether the transaction was begun at all: a failing BeginTx returns at once.
\<close>

definition run_attempt :: "('t, unit) tx \<Rightarrow> 't tx_state \<Rightarrow> (bool \<times> (goerr + unit)) \<times> 't tx_state" where
  "run_attempt operation s =
     (case begin_tx s of
        (Inl e, s1) \<Rightarrow> ((False, Inl e), s1)
      | (Inr _, s1) \<Rightarrow>
          (case operation s1 of
             (Inr _, s2) \<Rightarrow> (case commit_tx (tables s1) s2 of (r, s3) \<Rightarrow> ((True, r), s3))
           | (Inl e, s2) \<Rightarrow> ((True, Inl e), rollback_tx (tables s1) s2)))"

text \<open>The loop, with the attempts that remain and the last deadlock seen.\<close>

fun run_attempts :: "('t, unit) tx \<Rightarrow> nat \<Rightarrow> goerr option \<Rightarrow> ('t, unit) tx" where
  "run_attempts operation 0 lastErr s =
     (Inl (case lastErr of
             Some e \<Rightarrow> Wrapf ''mutation retry attempts exhausted: '' e ''''
           | None \<Rightarrow> ErrNew ''mutation retry attempts exhausted: %!w(<nil>)''), s)"
| "run_attempts operation (Suc n) lastErr s =
     (case run_attempt operation s of
        ((begun, Inr u), s') \<Rightarrow> (Inr u, s')
      | ((begun, Inl e), s') \<Rightarrow>
          if begun \<and> isMySQLDeadlock e then run_attempts operation n (Some e) s' else (Inl e, s'))"

definition RunLocalMutation :: "(string \<Rightarrow> string) \<Rightarrow> ('t, unit) tx \<Rightarrow> ('t, unit) tx" where
  "RunLocalMutation getenv operation = run_attempts operation (branchMaxAttempts getenv) None"

subsection \<open>Facts about the retry loop\<close>

text \<open>A transaction body whose successful runs keep an invariant of the tables.\<close>

abbreviation keeps :: "('t, unit) tx \<Rightarrow> ('t \<Rightarrow> bool) \<Rightarrow> bool" where
  "keeps operation I \<equiv> \<forall>t. I t \<longrightarrow> always operation t (\<lambda>r t'. (\<exists>e. r = Inl e) \<or> I t')"

lemma branchMaxAttempts_range: "1 \<le> branchMaxAttempts getenv \<and> branchMaxAttempts getenv \<le> 10"
  by (auto simp: branchMaxAttempts_def split: option.splits)

text \<open>
  The tables after one attempt are those before it or those a successful run of the operation
  leaves; the attempt succeeds only in the second case.
\<close>

lemma run_attempt_tables:
  assumes "always operation (tables s) (\<lambda>r t'. (\<exists>e. r = Inl e) \<or> Q t')"
    and "run_attempt operation s = ((b, r), s')"
  shows "(tables s' = tables s \<and> (\<exists>e. r = Inl e)) \<or> Q (tables s')"
proof (cases "begin_tx s")
  case (Pair r1 s1)
  then have t1: "tables s1 = tables s"
    by (auto simp: begin_tx_def stmt_def split: db_event.splits)
  show ?thesis
  proof (cases r1)
    case (Inl e)
    with Pair t1 assms(2) show ?thesis by (auto simp: run_attempt_def)
  next
    case (Inr u)
    obtain r2 s2 where o: "operation s1 = (r2, s2)" by (cases "operation s1")
    then have "(\<exists>e. r2 = Inl e) \<or> Q (tables s2)"
      using alwaysD [OF assms(1) [folded t1] o] by simp
    then show ?thesis
      using assms(2) Pair Inr o t1
      by (auto simp: run_attempt_def rollback_tx_def commit_tx_def
          split: sum.splits prod.splits db_event.splits)
  qed
qed

lemma run_attempts_tables:
  assumes op: "\<And>t. I t \<Longrightarrow> always operation t (\<lambda>r t'. (\<exists>e. r = Inl e) \<or> I t')"
    and "I (tables s)" and "run_attempts operation n le s = (r, s')"
  shows "I (tables s')"
  using assms(2,3)
proof (induction n arbitrary: le s)
  case 0
  then show ?case by simp
next
  case (Suc n)
  obtain b r1 s1 where a: "run_attempt operation s = ((b, r1), s1)" by (metis surj_pair)
  then have "I (tables s1)"
    using run_attempt_tables [OF op [OF Suc.prems(1)] a] Suc.prems(1) by auto
  with a Suc show ?case by (auto split: sum.splits if_splits)
qed

lemma RunLocalMutation_invariant:
  assumes "\<And>t. I t \<Longrightarrow> always operation t (\<lambda>r t'. (\<exists>e. r = Inl e) \<or> I t')"
    and "I (tables s)" and "RunLocalMutation getenv operation s = (r, s')"
  shows "I (tables s')"
  using run_attempts_tables [of I, OF assms(1,2)] assms(3) by (simp add: RunLocalMutation_def)

lemma keeps_quiet:
  assumes "keeps m I" and "I t" and "m (quiet now t) = (Inr u, quiet now t')"
  shows "I t'"
proof -
  have "always m (tables (quiet now t)) (\<lambda>r t'. (\<exists>e. r = Inl e) \<or> I t')" using assms(1,2) by simp
  from alwaysD [OF this assms(3)] show ?thesis by simp
qed

text \<open>Without faults the first attempt decides.\<close>

lemma RunLocalMutation_quiet_ok:
  assumes "operation (quiet now t) = (Inr (), quiet now t')"
  shows "RunLocalMutation getenv operation (quiet now t) = (Inr (), quiet now t')"
proof -
  obtain n where "branchMaxAttempts getenv = Suc n"
    using branchMaxAttempts_range [of getenv] by (cases "branchMaxAttempts getenv") auto
  with assms show ?thesis by (simp add: RunLocalMutation_def run_attempt_def)
qed

lemma RunLocalMutation_quiet_fail:
  assumes "operation (quiet now t) = (Inl e, quiet now t')" and "\<not> isMySQLDeadlock e"
  shows "RunLocalMutation getenv operation (quiet now t) = (Inl e, quiet now t)"
proof -
  obtain n where "branchMaxAttempts getenv = Suc n"
    using branchMaxAttempts_range [of getenv] by (cases "branchMaxAttempts getenv") auto
  with assms show ?thesis by (simp add: RunLocalMutation_def run_attempt_def)
qed

subsection \<open>Refinement of a contract\<close>

text \<open>
  A transaction body, run without faults, implements a result of an abstract contract on a view
  of the tables: the same error, or success with the view the contract says and the rest framed.
\<close>

definition implements ::
    "('t \<Rightarrow> ('t, unit) tx \<Rightarrow> int \<Rightarrow> goerr + 'v \<Rightarrow> ('t \<Rightarrow> 'v) \<Rightarrow> ('t \<Rightarrow> 't \<Rightarrow> bool) \<Rightarrow> bool)" where
  "implements t m now spec view frame \<longleftrightarrow>
     (case spec of
        Inl e \<Rightarrow> (\<exists>t'. m (quiet now t) = (Inl e, quiet now t'))
      | Inr v \<Rightarrow> (\<exists>t'. m (quiet now t) = (Inr (), quiet now t') \<and> view t' = v \<and> frame t t'))"

text \<open>
  A local transaction of its own, without faults: the error, or the tables the body leaves. Several
  of them in a row, whatever they return, and whether all succeeded.
\<close>

definition local_run :: "('t, unit) tx \<Rightarrow> int \<Rightarrow> 't \<Rightarrow> goerr option \<times> 't" where
  "local_run m now t =
     (case m (quiet now t) of (Inr _, s') \<Rightarrow> (None, tables s') | (Inl e, _) \<Rightarrow> (Some e, t))"

lemma run_attempt_quiet:
  assumes "\<exists>r t'. m (quiet now t) = (r, quiet now t')"
  shows "run_attempt m (quiet now t) =
    (case local_run m now t of (None, t') \<Rightarrow> ((True, Inr ()), quiet now t') | (Some e, t') \<Rightarrow> ((True, Inl e), quiet now t'))"
  using assms by (auto simp: run_attempt_def local_run_def split: sum.splits)

fun party_run :: "('op \<Rightarrow> ('t, unit) tx) \<Rightarrow> int \<Rightarrow> 'op list \<Rightarrow> 't \<Rightarrow> bool \<times> 't" where
  "party_run ap now [] t = (True, t)"
| "party_run ap now (x # xs) t =
     (case local_run (ap x) now t of (e, t1) \<Rightarrow>
        (case party_run ap now xs t1 of (b, t2) \<Rightarrow> (e = None \<and> b, t2)))"

fun spec_run :: "('op \<Rightarrow> 'v \<Rightarrow> goerr + 'v) \<Rightarrow> 'op list \<Rightarrow> 'v \<Rightarrow> bool \<times> 'v" where
  "spec_run sp [] v = (True, v)"
| "spec_run sp (x # xs) v =
     (case sp x v of
        Inl e \<Rightarrow> (False, snd (spec_run sp xs v))
      | Inr v' \<Rightarrow> spec_run sp xs v')"

text \<open>
  The interface of a Saga participant: its operations implement a contract on a view, as long as
  the tables are good for the number of operations still to come.
\<close>

locale participant =
  fixes ap :: "'op \<Rightarrow> ('t, unit) tx" and sp :: "'op \<Rightarrow> 'v \<Rightarrow> goerr + 'v" and view :: "'t \<Rightarrow> 'v"
    and frame :: "'t \<Rightarrow> 't \<Rightarrow> bool" and good :: "nat \<Rightarrow> 't \<Rightarrow> bool"
  assumes step: "good (Suc n) t \<Longrightarrow>
      implements t (ap x) now (sp x (view t)) view (\<lambda>t t'. frame t t' \<and> good n t')"
    and weaken: "good (Suc n) t \<Longrightarrow> good n t"
    and frame_refl: "frame t t"
    and frame_trans: "frame t1 t2 \<Longrightarrow> frame t2 t3 \<Longrightarrow> frame t1 t3"
begin

lemma local_run_refines:
  assumes "good (Suc n) t" and "local_run (ap x) now t = (e, t')"
  shows "(case sp x (view t) of Inl err \<Rightarrow> e = Some err \<and> t' = t | Inr v \<Rightarrow> e = None \<and> view t' = v) \<and>
    frame t t' \<and> good n t'"
proof (cases "sp x (view t)")
  case (Inl err)
  with step [OF assms(1), of x now] assms weaken show ?thesis
    by (auto simp: implements_def local_run_def frame_refl)
next
  case (Inr v)
  with step [OF assms(1), of x now] assms show ?thesis
    by (auto simp: implements_def local_run_def)
qed

lemma party_run_refines:
  assumes "good (length xs + n) t" and "party_run ap now xs t = (b, t')"
  shows "spec_run sp xs (view t) = (b, view t') \<and> frame t t' \<and> good n t'"
  using assms
proof (induction xs arbitrary: t b t')
  case Nil
  then show ?case by (simp add: frame_refl)
next
  case (Cons x xs)
  obtain e t1 where l: "local_run (ap x) now t = (e, t1)" by (cases "local_run (ap x) now t")
  obtain b1 t2 where p: "party_run ap now xs t1 = (b1, t2)" by (cases "party_run ap now xs t1")
  have g: "good (Suc (length xs + n)) t" using Cons.prems(1) by simp
  note r = local_run_refines [OF g l]
  have "good (length xs + n) t1" using r by simp
  from Cons.IH [OF this p] r Cons.prems(2) l p show ?case
    by (auto split: sum.splits intro: frame_trans)
qed

end

subsection \<open>A payload for instances\<close>

definition sample_payload :: saga_payload where
  "sample_payload = \<lparr>OrderID = ''o1'', UserID = 7, RequestID = ''r1'', ProductID = 1, Quantity = 2, PointsPrice = 10,
     TotalPoints = 20, SagaGID = ''mall-o1'', FailAt = ''''\<rparr>"

end
