(* ===== verification/Mall_Inventory.thy ===== *)
theory Mall_Inventory
  imports Mall_Model
begin

text \<open>
  The inventory database and its mutations (internal/rpc/mall/domain/mutations.go): reserve,
  release, confirm and unconfirm, each a sequence of SQL statements inside one transaction. The
  invariant inv_ok ties the counters of every product to the reservations it has: reserved is
  the sum of the reserved rows, sold is what was sold before plus the sum of the confirmed rows.
\<close>

record inv_tables =
  inventories :: "int \<Rightarrow> inventory option"
  reservations :: "string \<Rightarrow> reservation option"

subsection \<open>The SQL statements\<close>

text \<open>INSERT IGNORE INTO mall_inventory_reservations; the result is RowsAffected.\<close>

definition insertReservation :: "string \<Rightarrow> int \<Rightarrow> int \<Rightarrow> string \<Rightarrow> (inv_tables, nat) sql" where
  "insertReservation orderID productID quantity status now t =
     (case reservations t orderID of
        Some _ \<Rightarrow> (Inr 0, t)
      | None \<Rightarrow>
          (Inr 1, t\<lparr>reservations := (reservations t)(orderID \<mapsto>
             \<lparr>res_OrderID = orderID, res_ProductID = productID, res_Quantity = quantity,
              res_Status = status, res_CreatedAt = now, res_UpdatedAt = now\<rparr>)\<rparr>))"

text \<open>SELECT product_id, quantity, status ... WHERE order_id = ? FOR UPDATE.\<close>

definition selectReservation :: "string \<Rightarrow> (inv_tables, int \<times> int \<times> string) sql" where
  "selectReservation orderID now t =
     (case reservations t orderID of
        None \<Rightarrow> (Inl ErrNoRows, t)
      | Some r \<Rightarrow> (Inr (res_ProductID r, res_Quantity r, res_Status r), t))"

text \<open>
  UPDATE mall_inventories SET available = available + da, reserved = reserved + dr,
  sold = sold + ds, version = version + 1 WHERE product_id = ? AND guard: the four updates of
  the sources differ in the deltas and the guard.
\<close>

definition updateInventory ::
    "(inventory \<Rightarrow> bool) \<Rightarrow> int \<Rightarrow> int \<Rightarrow> int \<Rightarrow> int \<Rightarrow> (inv_tables, nat) sql" where
  "updateInventory guard da dr ds productID now t =
     (case inventories t productID of
        None \<Rightarrow> (Inr 0, t)
      | Some i \<Rightarrow>
          if guard i then
            (let i' = i\<lparr>inv_Available := inv_Available i + da, inv_Reserved := inv_Reserved i + dr,
                        inv_Sold := inv_Sold i + ds, inv_Version := inv_Version i + 1,
                        inv_UpdatedAt := now\<rparr>
             in if in_int64 (inv_Available i') \<and> in_int64 (inv_Reserved i') \<and>
                   in_int64 (inv_Sold i') \<and> in_int64 (inv_Version i')
                then (Inr 1, t\<lparr>inventories := (inventories t)(productID \<mapsto> i')\<rparr>)
                else (Inl ErrOutOfRange, t))
          else (Inr 0, t))"

text \<open>UPDATE mall_inventory_reservations SET status = ? WHERE order_id = ? AND status = ?.\<close>

definition updateReservation :: "string \<Rightarrow> string \<Rightarrow> string \<Rightarrow> (inv_tables, nat) sql" where
  "updateReservation new orderID old now t =
     (case reservations t orderID of
        None \<Rightarrow> (Inr 0, t)
      | Some r \<Rightarrow>
          if res_Status r = old then
            (Inr 1, t\<lparr>reservations := (reservations t)(orderID \<mapsto>
               r\<lparr>res_Status := new, res_UpdatedAt := now\<rparr>)\<rparr>)
          else (Inr 0, t))"

declare insertReservation_def [sql_defs] selectReservation_def [sql_defs]
  updateInventory_def [sql_defs] updateReservation_def [sql_defs]

subsection \<open>The mutations\<close>

datatype InventoryOperation =
  InventoryReserve | InventoryRelease | InventoryConfirm | InventoryUnconfirm
  | OtherInventoryOperation string

definition reserveInventoryTx :: "saga_payload \<Rightarrow> (inv_tables, unit) tx" where
  "reserveInventoryTx p =
     (if OrderID p = '''' \<or> ProductID p \<le> 0 \<or> Quantity p \<le> 0
      then tx_fail (ErrNew ''invalid inventory mutation'')
      else tx_bind (stmt (insertReservation (OrderID p) (ProductID p) (Quantity p) ReservationReserved))
        (\<lambda>affected. if affected = 0 then
            tx_bind (stmt (selectReservation (OrderID p))) (\<lambda>(productID, quantity, status).
              if productID \<noteq> ProductID p \<or> quantity \<noteq> Quantity p then tx_fail ErrIdempotencyConflict
              else if status = ReservationReserved \<or> status = ReservationConfirmed then tx_return ()
              else tx_fail (ErrNew (''reservation already '' @ status)))
          else
            tx_bind (stmt (updateInventory (\<lambda>i. inv_Available i \<ge> Quantity p)
                (- Quantity p) (Quantity p) 0 (ProductID p)))
              (\<lambda>affected. if affected \<noteq> 1 then tx_fail ErrInsufficientStock else tx_return ())))"

definition lockReservation :: "string \<Rightarrow> (inv_tables, int \<times> int \<times> string) tx" where
  "lockReservation orderID = stmt (selectReservation orderID)"

definition releaseInventoryTx :: "saga_payload \<Rightarrow> (inv_tables, unit) tx" where
  "releaseInventoryTx p =
     tx_then (lockReservation (OrderID p)) (\<lambda>r. case r of
       Inl err \<Rightarrow> if err_is err ErrNoRows then tx_return () else tx_fail err
     | Inr (productID, quantity, status) \<Rightarrow>
         if productID \<noteq> ProductID p \<or> quantity \<noteq> Quantity p then tx_fail ErrIdempotencyConflict
         else if status = ReservationReleased then tx_return ()
         else if status \<noteq> ReservationReserved
         then tx_fail (ErrNew (''cannot release reservation in status '' @ status))
         else tx_bind (stmt (updateInventory (\<lambda>i. inv_Reserved i \<ge> quantity) quantity (- quantity) 0 productID))
           (\<lambda>affected. if affected \<noteq> 1
             then tx_fail (ErrNew ''inventory invariant violation while releasing'')
             else tx_bind (stmt (updateReservation ReservationReleased (OrderID p) ReservationReserved))
               (\<lambda>_. tx_return ())))"

definition confirmInventoryTx :: "saga_payload \<Rightarrow> (inv_tables, unit) tx" where
  "confirmInventoryTx p =
     tx_bind (lockReservation (OrderID p)) (\<lambda>(productID, quantity, status).
       if productID \<noteq> ProductID p \<or> quantity \<noteq> Quantity p then tx_fail ErrIdempotencyConflict
       else if status = ReservationConfirmed then tx_return ()
       else if status \<noteq> ReservationReserved
       then tx_fail (ErrNew (''cannot confirm reservation in status '' @ status))
       else tx_bind (stmt (updateInventory (\<lambda>i. inv_Reserved i \<ge> quantity) 0 (- quantity) quantity productID))
         (\<lambda>affected. if affected \<noteq> 1
           then tx_fail (ErrNew ''inventory invariant violation while confirming'')
           else tx_bind (stmt (updateReservation ReservationConfirmed (OrderID p) ReservationReserved))
             (\<lambda>_. tx_return ())))"

definition unconfirmInventoryTx :: "saga_payload \<Rightarrow> (inv_tables, unit) tx" where
  "unconfirmInventoryTx p =
     tx_then (lockReservation (OrderID p)) (\<lambda>r. case r of
       Inl err \<Rightarrow> if err_is err ErrNoRows then tx_return () else tx_fail err
     | Inr (productID, quantity, status) \<Rightarrow>
         if productID \<noteq> ProductID p \<or> quantity \<noteq> Quantity p then tx_fail ErrIdempotencyConflict
         else if status = ReservationReserved \<or> status = ReservationReleased then tx_return ()
         else if status \<noteq> ReservationConfirmed
         then tx_fail (ErrNew (''cannot unconfirm reservation in status '' @ status))
         else tx_bind (stmt (updateInventory (\<lambda>i. inv_Sold i \<ge> quantity) 0 quantity (- quantity) productID))
           (\<lambda>affected. if affected \<noteq> 1
             then tx_fail (ErrNew ''inventory invariant violation while unconfirming'')
             else tx_bind (stmt (updateReservation ReservationReserved (OrderID p) ReservationConfirmed))
               (\<lambda>_. tx_return ())))"

fun ApplyInventoryMutation :: "saga_payload \<Rightarrow> InventoryOperation \<Rightarrow> (inv_tables, unit) tx" where
  "ApplyInventoryMutation p InventoryReserve = reserveInventoryTx p"
| "ApplyInventoryMutation p InventoryRelease = releaseInventoryTx p"
| "ApplyInventoryMutation p InventoryConfirm = confirmInventoryTx p"
| "ApplyInventoryMutation p InventoryUnconfirm = unconfirmInventoryTx p"
| "ApplyInventoryMutation p (OtherInventoryOperation s) =
     tx_fail (ErrNew (''unknown inventory operation '' @ s))"

subsection \<open>The ledger invariant\<close>

definition res_sum :: "string \<Rightarrow> int \<Rightarrow> inv_tables \<Rightarrow> int" where
  "res_sum status pid t =
     sum_rows (\<lambda>r. res_Status r = status \<and> res_ProductID r = pid) res_Quantity (reservations t)"

text \<open>
  base pid is what had been sold of a product before the reservations the table holds, stock pid
  what there was of it.
\<close>

definition inv_row_ok :: "int \<Rightarrow> int \<Rightarrow> inv_tables \<Rightarrow> int \<Rightarrow> inventory \<Rightarrow> bool" where
  "inv_row_ok base stock t pid i \<longleftrightarrow>
     0 \<le> inv_Available i \<and>
     inv_Reserved i = res_sum ReservationReserved pid t \<and>
     inv_Sold i = base + res_sum ReservationConfirmed pid t \<and>
     inv_Available i + inv_Reserved i + inv_Sold i = stock"

definition inv_ok :: "(int \<Rightarrow> int) \<Rightarrow> (int \<Rightarrow> int) \<Rightarrow> inv_tables \<Rightarrow> bool" where
  "inv_ok base stock t \<longleftrightarrow>
     finite (dom (reservations t)) \<and>
     (\<forall>pid. 0 \<le> base pid) \<and>
     (\<forall>oid r. reservations t oid = Some r \<longrightarrow>
        0 < res_Quantity r \<and> inventories t (res_ProductID r) \<noteq> None \<and>
        res_Status r \<in> {ReservationReserved, ReservationConfirmed, ReservationReleased}) \<and>
     (\<forall>pid i. inventories t pid = Some i \<longrightarrow> inv_row_ok (base pid) (stock pid) t pid i)"

definition contrib :: "string \<Rightarrow> int \<Rightarrow> reservation option \<Rightarrow> int" where
  "contrib status pid ro =
     (case ro of None \<Rightarrow> 0
      | Some r \<Rightarrow> if res_Status r = status \<and> res_ProductID r = pid then res_Quantity r else 0)"

lemma res_sum_upd:
  "finite (dom (reservations t)) \<Longrightarrow> reservations t' = (reservations t)(oid \<mapsto> r) \<Longrightarrow>
   res_sum status pid t' =
     res_sum status pid t - contrib status pid (reservations t oid) + contrib status pid (Some r)"
  by (simp add: res_sum_def sum_rows_upd contrib_def split: option.splits)

lemma inv_ok_row:
  "inv_ok base stock t \<Longrightarrow> inventories t pid = Some i \<Longrightarrow>
     0 \<le> inv_Available i \<and> 0 \<le> base pid \<and>
     inv_Reserved i = res_sum ReservationReserved pid t \<and>
     inv_Sold i = base pid + res_sum ReservationConfirmed pid t \<and>
     inv_Available i + inv_Reserved i + inv_Sold i = stock pid"
  unfolding inv_ok_def inv_row_ok_def by blast

lemma inv_ok_res:
  "inv_ok base stock t \<Longrightarrow> reservations t oid = Some r \<Longrightarrow>
     0 < res_Quantity r \<and> (\<exists>i. inventories t (res_ProductID r) = Some i) \<and>
     res_Status r \<in> {ReservationReserved, ReservationConfirmed, ReservationReleased}"
  by (simp add: inv_ok_def)

text \<open>
  One reservation is written together with the inventory row of its product, and the counters
  move by what the reservation contributed before and contributes now.
\<close>

lemma inv_ok_step:
  assumes ok: "inv_ok base stock t" and i: "inventories t pid = Some i"
    and old: "\<And>r0. reservations t oid = Some r0 \<Longrightarrow> res_ProductID r0 = pid"
    and r: "res_ProductID r = pid" "0 < res_Quantity r"
      "res_Status r \<in> {ReservationReserved, ReservationConfirmed, ReservationReleased}"
    and avail: "0 \<le> inv_Available i'"
    and reserved: "inv_Reserved i' = inv_Reserved i
      - contrib ReservationReserved pid (reservations t oid) + contrib ReservationReserved pid (Some r)"
    and sold: "inv_Sold i' = inv_Sold i
      - contrib ReservationConfirmed pid (reservations t oid) + contrib ReservationConfirmed pid (Some r)"
    and total: "inv_Available i' + inv_Reserved i' + inv_Sold i' =
      inv_Available i + inv_Reserved i + inv_Sold i"
    and t': "inventories t' = (inventories t)(pid \<mapsto> i')"
      "reservations t' = (reservations t)(oid \<mapsto> r)"
  shows "inv_ok base stock t'"
proof -
  have fin: "finite (dom (reservations t))" using ok by (simp add: inv_ok_def)
  have row: "inv_row_ok (base pid) (stock pid) t' pid i'"
    using inv_ok_row [OF ok i] avail reserved sold total
    unfolding inv_row_ok_def res_sum_upd [OF fin t'(2)] by linarith
  have other: "inv_row_ok (base q) (stock q) t' q j"
    if "inventories t q = Some j" "q \<noteq> pid" for q j
  proof -
    have "contrib st q (reservations t oid) = 0 \<and> contrib st q (Some r) = 0" for st
      using that old r(1) by (auto simp: contrib_def split: option.splits)
    then show ?thesis
      using inv_ok_row [OF ok that(1)] unfolding inv_row_ok_def res_sum_upd [OF fin t'(2)] by simp
  qed
  show ?thesis
    unfolding inv_ok_def
    using ok row other r i t' by (auto simp: inv_ok_def)
qed

text \<open>The reserved and sold counters cover every reservation in the respective status.\<close>

lemma res_sum_ge:
  "inv_ok base stock t \<Longrightarrow> reservations t oid = Some r \<Longrightarrow>
   res_Quantity r \<le> res_sum (res_Status r) (res_ProductID r) t"
  unfolding res_sum_def
  by (rule sum_rows_ge) (auto simp: inv_ok_def less_imp_le)

lemma reserved_covers:
  assumes "inv_ok base stock t" and "reservations t oid = Some r"
    and "res_Status r = ReservationReserved" and "inventories t (res_ProductID r) = Some i"
  shows "res_Quantity r \<le> inv_Reserved i"
  using res_sum_ge [OF assms(1,2)] inv_ok_row [OF assms(1,4)] assms(3) by simp

lemma sold_covers:
  assumes "inv_ok base stock t" and "reservations t oid = Some r"
    and "res_Status r = ReservationConfirmed" and "inventories t (res_ProductID r) = Some i"
  shows "res_Quantity r \<le> inv_Sold i"
proof -
  have "res_Quantity r \<le> res_sum ReservationConfirmed (res_ProductID r) t"
    using res_sum_ge [OF assms(1,2)] assms(3) by simp
  with inv_ok_row [OF assms(1,4)] show ?thesis by linarith
qed

subsection \<open>Every mutation keeps the invariant\<close>

lemma reserve_keeps: "keeps (reserveInventoryTx p) (inv_ok base stock)"
proof (intro allI impI)
  fix t assume ok: "inv_ok base stock t"
  have step: "inv_ok base stock t'"
    if "inventories t (ProductID p) = Some i" "reservations t (OrderID p) = None"
      "0 < Quantity p" "Quantity p \<le> inv_Available i"
      "reservations t' = (reservations t)(OrderID p \<mapsto> r)"
      "inventories t' = (inventories t)(ProductID p \<mapsto> i')"
      "res_ProductID r = ProductID p" "res_Quantity r = Quantity p" "res_Status r = ReservationReserved"
      "inv_Available i' = inv_Available i - Quantity p" "inv_Reserved i' = inv_Reserved i + Quantity p"
      "inv_Sold i' = inv_Sold i"
    for t' r i i'
    by (rule inv_ok_step [OF ok that(1)]) (use that in \<open>auto simp: contrib_def\<close>)
  show "always (reserveInventoryTx p) t (\<lambda>r t'. (\<exists>e. r = Inl e) \<or> inv_ok base stock t')"
    using ok unfolding reserveInventoryTx_def
    by (auto simp: always_simps sql_defs Let_def split: option.splits intro!: step)
qed

text \<open>
  The other three mutations read the reservation of the order and write it back with another
  status; the counters of its product move with it.
\<close>

lemma move_keeps:
  assumes ok: "inv_ok base stock t"
    and t': "inventories t' = (inventories t)(pid \<mapsto> i')"
      "reservations t' = (reservations t)(oid \<mapsto> r\<lparr>res_Status := st, res_UpdatedAt := now\<rparr>)"
    and r: "reservations t oid = Some r" and pid: "res_ProductID r = pid"
    and i: "inventories t pid = Some i"
    and st: "st \<in> {ReservationReserved, ReservationConfirmed, ReservationReleased}"
    and nn: "0 \<le> inv_Available i'"
    and dr: "inv_Reserved i' = inv_Reserved i + (if st = ReservationReserved then res_Quantity r else 0)
                 - (if res_Status r = ReservationReserved then res_Quantity r else 0)"
    and ds: "inv_Sold i' = inv_Sold i + (if st = ReservationConfirmed then res_Quantity r else 0)
                 - (if res_Status r = ReservationConfirmed then res_Quantity r else 0)"
    and tot: "inv_Available i' + inv_Reserved i' + inv_Sold i' =
                inv_Available i + inv_Reserved i + inv_Sold i"
  shows "inv_ok base stock t'"
  by (rule inv_ok_step [OF ok i _ _ _ _ _ _ _ _ t'])
    (use inv_ok_res [OF ok r] r pid st nn dr ds tot in \<open>auto simp: contrib_def\<close>)

lemma release_keeps: "keeps (releaseInventoryTx p) (inv_ok base stock)"
proof (intro allI impI)
  fix t assume ok: "inv_ok base stock t"
  show "always (releaseInventoryTx p) t (\<lambda>r t'. (\<exists>e. r = Inl e) \<or> inv_ok base stock t')"
    using ok unfolding releaseInventoryTx_def lockReservation_def
    by (auto simp: always_simps sql_defs Let_def split: option.splits
        intro!: move_keeps [OF ok])
      (use inv_ok_row [OF ok] inv_ok_res [OF ok] in fastforce)
qed

lemma confirm_keeps: "keeps (confirmInventoryTx p) (inv_ok base stock)"
proof (intro allI impI)
  fix t assume ok: "inv_ok base stock t"
  show "always (confirmInventoryTx p) t (\<lambda>r t'. (\<exists>e. r = Inl e) \<or> inv_ok base stock t')"
    using ok unfolding confirmInventoryTx_def lockReservation_def
    by (auto simp: always_simps sql_defs Let_def split: option.splits
        intro!: move_keeps [OF ok] dest: inv_ok_row [OF ok] inv_ok_res [OF ok])
qed

lemma unconfirm_keeps: "keeps (unconfirmInventoryTx p) (inv_ok base stock)"
proof (intro allI impI)
  fix t assume ok: "inv_ok base stock t"
  show "always (unconfirmInventoryTx p) t (\<lambda>r t'. (\<exists>e. r = Inl e) \<or> inv_ok base stock t')"
    using ok unfolding unconfirmInventoryTx_def lockReservation_def
    by (auto simp: always_simps sql_defs Let_def split: option.splits
        intro!: move_keeps [OF ok] dest: inv_ok_row [OF ok] inv_ok_res [OF ok])
qed

lemma ApplyInventoryMutation_keeps: "keeps (ApplyInventoryMutation p operation) (inv_ok base stock)"
  by (cases operation)
    (simp_all add: reserve_keeps release_keeps confirm_keeps unconfirm_keeps always_simps)

text \<open>No mutation creates or removes an inventory row.\<close>

lemma mutation_rows: "keeps (ApplyInventoryMutation p operation) (\<lambda>t. dom (inventories t) = D)"
  by (cases operation)
    (auto simp: always_simps sql_defs Let_def reserveInventoryTx_def releaseInventoryTx_def
      confirmInventoryTx_def unconfirmInventoryTx_def lockReservation_def
      split: option.splits)

subsection \<open>Calls of the service\<close>

text \<open>
  Any number of mutations, each in its own local transaction, whatever their results: what the
  service and the Saga branches do to the database over time.
\<close>

fun inventory_calls ::
    "(string \<Rightarrow> string) \<Rightarrow> (saga_payload \<times> InventoryOperation) list \<Rightarrow>
     inv_tables tx_state \<Rightarrow> inv_tables tx_state" where
  "inventory_calls getenv [] s = s"
| "inventory_calls getenv ((p, operation) # cs) s =
     inventory_calls getenv cs (snd (RunLocalMutation getenv (ApplyInventoryMutation p operation) s))"

lemma inventory_calls_invariant:
  assumes "\<And>p operation. keeps (ApplyInventoryMutation p operation) I" and "I (tables s)"
  shows "I (tables (inventory_calls getenv cs s))"
  using assms(2)
proof (induction cs arbitrary: s)
  case (Cons c cs)
  obtain p operation where c: "c = (p, operation)" by (cases c)
  obtain r s' where run: "RunLocalMutation getenv (ApplyInventoryMutation p operation) s = (r, s')"
    by (cases "RunLocalMutation getenv (ApplyInventoryMutation p operation) s")
  have "I (tables s')"
    using RunLocalMutation_invariant [of I, OF _ Cons.prems run] assms(1) by blast
  with Cons.IH c run show ?case by simp
qed simp

lemma fresh_inv_ok:
  assumes "reservations t = Map.empty"
    and "\<And>pid i. inventories t pid = Some i \<Longrightarrow> 0 \<le> inv_Available i \<and> inv_Reserved i = 0 \<and> 0 \<le> inv_Sold i"
  shows "inv_ok (\<lambda>pid. case inventories t pid of None \<Rightarrow> 0 | Some i \<Rightarrow> inv_Sold i)
     (\<lambda>pid. case inventories t pid of None \<Rightarrow> 0 | Some i \<Rightarrow> inv_Available i + inv_Sold i) t"
  using assms by (fastforce simp: inv_ok_def inv_row_ok_def res_sum_def split: option.splits)

text \<open>
  C3 (invariant). Whatever mutations are called on a database without reservations, with whatever
  payloads, in whatever order, and however the driver fails, deadlocks or loses
  acknowledgements: no product is ever oversold. The available stock never becomes negative,
  the reserved and sold counters are exactly the sums over the reserved and the confirmed
  reservations, and available stock plus live reservations is the stock there was.
\<close>

theorem inventory_never_oversold:
  assumes "reservations (tables s) = Map.empty"
    and "\<And>pid i. inventories (tables s) pid = Some i \<Longrightarrow>
           0 \<le> inv_Available i \<and> inv_Reserved i = 0 \<and> 0 \<le> inv_Sold i"
    and "inventories (tables (inventory_calls getenv cs s)) pid = Some i'"
  shows "\<exists>i. inventories (tables s) pid = Some i \<and> 0 \<le> inv_Available i' \<and>
    inv_Reserved i' = res_sum ReservationReserved pid (tables (inventory_calls getenv cs s)) \<and>
    inv_Sold i' = inv_Sold i + res_sum ReservationConfirmed pid (tables (inventory_calls getenv cs s)) \<and>
    inv_Available i' + inv_Reserved i' + inv_Sold i' = inv_Available i + inv_Sold i"
proof -
  let ?t = "tables (inventory_calls getenv cs s)"
  have "dom (inventories ?t) = dom (inventories (tables s))"
    by (rule inventory_calls_invariant [OF mutation_rows]) simp
  then obtain i where i: "inventories (tables s) pid = Some i" using assms(3) by blast
  have "inv_ok (\<lambda>pid. case inventories (tables s) pid of None \<Rightarrow> 0 | Some i \<Rightarrow> inv_Sold i)
     (\<lambda>pid. case inventories (tables s) pid of None \<Rightarrow> 0 | Some i \<Rightarrow> inv_Available i + inv_Sold i) ?t"
    by (rule inventory_calls_invariant [OF ApplyInventoryMutation_keeps])
      (rule fresh_inv_ok [OF assms(1,2)])
  from inv_ok_row [OF this assms(3)] i show ?thesis by auto
qed

subsection \<open>The life of a reservation\<close>

text \<open>The state machine of a reservation row: the abstract contract of the four mutations.\<close>

inductive res_step :: "reservation option \<Rightarrow> reservation option \<Rightarrow> bool" where
  stay: "res_step r r"
| create: "res_Status r = ReservationReserved \<Longrightarrow> res_step None (Some r)"
| release: "res_Status r = ReservationReserved \<Longrightarrow>
    res_step (Some r) (Some (r\<lparr>res_Status := ReservationReleased, res_UpdatedAt := now\<rparr>))"
| confirm: "res_Status r = ReservationReserved \<Longrightarrow>
    res_step (Some r) (Some (r\<lparr>res_Status := ReservationConfirmed, res_UpdatedAt := now\<rparr>))"
| unconfirm: "res_Status r = ReservationConfirmed \<Longrightarrow>
    res_step (Some r) (Some (r\<lparr>res_Status := ReservationReserved, res_UpdatedAt := now\<rparr>))"

inductive_cases res_step_SomeE: "res_step (Some r) ro"

lemma mutation_res_step:
  "always (ApplyInventoryMutation p operation) t
     (\<lambda>r t'. \<forall>oid. res_step (reservations t oid) (reservations t' oid))"
  by (cases operation)
    (auto simp: always_simps sql_defs Let_def reserveInventoryTx_def releaseInventoryTx_def
      confirmInventoryTx_def unconfirmInventoryTx_def lockReservation_def
      split: option.splits intro: res_step.intros)

lemma mutation_keeps_res:
  assumes "\<And>ro. res_step (Some r) ro \<Longrightarrow> \<exists>r'. ro = Some r' \<and> P r r'"
    and trans: "\<And>r1 r2. P r r1 \<Longrightarrow> res_step (Some r1) (Some r2) \<Longrightarrow> P r r2"
    and some: "\<And>r1 ro. res_step (Some r1) ro \<Longrightarrow> ro \<noteq> None"
  shows "keeps (ApplyInventoryMutation p operation) (\<lambda>t. \<exists>r'. reservations t oid = Some r' \<and> P r r')"
proof (intro allI impI)
  fix t :: inv_tables
  assume "\<exists>r'. reservations t oid = Some r' \<and> P r r'"
  then obtain r1 where r1: "reservations t oid = Some r1" "P r r1" by blast
  show "always (ApplyInventoryMutation p operation) t
      (\<lambda>ra t'. (\<exists>e. ra = Inl e) \<or> (\<exists>r'. reservations t' oid = Some r' \<and> P r r'))"
  proof (rule always_mono [OF mutation_res_step])
    fix ra t' assume "\<forall>oid. res_step (reservations t oid) (reservations t' oid)"
    then have st: "res_step (Some r1) (reservations t' oid)" using r1(1) by metis
    then obtain r2 where "reservations t' oid = Some r2" using some by blast
    with st trans r1(2) show "(\<exists>e. ra = Inl e) \<or> (\<exists>r'. reservations t' oid = Some r' \<and> P r r')"
      by auto
  qed
qed

definition same_reservation :: "reservation \<Rightarrow> reservation \<Rightarrow> bool" where
  "same_reservation r r' \<longleftrightarrow>
     res_OrderID r' = res_OrderID r \<and> res_ProductID r' = res_ProductID r \<and>
     res_Quantity r' = res_Quantity r \<and> res_CreatedAt r' = res_CreatedAt r \<and>
     (res_Status r = ReservationReleased \<longrightarrow> r' = r)"

text \<open>
  (safety). A reservation row, once written, is never removed and never changes its product or
  quantity, and a released reservation never changes again: an order whose stock was given back
  cannot take it a second time, whatever is called and however the driver fails.
\<close>

theorem released_reservation_is_final:
  assumes "reservations (tables s) oid = Some r"
  shows "\<exists>r'. reservations (tables (inventory_calls getenv cs s)) oid = Some r' \<and> same_reservation r r'"
proof (rule inventory_calls_invariant [OF mutation_keeps_res])
  show "\<exists>r'. reservations (tables s) oid = Some r' \<and> same_reservation r r'"
    using assms by (simp add: same_reservation_def)
qed (auto simp: same_reservation_def elim: res_step_SomeE)

subsection \<open>Repeating a mutation\<close>

text \<open>
  (functional). Every mutation is idempotent: after a run that reported success, with whatever
  clock, running the same mutation again succeeds and leaves the tables exactly as they are. A
  caller that lost the acknowledgement of a commit may therefore repeat it.
\<close>

theorem inventory_mutation_idempotent:
  assumes "ApplyInventoryMutation p operation s = (Inr (), s')"
  shows "ApplyInventoryMutation p operation (quiet now (tables s')) = (Inr (), quiet now (tables s'))"
proof -
  have "always (ApplyInventoryMutation p operation) (tables s) (\<lambda>r t'. r = Inr () \<longrightarrow>
      ApplyInventoryMutation p operation (quiet now t') = (Inr (), quiet now t'))"
    by (cases operation)
      (auto simp: always_simps sql_defs Let_def reserveInventoryTx_def releaseInventoryTx_def
        confirmInventoryTx_def unconfirmInventoryTx_def lockReservation_def tx_run
        split: option.splits)
  from alwaysD [OF this assms] show ?thesis by simp
qed

subsection \<open>The abstract contract\<close>

text \<open>
  What the mutations promise for one order, on the counters (available, reserved, sold, version) of
  the product and on the reservation (product, quantity, status): no SQL, no guards on the
  counters, no invariant violations.
\<close>

type_synonym inv_view = "(int \<times> int \<times> int \<times> int) option \<times> (int \<times> int \<times> string) option"

definition inv_view :: "saga_payload \<Rightarrow> inv_tables \<Rightarrow> inv_view" where
  "inv_view p t =
     (map_option (\<lambda>i. (inv_Available i, inv_Reserved i, inv_Sold i, inv_Version i)) (inventories t (ProductID p)),
      map_option (\<lambda>r. (res_ProductID r, res_Quantity r, res_Status r)) (reservations t (OrderID p)))"

fun shift_stock :: "int \<Rightarrow> int \<Rightarrow> int \<Rightarrow> (int \<times> int \<times> int \<times> int) option \<Rightarrow> (int \<times> int \<times> int \<times> int) option" where
  "shift_stock da dr ds (Some (a, r, s, v)) = Some (a + da, r + dr, s + ds, v + 1)"
| "shift_stock da dr ds None = None"

definition own_reservation :: "saga_payload \<Rightarrow> int \<times> int \<times> string \<Rightarrow> bool" where
  "own_reservation p r \<longleftrightarrow> fst r = ProductID p \<and> fst (snd r) = Quantity p"

fun inv_spec :: "InventoryOperation \<Rightarrow> saga_payload \<Rightarrow> inv_view \<Rightarrow> goerr + inv_view" where
  "inv_spec InventoryReserve p (stock, res) =
     (if OrderID p = '''' \<or> ProductID p \<le> 0 \<or> Quantity p \<le> 0
      then Inl (ErrNew ''invalid inventory mutation'')
      else case res of
        Some r \<Rightarrow>
          if \<not> own_reservation p r then Inl ErrIdempotencyConflict
          else if snd (snd r) = ReservationReleased then Inl (ErrNew (''reservation already '' @ ReservationReleased))
          else Inr (stock, res)
      | None \<Rightarrow>
          (case stock of
             Some (a, _) \<Rightarrow>
               if Quantity p \<le> a
               then Inr (shift_stock (- Quantity p) (Quantity p) 0 stock,
                         Some (ProductID p, Quantity p, ReservationReserved))
               else Inl ErrInsufficientStock
           | None \<Rightarrow> Inl ErrInsufficientStock))"
| "inv_spec InventoryRelease p (stock, res) =
     (case res of
        None \<Rightarrow> Inr (stock, res)
      | Some (pid, q, st) \<Rightarrow>
          if \<not> own_reservation p (pid, q, st) then Inl ErrIdempotencyConflict
          else if st = ReservationReleased then Inr (stock, res)
          else if st = ReservationConfirmed
          then Inl (ErrNew (''cannot release reservation in status '' @ ReservationConfirmed))
          else Inr (shift_stock q (- q) 0 stock, Some (pid, q, ReservationReleased)))"
| "inv_spec InventoryConfirm p (stock, res) =
     (case res of
        None \<Rightarrow> Inl ErrNoRows
      | Some (pid, q, st) \<Rightarrow>
          if \<not> own_reservation p (pid, q, st) then Inl ErrIdempotencyConflict
          else if st = ReservationConfirmed then Inr (stock, res)
          else if st = ReservationReleased
          then Inl (ErrNew (''cannot confirm reservation in status '' @ ReservationReleased))
          else Inr (shift_stock 0 (- q) q stock, Some (pid, q, ReservationConfirmed)))"
| "inv_spec InventoryUnconfirm p (stock, res) =
     (case res of
        None \<Rightarrow> Inr (stock, res)
      | Some (pid, q, st) \<Rightarrow>
          if \<not> own_reservation p (pid, q, st) then Inl ErrIdempotencyConflict
          else if st = ReservationConfirmed
          then Inr (shift_stock 0 q (- q) stock, Some (pid, q, ReservationReserved))
          else Inr (stock, res))"
| "inv_spec (OtherInventoryOperation s) p v = Inl (ErrNew (''unknown inventory operation '' @ s))"

text \<open>The rows of every other product and order are untouched.\<close>

definition inv_frame :: "saga_payload \<Rightarrow> inv_tables \<Rightarrow> inv_tables \<Rightarrow> bool" where
  "inv_frame p t t' \<longleftrightarrow>
     (\<forall>pid. pid \<noteq> ProductID p \<longrightarrow> inventories t' pid = inventories t pid) \<and>
     (\<forall>oid. oid \<noteq> OrderID p \<longrightarrow> reservations t' oid = reservations t oid)"

definition room :: "(int \<Rightarrow> int) \<Rightarrow> saga_payload \<Rightarrow> inv_tables \<Rightarrow> bool" where
  "room stock p t \<longleftrightarrow> stock (ProductID p) < 2 ^ 63 \<and>
     (\<forall>i. inventories t (ProductID p) = Some i \<longrightarrow> 0 \<le> inv_Version i \<and> inv_Version i < 2 ^ 63 - 1)"

text \<open>Within the invariant no counter can leave the range, so no update fails.\<close>

lemma res_sum_nonneg: "inv_ok base stock t \<Longrightarrow> 0 \<le> res_sum st pid t"
  unfolding res_sum_def by (rule sum_rows_nonneg) (use inv_ok_res in fastforce)

lemma counters_nonneg:
  assumes "inv_ok base stock t" and "inventories t pid = Some i"
  shows "0 \<le> inv_Available i" "0 \<le> inv_Reserved i" "0 \<le> inv_Sold i"
    "inv_Available i + inv_Reserved i + inv_Sold i = stock pid"
  using inv_ok_row [OF assms] res_sum_nonneg [OF assms(1)] by (auto intro: add_nonneg_nonneg)

lemma reserve_implements:
  assumes ok: "inv_ok base stock t" and rm: "room stock p t"
  shows "implements t (reserveInventoryTx p) now (inv_spec InventoryReserve p (inv_view p t)) (inv_view p) (inv_frame p)"
proof (cases "reservations t (OrderID p)")
  case None
  show ?thesis
  proof (cases "inventories t (ProductID p)")
    case None
    with \<open>reservations t (OrderID p) = None\<close> show ?thesis
      by (auto simp: implements_def inv_view_def reserveInventoryTx_def tx_run sql_defs)
  next
    case (Some i)
    have "in_int64 (inv_Available i - Quantity p)" "in_int64 (inv_Reserved i + Quantity p)"
      "in_int64 (inv_Sold i)" "in_int64 (inv_Version i + 1)"
      if "0 < Quantity p" "Quantity p \<le> inv_Available i"
      using that rm Some counters_nonneg [OF ok Some] by (auto simp: room_def in_int64_def)
    with \<open>reservations t (OrderID p) = None\<close> Some show ?thesis
      by (auto simp: implements_def inv_view_def reserveInventoryTx_def tx_run sql_defs Let_def inv_frame_def)
  qed
next
  case (Some r)
  with inv_ok_res [OF ok Some] show ?thesis
    by (auto simp: implements_def inv_view_def reserveInventoryTx_def tx_run sql_defs own_reservation_def inv_frame_def)
qed

text \<open>The other three read the reservation, and move the counters of its product.\<close>

lemma locked_row:
  assumes ok: "inv_ok base stock t" and rm: "room stock p t"
    and r: "reservations t (OrderID p) = Some r" "res_ProductID r = ProductID p"
  shows "\<exists>i. inventories t (ProductID p) = Some i \<and> in_int64 (inv_Version i + 1) \<and>
    in_int64 (inv_Available i) \<and> in_int64 (inv_Reserved i) \<and> in_int64 (inv_Sold i) \<and>
    (res_Status r = ReservationReserved \<longrightarrow> res_Quantity r \<le> inv_Reserved i \<and>
       in_int64 (inv_Available i + res_Quantity r) \<and> in_int64 (inv_Reserved i - res_Quantity r) \<and>
       in_int64 (inv_Sold i + res_Quantity r)) \<and>
    (res_Status r = ReservationConfirmed \<longrightarrow> res_Quantity r \<le> inv_Sold i \<and>
       in_int64 (inv_Reserved i + res_Quantity r) \<and> in_int64 (inv_Sold i - res_Quantity r))"
proof -
  obtain i where i: "inventories t (ProductID p) = Some i" using inv_ok_res [OF ok r(1)] r(2) by auto
  note c = counters_nonneg [OF ok i]
  have q: "0 < res_Quantity r" using inv_ok_res [OF ok r(1)] by simp
  have reserved: "res_Status r = ReservationReserved \<Longrightarrow> res_Quantity r \<le> inv_Reserved i"
    using reserved_covers [OF ok r(1)] i r(2) by simp
  have sold: "res_Status r = ReservationConfirmed \<Longrightarrow> res_Quantity r \<le> inv_Sold i"
    using sold_covers [OF ok r(1)] i r(2) by simp
  show ?thesis
    by (rule exI [of _ i]) (use c q reserved sold rm i in \<open>auto simp: room_def in_int64_def\<close>)
qed

lemma release_implements:
  assumes ok: "inv_ok base stock t" and rm: "room stock p t"
  shows "implements t (releaseInventoryTx p) now (inv_spec InventoryRelease p (inv_view p t)) (inv_view p) (inv_frame p)"
proof (cases "reservations t (OrderID p)")
  case None
  then show ?thesis
    by (auto simp: implements_def inv_view_def releaseInventoryTx_def lockReservation_def tx_run sql_defs inv_frame_def)
next
  case (Some r)
  show ?thesis
  proof (cases "res_ProductID r = ProductID p")
    case False
    with Some show ?thesis
      by (auto simp: implements_def inv_view_def releaseInventoryTx_def lockReservation_def tx_run sql_defs own_reservation_def)
  next
    case True
    from locked_row [OF ok rm Some True] inv_ok_res [OF ok Some] Some True show ?thesis
      by (auto simp: implements_def inv_view_def releaseInventoryTx_def lockReservation_def tx_run sql_defs
          own_reservation_def Let_def inv_frame_def)
  qed
qed

lemma confirm_implements:
  assumes ok: "inv_ok base stock t" and rm: "room stock p t"
  shows "implements t (confirmInventoryTx p) now (inv_spec InventoryConfirm p (inv_view p t)) (inv_view p) (inv_frame p)"
proof (cases "reservations t (OrderID p)")
  case None
  then show ?thesis
    by (auto simp: implements_def inv_view_def confirmInventoryTx_def lockReservation_def tx_run sql_defs inv_frame_def)
next
  case (Some r)
  show ?thesis
  proof (cases "res_ProductID r = ProductID p")
    case False
    with Some show ?thesis
      by (auto simp: implements_def inv_view_def confirmInventoryTx_def lockReservation_def tx_run sql_defs own_reservation_def)
  next
    case True
    from locked_row [OF ok rm Some True] inv_ok_res [OF ok Some] Some True show ?thesis
      by (auto simp: implements_def inv_view_def confirmInventoryTx_def lockReservation_def tx_run sql_defs
          own_reservation_def Let_def inv_frame_def)
  qed
qed

lemma unconfirm_implements:
  assumes ok: "inv_ok base stock t" and rm: "room stock p t"
  shows "implements t (unconfirmInventoryTx p) now (inv_spec InventoryUnconfirm p (inv_view p t)) (inv_view p) (inv_frame p)"
proof (cases "reservations t (OrderID p)")
  case None
  then show ?thesis
    by (auto simp: implements_def inv_view_def unconfirmInventoryTx_def lockReservation_def tx_run sql_defs inv_frame_def)
next
  case (Some r)
  show ?thesis
  proof (cases "res_ProductID r = ProductID p")
    case False
    with Some show ?thesis
      by (auto simp: implements_def inv_view_def unconfirmInventoryTx_def lockReservation_def tx_run sql_defs own_reservation_def)
  next
    case True
    from locked_row [OF ok rm Some True] inv_ok_res [OF ok Some] Some True show ?thesis
      by (auto simp: implements_def inv_view_def unconfirmInventoryTx_def lockReservation_def tx_run sql_defs
          own_reservation_def Let_def inv_frame_def)
  qed
qed

lemma inventory_refines_lemma:
  assumes "inv_ok base stock t" and "room stock p t"
  shows "implements t (ApplyInventoryMutation p operation) now (inv_spec operation p (inv_view p t))
    (inv_view p) (inv_frame p)"
proof (cases operation)
  case (OtherInventoryOperation s)
  then show ?thesis by (cases "inv_view p t") (auto simp: implements_def tx_run)
qed (simp_all add: reserve_implements [OF assms] release_implements [OF assms]
    confirm_implements [OF assms] unconfirm_implements [OF assms])

subsection \<open>The inventory as a Saga participant\<close>

definition inv_good :: "(int \<Rightarrow> int) \<Rightarrow> (int \<Rightarrow> int) \<Rightarrow> saga_payload \<Rightarrow> nat \<Rightarrow> inv_tables \<Rightarrow> bool" where
  "inv_good base stock p n t \<longleftrightarrow> inv_ok base stock t \<and> stock (ProductID p) < 2 ^ 63 \<and>
     (\<forall>i. inventories t (ProductID p) = Some i \<longrightarrow> 0 \<le> inv_Version i \<and> inv_Version i + int n < 2 ^ 63)"

lemma inv_spec_version:
  assumes "inv_spec x p (Some (a, r, s, v), ro) = Inr (Some (a', r', s', v'), ro')"
  shows "v \<le> v' \<and> v' \<le> v + 1"
  using assms by (cases x) (auto split: if_splits option.splits)

lemma inv_spec_none:
  assumes "inv_spec x p (None, ro) = Inr (so', ro')" shows "so' = None"
  using assms by (cases x) (auto split: if_splits option.splits)

interpretation inv_party: participant "ApplyInventoryMutation p" "\<lambda>x. inv_spec x p" "inv_view p"
    "inv_frame p" "inv_good base stock p"
proof unfold_locales
  fix n t x now
  assume g: "inv_good base stock p (Suc n) t"
  then have ok: "inv_ok base stock t" "room stock p t" by (auto simp: inv_good_def room_def)
  note impl = inventory_refines_lemma [OF ok, of x now]
  have keep: "inv_good base stock p n t'"
    if m: "ApplyInventoryMutation p x (quiet now t) = (Inr (), quiet now t')"
      and v: "inv_spec x p (inv_view p t) = Inr (inv_view p t')" for t'
  proof -
    have "inv_ok base stock t'"
      by (rule keeps_quiet [OF ApplyInventoryMutation_keeps ok(1) m])
    moreover have "0 \<le> inv_Version i' \<and> inv_Version i' + int n < 2 ^ 63"
      if i': "inventories t' (ProductID p) = Some i'" for i'
    proof (cases "inventories t (ProductID p)")
      case None
      with v i' show ?thesis by (auto simp: inv_view_def dest: inv_spec_none)
    next
      case (Some i)
      have "inv_Version i \<le> inv_Version i' \<and> inv_Version i' \<le> inv_Version i + 1"
        using v Some i' by (intro inv_spec_version) (auto simp: inv_view_def)
      with g Some show ?thesis by (auto simp: inv_good_def)
    qed
    ultimately show ?thesis using g by (auto simp: inv_good_def)
  qed
  show "implements t (ApplyInventoryMutation p x) now (inv_spec x p (inv_view p t)) (inv_view p)
      (\<lambda>t t'. inv_frame p t t' \<and> inv_good base stock p n t')"
    using impl keep by (auto simp: implements_def split: sum.splits)
qed (auto simp: inv_good_def inv_frame_def)


subsection \<open>Instances\<close>

definition shelf :: "int \<Rightarrow> int \<Rightarrow> int \<Rightarrow> int \<Rightarrow> int \<Rightarrow> inventory" where
  "shelf a r s v now = \<lparr>inv_ProductID = 1, inv_Available = a, inv_Reserved = r, inv_Sold = s, inv_Version = v, inv_UpdatedAt = now\<rparr>"

definition full_shelf :: inv_tables where
  "full_shelf = \<lparr>inventories = [1 \<mapsto> shelf 5 0 0 0 0], reservations = Map.empty\<rparr>"

definition reserved_shelf :: inv_tables where
  "reserved_shelf = \<lparr>inventories = [1 \<mapsto> shelf 3 2 0 1 9], reservations =
     [''o1'' \<mapsto> \<lparr>res_OrderID = ''o1'', res_ProductID = 1, res_Quantity = 2, res_Status = ReservationReserved,
                  res_CreatedAt = 9, res_UpdatedAt = 9\<rparr>]\<rparr>"

lemma reserve_sample:
  "ApplyInventoryMutation sample_payload InventoryReserve (quiet 9 full_shelf) = (Inr (), quiet 9 reserved_shelf)"
  by (simp add: reserveInventoryTx_def tx_run sql_defs sample_payload_def full_shelf_def reserved_shelf_def shelf_def
      in_int64_def)

lemma reserve_call_sample:
  "inventory_calls getenv [(sample_payload, InventoryReserve)] (quiet 9 full_shelf) = quiet 9 reserved_shelf"
  using RunLocalMutation_quiet_ok [of "ApplyInventoryMutation sample_payload InventoryReserve" 9 full_shelf reserved_shelf]
    reserve_sample by simp

theorem inventory_never_oversold_witness:
  "inv_Available (shelf 3 2 0 1 9) + inv_Reserved (shelf 3 2 0 1 9) + inv_Sold (shelf 3 2 0 1 9) = 5"
proof -
  have "\<exists>i. inventories (tables (quiet 9 full_shelf)) 1 = Some i \<and> 0 \<le> inv_Available (shelf 3 2 0 1 9) \<and>
      inv_Reserved (shelf 3 2 0 1 9) = res_sum ReservationReserved 1 (tables (inventory_calls (\<lambda>_. '''') [(sample_payload, InventoryReserve)] (quiet 9 full_shelf))) \<and>
      inv_Sold (shelf 3 2 0 1 9) = inv_Sold i + res_sum ReservationConfirmed 1 (tables (inventory_calls (\<lambda>_. '''') [(sample_payload, InventoryReserve)] (quiet 9 full_shelf))) \<and>
      inv_Available (shelf 3 2 0 1 9) + inv_Reserved (shelf 3 2 0 1 9) + inv_Sold (shelf 3 2 0 1 9) = inv_Available i + inv_Sold i"
  proof (rule inventory_never_oversold)
    show "inventories (tables (inventory_calls (\<lambda>_. '''') [(sample_payload, InventoryReserve)] (quiet 9 full_shelf))) 1 = Some (shelf 3 2 0 1 9)"
      unfolding reserve_call_sample by (simp add: reserved_shelf_def)
  qed (auto simp: full_shelf_def shelf_def split: if_splits)
  then show ?thesis by (auto simp: full_shelf_def shelf_def)
qed

theorem released_reservation_is_final_witness:
  "\<exists>r'. reservations (tables (inventory_calls (\<lambda>_. '''') [(sample_payload, InventoryReserve)] (quiet 9 reserved_shelf))) ''o1'' = Some r'"
  using released_reservation_is_final [of "quiet 9 reserved_shelf" "''o1''" _ "\<lambda>_. ''''" "[(sample_payload, InventoryReserve)]"]
  by (auto simp: reserved_shelf_def)

theorem inventory_mutation_idempotent_witness:
  "ApplyInventoryMutation sample_payload InventoryReserve (quiet 20 reserved_shelf) = (Inr (), quiet 20 reserved_shelf)"
  using inventory_mutation_idempotent [OF reserve_sample, of 20] by simp

lemma full_shelf_good: "inv_good (\<lambda>_. 0) (\<lambda>_. 5) sample_payload n full_shelf" if "n < 1000"
  using that
  by (auto simp: inv_good_def inv_ok_def inv_row_ok_def res_sum_def full_shelf_def shelf_def split: if_splits)


end
