(* ===== verification/Mall_Points.thy ===== *)
theory Mall_Points
  imports Mall_Model
begin

text \<open>
  The points database and its mutations (internal/rpc/mall/domain/mutations.go): debit and refund,
  which write a ledger row, unique per order and operation, and then the account. The invariant
  pts_ok says that every balance is the opening balance plus the deltas of the ledger, and that a
  refund exactly cancels the debit of its order.
\<close>

record pts_tables =
  accounts :: "int \<Rightarrow> points_account option"
  ledgers :: "string \<times> string \<Rightarrow> points_ledger option"

subsection \<open>The SQL statements\<close>

text \<open>INSERT IGNORE INTO mall_points_ledgers; the unique key is (order_id, operation).\<close>

definition insertLedger :: "string \<Rightarrow> string \<Rightarrow> int \<Rightarrow> int \<Rightarrow> (pts_tables, nat) sql" where
  "insertLedger orderID operation userID delta now t =
     (case ledgers t (orderID, operation) of
        Some _ \<Rightarrow> (Inr 0, t)
      | None \<Rightarrow>
          (Inr 1, t\<lparr>ledgers := (ledgers t)((orderID, operation) \<mapsto>
             \<lparr>led_OrderID = orderID, led_Operation = operation, led_UserID = userID,
              led_Delta = delta, led_CreatedAt = now\<rparr>)\<rparr>))"

text \<open>SELECT user_id, delta ... WHERE order_id = ? AND operation = ? FOR UPDATE.\<close>

definition selectLedger :: "string \<Rightarrow> string \<Rightarrow> (pts_tables, int \<times> int) sql" where
  "selectLedger orderID operation now t =
     (case ledgers t (orderID, operation) of
        None \<Rightarrow> (Inl ErrNoRows, t)
      | Some l \<Rightarrow> (Inr (led_UserID l, led_Delta l), t))"

text \<open>UPDATE mall_points_accounts SET balance = balance + d, version = version + 1 WHERE user_id = ? AND guard.\<close>

definition updateAccount :: "(points_account \<Rightarrow> bool) \<Rightarrow> int \<Rightarrow> int \<Rightarrow> (pts_tables, nat) sql" where
  "updateAccount guard d userID now t =
     (case accounts t userID of
        None \<Rightarrow> (Inr 0, t)
      | Some a \<Rightarrow>
          if guard a then
            (let a' = a\<lparr>acc_Balance := acc_Balance a + d, acc_Version := acc_Version a + 1,
                        acc_UpdatedAt := now\<rparr>
             in if in_int64 (acc_Balance a') \<and> in_int64 (acc_Version a')
                then (Inr 1, t\<lparr>accounts := (accounts t)(userID \<mapsto> a')\<rparr>)
                else (Inl ErrOutOfRange, t))
          else (Inr 0, t))"

declare insertLedger_def [sql_defs] selectLedger_def [sql_defs] updateAccount_def [sql_defs]

subsection \<open>The mutations\<close>

datatype PointsOperation = PointsDebit | PointsRefund | OtherPointsOperation string

definition debitPointsTx :: "saga_payload \<Rightarrow> (pts_tables, unit) tx" where
  "debitPointsTx p =
     (if OrderID p = '''' \<or> UserID p \<le> 0 \<or> TotalPoints p \<le> 0
      then tx_fail (ErrNew ''invalid points mutation'')
      else tx_bind (stmt (insertLedger (OrderID p) ''debit'' (UserID p) (wrap64 (- TotalPoints p))))
        (\<lambda>affected. if affected = 0 then
            tx_bind (stmt (selectLedger (OrderID p) ''debit'')) (\<lambda>(userID, delta).
              if userID \<noteq> UserID p \<or> delta \<noteq> wrap64 (- TotalPoints p) then tx_fail ErrIdempotencyConflict
              else tx_return ())
          else
            tx_bind (stmt (updateAccount (\<lambda>a. acc_Balance a \<ge> TotalPoints p) (- TotalPoints p) (UserID p)))
              (\<lambda>affected. if affected \<noteq> 1 then tx_fail ErrInsufficientPoints else tx_return ())))"

definition refundPointsTx :: "saga_payload \<Rightarrow> (pts_tables, unit) tx" where
  "refundPointsTx p =
     tx_then (stmt (selectLedger (OrderID p) ''debit'')) (\<lambda>r. case r of
       Inl err \<Rightarrow> if err_is err ErrNoRows then tx_return () else tx_fail err
     | Inr (debitUserID, debit) \<Rightarrow>
         if debitUserID \<noteq> UserID p \<or> debit \<ge> 0 \<or> wrap64 (- debit) \<noteq> TotalPoints p
         then tx_fail ErrIdempotencyConflict
         else let amount = wrap64 (- debit) in
           tx_bind (stmt (insertLedger (OrderID p) ''refund'' (UserID p) amount)) (\<lambda>affected.
             if affected = 0 then
               tx_bind (stmt (selectLedger (OrderID p) ''refund'')) (\<lambda>(refundUserID, refund).
                 if refundUserID \<noteq> UserID p \<or> refund \<noteq> amount then tx_fail ErrIdempotencyConflict
                 else tx_return ())
             else
               tx_bind (stmt (updateAccount (\<lambda>a. True) amount (UserID p))) (\<lambda>affected.
                 if affected \<noteq> 1 then tx_fail (ErrNew ''points account missing while refunding'')
                 else tx_return ())))"

fun ApplyPointsMutation :: "saga_payload \<Rightarrow> PointsOperation \<Rightarrow> (pts_tables, unit) tx" where
  "ApplyPointsMutation p PointsDebit = debitPointsTx p"
| "ApplyPointsMutation p PointsRefund = refundPointsTx p"
| "ApplyPointsMutation p (OtherPointsOperation s) =
     tx_fail (ErrNew (''unknown points operation '' @ s))"

fun points_calls ::
    "(string \<Rightarrow> string) \<Rightarrow> (saga_payload \<times> PointsOperation) list \<Rightarrow>
     pts_tables tx_state \<Rightarrow> pts_tables tx_state" where
  "points_calls getenv [] s = s"
| "points_calls getenv ((p, operation) # cs) s =
     points_calls getenv cs (snd (RunLocalMutation getenv (ApplyPointsMutation p operation) s))"

subsection \<open>The ledger invariant\<close>

definition delta_sum :: "int \<Rightarrow> pts_tables \<Rightarrow> int" where
  "delta_sum uid t = sum_rows (\<lambda>l. led_UserID l = uid) led_Delta (ledgers t)"

definition refund_matches :: "pts_tables \<Rightarrow> bool" where
  "refund_matches t \<longleftrightarrow>
     (\<forall>oid operation l. ledgers t (oid, operation) = Some l \<longrightarrow>
        (operation = ''debit'' \<and> - (2 ^ 63) < led_Delta l \<and> led_Delta l < 0) \<or>
        (operation = ''refund'' \<and> (\<exists>d. ledgers t (oid, ''debit'') = Some d \<and>
           led_UserID d = led_UserID l \<and> led_Delta l = - led_Delta d)))"

definition pts_ok :: "(int \<Rightarrow> int) \<Rightarrow> pts_tables \<Rightarrow> bool" where
  "pts_ok base t \<longleftrightarrow>
     finite (dom (ledgers t)) \<and> refund_matches t \<and>
     (\<forall>uid a. accounts t uid = Some a \<longrightarrow> 0 \<le> acc_Balance a \<and> acc_Balance a = base uid + delta_sum uid t)"

lemma pts_ok_acc: "pts_ok base t \<Longrightarrow> accounts t uid = Some a \<Longrightarrow>
    0 \<le> acc_Balance a \<and> acc_Balance a = base uid + delta_sum uid t"
  unfolding pts_ok_def by blast

lemma pts_ok_new:
  assumes ok: "pts_ok base t"
    and t': "accounts t' = (accounts t)(uid \<mapsto> a')" "ledgers t' = (ledgers t)((oid, operation) \<mapsto> l)"
    and a: "accounts t uid = Some a" and new: "ledgers t (oid, operation) = None"
    and l: "led_UserID l = uid" and bal: "acc_Balance a' = acc_Balance a + led_Delta l"
    and nn: "0 \<le> acc_Balance a + led_Delta l"
    and kind: "(operation = ''debit'' \<and> - (2 ^ 63) < led_Delta l \<and> led_Delta l < 0) \<or>
      (operation = ''refund'' \<and> (\<exists>d. ledgers t (oid, ''debit'') = Some d \<and>
         led_UserID d = uid \<and> led_Delta l = - led_Delta d))"
  shows "pts_ok base t'"
proof -
  have fin: "finite (dom (ledgers t))" using ok by (simp add: pts_ok_def)
  have sum: "delta_sum u t' = delta_sum u t + (if u = uid then led_Delta l else 0)" for u
    using new l by (simp add: delta_sum_def t' sum_rows_upd [OF fin])
  have old: "refund_matches t" using ok by (simp add: pts_ok_def)
  have "refund_matches t'"
    unfolding refund_matches_def
  proof (intro allI impI)
    fix o2 op2 l2 assume l2: "ledgers t' (o2, op2) = Some l2"
    have keep: "ledgers t' k = Some d" if "ledgers t k = Some d" for k d
      using that new by (auto simp: t')
    show "(op2 = ''debit'' \<and> - (2 ^ 63) < led_Delta l2 \<and> led_Delta l2 < 0) \<or>
        (op2 = ''refund'' \<and> (\<exists>d. ledgers t' (o2, ''debit'') = Some d \<and>
           led_UserID d = led_UserID l2 \<and> led_Delta l2 = - led_Delta d))"
    proof (cases "(o2, op2) = (oid, operation)")
      case True
      with l2 have "l2 = l" by (simp add: t')
      with True kind l keep show ?thesis by fastforce
    next
      case False
      with l2 have "ledgers t (o2, op2) = Some l2" by (auto simp: t')
      with old keep show ?thesis unfolding refund_matches_def by meson
    qed
  qed
  moreover have "0 \<le> acc_Balance b \<and> acc_Balance b = base u + delta_sum u t'"
    if "accounts t' u = Some b" for u b
    using that pts_ok_acc [OF ok, of u b] pts_ok_acc [OF ok a] bal nn
    by (auto simp: t' sum split: if_splits)
  moreover have "finite (dom (ledgers t'))" using fin by (simp add: t')
  ultimately show ?thesis unfolding pts_ok_def by blast
qed

lemma wrap64_neg: "in_int64 x \<Longrightarrow> 0 < x \<Longrightarrow> wrap64 (- x) = - x"
  by (rule wrap64_id) (simp add: in_int64_def)

lemma pts_ok_debit:
  assumes "pts_ok base t" and "ledgers t (oid, ''debit'') = Some d"
  shows "wrap64 (- led_Delta d) = - led_Delta d" "- (2 ^ 63) < led_Delta d" "led_Delta d < 0"
proof -
  have "- (2 ^ 63) < led_Delta d \<and> led_Delta d < 0"
    using assms unfolding pts_ok_def refund_matches_def by fastforce
  then show "wrap64 (- led_Delta d) = - led_Delta d" "- (2 ^ 63) < led_Delta d" "led_Delta d < 0"
    by (auto intro!: wrap64_id simp: in_int64_def)
qed

lemma debit_keeps: "in_int64 (TotalPoints p) \<Longrightarrow> keeps (debitPointsTx p) (pts_ok base)"
proof (intro allI impI)
  fix t assume p: "in_int64 (TotalPoints p)" and ok: "pts_ok base t"
  have lt: "TotalPoints p < 9223372036854775808" using p by (simp add: in_int64_def)
  show "always (debitPointsTx p) t (\<lambda>r t'. (\<exists>e. r = Inl e) \<or> pts_ok base t')"
    using ok p lt unfolding debitPointsTx_def
    by (auto simp: always_simps sql_defs Let_def wrap64_neg split: option.splits
        intro!: pts_ok_new [OF ok])
qed

lemma refund_keeps: "keeps (refundPointsTx p) (pts_ok base)"
proof (intro allI impI)
  fix t assume ok: "pts_ok base t"
  show "always (refundPointsTx p) t (\<lambda>r t'. (\<exists>e. r = Inl e) \<or> pts_ok base t')"
  proof (cases "ledgers t (OrderID p, ''debit'')")
    case None
    with ok show ?thesis
      by (simp add: refundPointsTx_def always_simps sql_defs)
  next
    case (Some d)
    note d = pts_ok_debit [OF ok Some]
    have w: "wrap64 (TotalPoints p) = TotalPoints p" if "- led_Delta d = TotalPoints p"
      using d(1) that by simp
    from ok Some d w show ?thesis
      by (auto simp: refundPointsTx_def always_simps sql_defs Let_def split: option.splits
          intro!: pts_ok_new [OF ok]) (use pts_ok_acc [OF ok] d in fastforce)
  qed
qed

lemma ApplyPointsMutation_keeps:
  "in_int64 (TotalPoints p) \<Longrightarrow> keeps (ApplyPointsMutation p operation) (pts_ok base)"
  by (cases operation) (simp_all add: debit_keeps refund_keeps always_simps)

lemma points_rows: "keeps (ApplyPointsMutation p operation) (\<lambda>t. dom (accounts t) = D)"
  by (cases operation)
    (auto simp: always_simps sql_defs Let_def debitPointsTx_def refundPointsTx_def
      split: option.splits)

lemma points_calls_invariant:
  assumes "\<And>p operation. in_int64 (TotalPoints p) \<Longrightarrow> keeps (ApplyPointsMutation p operation) I"
    and "I (tables s)" and "list_all (\<lambda>(p, _). in_int64 (TotalPoints p)) cs"
  shows "I (tables (points_calls getenv cs s))"
  using assms(2,3)
proof (induction cs arbitrary: s)
  case (Cons c cs)
  obtain p operation where c: "c = (p, operation)" by (cases c)
  obtain r s' where run: "RunLocalMutation getenv (ApplyPointsMutation p operation) s = (r, s')"
    by (cases "RunLocalMutation getenv (ApplyPointsMutation p operation) s")
  have "keeps (ApplyPointsMutation p operation) I"
    using assms(1) Cons.prems(2) c by simp
  then have "I (tables s')"
    using RunLocalMutation_invariant [of I, OF _ Cons.prems(1) run] by blast
  then show ?case using Cons.IH Cons.prems(2) c run by simp
qed simp

text \<open>Refunds never exceed debits: the deltas of a user never add up to a gain.\<close>

lemma delta_sum_le_0:
  assumes "pts_ok base t"
  shows "delta_sum uid t \<le> 0"
proof -
  let ?L = "ledgers t"
  let ?f = "\<lambda>k. if led_UserID (the (?L k)) = uid then led_Delta (the (?L k)) else 0"
  let ?R = "{k \<in> dom ?L. snd k = ''refund''}"
  let ?h = "\<lambda>k. (fst k, ''debit'')"
  have rm: "refund_matches t" and fin: "finite (dom ?L)" using assms by (auto simp: pts_ok_def)
  have pair: "?h k \<in> dom ?L - ?R \<and> ?f k = - ?f (?h k)" if "k \<in> ?R" for k
  proof -
    from that obtain oid l where k: "k = (oid, ''refund'')" "?L (oid, ''refund'') = Some l"
      by (cases k) auto
    obtain d where "?L (oid, ''debit'') = Some d" "led_UserID d = led_UserID l"
      "led_Delta l = - led_Delta d"
      using rm [unfolded refund_matches_def, rule_format, OF k(2)] by auto
    with k show ?thesis by auto
  qed
  have neg: "?f k \<le> 0" if "k \<in> dom ?L - ?R" for k
  proof -
    from that obtain oid operation l where k: "k = (oid, operation)" "?L (oid, operation) = Some l"
      "operation \<noteq> ''refund''"
      by (cases k) auto
    have "led_Delta l < 0"
      using rm [unfolded refund_matches_def, rule_format, OF k(2)] k(3) by auto
    with k show ?thesis by simp
  qed
  have inj: "inj_on ?h ?R" by (auto simp: inj_on_def)
  have split: "delta_sum uid t = sum ?f (dom ?L - ?R) + sum ?f ?R"
    unfolding delta_sum_def sum_rows_def
    using sum.subset_diff [of ?R "dom ?L" ?f] fin by auto
  have refunds: "sum ?f ?R = - sum ?f (?h ` ?R)"
    using pair by (subst sum.reindex [OF inj]) (simp add: sum_negf)
  have "sum ?f (dom ?L - ?R) \<le> sum ?f (?h ` ?R)"
  proof -
    have "?h ` ?R \<subseteq> dom ?L - ?R" using pair by blast
    then have "sum ?f (dom ?L - ?R) = sum ?f (dom ?L - ?R - ?h ` ?R) + sum ?f (?h ` ?R)"
      using fin by (intro sum.subset_diff) auto
    moreover have "sum ?f (dom ?L - ?R - ?h ` ?R) \<le> 0"
      by (rule sum_nonpos) (use neg in auto)
    ultimately show ?thesis by simp
  qed
  with split refunds show ?thesis by (simp only:)
qed

text \<open>
  C15 (invariant). On a points database without ledger rows and with non-negative balances,
  whatever debits and refunds are called with int64 amounts, in whatever order, and however the
  driver fails: every balance is the opening balance plus the deltas of its ledger rows, it never
  becomes negative, and it never exceeds the opening balance, so refunds cannot create points.
\<close>

theorem points_balance_is_ledger:
  assumes "ledgers (tables s) = Map.empty"
    and "\<And>uid a. accounts (tables s) uid = Some a \<Longrightarrow> 0 \<le> acc_Balance a"
    and "list_all (\<lambda>(p, _). in_int64 (TotalPoints p)) cs"
    and "accounts (tables (points_calls getenv cs s)) uid = Some a'"
  shows "\<exists>a. accounts (tables s) uid = Some a \<and>
    acc_Balance a' = acc_Balance a + delta_sum uid (tables (points_calls getenv cs s)) \<and>
    0 \<le> acc_Balance a' \<and> acc_Balance a' \<le> acc_Balance a"
proof -
  let ?t = "tables (points_calls getenv cs s)"
  let ?base = "\<lambda>uid. case accounts (tables s) uid of None \<Rightarrow> 0 | Some a \<Rightarrow> acc_Balance a"
  have "dom (accounts ?t) = dom (accounts (tables s))"
    using points_calls_invariant [of "\<lambda>t. dom (accounts t) = dom (accounts (tables s))", OF points_rows]
      assms(3) by blast
  then obtain a where a: "accounts (tables s) uid = Some a" using assms(4) by blast
  have "pts_ok ?base (tables s)"
    using assms(1,2) by (auto simp: pts_ok_def refund_matches_def delta_sum_def)
  with points_calls_invariant [of "pts_ok ?base", OF ApplyPointsMutation_keeps] assms(3)
  have ok: "pts_ok ?base ?t" by blast
  from pts_ok_acc [OF ok assms(4)] delta_sum_le_0 [OF ok, of uid] a show ?thesis by auto
qed

subsection \<open>Repeating and undoing\<close>

text \<open>
  (functional). Debit and refund are idempotent: after a run that reported success, running
  the same mutation again succeeds and leaves the ledger and the accounts exactly as they are.
\<close>

theorem points_mutation_idempotent:
  assumes "ApplyPointsMutation p operation s = (Inr (), s')"
  shows "ApplyPointsMutation p operation (quiet now (tables s')) = (Inr (), quiet now (tables s'))"
proof -
  have "always (ApplyPointsMutation p operation) (tables s) (\<lambda>r t'. r = Inr () \<longrightarrow>
      ApplyPointsMutation p operation (quiet now t') = (Inr (), quiet now t'))"
    by (cases operation)
      (auto simp: always_simps sql_defs Let_def debitPointsTx_def refundPointsTx_def tx_run
        split: option.splits)
  from alwaysD [OF this assms] show ?thesis by simp
qed

text \<open>
  (functional). A debit that has been refunded counts as done for good: debiting the same
  order once more reports success although the account is not charged. (The inventory side
  refuses the corresponding repetition: a released reservation cannot be taken again.)
\<close>

theorem debit_after_refund_is_free:
  assumes "debitPointsTx p s = (Inr (), s1)" and "refundPointsTx p (quiet now1 (tables s1)) = (Inr (), s2)"
  shows "debitPointsTx p (quiet now (tables s2)) = (Inr (), quiet now (tables s2))"
proof -
  have "always (debitPointsTx p) (tables s) (\<lambda>r t'. r = Inr () \<longrightarrow>
      OrderID p \<noteq> '''' \<and> 0 < UserID p \<and> 0 < TotalPoints p \<and>
      (\<exists>d. ledgers t' (OrderID p, ''debit'') = Some d \<and> led_UserID d = UserID p \<and>
         led_Delta d = wrap64 (- TotalPoints p)))"
    by (auto simp: always_simps sql_defs Let_def debitPointsTx_def split: option.splits)
  from alwaysD [OF this assms(1)] obtain d where
    g: "OrderID p \<noteq> ''''" "0 < UserID p" "0 < TotalPoints p"
    and d: "ledgers (tables s1) (OrderID p, ''debit'') = Some d" "led_UserID d = UserID p"
      "led_Delta d = wrap64 (- TotalPoints p)"
    by auto
  have "always (refundPointsTx p) (tables (quiet now1 (tables s1)))
      (\<lambda>r t'. ledgers t' (OrderID p, ''debit'') = ledgers (tables s1) (OrderID p, ''debit''))"
    by (auto simp: always_simps sql_defs Let_def refundPointsTx_def split: option.splits)
  from alwaysD [OF this assms(2)] g d show ?thesis
    by (simp add: debitPointsTx_def tx_run sql_defs)
qed

subsection \<open>The abstract contract\<close>

text \<open>
  What debit and refund promise for one order and user: on the account (balance, version) and on
  the two ledger rows of the order (user and delta).
\<close>

type_synonym pts_view = "(int \<times> int) option \<times> (int \<times> int) option \<times> (int \<times> int) option"

definition pts_view :: "saga_payload \<Rightarrow> pts_tables \<Rightarrow> pts_view" where
  "pts_view p t =
     (map_option (\<lambda>a. (acc_Balance a, acc_Version a)) (accounts t (UserID p)),
      map_option (\<lambda>l. (led_UserID l, led_Delta l)) (ledgers t (OrderID p, ''debit'')),
      map_option (\<lambda>l. (led_UserID l, led_Delta l)) (ledgers t (OrderID p, ''refund'')))"

fun pts_spec :: "PointsOperation \<Rightarrow> saga_payload \<Rightarrow> pts_view \<Rightarrow> goerr + pts_view" where
  "pts_spec PointsDebit p (acc, d, r) =
     (if OrderID p = '''' \<or> UserID p \<le> 0 \<or> TotalPoints p \<le> 0
      then Inl (ErrNew ''invalid points mutation'')
      else case d of
        Some row \<Rightarrow> if row = (UserID p, - TotalPoints p) then Inr (acc, d, r) else Inl ErrIdempotencyConflict
      | None \<Rightarrow>
          (case acc of
             Some (b, v) \<Rightarrow>
               if TotalPoints p \<le> b
               then Inr (Some (b - TotalPoints p, v + 1), Some (UserID p, - TotalPoints p), r)
               else Inl ErrInsufficientPoints
           | None \<Rightarrow> Inl ErrInsufficientPoints))"
| "pts_spec PointsRefund p (acc, d, r) =
     (case d of
        None \<Rightarrow> Inr (acc, d, r)
      | Some row \<Rightarrow>
          if row \<noteq> (UserID p, - TotalPoints p) then Inl ErrIdempotencyConflict
          else if r \<noteq> None then Inr (acc, d, r)
          else (case acc of
             Some (b, v) \<Rightarrow> Inr (Some (b + TotalPoints p, v + 1), d, Some (UserID p, TotalPoints p))
           | None \<Rightarrow> Inl (ErrNew ''points account missing while refunding'')))"
| "pts_spec (OtherPointsOperation s) p v = Inl (ErrNew (''unknown points operation '' @ s))"

definition pts_frame :: "saga_payload \<Rightarrow> pts_tables \<Rightarrow> pts_tables \<Rightarrow> bool" where
  "pts_frame p t t' \<longleftrightarrow>
     (\<forall>uid. uid \<noteq> UserID p \<longrightarrow> accounts t' uid = accounts t uid) \<and>
     (\<forall>oid operation. oid \<noteq> OrderID p \<longrightarrow> ledgers t' (oid, operation) = ledgers t (oid, operation))"

definition pts_room :: "saga_payload \<Rightarrow> pts_tables \<Rightarrow> bool" where
  "pts_room p t \<longleftrightarrow> in_int64 (TotalPoints p) \<and>
     (\<forall>a. accounts t (UserID p) = Some a \<longrightarrow> acc_Balance a + \<bar>TotalPoints p\<bar> < 2 ^ 63 \<and>
        0 \<le> acc_Version a \<and> acc_Version a < 2 ^ 63 - 1)"

lemma debit_implements:
  assumes ok: "pts_ok base t" and rm: "pts_room p t"
  shows "implements t (debitPointsTx p) now (pts_spec PointsDebit p (pts_view p t)) (pts_view p) (pts_frame p)"
proof (cases "OrderID p = '''' \<or> UserID p \<le> 0 \<or> TotalPoints p \<le> 0")
  case True
  then show ?thesis by (auto simp: implements_def pts_view_def debitPointsTx_def tx_run)
next
  case False
  with rm have w: "wrap64 (- TotalPoints p) = - TotalPoints p" by (simp add: pts_room_def wrap64_neg)
  show ?thesis
  proof (cases "ledgers t (OrderID p, ''debit'')")
    case (Some d)
    with False w show ?thesis
      by (auto simp: implements_def pts_view_def debitPointsTx_def tx_run sql_defs pts_frame_def)
  next
    case None
    show ?thesis
    proof (cases "accounts t (UserID p)")
      case None
      with False w \<open>ledgers t (OrderID p, ''debit'') = None\<close> show ?thesis
        by (auto simp: implements_def pts_view_def debitPointsTx_def tx_run sql_defs)
    next
      case (Some a)
      have "in_int64 (acc_Balance a - TotalPoints p)" "in_int64 (acc_Version a + 1)"
        if "TotalPoints p \<le> acc_Balance a"
        using that rm Some pts_ok_acc [OF ok Some] False by (auto simp: pts_room_def in_int64_def)
      with False w \<open>ledgers t (OrderID p, ''debit'') = None\<close> Some show ?thesis
        by (auto simp: implements_def pts_view_def debitPointsTx_def tx_run sql_defs Let_def pts_frame_def)
    qed
  qed
qed

lemma refund_implements:
  assumes ok: "pts_ok base t" and rm: "pts_room p t"
  shows "implements t (refundPointsTx p) now (pts_spec PointsRefund p (pts_view p t)) (pts_view p) (pts_frame p)"
proof (cases "ledgers t (OrderID p, ''debit'')")
  case None
  then show ?thesis
    by (auto simp: implements_def pts_view_def refundPointsTx_def tx_run sql_defs pts_frame_def)
next
  case (Some d)
  note d = pts_ok_debit [OF ok Some]
  show ?thesis
  proof (cases "led_UserID d = UserID p \<and> - led_Delta d = TotalPoints p")
    case False
    with Some d show ?thesis
      by (auto simp: implements_def pts_view_def refundPointsTx_def tx_run sql_defs)
  next
    case own: True
    then have w: "wrap64 (TotalPoints p) = TotalPoints p" using d(1) by simp
    show ?thesis
    proof (cases "ledgers t (OrderID p, ''refund'')")
      case (Some r)
      have "led_UserID r = UserID p \<and> led_Delta r = TotalPoints p"
        using ok Some \<open>ledgers t (OrderID p, ''debit'') = Some d\<close> own
        unfolding pts_ok_def refund_matches_def by fastforce
      with Some \<open>ledgers t (OrderID p, ''debit'') = Some d\<close> own d w show ?thesis
        by (auto simp: implements_def pts_view_def refundPointsTx_def tx_run sql_defs Let_def pts_frame_def)
    next
      case None
      show ?thesis
      proof (cases "accounts t (UserID p)")
        case None
        with \<open>ledgers t (OrderID p, ''refund'') = None\<close> Some own d w show ?thesis
          by (auto simp: implements_def pts_view_def refundPointsTx_def tx_run sql_defs Let_def)
      next
        case acc: (Some a)
        have "in_int64 (acc_Balance a + TotalPoints p)" "in_int64 (acc_Version a + 1)"
          using rm acc pts_ok_acc [OF ok acc] own d(3) by (auto simp: pts_room_def in_int64_def)
        with \<open>ledgers t (OrderID p, ''refund'') = None\<close> Some own d w acc show ?thesis
          by (auto simp: implements_def pts_view_def refundPointsTx_def tx_run sql_defs Let_def pts_frame_def)
      qed
    qed
  qed
qed

lemma points_refine_lemma:
  assumes "pts_ok base t" and "pts_room p t"
  shows "implements t (ApplyPointsMutation p operation) now (pts_spec operation p (pts_view p t))
    (pts_view p) (pts_frame p)"
proof (cases operation)
  case (OtherPointsOperation s)
  then show ?thesis by (cases "pts_view p t") (auto simp: implements_def tx_run)
qed (simp_all add: debit_implements [OF assms] refund_implements [OF assms])

subsection \<open>Points as a Saga participant\<close>

definition pts_good :: "(int \<Rightarrow> int) \<Rightarrow> saga_payload \<Rightarrow> nat \<Rightarrow> pts_tables \<Rightarrow> bool" where
  "pts_good base p n t \<longleftrightarrow> pts_ok base t \<and> in_int64 (TotalPoints p) \<and>
     base (UserID p) + \<bar>TotalPoints p\<bar> < 2 ^ 63 \<and>
     (\<forall>a. accounts t (UserID p) = Some a \<longrightarrow> 0 \<le> acc_Version a \<and> acc_Version a + int n < 2 ^ 63)"

lemma pts_good_room: "pts_good base p (Suc n) t \<Longrightarrow> pts_room p t"
  using pts_ok_acc [of base t "UserID p"] delta_sum_le_0 [of base t "UserID p"]
  by (fastforce simp: pts_good_def pts_room_def)

lemma pts_spec_version:
  assumes "pts_spec x p (Some (b, v), d, r) = Inr (Some (b', v'), d', r')"
  shows "v \<le> v' \<and> v' \<le> v + 1"
  using assms by (cases x) (auto split: if_splits option.splits)

lemma pts_spec_none:
  assumes "pts_spec x p (None, d, r) = Inr (a', d', r')" shows "a' = None"
  using assms by (cases x) (auto split: if_splits option.splits)

interpretation pts_party: participant "ApplyPointsMutation p" "\<lambda>x. pts_spec x p" "pts_view p"
    "pts_frame p" "pts_good base p"
proof unfold_locales
  fix n t x now
  assume g: "pts_good base p (Suc n) t"
  then have ok: "pts_ok base t" "in_int64 (TotalPoints p)" by (auto simp: pts_good_def)
  note impl = points_refine_lemma [OF ok(1) pts_good_room [OF g], of x now]
  have keep: "pts_good base p n t'"
    if m: "ApplyPointsMutation p x (quiet now t) = (Inr (), quiet now t')"
      and v: "pts_spec x p (pts_view p t) = Inr (pts_view p t')" for t'
  proof -
    have "pts_ok base t'" by (rule keeps_quiet [OF ApplyPointsMutation_keeps [OF ok(2)] ok(1) m])
    moreover have "0 \<le> acc_Version a' \<and> acc_Version a' + int n < 2 ^ 63"
      if a': "accounts t' (UserID p) = Some a'" for a'
    proof (cases "accounts t (UserID p)")
      case None
      with v a' show ?thesis by (auto simp: pts_view_def dest: pts_spec_none)
    next
      case (Some a)
      have "acc_Version a \<le> acc_Version a' \<and> acc_Version a' \<le> acc_Version a + 1"
        using v Some a' by (intro pts_spec_version) (auto simp: pts_view_def)
      with g Some show ?thesis by (auto simp: pts_good_def)
    qed
    ultimately show ?thesis using g by (auto simp: pts_good_def)
  qed
  show "implements t (ApplyPointsMutation p x) now (pts_spec x p (pts_view p t)) (pts_view p)
      (\<lambda>t t'. pts_frame p t t' \<and> pts_good base p n t')"
    using impl keep by (auto simp: implements_def split: sum.splits)
qed (auto simp: pts_good_def pts_frame_def)


subsection \<open>Instances\<close>

definition purse :: "int \<Rightarrow> int \<Rightarrow> int \<Rightarrow> points_account" where
  "purse b v now = \<lparr>acc_UserID = 7, acc_Balance = b, acc_Version = v, acc_UpdatedAt = now\<rparr>"

definition entry :: "string \<Rightarrow> int \<Rightarrow> points_ledger" where
  "entry operation d = \<lparr>led_OrderID = ''o1'', led_Operation = operation, led_UserID = 7, led_Delta = d, led_CreatedAt = 9\<rparr>"

definition full_purse :: pts_tables where
  "full_purse = \<lparr>accounts = [7 \<mapsto> purse 50 0 0], ledgers = Map.empty\<rparr>"

definition debited_purse :: pts_tables where
  "debited_purse = \<lparr>accounts = [7 \<mapsto> purse 30 1 9], ledgers = [(''o1'', ''debit'') \<mapsto> entry ''debit'' (- 20)]\<rparr>"

definition refunded_purse :: pts_tables where
  "refunded_purse = \<lparr>accounts = [7 \<mapsto> purse 50 2 9],
     ledgers = [(''o1'', ''debit'') \<mapsto> entry ''debit'' (- 20), (''o1'', ''refund'') \<mapsto> entry ''refund'' 20]\<rparr>"

lemma debit_sample: "ApplyPointsMutation sample_payload PointsDebit (quiet 9 full_purse) = (Inr (), quiet 9 debited_purse)"
  by (simp add: debitPointsTx_def tx_run sql_defs sample_payload_def full_purse_def debited_purse_def purse_def entry_def
      in_int64_def wrap64_def)

lemma refund_sample: "ApplyPointsMutation sample_payload PointsRefund (quiet 9 debited_purse) = (Inr (), quiet 9 refunded_purse)"
  by (simp add: refundPointsTx_def tx_run sql_defs sample_payload_def refunded_purse_def debited_purse_def purse_def entry_def
      in_int64_def wrap64_def)

lemma debit_call_sample:
  "points_calls getenv [(sample_payload, PointsDebit)] (quiet 9 full_purse) = quiet 9 debited_purse"
  using RunLocalMutation_quiet_ok [of "ApplyPointsMutation sample_payload PointsDebit" 9 full_purse debited_purse]
    debit_sample by simp

theorem points_balance_is_ledger_witness: "30 = 50 + delta_sum 7 debited_purse"
proof -
  have "\<exists>a. accounts (tables (quiet 9 full_purse)) 7 = Some a \<and>
      acc_Balance (purse 30 1 9) = acc_Balance a + delta_sum 7 (tables (points_calls (\<lambda>_. '''') [(sample_payload, PointsDebit)] (quiet 9 full_purse))) \<and>
      0 \<le> acc_Balance (purse 30 1 9) \<and> acc_Balance (purse 30 1 9) \<le> acc_Balance a"
  proof (rule points_balance_is_ledger)
    show "accounts (tables (points_calls (\<lambda>_. '''') [(sample_payload, PointsDebit)] (quiet 9 full_purse))) 7 = Some (purse 30 1 9)"
      unfolding debit_call_sample by (simp add: debited_purse_def)
  qed (auto simp: full_purse_def purse_def sample_payload_def in_int64_def split: if_splits)
  then show ?thesis unfolding debit_call_sample by (auto simp: full_purse_def purse_def)
qed

theorem points_mutation_idempotent_witness:
  "ApplyPointsMutation sample_payload PointsDebit (quiet 20 debited_purse) = (Inr (), quiet 20 debited_purse)"
  using points_mutation_idempotent [OF debit_sample, of 20] by simp

theorem debit_after_refund_is_free_witness:
  "debitPointsTx sample_payload (quiet 30 refunded_purse) = (Inr (), quiet 30 refunded_purse)"
  using debit_after_refund_is_free [of sample_payload "quiet 9 full_purse" "quiet 9 debited_purse" 9 "quiet 9 refunded_purse" 30]
    debit_sample refund_sample by simp

lemma full_purse_good: "pts_good (\<lambda>u. if u = 7 then 50 else 0) sample_payload 3 full_purse"
  by (auto simp: pts_good_def pts_ok_def refund_matches_def delta_sum_def full_purse_def purse_def sample_payload_def
      in_int64_def split: if_splits)


end
