(* ===== verification/Mall_Orders.thy ===== *)
theory Mall_Orders
  imports Mall_Model
begin

text \<open>
  The order database and the three Saga branches on it (internal/rpc/mall/domain/http.go):
  prepare, cancel and confirm. The table is the list of its rows; its unique keys are the primary
  key, (user_id, request_id) and saga_gid, and ord_ok says that they hold.
\<close>

record ord_tables =
  orders :: "order list"

subsection \<open>The SQL statements\<close>

text \<open>
  INSERT IGNORE stores the nearest value of the column type when a number is out of its range:
  the quantity column is a 32-bit INT.
\<close>

definition clamp32 :: "int \<Rightarrow> int" where
  "clamp32 q = max (- (2 ^ 31)) (min (2 ^ 31 - 1) q)"

definition order_conflicts :: "string \<Rightarrow> int \<Rightarrow> string \<Rightarrow> string \<Rightarrow> order \<Rightarrow> bool" where
  "order_conflicts orderID userID requestID sagaGID o' \<longleftrightarrow>
     ord_ID o' = orderID \<or> (ord_UserID o' = userID \<and> ord_RequestID o' = requestID) \<or>
     ord_SagaGID o' = sagaGID"

definition insertOrder :: "saga_payload \<Rightarrow> string \<Rightarrow> (ord_tables, nat) sql" where
  "insertOrder p status now t =
     (if list_ex (order_conflicts (OrderID p) (UserID p) (RequestID p) (SagaGID p)) (orders t)
      then (Inr 0, t)
      else (Inr 1, t\<lparr>orders := orders t @
        [\<lparr>ord_ID = OrderID p, ord_UserID = UserID p, ord_RequestID = RequestID p,
          ord_ProductID = ProductID p, ord_Quantity = clamp32 (Quantity p),
          ord_TotalPoints = TotalPoints p, ord_Status = status, ord_SagaGID = SagaGID p,
          ord_CreatedAt = now, ord_UpdatedAt = now\<rparr>]\<rparr>))"

definition selectOrder :: "(order \<Rightarrow> bool) \<Rightarrow> (ord_tables, order) sql" where
  "selectOrder cond now t =
     (case List.find cond (orders t) of None \<Rightarrow> (Inl ErrNoRows, t) | Some o' \<Rightarrow> (Inr o', t))"

text \<open>UPDATE mall_orders SET status = ?, updated_at = NOW() WHERE cond; the result is the number of rows.\<close>

definition updateOrder :: "string \<Rightarrow> (order \<Rightarrow> bool) \<Rightarrow> (ord_tables, nat) sql" where
  "updateOrder status cond now t =
     (Inr (length (filter cond (orders t))),
      t\<lparr>orders := map (\<lambda>o'. if cond o' then o'\<lparr>ord_Status := status, ord_UpdatedAt := now\<rparr> else o')
          (orders t)\<rparr>)"

declare insertOrder_def [sql_defs] selectOrder_def [sql_defs] updateOrder_def [sql_defs]

subsection \<open>The branches\<close>

definition prepareOrder :: "saga_payload \<Rightarrow> (ord_tables, unit) tx" where
  "prepareOrder p =
     (case validatePayload p of
        Some err \<Rightarrow> tx_fail err
      | None \<Rightarrow>
          tx_bind (stmt (insertOrder p OrderPending)) (\<lambda>affected.
            if affected > 0 then tx_return ()
            else tx_bind (stmt (selectOrder (\<lambda>o'. ord_UserID o' = UserID p \<and> ord_RequestID o' = RequestID p)))
              (\<lambda>o'. if ord_ID o' \<noteq> OrderID p \<or> ord_ProductID o' \<noteq> ProductID p \<or>
                       ord_Quantity o' \<noteq> Quantity p \<or> ord_TotalPoints o' \<noteq> TotalPoints p
                     then tx_fail ErrIdempotencyConflict
                     else tx_return ())))"

definition cancelOrder :: "saga_payload \<Rightarrow> (ord_tables, unit) tx" where
  "cancelOrder p =
     tx_bind (stmt (updateOrder OrderCompensated
        (\<lambda>o'. ord_ID o' = OrderID p \<and> ord_Status o' \<noteq> OrderCompensated))) (\<lambda>_. tx_return ())"

definition confirmOrder :: "saga_payload \<Rightarrow> (ord_tables, unit) tx" where
  "confirmOrder p =
     tx_bind (stmt (updateOrder OrderConfirmed
        (\<lambda>o'. ord_ID o' = OrderID p \<and> ord_Status o' = OrderPending))) (\<lambda>affected.
          if affected > 0 then tx_return ()
          else tx_bind (stmt (selectOrder (\<lambda>o'. ord_ID o' = OrderID p))) (\<lambda>o'.
            if ord_Status o' \<noteq> OrderConfirmed
            then tx_fail (ErrNew (''cannot confirm order in status '' @ ord_Status o'))
            else tx_return ()))"

subsection \<open>Unique keys and the life of an order\<close>

definition ord_ok :: "ord_tables \<Rightarrow> bool" where
  "ord_ok t \<longleftrightarrow>
     distinct (map ord_ID (orders t)) \<and>
     distinct (map (\<lambda>o'. (ord_UserID o', ord_RequestID o')) (orders t)) \<and>
     distinct (map ord_SagaGID (orders t)) \<and>
     (\<forall>o' \<in> set (orders t). ord_Status o' \<in> {OrderPending, OrderConfirmed, OrderCompensated})"

datatype OrderBranch = OrderPrepare | OrderCancel | OrderConfirm

fun ApplyOrderBranch :: "saga_payload \<Rightarrow> OrderBranch \<Rightarrow> (ord_tables, unit) tx" where
  "ApplyOrderBranch p OrderPrepare = prepareOrder p"
| "ApplyOrderBranch p OrderCancel = cancelOrder p"
| "ApplyOrderBranch p OrderConfirm = confirmOrder p"

lemma ord_ok_map:
  assumes "ord_ok t" and "\<And>o'. f o' = o' \<or> f o' = o'\<lparr>ord_Status := st, ord_UpdatedAt := now\<rparr>"
    and "st \<in> {OrderPending, OrderConfirmed, OrderCompensated}"
  shows "ord_ok (t\<lparr>orders := map f (orders t)\<rparr>)"
proof -
  have eq: "ord_ID (f o') = ord_ID o'" "ord_UserID (f o') = ord_UserID o'"
    "ord_RequestID (f o') = ord_RequestID o'" "ord_SagaGID (f o') = ord_SagaGID o'" for o'
    using assms(2) [of o'] by auto
  have status: "ord_Status (f o') \<in> {OrderPending, OrderConfirmed, OrderCompensated}"
    if "o' \<in> set (orders t)" for o'
    using assms(1,3) assms(2) [of o'] that by (auto simp: ord_ok_def)
  show ?thesis
    using assms(1) status by (simp add: ord_ok_def comp_def eq)
qed

lemma ApplyOrderBranch_ok:
  "ord_ok t \<Longrightarrow> always (ApplyOrderBranch p b) t (\<lambda>r t'. ord_ok t')"
proof (cases b)
  case OrderPrepare
  assume ok: "ord_ok t"
  have "ord_ok (t\<lparr>orders := orders t @ [o']\<rparr>)"
    if "\<not> list_ex (order_conflicts (ord_ID o') (ord_UserID o') (ord_RequestID o') (ord_SagaGID o')) (orders t)"
      "ord_Status o' = OrderPending" for o'
    using ok that by (force simp: ord_ok_def order_conflicts_def list_ex_iff)
  with ok OrderPrepare show ?thesis
    by (auto simp: prepareOrder_def always_simps sql_defs split: option.splits)
next
  case OrderCancel
  assume "ord_ok t"
  with OrderCancel show ?thesis
    by (auto simp: cancelOrder_def always_simps sql_defs intro!: ord_ok_map)
next
  case OrderConfirm
  assume "ord_ok t"
  then have "ord_ok (t\<lparr>orders := map (\<lambda>o'. if ord_ID o' = OrderID p \<and> ord_Status o' = OrderPending
      then o'\<lparr>ord_Status := OrderConfirmed, ord_UpdatedAt := now\<rparr> else o') (orders t)\<rparr>)" for now
    by (rule ord_ok_map) auto
  with \<open>ord_ok t\<close> OrderConfirm show ?thesis
    by (auto simp: confirmOrder_def always_simps sql_defs split: option.splits)
qed

text \<open>The state machine of an order row, found by its primary key.\<close>

definition order_of :: "ord_tables \<Rightarrow> string \<Rightarrow> order option" where
  "order_of t oid = List.find (\<lambda>o'. ord_ID o' = oid) (orders t)"

inductive ord_step :: "order option \<Rightarrow> order option \<Rightarrow> bool" where
  stay: "ord_step r r"
| create: "ord_Status o' = OrderPending \<Longrightarrow> ord_step None (Some o')"
| confirm: "ord_Status o' = OrderPending \<Longrightarrow>
    ord_step (Some o') (Some (o'\<lparr>ord_Status := OrderConfirmed, ord_UpdatedAt := now\<rparr>))"
| cancel: "ord_Status o' \<noteq> OrderCompensated \<Longrightarrow>
    ord_step (Some o') (Some (o'\<lparr>ord_Status := OrderCompensated, ord_UpdatedAt := now\<rparr>))"

inductive_cases ord_step_SomeE: "ord_step (Some o') r"

lemma find_append: "List.find P (xs @ ys) = (case List.find P xs of None \<Rightarrow> List.find P ys | Some x \<Rightarrow> Some x)"
  by (induction xs) auto

lemma find_map_same:
  "(\<And>x. P (f x) = P x) \<Longrightarrow> List.find P (map f xs) = map_option f (List.find P xs)"
  by (induction xs) auto

lemma ord_step_map:
  assumes "\<And>o'. ord_ID (f o') = ord_ID o'" and "\<And>o'. ord_step (Some o') (Some (f o'))"
  shows "ord_step (order_of t oid) (order_of (t\<lparr>orders := map f (orders t)\<rparr>) oid)"
proof (cases "order_of t oid")
  case None
  then show ?thesis by (simp add: order_of_def find_map_same assms(1) ord_step.stay)
next
  case (Some o')
  then show ?thesis using assms(2) [of o'] by (simp add: order_of_def find_map_same assms(1))
qed

lemma ord_step_append:
  "ord_Status o' = OrderPending \<Longrightarrow>
   ord_step (order_of t oid) (order_of (t\<lparr>orders := orders t @ [o']\<rparr>) oid)"
  by (auto simp: order_of_def find_append split: option.splits intro: ord_step.intros)

lemma ApplyOrderBranch_step:
  "always (ApplyOrderBranch p b) t (\<lambda>r t'. \<forall>oid. ord_step (order_of t oid) (order_of t' oid))"
proof (cases b)
  case OrderPrepare
  then show ?thesis
    by (auto simp: prepareOrder_def always_simps sql_defs ord_step.stay
        split: option.splits intro!: ord_step_append)
next
  case OrderCancel
  have "ord_step (order_of t oid) (order_of (t\<lparr>orders := map (\<lambda>o'.
      if ord_ID o' = OrderID p \<and> ord_Status o' \<noteq> OrderCompensated
      then o'\<lparr>ord_Status := OrderCompensated, ord_UpdatedAt := now\<rparr> else o') (orders t)\<rparr>) oid)" for now oid
    by (rule ord_step_map) (auto intro: ord_step.intros)
  with OrderCancel show ?thesis
    by (auto simp: cancelOrder_def always_simps sql_defs ord_step.stay)
next
  case OrderConfirm
  have "ord_step (order_of t oid) (order_of (t\<lparr>orders := map (\<lambda>o'.
      if ord_ID o' = OrderID p \<and> ord_Status o' = OrderPending
      then o'\<lparr>ord_Status := OrderConfirmed, ord_UpdatedAt := now\<rparr> else o') (orders t)\<rparr>) oid)" for now oid
    by (rule ord_step_map) (auto intro: ord_step.intros)
  with OrderConfirm show ?thesis
    by (auto simp: confirmOrder_def always_simps sql_defs ord_step.stay split: option.splits)
qed

subsection \<open>The abstract contract\<close>

text \<open>
  What the branches promise for one order: its row, without the timestamps. The Coordinator derives
  order id and Saga id from user and request, so no two orders share some of these keys but not
  all; ord_keys says so for the rows of the table.
\<close>

type_synonym ord_view = "(int \<times> string \<times> int \<times> int \<times> int \<times> string) option"

definition ord_view :: "saga_payload \<Rightarrow> ord_tables \<Rightarrow> ord_view" where
  "ord_view p t = map_option (\<lambda>o'. (ord_UserID o', ord_RequestID o', ord_ProductID o', ord_Quantity o',
     ord_TotalPoints o', ord_Status o')) (order_of t (OrderID p))"

fun ord_spec :: "OrderBranch \<Rightarrow> saga_payload \<Rightarrow> ord_view \<Rightarrow> goerr + ord_view" where
  "ord_spec OrderPrepare p v =
     (case validatePayload p of
        Some err \<Rightarrow> Inl err
      | None \<Rightarrow>
          (case v of
             None \<Rightarrow> Inr (Some (UserID p, RequestID p, ProductID p, Quantity p, TotalPoints p, OrderPending))
           | Some (u, rq, pid, q, tp, st) \<Rightarrow>
               if pid \<noteq> ProductID p \<or> q \<noteq> Quantity p \<or> tp \<noteq> TotalPoints p
               then Inl ErrIdempotencyConflict else Inr v))"
| "ord_spec OrderCancel p v =
     Inr (map_option (\<lambda>(u, rq, pid, q, tp, st). (u, rq, pid, q, tp, OrderCompensated)) v)"
| "ord_spec OrderConfirm p v =
     (case v of
        None \<Rightarrow> Inl ErrNoRows
      | Some (u, rq, pid, q, tp, st) \<Rightarrow>
          if st = OrderCompensated then Inl (ErrNew (''cannot confirm order in status '' @ OrderCompensated))
          else Inr (Some (u, rq, pid, q, tp, OrderConfirmed)))"

definition ord_frame :: "saga_payload \<Rightarrow> ord_tables \<Rightarrow> ord_tables \<Rightarrow> bool" where
  "ord_frame p t t' \<longleftrightarrow> (\<forall>oid. oid \<noteq> OrderID p \<longrightarrow> order_of t' oid = order_of t oid)"

definition ord_keys :: "saga_payload \<Rightarrow> ord_tables \<Rightarrow> bool" where
  "ord_keys p t \<longleftrightarrow> (\<forall>o' \<in> set (orders t).
     (ord_ID o' = OrderID p \<longleftrightarrow> ord_UserID o' = UserID p \<and> ord_RequestID o' = RequestID p) \<and>
     (ord_ID o' = OrderID p \<longleftrightarrow> ord_SagaGID o' = SagaGID p))"

definition ord_good :: "saga_payload \<Rightarrow> nat \<Rightarrow> ord_tables \<Rightarrow> bool" where
  "ord_good p n t \<longleftrightarrow> ord_ok t \<and> ord_keys p t \<and> Quantity p < 2 ^ 31"

lemma find_cong: "(\<And>x. x \<in> set xs \<Longrightarrow> P x = Q x) \<Longrightarrow> List.find P xs = List.find Q xs"
  by (induction xs) auto

lemma order_of_map:
  "(\<And>o'. ord_ID (f o') = ord_ID o') \<Longrightarrow>
   order_of (t\<lparr>orders := map f (orders t)\<rparr>) oid = map_option f (order_of t oid)"
  by (simp add: order_of_def find_map_same)

lemma order_of_None: "order_of t oid = None \<longleftrightarrow> (\<forall>o' \<in> set (orders t). ord_ID o' \<noteq> oid)"
  by (auto simp: order_of_def find_None_iff)

lemma order_of_SomeD: "order_of t oid = Some o' \<Longrightarrow> ord_ID o' = oid \<and> o' \<in> set (orders t)"
  by (auto simp: order_of_def find_Some_iff)

lemma order_of_append:
  "order_of (t\<lparr>orders := orders t @ [o']\<rparr>) oid =
     (case order_of t oid of None \<Rightarrow> if ord_ID o' = oid then Some o' else None | Some x \<Rightarrow> Some x)"
  by (auto simp: order_of_def find_append split: option.splits)

lemma ord_keys_map:
  assumes "ord_keys p t"
    and "\<And>o'. ord_ID (f o') = ord_ID o' \<and> ord_UserID (f o') = ord_UserID o' \<and>
      ord_RequestID (f o') = ord_RequestID o' \<and> ord_SagaGID (f o') = ord_SagaGID o'"
  shows "ord_keys p (t\<lparr>orders := map f (orders t)\<rparr>)"
  using assms(1) unfolding ord_keys_def by (simp add: assms(2)) blast

lemma prepare_order_implements:
  assumes g: "ord_good p n t"
  shows "implements t (prepareOrder p) now (ord_spec OrderPrepare p (ord_view p t)) (ord_view p) (ord_frame p)"
proof (cases "validatePayload p")
  case (Some err)
  then show ?thesis by (auto simp: implements_def prepareOrder_def tx_run)
next
  case valid: None
  have q: "clamp32 (Quantity p) = Quantity p"
    using g valid by (auto simp: clamp32_def ord_good_def validatePayload_def split: if_splits)
  have keys: "ord_keys p t" using g by (simp add: ord_good_def)
  have conflict: "list_ex (order_conflicts (OrderID p) (UserID p) (RequestID p) (SagaGID p)) (orders t)
      \<longleftrightarrow> order_of t (OrderID p) \<noteq> None"
    using keys by (auto simp: list_ex_iff order_conflicts_def ord_keys_def order_of_None)
  have find: "List.find (\<lambda>o'. ord_UserID o' = UserID p \<and> ord_RequestID o' = RequestID p) (orders t) =
      order_of t (OrderID p)"
    unfolding order_of_def by (rule find_cong) (use keys in \<open>auto simp: ord_keys_def\<close>)
  show ?thesis
  proof (cases "order_of t (OrderID p)")
    case None
    with valid q conflict show ?thesis
      by (auto simp: implements_def prepareOrder_def tx_run sql_defs ord_view_def ord_frame_def
          order_of_append split: option.splits)
  next
    case (Some o')
    with valid conflict find order_of_SomeD [OF Some] show ?thesis
      by (auto simp: implements_def prepareOrder_def tx_run sql_defs ord_view_def ord_frame_def)
  qed
qed

text \<open>An update that only hits rows with the id of the order.\<close>

lemma update_effect:
  assumes "\<And>o'. cond o' \<Longrightarrow> ord_ID o' = OrderID p"
    and t': "t' = t\<lparr>orders := map (\<lambda>o'. if cond o' then o'\<lparr>ord_Status := st, ord_UpdatedAt := now\<rparr> else o') (orders t)\<rparr>"
  shows "ord_frame p t t'"
    and "ord_view p t' = map_option (\<lambda>o'. (ord_UserID o', ord_RequestID o', ord_ProductID o', ord_Quantity o',
      ord_TotalPoints o', if cond o' then st else ord_Status o')) (order_of t (OrderID p))"
proof -
  let ?f = "\<lambda>o'. if cond o' then o'\<lparr>ord_Status := st, ord_UpdatedAt := now\<rparr> else o'"
  have eq: "order_of t' oid = map_option ?f (order_of t oid)" for oid
    unfolding t' by (rule order_of_map) simp
  have other: "?f o' = o'" if "order_of t oid = Some o'" "oid \<noteq> OrderID p" for oid o'
    using that assms(1) [of o'] order_of_SomeD by fastforce
  show "ord_frame p t t'"
    unfolding ord_frame_def
  proof (intro allI impI)
    fix oid assume "oid \<noteq> OrderID p"
    with other show "order_of t' oid = order_of t oid" by (cases "order_of t oid") (simp_all add: eq)
  qed
  show "ord_view p t' = map_option (\<lambda>o'. (ord_UserID o', ord_RequestID o', ord_ProductID o', ord_Quantity o',
      ord_TotalPoints o', if cond o' then st else ord_Status o')) (order_of t (OrderID p))"
    by (cases "order_of t (OrderID p)") (simp_all add: ord_view_def eq)
qed

lemma implements_okI:
  "m (quiet now t) = (Inr (), quiet now t') \<Longrightarrow> sp = Inr (view t') \<Longrightarrow> frame t t' \<Longrightarrow>
   implements t m now sp view frame"
  by (auto simp: implements_def)

lemma implements_errI:
  "m (quiet now t) = (Inl e, quiet now t') \<Longrightarrow> sp = Inl e \<Longrightarrow> implements t m now sp view frame"
  by (auto simp: implements_def)

lemma cancel_order_implements:
  "implements t (cancelOrder p) now (ord_spec OrderCancel p (ord_view p t)) (ord_view p) (ord_frame p)"
proof -
  let ?c = "\<lambda>o'. ord_ID o' = OrderID p \<and> ord_Status o' \<noteq> OrderCompensated"
  let ?t = "t\<lparr>orders := map (\<lambda>o'. if ?c o' then o'\<lparr>ord_Status := OrderCompensated, ord_UpdatedAt := now\<rparr> else o') (orders t)\<rparr>"
  note u = update_effect [of ?c p ?t now OrderCompensated t, OF _ refl]
  show ?thesis
  proof (rule implements_okI [of _ _ _ ?t])
    show "cancelOrder p (quiet now t) = (Inr (), quiet now ?t)"
      by (simp add: cancelOrder_def tx_run sql_defs)
    show "ord_spec OrderCancel p (ord_view p t) = Inr (ord_view p ?t)"
    proof (cases "order_of t (OrderID p)")
      case None
      then show ?thesis using u(2) by (simp add: ord_view_def [of p t])
    next
      case (Some o')
      then show ?thesis using u(2) order_of_SomeD [OF Some] by (simp add: ord_view_def [of p t])
    qed
  qed (rule u(1), simp)
qed

lemma confirm_order_implements:
  assumes g: "ord_good p n t"
  shows "implements t (confirmOrder p) now (ord_spec OrderConfirm p (ord_view p t)) (ord_view p) (ord_frame p)"
proof -
  let ?c = "\<lambda>o'. ord_ID o' = OrderID p \<and> ord_Status o' = OrderPending"
  let ?t = "t\<lparr>orders := map (\<lambda>o'. if ?c o' then o'\<lparr>ord_Status := OrderConfirmed, ord_UpdatedAt := now\<rparr> else o') (orders t)\<rparr>"
  note u = update_effect [of ?c p ?t now OrderConfirmed t, OF _ refl]
  have dist: "inj_on ord_ID (set (orders t))" using g by (simp add: ord_good_def ord_ok_def distinct_map)
  have hit: "filter ?c (orders t) \<noteq> [] \<longleftrightarrow> (\<exists>o'. order_of t (OrderID p) = Some o' \<and> ord_Status o' = OrderPending)"
  proof
    assume "filter ?c (orders t) \<noteq> []"
    then obtain o1 where o1: "o1 \<in> set (orders t)" "ord_ID o1 = OrderID p" "ord_Status o1 = OrderPending"
      by (auto simp: filter_empty_conv)
    then obtain o2 where o2: "order_of t (OrderID p) = Some o2"
      using order_of_None [of t "OrderID p"] by (cases "order_of t (OrderID p)") auto
    have "o2 = o1" using order_of_SomeD [OF o2] o1 by (intro inj_onD [OF dist]) auto
    with o1 o2 show "\<exists>o'. order_of t (OrderID p) = Some o' \<and> ord_Status o' = OrderPending" by blast
  qed (use order_of_SomeD in \<open>fastforce simp: filter_empty_conv\<close>)
  show ?thesis
  proof (cases "filter ?c (orders t) = []")
    case False
    then obtain o' where o': "order_of t (OrderID p) = Some o'" "ord_Status o' = OrderPending" using hit by blast
    show ?thesis
    proof (rule implements_okI [of _ _ _ ?t])
      show "confirmOrder p (quiet now t) = (Inr (), quiet now ?t)"
        using False by (simp add: confirmOrder_def tx_run sql_defs)
      show "ord_spec OrderConfirm p (ord_view p t) = Inr (ord_view p ?t)"
        using u(2) o' order_of_SomeD [OF o'(1)] by (simp add: ord_view_def [of p t])
    qed (rule u(1), simp)
  next
    case True
    then have "map (\<lambda>o'. if ?c o' then o'\<lparr>ord_Status := OrderConfirmed, ord_UpdatedAt := now\<rparr> else o') (orders t)
        = orders t"
      by (intro map_idI) (auto simp: filter_empty_conv)
    then have same: "updateOrder OrderConfirmed ?c now t = (Inr 0, t)"
      using True by (simp add: updateOrder_def)
    have sel: "selectOrder (\<lambda>o'. ord_ID o' = OrderID p) now t =
        (case order_of t (OrderID p) of None \<Rightarrow> (Inl ErrNoRows, t) | Some o' \<Rightarrow> (Inr o', t))"
      by (simp add: selectOrder_def order_of_def)
    show ?thesis
    proof (cases "order_of t (OrderID p)")
      case None
      then show ?thesis
        by (intro implements_errI [of _ _ _ ErrNoRows t])
          (simp_all add: confirmOrder_def tx_run same sel ord_view_def)
    next
      case (Some o')
      with True hit order_of_SomeD [OF Some] g
      have st: "ord_Status o' = OrderConfirmed \<or> ord_Status o' = OrderCompensated"
        by (auto simp: ord_good_def ord_ok_def)
      then show ?thesis
      proof
        assume "ord_Status o' = OrderConfirmed"
        with Some show ?thesis
          by (intro implements_okI [of _ _ _ t])
            (simp_all add: confirmOrder_def tx_run same sel ord_view_def ord_frame_def)
      next
        assume "ord_Status o' = OrderCompensated"
        with Some show ?thesis
          by (intro implements_errI [of _ _ _ "ErrNew (''cannot confirm order in status '' @ OrderCompensated)" t])
            (simp_all add: confirmOrder_def tx_run same sel ord_view_def)
      qed
    qed
  qed
qed

lemma ord_keys_append:
  "ord_keys p t \<Longrightarrow> ord_ID o' = OrderID p \<and> ord_UserID o' = UserID p \<and> ord_RequestID o' = RequestID p \<and>
     ord_SagaGID o' = SagaGID p \<Longrightarrow> ord_keys p (t\<lparr>orders := orders t @ [o']\<rparr>)"
  by (auto simp: ord_keys_def)

lemma ApplyOrderBranch_keys: "ord_keys p t \<Longrightarrow> always (ApplyOrderBranch p b) t (\<lambda>r t'. ord_keys p t')"
proof (cases b)
  case OrderPrepare
  assume "ord_keys p t"
  with OrderPrepare show ?thesis
    by (auto simp: prepareOrder_def always_simps sql_defs split: option.splits intro!: ord_keys_append)
next
  case OrderCancel
  assume "ord_keys p t"
  with OrderCancel show ?thesis
    by (auto simp: cancelOrder_def always_simps sql_defs intro!: ord_keys_map)
next
  case OrderConfirm
  assume k: "ord_keys p t"
  have "ord_keys p (t\<lparr>orders := map (\<lambda>o'. if ord_ID o' = OrderID p \<and> ord_Status o' = OrderPending
      then o'\<lparr>ord_Status := OrderConfirmed, ord_UpdatedAt := now\<rparr> else o') (orders t)\<rparr>)" for now
    by (rule ord_keys_map [OF k]) simp
  with k OrderConfirm show ?thesis
    by (auto simp: confirmOrder_def always_simps sql_defs split: option.splits)
qed

interpretation ord_party: participant "ApplyOrderBranch p" "\<lambda>x. ord_spec x p" "ord_view p"
    "ord_frame p" "ord_good p"
proof unfold_locales
  fix n t x now
  assume g: "ord_good p (Suc n) t"
  then have g': "ord_ok t" "ord_keys p t" "Quantity p < 2 ^ 31" by (auto simp: ord_good_def)
  have keep: "ord_good p n t'" if m: "ApplyOrderBranch p x (quiet now t) = (Inr (), quiet now t')" for t'
  proof -
    have "keeps (ApplyOrderBranch p x) ord_ok" "keeps (ApplyOrderBranch p x) (ord_keys p)"
      using ApplyOrderBranch_ok ApplyOrderBranch_keys by (blast intro: always_mono)+
    from keeps_quiet [OF this(1) g'(1) m] keeps_quiet [OF this(2) g'(2) m] g'(3)
    show ?thesis by (simp add: ord_good_def)
  qed
  have "implements t (ApplyOrderBranch p x) now (ord_spec x p (ord_view p t)) (ord_view p) (ord_frame p)"
    by (cases x) (simp_all add: prepare_order_implements [OF g] cancel_order_implements confirm_order_implements [OF g] del: ord_spec.simps)
  then show "implements t (ApplyOrderBranch p x) now (ord_spec x p (ord_view p t)) (ord_view p)
      (\<lambda>t t'. ord_frame p t t' \<and> ord_good p n t')"
    using keep by (auto simp: implements_def split: sum.splits)
qed (auto simp: ord_good_def ord_frame_def)

end
