(* ===== verification/Mall_Branch.thy ===== *)
theory Mall_Branch
  imports Mall_Inventory Mall_Points Mall_Orders
begin

text \<open>
  The HTTP server of the Saga branches (internal/rpc/mall/domain/http.go): the routes of the three
  roles, the handler around every branch operation and the status it answers.

  The DTM client library is not under src/. Its barrier is a parameter: call_barrier takes the
  branch operation as a transaction body and runs it on the database. What the handler relies
  on is that the library runs the body inside one database transaction, committed when it
  succeeds and rolled back when it fails, or skips it (an operation done before, a compensation
  without its action): the locale branch_barrier.
\<close>

subsection \<open>The barrier\<close>

type_synonym 't barrier_call = "('t, unit) tx \<Rightarrow> ('t, unit) tx"

text \<open>
  The tables after a call through the barrier are those before it, or those that a successful run
  of the body leaves.
\<close>

locale branch_barrier =
  fixes call :: "'t barrier_call"
  assumes atomic: "always operation t (\<lambda>r t'. (\<exists>e. r = Inl e) \<or> Q t') \<Longrightarrow>
    always (call operation) t (\<lambda>r t'. t' = t \<or> Q t')"
begin

lemma call_keeps:
  assumes "\<And>t. I t \<Longrightarrow> always operation t (\<lambda>r t'. (\<exists>e. r = Inl e) \<or> I t')" and "I (tables s)"
    and "call operation s = (r, s')"
  shows "I (tables s')"
  using alwaysD [OF atomic [OF assms(1) [OF assms(2)]] assms(3)] assms(2) by auto

end

subsection \<open>The handler\<close>

datatype branch_body = ResultSuccess | ResultFailure

datatype branch_metric =
    RequestsInc string string        \<comment> \<open>mall_saga_branch_total by operation and result\<close>
  | LatencyObserve string            \<comment> \<open>mall_saga_branch_latency_seconds by operation\<close>
  | RetriesInc string string         \<comment> \<open>mall_saga_branch_retries_total by operation and reason\<close>

record branch_request =
  req_method :: string
  req_payload :: "goerr + saga_payload"      \<comment> \<open>decoding the body, limited to 64 KiB\<close>
  req_barrier :: "goerr + string \<times> string"   \<comment> \<open>BarrierFromQuery: gid and branch id\<close>

record branch_reply =
  rep_status :: nat
  rep_body :: "branch_body option"
  rep_metrics :: "branch_metric list"

definition writeBranchResult :: "goerr option \<Rightarrow> nat \<times> branch_body" where
  "writeBranchResult err =
     (case err of
        None \<Rightarrow> (200, ResultSuccess)
      | Some e \<Rightarrow>
          if err_is e ErrInsufficientStock \<or> err_is e ErrInsufficientPoints \<or>
             err_is e ErrIdempotencyConflict \<or> err_is e ErrInjectedFailure
          then (409, ResultFailure) else (500, ResultFailure))"

text \<open>
  The retry loop of the handler: the attempts that remain, the error of the last one, and the
  retry metrics counted so far.
\<close>

fun branch_attempts ::
    "'t barrier_call \<Rightarrow> ('t, unit) tx \<Rightarrow> string \<Rightarrow> goerr + string \<times> string \<Rightarrow> nat \<Rightarrow> goerr option \<Rightarrow>
     branch_metric list \<Rightarrow> 't tx_state \<Rightarrow> (goerr option \<times> branch_metric list) \<times> 't tx_state" where
  "branch_attempts call operation name barrier 0 err ms s = ((err, ms), s)"
| "branch_attempts call operation name barrier (Suc n) err ms s =
     (case barrier of
        Inl e \<Rightarrow> ((Some e, ms), s)
      | Inr _ \<Rightarrow>
          (case call operation s of
             (Inr _, s') \<Rightarrow> ((None, ms), s')
           | (Inl e, s') \<Rightarrow>
               if isMySQLDeadlock e
               then branch_attempts call operation name barrier n (Some e)
                      (ms @ [RetriesInc name ''mysql_deadlock'']) s'
               else ((Some e, ms), s')))"

definition branch ::
    "(string \<Rightarrow> string) \<Rightarrow> 't barrier_call \<Rightarrow> string \<Rightarrow> (saga_payload \<Rightarrow> ('t, unit) tx) \<Rightarrow>
     branch_request \<Rightarrow> 't tx_state \<Rightarrow> branch_reply \<times> 't tx_state" where
  "branch getenv call name operation req s =
     (if req_method req \<noteq> ''POST''
      then (\<lparr>rep_status = 405, rep_body = None, rep_metrics = []\<rparr>, s)
      else
        let reply = (\<lambda>err result ms. case writeBranchResult err of (st, body) \<Rightarrow>
              \<lparr>rep_status = st, rep_body = Some body,
               rep_metrics = ms @ [RequestsInc name result, LatencyObserve name]\<rparr>)
        in case req_payload req of
             Inl e \<Rightarrow> (reply (Some (Wrapf ''decode payload: '' e '''')) ''failure'' [], s)
           | Inr payload \<Rightarrow>
               if FailAt payload = name
               then (reply (Some (Wrapf '''' ErrInjectedFailure ('' at '' @ name))) ''failure'' [], s)
               else case branch_attempts call (operation payload) name (req_barrier req)
                           (branchMaxAttempts getenv) None [] s of
                      ((err, ms), s') \<Rightarrow>
                        (reply err (if err = None then ''success'' else ''failure'') ms, s'))"

subsection \<open>Routes\<close>

datatype branch_op = OrderOp OrderBranch | InventoryOp InventoryOperation | PointsOp PointsOperation

text \<open>BranchServer.Handler: for every role, the path, the metric name and the operation.\<close>

definition branch_routes :: "string \<Rightarrow> (string \<times> string \<times> branch_op) list" where
  "branch_routes role =
     (if role = ''order'' then
        [(''/dtm/order/prepare'', ''order_prepare'', OrderOp OrderPrepare),
         (''/dtm/order/cancel'', ''order_cancel'', OrderOp OrderCancel),
         (''/dtm/order/confirm'', ''order_confirm'', OrderOp OrderConfirm)]
      else if role = ''inventory'' then
        [(''/dtm/inventory/reserve'', ''inventory_reserve'', InventoryOp InventoryReserve),
         (''/dtm/inventory/release'', ''inventory_release'', InventoryOp InventoryRelease),
         (''/dtm/inventory/confirm'', ''inventory_confirm'', InventoryOp InventoryConfirm),
         (''/dtm/inventory/unconfirm'', ''inventory_unconfirm'', InventoryOp InventoryUnconfirm)]
      else if role = ''points'' then
        [(''/dtm/points/debit'', ''points_debit'', PointsOp PointsDebit),
         (''/dtm/points/refund'', ''points_refund'', PointsOp PointsRefund)]
      else [])"

definition route :: "string \<Rightarrow> string \<Rightarrow> (string \<times> branch_op) option" where
  "route role path = map_of (branch_routes role) path"

subsection \<open>What the handler guarantees\<close>

lemma branch_attempts_keeps:
  assumes "branch_barrier call"
    and "\<And>t. I t \<Longrightarrow> always operation t (\<lambda>r t'. (\<exists>e. r = Inl e) \<or> I t')"
    and "I (tables s)" and "branch_attempts call operation name b n err ms s = (x, s')"
  shows "I (tables s')"
  using assms(3,4)
proof (induction n arbitrary: err ms s)
  case (Suc n)
  obtain r s1 where c: "call operation s = (r, s1)" by (cases "call operation s")
  have "I (tables s1)"
    using branch_barrier.call_keeps [OF assms(1), of I, OF assms(2) Suc.prems(1) c] by blast
  with Suc c show ?case by (auto split: sum.splits if_splits)
qed simp

lemma branch_keeps:
  assumes "branch_barrier call"
    and "\<And>p t. I t \<Longrightarrow> always (operation p) t (\<lambda>r t'. (\<exists>e. r = Inl e) \<or> I t')"
    and "I (tables s)" and "branch getenv call name operation req s = (rep, s')"
  shows "I (tables s')"
proof -
  have "I (tables s1)" if "branch_attempts call (operation p) name b n err ms s = (x, s1)"
    for p b n err ms x s1
    by (rule branch_attempts_keeps [OF assms(1), of I, OF assms(2) assms(3) that])
  with assms(3,4) show ?thesis
    by (auto simp: branch_def Let_def split: if_splits sum.splits prod.splits)
qed

lemma branch_attempts_result:
  assumes "branch_attempts call operation name (Inr b) (Suc n) err ms s = ((err', ms'), s')"
  shows "(err' = None \<and> (\<exists>u s1. call operation s1 = (Inr u, s'))) \<or>
     (\<exists>e s1. err' = Some e \<and> call operation s1 = (Inl e, s'))"
  using assms
proof (induction n arbitrary: err ms s)
  case 0
  then show ?case by (auto split: prod.splits sum.splits if_splits)
next
  case (Suc n)
  then show ?case
    by (auto simp del: branch_attempts.simps(2) simp: branch_attempts.simps(2) [of _ _ _ _ "Suc n"]
        split: prod.splits sum.splits if_splits)
qed

lemma branch_attempts_retries:
  "branch_attempts call operation name b n err ms s = ((err', ms'), s') \<Longrightarrow>
   \<exists>k \<le> n. ms' = ms @ replicate k (RetriesInc name ''mysql_deadlock'')"
proof (induction n arbitrary: err ms s)
  case (Suc n)
  show ?case
  proof (cases "\<exists>e s1 x. b = Inr x \<and> call operation s = (Inl e, s1) \<and> isMySQLDeadlock e")
    case True
    then obtain e s1 x where "b = Inr x" "call operation s = (Inl e, s1)" "isMySQLDeadlock e" by blast
    with Suc.prems have "branch_attempts call operation name b n (Some e)
        (ms @ [RetriesInc name ''mysql_deadlock'']) s1 = ((err', ms'), s')" by simp
    from Suc.IH [OF this] obtain k where "k \<le> n"
      "ms' = ms @ replicate (Suc k) (RetriesInc name ''mysql_deadlock'')" by auto
    then show ?thesis by (intro exI [of _ "Suc k"]) simp
  next
    case False
    with Suc.prems have "ms' = ms" by (auto split: sum.splits prod.splits if_splits)
    then show ?thesis by (intro exI [of _ 0]) simp
  qed
qed auto

text \<open>
  A barrier that runs the body in one local transaction and remembers nothing satisfies the law:
  the transaction layer of the services is an instance of the interface.
\<close>

definition run_once :: "'t barrier_call" where
  "run_once operation s = (case run_attempt operation s of ((_, r), s') \<Rightarrow> (r, s'))"

lemma run_once_atomic:
  assumes "always operation t (\<lambda>r t'. (\<exists>e. r = Inl e) \<or> Q t')"
  shows "always (run_once operation) t (\<lambda>r t'. t' = t \<or> Q t')"
  unfolding always_def
proof
  fix pl
  let ?s = "\<lparr>tables = t, plan = pl\<rparr>"
  obtain b r s' where a: "run_attempt operation ?s = ((b, r), s')" by (metis surj_pair)
  have "tables s' = t \<or> Q (tables s')"
    using run_attempt_tables [OF _ a] assms by auto
  with a show "case run_once operation ?s of (r, s') \<Rightarrow> tables s' = t \<or> Q (tables s')"
    by (simp add: run_once_def)
qed

interpretation local_tx: branch_barrier "run_once :: 't barrier_call"
  by unfold_locales (rule run_once_atomic)

subsection \<open>The three servers\<close>

text \<open>
  Serving one request: the route of the path picks the handler; a path without a route is
  answered 404 by the multiplexer (the health and metrics endpoints touch no table).
\<close>

definition not_found :: branch_reply where
  "not_found = \<lparr>rep_status = 404, rep_body = None, rep_metrics = []\<rparr>"

definition serve_order ::
    "(string \<Rightarrow> string) \<Rightarrow> ord_tables barrier_call \<Rightarrow> string \<Rightarrow> branch_request \<Rightarrow>
     ord_tables tx_state \<Rightarrow> branch_reply \<times> ord_tables tx_state" where
  "serve_order getenv call path req s =
     (case route ''order'' path of
        Some (name, OrderOp b) \<Rightarrow> branch getenv call name (\<lambda>p. ApplyOrderBranch p b) req s
      | _ \<Rightarrow> (not_found, s))"

definition serve_inventory ::
    "(string \<Rightarrow> string) \<Rightarrow> inv_tables barrier_call \<Rightarrow> string \<Rightarrow> branch_request \<Rightarrow>
     inv_tables tx_state \<Rightarrow> branch_reply \<times> inv_tables tx_state" where
  "serve_inventory getenv call path req s =
     (case route ''inventory'' path of
        Some (name, InventoryOp b) \<Rightarrow> branch getenv call name (\<lambda>p. ApplyInventoryMutation p b) req s
      | _ \<Rightarrow> (not_found, s))"

definition serve_points ::
    "(string \<Rightarrow> string) \<Rightarrow> pts_tables barrier_call \<Rightarrow> string \<Rightarrow> branch_request \<Rightarrow>
     pts_tables tx_state \<Rightarrow> branch_reply \<times> pts_tables tx_state" where
  "serve_points getenv call path req s =
     (case route ''points'' path of
        Some (name, PointsOp b) \<Rightarrow> branch getenv call name (\<lambda>p. ApplyPointsMutation p b) req s
      | _ \<Rightarrow> (not_found, s))"

text \<open>Any number of requests to one server, whatever they are answered.\<close>

fun serve_all ::
    "(string \<Rightarrow> branch_request \<Rightarrow> 't tx_state \<Rightarrow> branch_reply \<times> 't tx_state) \<Rightarrow>
     (string \<times> branch_request) list \<Rightarrow> 't tx_state \<Rightarrow> 't tx_state" where
  "serve_all serve [] s = s"
| "serve_all serve ((path, req) # rs) s = serve_all serve rs (snd (serve path req s))"

lemma serve_all_invariant:
  assumes "\<And>path req s. I (tables s) \<Longrightarrow> I (tables (snd (serve path req s)))" and "I (tables s)"
  shows "I (tables (serve_all serve rs s))"
  using assms(2) by (induction rs arbitrary: s) (use assms(1) in auto)

lemma serve_order_keeps:
  assumes "branch_barrier call" and "I (tables s)"
    and "\<And>p b t. I t \<Longrightarrow> always (ApplyOrderBranch p b) t (\<lambda>r t'. (\<exists>e. r = Inl e) \<or> I t')"
  shows "I (tables (snd (serve_order getenv call path req s)))"
  using branch_keeps [OF assms(1), of I, OF assms(3) assms(2) prod.collapse [symmetric]] assms(2)
  by (auto simp: serve_order_def split: option.splits branch_op.splits)

lemma serve_inventory_keeps:
  assumes "branch_barrier call" and "I (tables s)"
    and "\<And>p b t. I t \<Longrightarrow> always (ApplyInventoryMutation p b) t (\<lambda>r t'. (\<exists>e. r = Inl e) \<or> I t')"
  shows "I (tables (snd (serve_inventory getenv call path req s)))"
  using branch_keeps [OF assms(1), of I, OF assms(3) assms(2) prod.collapse [symmetric]] assms(2)
  by (auto simp: serve_inventory_def split: option.splits branch_op.splits)

lemma serve_points_keeps:
  assumes "branch_barrier call" and "I (tables s)"
    and "\<And>t b. I t \<Longrightarrow> \<forall>p. req_payload req = Inr p \<longrightarrow>
           always (ApplyPointsMutation p b) t (\<lambda>r t'. (\<exists>e. r = Inl e) \<or> I t')"
  shows "I (tables (snd (serve_points getenv call path req s)))"
proof -
  have "I (tables (snd (branch getenv call name (\<lambda>p. ApplyPointsMutation p b) req s)))" for name b
  proof (cases "req_payload req")
    case (Inl e)
    then show ?thesis
      using assms(2) by (auto simp: branch_def Let_def split: prod.splits)
  next
    case (Inr p)
    have "I (tables (snd (branch getenv call name (\<lambda>_. ApplyPointsMutation p b) req s)))"
      by (rule branch_keeps [OF assms(1), of I, OF _ assms(2) prod.collapse [symmetric]])
        (use assms(3) Inr in blast)
    moreover have "branch getenv call name (\<lambda>p. ApplyPointsMutation p b) req s =
        branch getenv call name (\<lambda>_. ApplyPointsMutation p b) req s"
      using Inr by (simp add: branch_def)
    ultimately show ?thesis by simp
  qed
  then show ?thesis using assms(2)
    by (auto simp: serve_points_def split: option.splits branch_op.splits)
qed

subsection \<open>Properties\<close>

lemma writeBranchResult_200: "fst (writeBranchResult err) = 200 \<longleftrightarrow> err = None"
  by (auto simp: writeBranchResult_def split: option.splits)

lemma branch_attempts_none:
  assumes "branch_attempts call operation name b n err ms s = ((None, ms'), s')" and "n \<noteq> 0"
  shows "\<exists>g s1 u. b = Inr g \<and> call operation s1 = (Inr u, s')"
proof (cases b)
  case (Inl e)
  with assms show ?thesis by (cases n) auto
next
  case (Inr g)
  obtain m where "n = Suc m" using assms(2) by (cases n) auto
  with Inr branch_attempts_result [OF assms(1) [unfolded Inr \<open>n = Suc m\<close>]] show ?thesis by auto
qed



definition same_order :: "order \<Rightarrow> order \<Rightarrow> bool" where
  "same_order o1 o2 \<longleftrightarrow>
     ord_ID o2 = ord_ID o1 \<and> ord_UserID o2 = ord_UserID o1 \<and> ord_RequestID o2 = ord_RequestID o1 \<and>
     ord_ProductID o2 = ord_ProductID o1 \<and> ord_Quantity o2 = ord_Quantity o1 \<and>
     ord_TotalPoints o2 = ord_TotalPoints o1 \<and> ord_SagaGID o2 = ord_SagaGID o1 \<and>
     (ord_Status o1 = OrderCompensated \<longrightarrow> o2 = o1)"

lemma same_order_step: "same_order o1 o2 \<Longrightarrow> ord_step (Some o2) r \<Longrightarrow> \<exists>o3. r = Some o3 \<and> same_order o1 o3"
  by (auto simp: same_order_def elim!: ord_step_SomeE)

text \<open>
  (safety). Whatever requests the order server receives, through whatever barrier that runs
  branch bodies atomically, and however the database fails: an order keeps its user, request,
  product, quantity, price and Saga, it is never removed, and once compensated it is final (no
  late or repeated confirm revives it); the unique keys of the table keep holding.
\<close>

theorem compensated_order_is_final:
  assumes "branch_barrier call" and "ord_ok (tables s)" and "order_of (tables s) oid = Some o1"
  shows "ord_ok (tables (serve_all (serve_order getenv call) rs s)) \<and>
    (\<exists>o2. order_of (tables (serve_all (serve_order getenv call) rs s)) oid = Some o2 \<and> same_order o1 o2)"
proof
  show "ord_ok (tables (serve_all (serve_order getenv call) rs s))"
    by (rule serve_all_invariant [of ord_ok, OF serve_order_keeps [OF assms(1), of ord_ok] assms(2)])
      (auto intro: always_mono [OF ApplyOrderBranch_ok])
  let ?I = "\<lambda>t. \<exists>o2. order_of t oid = Some o2 \<and> same_order o1 o2"
  have "always (ApplyOrderBranch p b) t (\<lambda>r t'. (\<exists>e. r = Inl e) \<or> ?I t')" if "?I t" for p b t
  proof (rule always_mono [OF ApplyOrderBranch_step])
    fix r t' assume a: "\<forall>oid. ord_step (order_of t oid) (order_of t' oid)"
    from that obtain o2 where "order_of t oid = Some o2" "same_order o1 o2" by blast
    with same_order_step spec [OF a, of oid] show "(\<exists>e. r = Inl e) \<or> ?I t'" by simp
  qed
  then show "?I (tables (serve_all (serve_order getenv call) rs s))"
    using serve_all_invariant [of ?I, OF serve_order_keeps [OF assms(1), of ?I]] assms(3)
    by (simp add: same_order_def)
qed

definition sample_order :: order where
  "sample_order = \<lparr>ord_ID = ''o'', ord_UserID = 1, ord_RequestID = ''r'', ord_ProductID = 1,
     ord_Quantity = 1, ord_TotalPoints = 5, ord_Status = OrderCompensated, ord_SagaGID = ''mall-o'',
     ord_CreatedAt = 0, ord_UpdatedAt = 0\<rparr>"

lemma compensated_order_is_final_witness:
  "order_of (tables (serve_all (serve_order (\<lambda>_. '''') run_once)
     [(''/dtm/order/confirm'', \<lparr>req_method = ''POST'', req_payload = Inr \<lparr>OrderID = ''o'', UserID = 1,
        RequestID = ''r'', ProductID = 1, Quantity = 1, PointsPrice = 5, TotalPoints = 5,
        SagaGID = ''mall-o'', FailAt = ''''\<rparr>, req_barrier = Inr (''mall-o'', ''05'')\<rparr>)]
     (quiet 7 \<lparr>orders = [sample_order]\<rparr>))) ''o'' = Some sample_order"
proof -
  have "ord_ok (tables (quiet 7 \<lparr>orders = [sample_order]\<rparr>))"
    "order_of (tables (quiet 7 \<lparr>orders = [sample_order]\<rparr>)) ''o'' = Some sample_order"
    "ord_Status sample_order = OrderCompensated"
    by (simp_all add: ord_ok_def order_of_def sample_order_def)
  from compensated_order_is_final [OF local_tx.branch_barrier_axioms this(1,2)] this(3) show ?thesis
    unfolding same_order_def by blast
qed

text \<open>
  (invariant). Through the inventory server, with whatever requests, retries and faults and
  whatever atomic barrier, the counters stay tied to the reservations: the invariant of the
  inventory database holds after every request, so a branch that DTM repeats or reorders never
  oversells.
\<close>

theorem inventory_server_keeps_ledger:
  assumes "branch_barrier call" and "inv_ok base stock (tables s)"
  shows "inv_ok base stock (tables (serve_all (serve_inventory getenv call) rs s))"
  by (rule serve_all_invariant [of "inv_ok base stock",
      OF serve_inventory_keeps [OF assms(1), of "inv_ok base stock"] assms(2)])
    (use ApplyInventoryMutation_keeps in auto)

lemma inventory_server_keeps_ledger_witness:
  "inv_ok (\<lambda>_. 0) (\<lambda>_. 0) (tables (serve_all (serve_inventory (\<lambda>_. '''') run_once)
     [(''/dtm/inventory/reserve'', \<lparr>req_method = ''GET'', req_payload = Inl (ErrNew ''x''),
        req_barrier = Inr (''g'', ''01'')\<rparr>)]
     (quiet 7 \<lparr>inventories = Map.empty, reservations = Map.empty\<rparr>)))"
  by (rule inventory_server_keeps_ledger [OF local_tx.branch_barrier_axioms])
    (simp add: inv_ok_def)

end
