(* ===== verification/Mall_Saga.thy ===== *)
theory Mall_Saga
  imports Mall_Branch
begin

text \<open>
  The Coordinator of the points mall (internal/rpc/mall/domain/coordinator.go): how a request
  becomes a Saga, what it answers, and the list of branches it hands to DTM with their
  compensations. The DTM server that runs the Saga is not under src/: submit is a parameter, and
  what a Saga does to the three databases is stated for the sequences of branch calls that DTM
  makes (the actions in order up to the one that fails, then compensations in reverse order).
  uuid5 stands for uuid.NewSHA1 in the OID name space.
\<close>

subsection \<open>Exchange\<close>

record exchange_input =
  in_UserID :: int
  in_RequestID :: string
  in_ProductID :: int
  in_Quantity :: int
  in_FailAt :: string

record mall_tables =
  mall_orders :: "order list"
  mall_products :: "product list"

text \<open>Which of the Coordinator's fields are set.\<close>

record coordinator =
  has_CatalogDB :: bool
  has_OrderDB :: bool
  has_Saga :: bool

definition firstOrder :: "(order \<Rightarrow> bool) \<Rightarrow> (mall_tables, order) sql" where
  "firstOrder cond now t =
     (case List.find cond (mall_orders t) of None \<Rightarrow> (Inl ErrRecordNotFound, t) | Some o' \<Rightarrow> (Inr o', t))"

definition firstProduct :: "(product \<Rightarrow> bool) \<Rightarrow> (mall_tables, product) sql" where
  "firstProduct cond now t =
     (case List.find cond (mall_products t) of None \<Rightarrow> (Inl ErrRecordNotFound, t) | Some pr \<Rightarrow> (Inr pr, t))"

declare firstOrder_def [sql_defs] firstProduct_def [sql_defs]

definition deterministicOrderID :: "(string \<Rightarrow> string) \<Rightarrow> int \<Rightarrow> string \<Rightarrow> string" where
  "deterministicOrderID uuid5 userID requestID =
     uuid5 (''liveclass-mall:'' @ show_int userID @ '':'' @ requestID)"

definition exchange_payload :: "(string \<Rightarrow> string) \<Rightarrow> exchange_input \<Rightarrow> product \<Rightarrow> saga_payload" where
  "exchange_payload uuid5 input pr =
     (let orderID = deterministicOrderID uuid5 (in_UserID input) (in_RequestID input) in
      \<lparr>OrderID = orderID, UserID = in_UserID input, RequestID = in_RequestID input,
       ProductID = in_ProductID input, Quantity = in_Quantity input, PointsPrice = prod_PointsPrice pr,
       TotalPoints = wrap64 (prod_PointsPrice pr * in_Quantity input),
       SagaGID = ''mall-'' @ orderID, FailAt = in_FailAt input\<rparr>)"

text \<open>The result of a Go call that returns an order and an error.\<close>

type_synonym order_result = "order option \<times> goerr option"

definition exchange ::
    "(string \<Rightarrow> string) \<Rightarrow> (saga_payload \<Rightarrow> (mall_tables, unit) tx) \<Rightarrow> exchange_input \<Rightarrow>
     mall_tables tx_state \<Rightarrow> order_result \<times> mall_tables tx_state" where
  "exchange uuid5 submit input s =
     (case stmt (firstOrder (\<lambda>o'. ord_UserID o' = in_UserID input \<and> ord_RequestID o' = in_RequestID input)) s of
        (Inr existing, s1) \<Rightarrow>
          if ord_ProductID existing \<noteq> in_ProductID input \<or> ord_Quantity existing \<noteq> in_Quantity input
          then ((None, Some ErrIdempotencyConflict), s1)
          else ((Some existing, None), s1)
      | (Inl err, s1) \<Rightarrow>
          if \<not> err_is err ErrRecordNotFound then ((None, Some err), s1)
          else case stmt (firstProduct (\<lambda>pr. prod_ID pr = in_ProductID input \<and> prod_Active pr)) s1 of
            (Inl err, s2) \<Rightarrow> ((None, Some err), s2)
          | (Inr pr, s2) \<Rightarrow>
              if prod_PointsPrice pr \<le> 0 \<or> in_Quantity input > 100 \<or>
                 prod_PointsPrice pr > go_div (2 ^ 62) (in_Quantity input)
              then ((None, Some (ErrNew ''invalid product price or quantity'')), s2)
              else
                let payload = exchange_payload uuid5 input pr;
                    byID = stmt (firstOrder (\<lambda>o'. ord_ID o' = OrderID payload))
                in case submit payload s2 of
                     (Inl err, s3) \<Rightarrow>
                       (case byID s3 of
                          (Inr afterFailure, s4) \<Rightarrow>
                            if ord_Status afterFailure = OrderConfirmed
                            then ((Some afterFailure, None), s4)
                            else ((Some afterFailure, Some err), s4)
                        | (Inl _, s4) \<Rightarrow> ((None, Some err), s4))
                   | (Inr _, s3) \<Rightarrow>
                       (case byID s3 of
                          (Inl err, s4) \<Rightarrow> ((None, Some err), s4)
                        | (Inr o', s4) \<Rightarrow> ((Some o', None), s4)))"

text \<open>
  Exchange calls exchange through a singleflight group: callers that arrive with the same key while
  a call runs share its result, a caller alone runs it. The wrapper drops the order of a failed
  call.
\<close>

definition Exchange ::
    "coordinator option \<Rightarrow> (string \<Rightarrow> string) \<Rightarrow> (saga_payload \<Rightarrow> (mall_tables, unit) tx) \<Rightarrow> exchange_input \<Rightarrow>
     mall_tables tx_state \<Rightarrow> order_result \<times> mall_tables tx_state" where
  "Exchange c uuid5 submit input s =
     (let input = input\<lparr>in_RequestID := TrimSpace (in_RequestID input)\<rparr> in
      case c of
        None \<Rightarrow> ((None, Some (ErrNew ''mall coordinator is not initialized'')), s)
      | Some c \<Rightarrow>
          if \<not> has_CatalogDB c \<or> \<not> has_OrderDB c \<or> \<not> has_Saga c
          then ((None, Some (ErrNew ''mall coordinator is not initialized'')), s)
          else if in_UserID input \<le> 0 \<or> in_ProductID input \<le> 0 \<or> in_Quantity input \<le> 0 \<or>
             in_RequestID input = '''' \<or> length (in_RequestID input) > 64
          then ((None, Some (ErrNew ''invalid exchange request'')), s)
          else case exchange uuid5 submit input s of
              ((o', Some err), s') \<Rightarrow> ((None, Some err), s')
            | ((Some o', None), s') \<Rightarrow> ((Some o', None), s')
            | ((None, None), s') \<Rightarrow> ((None, Some (ErrNew ''unexpected mall exchange result'')), s'))"

subsection \<open>The Saga that is submitted\<close>

record submitter =
  ServerURL :: string
  OrderURL :: string
  InventoryURL :: string
  PointsURL :: string
  Timeout :: int       \<comment> \<open>nanoseconds\<close>

record saga =
  saga_server :: string
  saga_gid :: string
  saga_wait :: bool
  saga_retry_interval :: int
  saga_retry_limit :: int
  saga_timeout :: int  \<comment> \<open>seconds\<close>
  saga_steps :: "(string \<times> string) list"    \<comment> \<open>action and compensation URL, in the order they are added\<close>

definition joinURL :: "string \<Rightarrow> string \<Rightarrow> string" where
  "joinURL base path = TrimRight base (CHR ''/'') @ path"

text \<open>
  Submit builds the Saga that is sent with the payload. Duration.Seconds is a floating-point
  number; its integer part is exact for the timeouts of a configuration.
\<close>

definition Submit :: "submitter \<Rightarrow> saga_payload \<Rightarrow> goerr + saga" where
  "Submit s payload =
     (if ServerURL s = '''' \<or> OrderURL s = '''' \<or> InventoryURL s = '''' \<or> PointsURL s = ''''
      then Inl (ErrNew ''incomplete DTM Saga configuration'')
      else
        let timeout = (if Timeout s \<le> 0 then 15 * 1000000000 else Timeout s) in
        Inr \<lparr>saga_server = TrimRight (ServerURL s) (CHR ''/''), saga_gid = SagaGID payload,
          saga_wait = True, saga_retry_interval = 1, saga_retry_limit = 3,
          saga_timeout = go_div timeout 1000000000,
          saga_steps =
            [(joinURL (OrderURL s) ''/dtm/order/prepare'', joinURL (OrderURL s) ''/dtm/order/cancel''),
             (joinURL (InventoryURL s) ''/dtm/inventory/reserve'', joinURL (InventoryURL s) ''/dtm/inventory/release''),
             (joinURL (PointsURL s) ''/dtm/points/debit'', joinURL (PointsURL s) ''/dtm/points/refund''),
             (joinURL (InventoryURL s) ''/dtm/inventory/confirm'', joinURL (InventoryURL s) ''/dtm/inventory/unconfirm''),
             (joinURL (OrderURL s) ''/dtm/order/confirm'', joinURL (OrderURL s) ''/dtm/order/cancel'')]\<rparr>)"

subsection \<open>The three databases under a sequence of branch calls\<close>

record mall_world =
  w_ord :: ord_tables
  w_inv :: inv_tables
  w_pts :: pts_tables

definition run_op :: "int \<Rightarrow> saga_payload \<Rightarrow> branch_op \<Rightarrow> mall_world \<Rightarrow> bool \<times> mall_world" where
  "run_op now p x w =
     (case x of
        OrderOp b \<Rightarrow> (case local_run (ApplyOrderBranch p b) now (w_ord w) of
          (e, t) \<Rightarrow> (e = None, w\<lparr>w_ord := t\<rparr>))
      | InventoryOp b \<Rightarrow> (case local_run (ApplyInventoryMutation p b) now (w_inv w) of
          (e, t) \<Rightarrow> (e = None, w\<lparr>w_inv := t\<rparr>))
      | PointsOp b \<Rightarrow> (case local_run (ApplyPointsMutation p b) now (w_pts w) of
          (e, t) \<Rightarrow> (e = None, w\<lparr>w_pts := t\<rparr>)))"

fun run_ops :: "int \<Rightarrow> saga_payload \<Rightarrow> branch_op list \<Rightarrow> mall_world \<Rightarrow> bool \<times> mall_world" where
  "run_ops now p [] w = (True, w)"
| "run_ops now p (x # xs) w =
     (case run_op now p x w of (b, w1) \<Rightarrow>
        (case run_ops now p xs w1 of (b', w2) \<Rightarrow> (b \<and> b', w2)))"

definition saga_actions :: "branch_op list" where
  "saga_actions = [OrderOp OrderPrepare, InventoryOp InventoryReserve, PointsOp PointsDebit,
     InventoryOp InventoryConfirm, OrderOp OrderConfirm]"

definition saga_compensations :: "branch_op list" where
  "saga_compensations = [OrderOp OrderCancel, InventoryOp InventoryRelease, PointsOp PointsRefund,
     InventoryOp InventoryUnconfirm, OrderOp OrderCancel]"

text \<open>
  The calls of one Saga: the first k actions run, and unless all five do, the compensations of the
  first j steps in reverse order (j is k, or k + 1 when the failing step is compensated too).
\<close>

definition saga_calls :: "nat \<Rightarrow> nat \<Rightarrow> branch_op list" where
  "saga_calls k j = take k saga_actions @ rev (take j saga_compensations)"

text \<open>Every participant sees its own calls only.\<close>

fun order_calls :: "branch_op list \<Rightarrow> OrderBranch list" where
  "order_calls [] = []"
| "order_calls (OrderOp b # xs) = b # order_calls xs"
| "order_calls (x # xs) = order_calls xs"

fun stock_calls :: "branch_op list \<Rightarrow> InventoryOperation list" where
  "stock_calls [] = []"
| "stock_calls (InventoryOp b # xs) = b # stock_calls xs"
| "stock_calls (x # xs) = stock_calls xs"

fun account_calls :: "branch_op list \<Rightarrow> PointsOperation list" where
  "account_calls [] = []"
| "account_calls (PointsOp b # xs) = b # account_calls xs"
| "account_calls (x # xs) = account_calls xs"

lemma run_ops_split:
  assumes "run_ops now p xs w = (b, w')"
  shows "\<exists>b1 b2 b3. party_run (ApplyOrderBranch p) now (order_calls xs) (w_ord w) = (b1, w_ord w') \<and>
    party_run (ApplyInventoryMutation p) now (stock_calls xs) (w_inv w) = (b2, w_inv w') \<and>
    party_run (ApplyPointsMutation p) now (account_calls xs) (w_pts w) = (b3, w_pts w') \<and>
    (b \<longleftrightarrow> b1 \<and> b2 \<and> b3)"
  using assms
proof (induction xs arbitrary: w b)
  case (Cons x xs)
  obtain b1 w1 where r: "run_op now p x w = (b1, w1)" by (cases "run_op now p x w")
  obtain b2 w2 where rs: "run_ops now p xs w1 = (b2, w2)" by (cases "run_ops now p xs w1")
  with r Cons.prems have w: "w2 = w'" "b = (b1 \<and> b2)" by auto
  from Cons.IH [OF rs [unfolded w]] obtain c1 c2 c3 where
    c: "party_run (ApplyOrderBranch p) now (order_calls xs) (w_ord w1) = (c1, w_ord w')"
      "party_run (ApplyInventoryMutation p) now (stock_calls xs) (w_inv w1) = (c2, w_inv w')"
      "party_run (ApplyPointsMutation p) now (account_calls xs) (w_pts w1) = (c3, w_pts w')"
      "b2 = (c1 \<and> c2 \<and> c3)" by blast
  show ?case
  proof (cases x)
    case (OrderOp y)
    obtain e t where l: "local_run (ApplyOrderBranch p y) now (w_ord w) = (e, t)" by (metis surj_pair)
    with r OrderOp have "b1 = (e = None)" "w1 = w\<lparr>w_ord := t\<rparr>" by (auto simp: run_op_def)
    with OrderOp c w l show ?thesis by simp
  next
    case (InventoryOp y)
    obtain e t where l: "local_run (ApplyInventoryMutation p y) now (w_inv w) = (e, t)" by (metis surj_pair)
    with r InventoryOp have "b1 = (e = None)" "w1 = w\<lparr>w_inv := t\<rparr>" by (auto simp: run_op_def)
    with InventoryOp c w l show ?thesis by auto
  next
    case (PointsOp y)
    obtain e t where l: "local_run (ApplyPointsMutation p y) now (w_pts w) = (e, t)" by (metis surj_pair)
    with r PointsOp have "b1 = (e = None)" "w1 = w\<lparr>w_pts := t\<rparr>" by (auto simp: run_op_def)
    with PointsOp c w l show ?thesis by auto
  qed
qed auto

subsection \<open>Compensation undoes a Saga\<close>

lemmas saga_lists = saga_actions_def saga_compensations_def numeral_eq_Suc

lemma upto_5: "k \<le> 5 \<Longrightarrow> k = 0 \<or> k = 1 \<or> k = 2 \<or> k = 3 \<or> k = 4 \<or> k = (5 :: nat)"
  by auto

definition stock_counters :: "inv_view \<Rightarrow> (int \<times> int \<times> int) option" where
  "stock_counters v = map_option (\<lambda>(a, r, s, n). (a, r, s)) (fst v)"

lemma inv_saga_spec:
  assumes "k \<le> 5" and "j = k \<or> j = Suc k"
    and "spec_run (\<lambda>x. inv_spec x p) (stock_calls (take k saga_actions)) (so, None) = (True, v1)"
    and "spec_run (\<lambda>x. inv_spec x p) (stock_calls (rev (take j saga_compensations))) v1 = (b, v2)"
  shows "b \<and> stock_counters v2 = stock_counters (so, None)"
  using upto_5 [OF assms(1)] assms(2-4)
  by (elim disjE)
    (auto simp: saga_lists stock_counters_def own_reservation_def split: option.splits if_splits sum.splits)

lemma pts_saga_spec:
  assumes "k \<le> 5" and "j = k \<or> j = Suc k"
    and "spec_run (\<lambda>x. pts_spec x p) (account_calls (take k saga_actions)) (acc, None, None) = (True, v1)"
    and "spec_run (\<lambda>x. pts_spec x p) (account_calls (rev (take j saga_compensations))) v1 = (b, v2)"
  shows "b \<and> map_option fst (fst v2) = map_option fst acc"
  using upto_5 [OF assms(1)] assms(2-4)
  by (elim disjE) (auto simp: saga_lists split: option.splits if_splits sum.splits)

lemma ord_saga_spec:
  assumes "k \<le> 5" and "j = k \<or> j = Suc k"
    and "spec_run (\<lambda>x. ord_spec x p) (order_calls (take k saga_actions)) None = (True, v1)"
    and "spec_run (\<lambda>x. ord_spec x p) (order_calls (rev (take j saga_compensations))) v1 = (b, v2)"
  shows "b \<and> (v2 = None \<or> (\<exists>u rq pid q tp. v2 = Some (u, rq, pid, q, tp, OrderCompensated)))"
  using upto_5 [OF assms(1)] assms(2-4)
  by (elim disjE) (auto simp: saga_lists split: option.splits if_splits sum.splits)

lemma order_calls_length: "length (order_calls xs) \<le> length xs"
  by (induction xs rule: order_calls.induct) auto

lemma stock_calls_length: "length (stock_calls xs) \<le> length xs"
  by (induction xs rule: stock_calls.induct) auto

lemma account_calls_length: "length (account_calls xs) \<le> length xs"
  by (induction xs rule: account_calls.induct) auto

lemma saga_lengths: "length (take k saga_actions) \<le> 5" "length (rev (take j saga_compensations)) \<le> 5"
  by (simp_all add: saga_actions_def saga_compensations_def)

text \<open>Two runs of a participant, with room for ten operations.\<close>

lemma inv_two_runs:
  assumes "inv_good base stock p 10 t" and "length xs \<le> 5" and "length ys \<le> 5"
    and "party_run (ApplyInventoryMutation p) now xs t = (b1, t1)"
    and "party_run (ApplyInventoryMutation p) now' ys t1 = (b2, t2)"
  shows "spec_run (\<lambda>x. inv_spec x p) xs (inv_view p t) = (b1, inv_view p t1) \<and>
    spec_run (\<lambda>x. inv_spec x p) ys (inv_view p t1) = (b2, inv_view p t2) \<and>
    inv_frame p t t2 \<and> inv_ok base stock t2"
proof -
  have "inv_good base stock p (length xs + (5 + (5 - length xs))) t" using assms(1,2) by simp
  from inv_party.party_run_refines [OF this assms(4)]
  have r1: "spec_run (\<lambda>x. inv_spec x p) xs (inv_view p t) = (b1, inv_view p t1)" "inv_frame p t t1"
    and "inv_good base stock p (5 + (5 - length xs)) t1" by blast+
  then have "inv_good base stock p (length ys + (5 - length ys)) t1"
    using assms(3) by (auto simp: inv_good_def)
  from inv_party.party_run_refines [OF this assms(5)] r1 inv_party.frame_trans
  show ?thesis unfolding inv_good_def by blast
qed

lemma pts_two_runs:
  assumes "pts_good base p 10 t" and "length xs \<le> 5" and "length ys \<le> 5"
    and "party_run (ApplyPointsMutation p) now xs t = (b1, t1)"
    and "party_run (ApplyPointsMutation p) now' ys t1 = (b2, t2)"
  shows "spec_run (\<lambda>x. pts_spec x p) xs (pts_view p t) = (b1, pts_view p t1) \<and>
    spec_run (\<lambda>x. pts_spec x p) ys (pts_view p t1) = (b2, pts_view p t2) \<and>
    pts_frame p t t2 \<and> pts_ok base t2"
proof -
  have "pts_good base p (length xs + (5 + (5 - length xs))) t" using assms(1,2) by simp
  from pts_party.party_run_refines [OF this assms(4)]
  have r1: "spec_run (\<lambda>x. pts_spec x p) xs (pts_view p t) = (b1, pts_view p t1)" "pts_frame p t t1"
    and "pts_good base p (5 + (5 - length xs)) t1" by blast+
  then have "pts_good base p (length ys + (5 - length ys)) t1"
    using assms(3) by (auto simp: pts_good_def)
  from pts_party.party_run_refines [OF this assms(5)] r1 pts_party.frame_trans
  show ?thesis unfolding pts_good_def by blast
qed

lemma ord_two_runs:
  assumes "ord_good p 10 t"
    and "party_run (ApplyOrderBranch p) now xs t = (b1, t1)"
    and "party_run (ApplyOrderBranch p) now' ys t1 = (b2, t2)"
  shows "spec_run (\<lambda>x. ord_spec x p) xs (ord_view p t) = (b1, ord_view p t1) \<and>
    spec_run (\<lambda>x. ord_spec x p) ys (ord_view p t1) = (b2, ord_view p t2) \<and>
    ord_frame p t t2 \<and> ord_ok t2"
proof -
  have "ord_good p (length xs + 0) t" using assms(1) by (simp add: ord_good_def)
  from ord_party.party_run_refines [OF this assms(2)]
  have r1: "spec_run (\<lambda>x. ord_spec x p) xs (ord_view p t) = (b1, ord_view p t1)" "ord_frame p t t1"
    and "ord_good p 0 t1" by blast+
  then have "ord_good p (length ys + 0) t1" by (auto simp: ord_good_def)
  from ord_party.party_run_refines [OF this assms(3)] r1 ord_party.frame_trans
  show ?thesis unfolding ord_good_def by blast
qed

definition fresh_saga :: "saga_payload \<Rightarrow> mall_world \<Rightarrow> bool" where
  "fresh_saga p w \<longleftrightarrow> order_of (w_ord w) (OrderID p) = None \<and>
     reservations (w_inv w) (OrderID p) = None \<and>
     ledgers (w_pts w) (OrderID p, ''debit'') = None \<and> ledgers (w_pts w) (OrderID p, ''refund'') = None"

definition good_world :: "(int \<Rightarrow> int) \<Rightarrow> (int \<Rightarrow> int) \<Rightarrow> (int \<Rightarrow> int) \<Rightarrow> saga_payload \<Rightarrow> mall_world \<Rightarrow> bool" where
  "good_world base stock balance p w \<longleftrightarrow>
     ord_good p 10 (w_ord w) \<and> inv_good base stock p 10 (w_inv w) \<and> pts_good balance p 10 (w_pts w)"

text \<open>Every counter and balance that a customer or the shop can see.\<close>

definition stock_of :: "mall_world \<Rightarrow> int \<Rightarrow> (int \<times> int \<times> int) option" where
  "stock_of w pid = map_option (\<lambda>i. (inv_Available i, inv_Reserved i, inv_Sold i)) (inventories (w_inv w) pid)"

definition balance_of :: "mall_world \<Rightarrow> int \<Rightarrow> int option" where
  "balance_of w uid = map_option acc_Balance (accounts (w_pts w) uid)"

text \<open>
  C1 (safety). All or nothing: when the first k branches of a fresh Saga succeeded and the Saga
  is then rolled back, with the compensations of those steps (and of the step that failed, or
  without it) in reverse order, every compensation succeeds, the stock of every product and the
  balance of every user are exactly what they were before the Saga, the order, if it was
  prepared, is compensated, and the orders of other customers are untouched.
\<close>

theorem saga_compensation_restores:
  assumes "good_world base stock balance p w" and "fresh_saga p w"
    and "k \<le> 5" and "j = k \<or> j = Suc k"
    and "run_ops now p (take k saga_actions) w = (True, w1)"
    and "run_ops now' p (rev (take j saga_compensations)) w1 = (b, w2)"
  shows "b \<and> (\<forall>pid. stock_of w2 pid = stock_of w pid) \<and> (\<forall>uid. balance_of w2 uid = balance_of w uid) \<and>
    (\<forall>o'. order_of (w_ord w2) (OrderID p) = Some o' \<longrightarrow> ord_Status o' = OrderCompensated) \<and>
    (\<forall>oid. oid \<noteq> OrderID p \<longrightarrow> order_of (w_ord w2) oid = order_of (w_ord w) oid)"
proof -
  let ?xs = "take k saga_actions" and ?ys = "rev (take j saga_compensations)"
  have len: "length (stock_calls ?xs) \<le> 5" "length (stock_calls ?ys) \<le> 5"
    "length (account_calls ?xs) \<le> 5" "length (account_calls ?ys) \<le> 5"
    using saga_lengths le_trans [OF stock_calls_length] le_trans [OF account_calls_length] by blast+
  obtain b1 b2 b3 where u:
    "party_run (ApplyOrderBranch p) now' (order_calls ?ys) (w_ord w1) = (b1, w_ord w2)"
    "party_run (ApplyInventoryMutation p) now' (stock_calls ?ys) (w_inv w1) = (b2, w_inv w2)"
    "party_run (ApplyPointsMutation p) now' (account_calls ?ys) (w_pts w1) = (b3, w_pts w2)"
    "b \<longleftrightarrow> b1 \<and> b2 \<and> b3"
    using run_ops_split [OF assms(6)] by blast
  have d: "party_run (ApplyOrderBranch p) now (order_calls ?xs) (w_ord w) = (True, w_ord w1)"
    "party_run (ApplyInventoryMutation p) now (stock_calls ?xs) (w_inv w) = (True, w_inv w1)"
    "party_run (ApplyPointsMutation p) now (account_calls ?xs) (w_pts w) = (True, w_pts w1)"
    using run_ops_split [OF assms(5)] by auto
  have g: "ord_good p 10 (w_ord w)" "inv_good base stock p 10 (w_inv w)" "pts_good balance p 10 (w_pts w)"
    using assms(1) by (auto simp: good_world_def)
  note ri = inv_two_runs [OF g(2) len(1,2) d(2) u(2)]
  note rp = pts_two_runs [OF g(3) len(3,4) d(3) u(3)]
  note ro = ord_two_runs [OF g(1) d(1) u(1)]
  obtain so where so: "inv_view p (w_inv w) = (so, None)" using assms(2) by (simp add: inv_view_def fresh_saga_def)
  obtain acc where acc: "pts_view p (w_pts w) = (acc, None, None)" using assms(2) by (simp add: pts_view_def fresh_saga_def)
  have none: "ord_view p (w_ord w) = None" using assms(2) by (simp add: ord_view_def fresh_saga_def)
  have inv: "b2 \<and> stock_counters (inv_view p (w_inv w2)) = stock_counters (inv_view p (w_inv w))"
    using inv_saga_spec [OF assms(3,4)] ri so by metis
  have pts: "b3 \<and> map_option fst (fst (pts_view p (w_pts w2))) = map_option fst (fst (pts_view p (w_pts w)))"
    using pts_saga_spec [OF assms(3,4)] rp acc by (metis fst_conv)
  have ord: "b1 \<and> (ord_view p (w_ord w2) = None \<or> (\<exists>u rq pid q tp. ord_view p (w_ord w2) = Some (u, rq, pid, q, tp, OrderCompensated)))"
    using ord_saga_spec [OF assms(3,4)] ro none by metis
  have "stock_of w2 pid = stock_of w pid" for pid
    using inv ri by (cases "pid = ProductID p")
      (auto simp: stock_of_def inv_frame_def stock_counters_def inv_view_def option.map_comp comp_def)
  moreover have "balance_of w2 uid = balance_of w uid" for uid
    using pts rp by (cases "uid = UserID p")
      (auto simp: balance_of_def pts_frame_def pts_view_def option.map_comp comp_def)
  moreover have "ord_Status o' = OrderCompensated" if "order_of (w_ord w2) (OrderID p) = Some o'" for o'
    using ord that by (auto simp: ord_view_def)
  ultimately show ?thesis using inv pts ord u(4) ro by (auto simp: ord_frame_def)
qed

subsection \<open>Properties of the Coordinator\<close>

definition role_of :: "branch_op \<Rightarrow> string" where
  "role_of x = (case x of OrderOp _ \<Rightarrow> ''order'' | InventoryOp _ \<Rightarrow> ''inventory'' | PointsOp _ \<Rightarrow> ''points'')"

definition base_url :: "submitter \<Rightarrow> branch_op \<Rightarrow> string" where
  "base_url s x = (case x of OrderOp _ \<Rightarrow> OrderURL s | InventoryOp _ \<Rightarrow> InventoryURL s | PointsOp _ \<Rightarrow> PointsURL s)"

definition calls_op :: "submitter \<Rightarrow> string \<Rightarrow> branch_op \<Rightarrow> bool" where
  "calls_op s url x \<longleftrightarrow> (\<exists>path name. url = joinURL (base_url s x) path \<and> route (role_of x) path = Some (name, x))"

lemma calls_opI:
  "map_option snd (route ''order'' path) = Some (OrderOp b) \<Longrightarrow>
   calls_op s (joinURL (OrderURL s) path) (OrderOp b)"
  "map_option snd (route ''inventory'' path) = Some (InventoryOp i) \<Longrightarrow>
   calls_op s (joinURL (InventoryURL s) path) (InventoryOp i)"
  "map_option snd (route ''points'' path) = Some (PointsOp pt) \<Longrightarrow>
   calls_op s (joinURL (PointsURL s) path) (PointsOp pt)"
  by (auto simp: calls_op_def base_url_def role_of_def)

text \<open>
  (functional). The Saga that is submitted consists of the five steps the compensation theorem
  is about: each action and each compensation URL is served by the server of the right role,
  where its path is routed to exactly that operation.
\<close>

theorem submitted_saga_is_routed:
  assumes "Submit s p = Inr sg"
  shows "saga_gid sg = SagaGID p \<and>
    list_all2 (\<lambda>(a, c) (x, y). calls_op s a x \<and> calls_op s c y) (saga_steps sg)
      (zip saga_actions saga_compensations)"
proof -
  have "list_all2 (\<lambda>(a, c) (x, y). calls_op s a x \<and> calls_op s c y)
     [(joinURL (OrderURL s) ''/dtm/order/prepare'', joinURL (OrderURL s) ''/dtm/order/cancel''),
      (joinURL (InventoryURL s) ''/dtm/inventory/reserve'', joinURL (InventoryURL s) ''/dtm/inventory/release''),
      (joinURL (PointsURL s) ''/dtm/points/debit'', joinURL (PointsURL s) ''/dtm/points/refund''),
      (joinURL (InventoryURL s) ''/dtm/inventory/confirm'', joinURL (InventoryURL s) ''/dtm/inventory/unconfirm''),
      (joinURL (OrderURL s) ''/dtm/order/confirm'', joinURL (OrderURL s) ''/dtm/order/cancel'')]
     (zip saga_actions saga_compensations)"
    unfolding saga_actions_def saga_compensations_def zip_Cons_Cons list_all2_Cons prod.case
    by (intro conjI calls_opI) (simp_all add: route_def branch_routes_def)
  with assms show ?thesis by (auto simp: Submit_def Let_def split: if_splits)
qed

definition sound_payload :: "(string \<Rightarrow> string) \<Rightarrow> saga_payload \<Rightarrow> bool" where
  "sound_payload uuid5 p \<longleftrightarrow>
     0 < UserID p \<and> 0 < ProductID p \<and> 1 \<le> Quantity p \<and> Quantity p \<le> 100 \<and> 0 < PointsPrice p \<and>
     TotalPoints p = PointsPrice p * Quantity p \<and> TotalPoints p \<le> 2 ^ 62 \<and>
     RequestID p \<noteq> '''' \<and> length (RequestID p) \<le> 64 \<and>
     OrderID p = deterministicOrderID uuid5 (UserID p) (RequestID p) \<and> SagaGID p = ''mall-'' @ OrderID p"

lemma exchange_payload_sound:
  assumes "0 < in_UserID input" "0 < in_ProductID input" "0 < in_Quantity input" "in_Quantity input \<le> 100"
    "in_RequestID input \<noteq> ''''" "length (in_RequestID input) \<le> 64"
    "0 < prod_PointsPrice pr" "prod_PointsPrice pr \<le> go_div (2 ^ 62) (in_Quantity input)"
  shows "sound_payload uuid5 (exchange_payload uuid5 input pr)"
proof -
  let ?q = "in_Quantity input" and ?m = "prod_PointsPrice pr"
  have "?m * ?q \<le> (2 ^ 62 div ?q) * ?q"
    using assms by (intro mult_right_mono) (auto simp: go_div_pos)
  also have "\<dots> \<le> 2 ^ 62"
    using div_mult_mod_eq [of "2 ^ 62" ?q] pos_mod_sign [OF assms(3), of "2 ^ 62"] by linarith
  finally have le: "?m * ?q \<le> 2 ^ 62" .
  have "0 < ?m * ?q" using assms by simp
  then have "wrap64 (?m * ?q) = ?m * ?q" using le by (intro wrap64_id) (simp add: in_int64_def)
  with le assms show ?thesis
    by (simp add: sound_payload_def exchange_payload_def Let_def)
qed

lemma exchange_only_sound:
  assumes "0 < in_UserID input" "0 < in_ProductID input" "0 < in_Quantity input"
    "in_RequestID input \<noteq> ''''" "length (in_RequestID input) \<le> 64"
  shows "exchange uuid5 (\<lambda>p. if sound_payload uuid5 p then submit p else tx_fail (ErrNew reason)) input s =
    exchange uuid5 submit input s" (is "exchange _ ?sub _ _ = _")
proof -
  obtain r1 s1 where 1: "stmt (firstOrder (\<lambda>o'. ord_UserID o' = in_UserID input \<and>
      ord_RequestID o' = in_RequestID input)) s = (r1, s1)" by (metis surj_pair)
  obtain r2 s2 where 2: "stmt (firstProduct (\<lambda>pr. prod_ID pr = in_ProductID input \<and> prod_Active pr)) s1 = (r2, s2)"
    by (metis surj_pair)
  show ?thesis
  proof (cases "\<exists>pr err. r1 = Inl err \<and> err_is err ErrRecordNotFound \<and> r2 = Inr pr \<and>
      \<not> (prod_PointsPrice pr \<le> 0 \<or> in_Quantity input > 100 \<or>
         prod_PointsPrice pr > go_div (2 ^ 62) (in_Quantity input))")
    case True
    then obtain pr err where t: "r1 = Inl err" "err_is err ErrRecordNotFound" "r2 = Inr pr"
      "0 < prod_PointsPrice pr" "in_Quantity input \<le> 100"
      "prod_PointsPrice pr \<le> go_div (2 ^ 62) (in_Quantity input)" by auto
    have "?sub (exchange_payload uuid5 input pr) = submit (exchange_payload uuid5 input pr)"
      using exchange_payload_sound [of input pr uuid5] assms t by simp
    with t 1 2 show ?thesis by (simp only: exchange_def Let_def prod.case sum.case)
  next
    case False
    with 1 2 show ?thesis
      by (cases r1; cases r2) (simp_all only: exchange_def prod.case sum.case if_True if_False, auto)
  qed
qed

text \<open>
  (bounds). Exchange only ever submits sound payloads, whatever the request, the catalog and the
  faults of the databases: a quantity between 1 and 100, a positive price, and a total that is
  the exact product (the guard on the price rules out the int64 overflow), at most 2^62; order
  and Saga id are derived from user and request. Refusing all other payloads changes nothing.
\<close>

theorem exchange_submits_sound_payloads:
  "Exchange c uuid5 (\<lambda>p. if sound_payload uuid5 p then submit p else tx_fail (ErrNew reason)) input s =
   Exchange c uuid5 submit input s"
proof -
  let ?in = "input\<lparr>in_RequestID := TrimSpace (in_RequestID input)\<rparr>"
  have "exchange uuid5 (\<lambda>p. if sound_payload uuid5 p then submit p else tx_fail (ErrNew reason)) ?in s =
      exchange uuid5 submit ?in s"
    if v: "\<not> (in_UserID ?in \<le> 0 \<or> in_ProductID ?in \<le> 0 \<or> in_Quantity ?in \<le> 0 \<or> in_RequestID ?in = '''' \<or>
      length (in_RequestID ?in) > 64)"
    by (rule exchange_only_sound) (use v in auto)
  then show ?thesis
    by (simp add: Exchange_def Let_def split: option.splits)
qed

text \<open>
  (functional). Exchange is idempotent per user and request id: when the order table already
  holds an order for them, no Saga is submitted (the result is the same for every submitter);
  the same product and quantity return that order, whatever its status, anything else is an
  idempotency conflict.
\<close>

theorem exchange_replay_submits_nothing:
  assumes "has_CatalogDB c" "has_OrderDB c" "has_Saga c"
    and "0 < in_UserID input" "0 < in_ProductID input" "0 < in_Quantity input"
    and "TrimSpace (in_RequestID input) \<noteq> ''''" "length (TrimSpace (in_RequestID input)) \<le> 64"
    and "List.find (\<lambda>o'. ord_UserID o' = in_UserID input \<and> ord_RequestID o' = TrimSpace (in_RequestID input))
      (mall_orders t) = Some o'"
  shows "Exchange (Some c) uuid5 submit input (quiet now t) =
    ((if ord_ProductID o' = in_ProductID input \<and> ord_Quantity o' = in_Quantity input
      then (Some o', None) else (None, Some ErrIdempotencyConflict)), quiet now t)"
  using assms by (simp add: Exchange_def exchange_def sql_defs Let_def)

subsection \<open>Instances\<close>

definition sample_world :: mall_world where
  "sample_world = \<lparr>w_ord = \<lparr>orders = []\<rparr>, w_inv = full_shelf, w_pts = full_purse\<rparr>"

definition pending_order :: order where
  "pending_order = \<lparr>ord_ID = ''o1'', ord_UserID = 7, ord_RequestID = ''r1'', ord_ProductID = 1, ord_Quantity = 2,
     ord_TotalPoints = 20, ord_Status = OrderPending, ord_SagaGID = ''mall-o1'', ord_CreatedAt = 9, ord_UpdatedAt = 9\<rparr>"

definition paid_world :: mall_world where
  "paid_world = \<lparr>w_ord = \<lparr>orders = [pending_order]\<rparr>, w_inv = reserved_shelf, w_pts = debited_purse\<rparr>"

lemma prepare_sample:
  "ApplyOrderBranch sample_payload OrderPrepare (quiet 9 \<lparr>orders = []\<rparr>) = (Inr (), quiet 9 \<lparr>orders = [pending_order]\<rparr>)"
  by (simp add: prepareOrder_def validatePayload_def TrimSpace_def is_space_def tx_run sql_defs sample_payload_def
      pending_order_def clamp32_def)

lemma three_actions: "run_ops 9 sample_payload (take 3 saga_actions) sample_world = (True, paid_world)"
  using prepare_sample reserve_sample debit_sample
  by (simp add: saga_actions_def run_op_def local_run_def sample_world_def paid_world_def numeral_3_eq_3)

lemma sample_world_good: "good_world (\<lambda>_. 0) (\<lambda>_. 5) (\<lambda>u. if u = 7 then 50 else 0) sample_payload sample_world"
proof -
  have "ord_good sample_payload 10 \<lparr>orders = []\<rparr>"
    by (simp add: ord_good_def ord_ok_def ord_keys_def sample_payload_def)
  moreover have "inv_good (\<lambda>_. 0) (\<lambda>_. 5) sample_payload 10 full_shelf" by (rule full_shelf_good) simp
  moreover have "pts_good (\<lambda>u. if u = 7 then 50 else 0) sample_payload 10 full_purse"
    using full_purse_good by (auto simp: pts_good_def full_purse_def purse_def)
  ultimately show ?thesis by (simp add: good_world_def sample_world_def)
qed

theorem saga_compensation_restores_witness:
  "stock_of (snd (run_ops 10 sample_payload (rev (take 4 saga_compensations)) paid_world)) 1 = Some (5, 0, 0) \<and>
   balance_of (snd (run_ops 10 sample_payload (rev (take 4 saga_compensations)) paid_world)) 7 = Some 50"
proof -
  obtain b w2 where r: "run_ops 10 sample_payload (rev (take 4 saga_compensations)) paid_world = (b, w2)"
    by (metis surj_pair)
  have "fresh_saga sample_payload sample_world"
    by (simp add: fresh_saga_def sample_world_def order_of_def full_shelf_def full_purse_def)
  from saga_compensation_restores [OF sample_world_good this _ _ three_actions r]
  have "stock_of w2 1 = stock_of sample_world 1" "balance_of w2 7 = balance_of sample_world 7" by simp_all
  then show ?thesis unfolding r
    by (simp add: stock_of_def balance_of_def sample_world_def full_shelf_def shelf_def full_purse_def purse_def)
qed

definition sample_submitter :: submitter where
  "sample_submitter = \<lparr>ServerURL = ''http://dtm/'', OrderURL = ''http://o'', InventoryURL = ''http://i'',
     PointsURL = ''http://p'', Timeout = 0\<rparr>"

theorem submitted_saga_is_routed_witness:
  "\<exists>sg. Submit sample_submitter sample_payload = Inr sg \<and> saga_gid sg = ''mall-o1''"
proof -
  obtain sg where s: "Submit sample_submitter sample_payload = Inr sg"
    by (cases "Submit sample_submitter sample_payload") (simp_all add: Submit_def sample_submitter_def Let_def)
  from submitted_saga_is_routed [OF s] s show ?thesis by (simp add: sample_payload_def)
qed

definition full_coordinator :: coordinator where
  "full_coordinator = \<lparr>has_CatalogDB = True, has_OrderDB = True, has_Saga = True\<rparr>"

definition sample_input :: exchange_input where
  "sample_input = \<lparr>in_UserID = 7, in_RequestID = ''r1'', in_ProductID = 1, in_Quantity = 2, in_FailAt = ''''\<rparr>"

theorem exchange_replay_submits_nothing_witness:
  "Exchange (Some full_coordinator) id (\<lambda>_. tx_fail (ErrNew ''never called'')) sample_input
     (quiet 10 \<lparr>mall_orders = [pending_order], mall_products = []\<rparr>) =
   ((Some pending_order, None), quiet 10 \<lparr>mall_orders = [pending_order], mall_products = []\<rparr>)"
proof -
  have "TrimSpace ''r1'' = ''r1''" by (simp add: TrimSpace_def is_space_def)
  then show ?thesis
    using exchange_replay_submits_nothing [of full_coordinator sample_input "\<lparr>mall_orders = [pending_order], mall_products = []\<rparr>"
        pending_order id "\<lambda>_. tx_fail (ErrNew ''never called'')" 10]
    by (simp add: full_coordinator_def sample_input_def pending_order_def)
qed

end
