(* ===== verification/Mall_Services.thy ===== *)
theory Mall_Services
  imports Mall_Saga
begin

text \<open>
  The RPC handlers of the points mall: the mall service (internal/rpc/mall/handler.go), the
  inventory service (internal/rpc/mall_inventory/handler.go) and the points service
  (internal/rpc/mall_points/handler.go), and the choice of the database of each role
  (internal/rpc/mall/domain/database.go). A nil request or receiver is None.
\<close>

record resp =
  Code :: int
  Msg :: string

subsection \<open>The mall service\<close>

record rpc_order =
  ro_OrderId :: string
  ro_UserId :: int
  ro_RequestId :: string
  ro_ProductId :: int
  ro_Quantity :: int
  ro_TotalPoints :: int
  ro_Status :: string
  ro_SagaGid :: string
  ro_CreatedAtUnix :: int

definition toRPCOrder :: "order option \<Rightarrow> rpc_order option" where
  "toRPCOrder order = map_option (\<lambda>o'.
     \<lparr>ro_OrderId = ord_ID o', ro_UserId = ord_UserID o', ro_RequestId = ord_RequestID o',
      ro_ProductId = ord_ProductID o', ro_Quantity = ord_Quantity o', ro_TotalPoints = ord_TotalPoints o',
      ro_Status = ord_Status o', ro_SagaGid = ord_SagaGID o', ro_CreatedAtUnix = ord_CreatedAt o'\<rparr>) order"

record exchange_req =
  xr_UserId :: int
  xr_ProductId :: int
  xr_Quantity :: int
  xr_RequestId :: string

record mall_service =
  ms_coordinator :: "coordinator option"
  ms_catalogDB :: bool
  ms_orderDB :: bool

definition ExchangeHandler ::
    "mall_service option \<Rightarrow> (string \<Rightarrow> string) \<Rightarrow> (saga_payload \<Rightarrow> (mall_tables, unit) tx) \<Rightarrow>
     exchange_req option \<Rightarrow> mall_tables tx_state \<Rightarrow> (resp \<times> rpc_order option) \<times> mall_tables tx_state" where
  "ExchangeHandler s uuid5 submit req st =
     (case req of
        None \<Rightarrow> ((\<lparr>Code = 400, Msg = ''invalid request''\<rparr>, None), st)
      | Some r \<Rightarrow>
          if xr_UserId r \<le> 0 \<or> xr_ProductId r \<le> 0 \<or> xr_Quantity r \<le> 0 \<or> xr_Quantity r > 100 \<or>
             TrimSpace (xr_RequestId r) = ''''
          then ((\<lparr>Code = 400, Msg = ''invalid request''\<rparr>, None), st)
          else case Option.bind s ms_coordinator of
            None \<Rightarrow> ((\<lparr>Code = 500, Msg = ''mall service is not initialized''\<rparr>, None), st)
          | Some c \<Rightarrow>
              (case Exchange (Some c) uuid5 submit
                      \<lparr>in_UserID = xr_UserId r, in_RequestID = xr_RequestId r,
                       in_ProductID = xr_ProductId r, in_Quantity = xr_Quantity r, in_FailAt = ''''\<rparr> st of
                 ((order, Some err), st') \<Rightarrow>
                   let code = (if HasPrefix (err_text err) ''invalid exchange request'' \<or>
                                  HasPrefix (err_text err) ''invalid product'' then 400 else 500);
                       code = (if err_is err ErrInsufficientStock \<or> err_is err ErrInsufficientPoints \<or>
                                  err_is err ErrIdempotencyConflict \<or> err_is err ErrRecordNotFound
                               then 409 else code)
                   in ((\<lparr>Code = code, Msg = err_text err\<rparr>, toRPCOrder order), st')
               | ((order, None), st') \<Rightarrow> ((\<lparr>Code = 0, Msg = ''success''\<rparr>, toRPCOrder order), st')))"

record get_order_req =
  go_UserId :: int
  go_OrderId :: string

definition GetOrder ::
    "mall_service option \<Rightarrow> get_order_req option \<Rightarrow> mall_tables tx_state \<Rightarrow>
     (resp \<times> rpc_order option) \<times> mall_tables tx_state" where
  "GetOrder s req st =
     (case req of
        None \<Rightarrow> ((\<lparr>Code = 400, Msg = ''invalid request''\<rparr>, None), st)
      | Some r \<Rightarrow>
          if go_UserId r \<le> 0 \<or> go_OrderId r = ''''
          then ((\<lparr>Code = 400, Msg = ''invalid request''\<rparr>, None), st)
          else if s = None \<or> \<not> ms_orderDB (the s)
          then ((\<lparr>Code = 500, Msg = ''mall service is not initialized''\<rparr>, None), st)
          else case stmt (firstOrder (\<lambda>o'. ord_ID o' = go_OrderId r \<and> ord_UserID o' = go_UserId r)) st of
              (Inl err, st') \<Rightarrow>
                if \<not> err_is err ErrRecordNotFound
                then ((\<lparr>Code = 500, Msg = ''failed to query order''\<rparr>, None), st')
                else ((\<lparr>Code = 404, Msg = ''order not found''\<rparr>, None), st')
            | (Inr o', st') \<Rightarrow> ((\<lparr>Code = 0, Msg = ''success''\<rparr>, toRPCOrder (Some o')), st'))"

record rpc_product =
  rp_Id :: int
  rp_Name :: string
  rp_Description :: string
  rp_PointsPrice :: int
  rp_Active :: bool

text \<open>SELECT ... WHERE active = true ORDER BY id ASC LIMIT n.\<close>

definition activeProducts :: "nat \<Rightarrow> (mall_tables, product list) sql" where
  "activeProducts n now t = (Inr (take n (sort_key prod_ID (filter prod_Active (mall_products t)))), t)"

declare activeProducts_def [sql_defs]

definition ListProducts ::
    "mall_service option \<Rightarrow> int option \<Rightarrow> mall_tables tx_state \<Rightarrow>
     (resp \<times> rpc_product list) \<times> mall_tables tx_state" where
  "ListProducts s req st =
     (case req of
        None \<Rightarrow> ((\<lparr>Code = 400, Msg = ''invalid request''\<rparr>, []), st)
      | Some userId \<Rightarrow>
          if userId \<le> 0 then ((\<lparr>Code = 400, Msg = ''invalid request''\<rparr>, []), st)
          else if s = None \<or> \<not> ms_catalogDB (the s)
          then ((\<lparr>Code = 500, Msg = ''mall service is not initialized''\<rparr>, []), st)
          else case stmt (activeProducts 100) st of
              (Inl err, st') \<Rightarrow> ((\<lparr>Code = 500, Msg = ''failed to query products''\<rparr>, []), st')
            | (Inr ps, st') \<Rightarrow> ((\<lparr>Code = 0, Msg = ''success''\<rparr>,
                map (\<lambda>pr. \<lparr>rp_Id = prod_ID pr, rp_Name = prod_Name pr, rp_Description = prod_Description pr,
                  rp_PointsPrice = prod_PointsPrice pr, rp_Active = prod_Active pr\<rparr>) ps), st'))"

subsection \<open>The inventory service\<close>

record rpc_inventory =
  ri_ProductId :: int
  ri_Available :: int
  ri_Reserved :: int
  ri_Sold :: int
  ri_Version :: int

definition inventoryResp :: "inventory option \<Rightarrow> rpc_inventory option" where
  "inventoryResp item = map_option (\<lambda>i.
     \<lparr>ri_ProductId = inv_ProductID i, ri_Available = inv_Available i, ri_Reserved = inv_Reserved i,
      ri_Sold = inv_Sold i, ri_Version = inv_Version i\<rparr>) item"

record sql_service =
  sv_db :: bool
  sv_raw :: bool

definition firstInventory :: "int \<Rightarrow> (inv_tables, inventory) sql" where
  "firstInventory productID now t =
     (case inventories t productID of None \<Rightarrow> (Inl ErrRecordNotFound, t) | Some i \<Rightarrow> (Inr i, t))"

declare firstInventory_def [sql_defs]

definition loadInventory :: "sql_service option \<Rightarrow> int \<Rightarrow> (inv_tables, inventory) tx" where
  "loadInventory s productID =
     (if s = None \<or> \<not> sv_db (the s) then tx_fail (ErrNew ''inventory service is not initialized'')
      else stmt (firstInventory productID))"

definition GetInventory ::
    "sql_service option \<Rightarrow> int option \<Rightarrow> inv_tables tx_state \<Rightarrow>
     (resp \<times> rpc_inventory option) \<times> inv_tables tx_state" where
  "GetInventory s req st =
     (case req of
        None \<Rightarrow> ((\<lparr>Code = 400, Msg = ''invalid product_id''\<rparr>, None), st)
      | Some productId \<Rightarrow>
          if productId \<le> 0 then ((\<lparr>Code = 400, Msg = ''invalid product_id''\<rparr>, None), st)
          else case loadInventory s productId st of
              (Inl err, st') \<Rightarrow>
                if err_is err ErrRecordNotFound
                then ((\<lparr>Code = 404, Msg = ''inventory not found''\<rparr>, None), st')
                else ((\<lparr>Code = 500, Msg = ''failed to query inventory''\<rparr>, None), st')
            | (Inr item, st') \<Rightarrow> ((\<lparr>Code = 0, Msg = ''success''\<rparr>, inventoryResp (Some item)), st'))"

text \<open>The reply of CheckSaleable: the response, whether saleable, and the available stock.\<close>

definition CheckSaleable ::
    "sql_service option \<Rightarrow> (int \<times> int) option \<Rightarrow> inv_tables tx_state \<Rightarrow>
     (resp \<times> bool \<times> int) \<times> inv_tables tx_state" where
  "CheckSaleable s req st =
     (case req of
        None \<Rightarrow> ((\<lparr>Code = 400, Msg = ''invalid request''\<rparr>, False, 0), st)
      | Some (productId, quantity) \<Rightarrow>
          if productId \<le> 0 \<or> quantity \<le> 0 then ((\<lparr>Code = 400, Msg = ''invalid request''\<rparr>, False, 0), st)
          else case loadInventory s productId st of
              (Inl err, st') \<Rightarrow> ((\<lparr>Code = 404, Msg = ''inventory not found''\<rparr>, False, 0), st')
            | (Inr item, st') \<Rightarrow>
                ((\<lparr>Code = 0, Msg = ''success''\<rparr>, inv_Available item \<ge> quantity, inv_Available item), st'))"

definition mutationCode :: "goerr \<Rightarrow> int" where
  "mutationCode err =
     (if err_is err ErrInsufficientStock \<or> err_is err ErrIdempotencyConflict \<or> err_is err ErrRecordNotFound
      then 409 else 500)"

record inventory_req =
  ir_OrderId :: string
  ir_ProductId :: int
  ir_Quantity :: int

definition inventory_payload :: "inventory_req \<Rightarrow> saga_payload" where
  "inventory_payload r =
     \<lparr>OrderID = ir_OrderId r, UserID = 0, RequestID = '''', ProductID = ir_ProductId r,
      Quantity = ir_Quantity r, PointsPrice = 0, TotalPoints = 0, SagaGID = '''', FailAt = ''''\<rparr>"

definition mutateInventory ::
    "(string \<Rightarrow> string) \<Rightarrow> sql_service option \<Rightarrow> inventory_req option \<Rightarrow> InventoryOperation \<Rightarrow>
     inv_tables tx_state \<Rightarrow> (resp \<times> rpc_inventory option) \<times> inv_tables tx_state" where
  "mutateInventory getenv s req operation st =
     (case req of
        None \<Rightarrow> ((\<lparr>Code = 400, Msg = ''invalid request''\<rparr>, None), st)
      | Some r \<Rightarrow>
          if ir_OrderId r = '''' \<or> ir_ProductId r \<le> 0 \<or> ir_Quantity r \<le> 0
          then ((\<lparr>Code = 400, Msg = ''invalid request''\<rparr>, None), st)
          else if s = None \<or> \<not> sv_raw (the s) \<or> \<not> sv_db (the s)
          then ((\<lparr>Code = 500, Msg = ''service not initialized''\<rparr>, None), st)
          else case RunLocalMutation getenv (ApplyInventoryMutation (inventory_payload r) operation) st of
              (Inl err, st1) \<Rightarrow> ((\<lparr>Code = mutationCode err, Msg = err_text err\<rparr>, None), st1)
            | (Inr _, st1) \<Rightarrow>
                (case loadInventory s (ir_ProductId r) st1 of
                   (Inl err, st2) \<Rightarrow> ((\<lparr>Code = 500, Msg = ''mutation committed but reload failed''\<rparr>, None), st2)
                 | (Inr item, st2) \<Rightarrow> ((\<lparr>Code = 0, Msg = ''success''\<rparr>, inventoryResp (Some item)), st2)))"

text \<open>The three RPCs of the service; the service has none for unconfirm.\<close>

definition ReserveRPC where "ReserveRPC getenv s req = mutateInventory getenv s req InventoryReserve"
definition ReleaseRPC where "ReleaseRPC getenv s req = mutateInventory getenv s req InventoryRelease"
definition ConfirmRPC where "ConfirmRPC getenv s req = mutateInventory getenv s req InventoryConfirm"

subsection \<open>The points service\<close>

record rpc_account =
  ra_UserId :: int
  ra_Balance :: int
  ra_Version :: int

definition pointsResp :: "points_account option \<Rightarrow> rpc_account option" where
  "pointsResp account = map_option (\<lambda>a.
     \<lparr>ra_UserId = acc_UserID a, ra_Balance = acc_Balance a, ra_Version = acc_Version a\<rparr>) account"

definition firstAccount :: "int \<Rightarrow> (pts_tables, points_account) sql" where
  "firstAccount userID now t =
     (case accounts t userID of None \<Rightarrow> (Inl ErrRecordNotFound, t) | Some a \<Rightarrow> (Inr a, t))"

declare firstAccount_def [sql_defs]

definition loadAccount :: "sql_service option \<Rightarrow> int \<Rightarrow> (pts_tables, points_account) tx" where
  "loadAccount s userID =
     (if s = None \<or> \<not> sv_db (the s) then tx_fail (ErrNew ''points service is not initialized'')
      else stmt (firstAccount userID))"

definition GetPoints ::
    "sql_service option \<Rightarrow> int option \<Rightarrow> pts_tables tx_state \<Rightarrow>
     (resp \<times> rpc_account option) \<times> pts_tables tx_state" where
  "GetPoints s req st =
     (case req of
        None \<Rightarrow> ((\<lparr>Code = 400, Msg = ''invalid user_id''\<rparr>, None), st)
      | Some userId \<Rightarrow>
          if userId \<le> 0 then ((\<lparr>Code = 400, Msg = ''invalid user_id''\<rparr>, None), st)
          else case loadAccount s userId st of
              (Inl err, st') \<Rightarrow>
                if err_is err ErrRecordNotFound
                then ((\<lparr>Code = 404, Msg = ''points account not found''\<rparr>, None), st')
                else ((\<lparr>Code = 500, Msg = ''failed to query points account''\<rparr>, None), st')
            | (Inr account, st') \<Rightarrow> ((\<lparr>Code = 0, Msg = ''success''\<rparr>, pointsResp (Some account)), st'))"

record points_req =
  pr_OrderId :: string
  pr_UserId :: int
  pr_Amount :: int

definition points_payload :: "points_req \<Rightarrow> saga_payload" where
  "points_payload r =
     \<lparr>OrderID = pr_OrderId r, UserID = pr_UserId r, RequestID = '''', ProductID = 0, Quantity = 0,
      PointsPrice = 0, TotalPoints = pr_Amount r, SagaGID = '''', FailAt = ''''\<rparr>"

definition mutatePoints ::
    "(string \<Rightarrow> string) \<Rightarrow> sql_service option \<Rightarrow> points_req option \<Rightarrow> PointsOperation \<Rightarrow>
     pts_tables tx_state \<Rightarrow> (resp \<times> rpc_account option) \<times> pts_tables tx_state" where
  "mutatePoints getenv s req operation st =
     (case req of
        None \<Rightarrow> ((\<lparr>Code = 400, Msg = ''invalid request''\<rparr>, None), st)
      | Some r \<Rightarrow>
          if pr_OrderId r = '''' \<or> pr_UserId r \<le> 0 \<or> pr_Amount r \<le> 0
          then ((\<lparr>Code = 400, Msg = ''invalid request''\<rparr>, None), st)
          else if s = None \<or> \<not> sv_raw (the s) \<or> \<not> sv_db (the s)
          then ((\<lparr>Code = 500, Msg = ''service not initialized''\<rparr>, None), st)
          else case RunLocalMutation getenv (ApplyPointsMutation (points_payload r) operation) st of
              (Inl err, st1) \<Rightarrow>
                ((\<lparr>Code = (if err_is err ErrInsufficientPoints \<or> err_is err ErrIdempotencyConflict then 409 else 500),
                   Msg = err_text err\<rparr>, None), st1)
            | (Inr _, st1) \<Rightarrow>
                (case loadAccount s (pr_UserId r) st1 of
                   (Inl err, st2) \<Rightarrow> ((\<lparr>Code = 500, Msg = ''mutation committed but reload failed''\<rparr>, None), st2)
                 | (Inr account, st2) \<Rightarrow> ((\<lparr>Code = 0, Msg = ''success''\<rparr>, pointsResp (Some account)), st2)))"

definition DebitRPC where "DebitRPC getenv s req = mutatePoints getenv s req PointsDebit"
definition RefundRPC where "RefundRPC getenv s req = mutatePoints getenv s req PointsRefund"

subsection \<open>Which database a service opens\<close>

definition role_env :: "string \<Rightarrow> (string \<times> string) option" where
  "role_env role =
     (if role = ''mall'' then Some (''LIVECLASS_MALL_MYSQL_DSN'', ''liveclass_mall'')
      else if role = ''order'' then Some (''LIVECLASS_MALL_ORDER_MYSQL_DSN'', ''liveclass_mall_order'')
      else if role = ''inventory'' then Some (''LIVECLASS_MALL_INVENTORY_MYSQL_DSN'', ''liveclass_mall_inventory'')
      else if role = ''points'' then Some (''LIVECLASS_MALL_POINTS_MYSQL_DSN'', ''liveclass_mall_points'')
      else None)"

definition DSNForRole :: "(string \<Rightarrow> string) \<Rightarrow> string \<Rightarrow> goerr + string" where
  "DSNForRole getenv role =
     (case role_env role of
        None \<Rightarrow> Inl (ErrNew (''unknown mall database role '' @ [CHR 0x22] @ role @ [CHR 0x22]))
      | Some (envKey, defaultDB) \<Rightarrow>
          if getenv envKey \<noteq> '''' then Inr (getenv envKey)
          else Inr (''root:123456@tcp(127.0.0.1:3306)/'' @ defaultDB @
            ''?charset=utf8mb4&collation=utf8mb4_unicode_ci&parseTime=True&loc=Local&timeout=2s&readTimeout=2s&writeTimeout=2s''))"

subsection \<open>Properties\<close>

lemma Exchange_order_or_error:
  "Exchange c uuid5 submit input s = ((Some o', e), s') \<Longrightarrow> e = None"
  by (auto simp: Exchange_def Let_def split: option.splits prod.splits if_splits)

text \<open>
  (error). A reply of the mall service carries an order exactly when its code is 0. The handler
  has code that attaches the order to an error reply, and exchange returns the order of a Saga
  that was rolled back together with the error, but the wrapper in between drops it: a customer
  whose exchange failed is never told the order that was compensated.
\<close>

theorem exchange_reply_order_iff_success:
  assumes "ExchangeHandler s uuid5 submit req st = ((r, order), st')"
  shows "Code r \<in> {0, 400, 409, 500} \<and> (order \<noteq> None \<longleftrightarrow> Code r = 0)"
proof -
  have some: "Exchange c uuid5 submit input st = ((None, None), st1) \<Longrightarrow> False" for c input st1
    by (auto simp: Exchange_def Let_def split: option.splits prod.splits if_splits)
  show ?thesis
    using assms Exchange_order_or_error some
    by (fastforce simp: ExchangeHandler_def Let_def toRPCOrder_def split: option.splits prod.splits if_splits)
qed

lemma run_attempts_success:
  "run_attempts operation n le s = (Inr u, s') \<Longrightarrow> \<exists>s1 s2. operation s1 = (Inr (), s2) \<and> tables s2 = tables s'"
proof (induction n arbitrary: le s)
  case (Suc n)
  obtain b r s1 where a: "run_attempt operation s = ((b, r), s1)" by (metis surj_pair)
  show ?case
  proof (cases r)
    case (Inr u')
    with a Suc.prems have "s1 = s'" by simp
    with a Inr show ?thesis
      by (auto simp: run_attempt_def commit_tx_def split: sum.splits prod.splits db_event.splits intro!: exI)
  next
    case (Inl e)
    with a Suc show ?thesis by (auto split: if_splits)
  qed
qed simp

text \<open>
  (functional). When the inventory service answers an RPC with code 0, the mutation ran to its end
  in a committed transaction, and the counters in the reply are those of the table. A code other
  than 0 never carries an inventory.
\<close>

theorem inventory_rpc_reply:
  assumes "mutateInventory getenv s req operation st = ((r, item), st')"
  shows "(Code r = 0 \<longleftrightarrow> item \<noteq> None) \<and>
    (Code r = 0 \<longrightarrow> (\<exists>q i s1 s2. req = Some q \<and>
       ApplyInventoryMutation (inventory_payload q) operation s1 = (Inr (), s2) \<and> tables s2 = tables st' \<and>
       inventories (tables st') (ir_ProductId q) = Some i \<and> item = inventoryResp (Some i)))"
proof (cases "Code r = 0")
  case False
  with assms show ?thesis
    by (auto simp: mutateInventory_def mutationCode_def split: option.splits sum.splits prod.splits if_splits)
next
  case True
  then obtain q st1 i u where q: "req = Some q"
    "RunLocalMutation getenv (ApplyInventoryMutation (inventory_payload q) operation) st = (Inr u, st1)"
    "loadInventory s (ir_ProductId q) st1 = (Inr i, st')" "item = inventoryResp (Some i)"
    using assms
    by (auto simp: mutateInventory_def mutationCode_def split: option.splits sum.splits prod.splits if_splits)
  have "tables st' = tables st1 \<and> inventories (tables st') (ir_ProductId q) = Some i"
    using q(3) by (auto simp: loadInventory_def tx_fail_def stmt_def firstInventory_def
        split: if_splits db_event.splits option.splits)
  moreover obtain s1 s2 where
    "ApplyInventoryMutation (inventory_payload q) operation s1 = (Inr (), s2)" "tables s2 = tables st1"
    using run_attempts_success [OF q(2) [unfolded RunLocalMutation_def]] by blast
  moreover have "item \<noteq> None" using q(4) by (simp add: inventoryResp_def)
  ultimately have "req = Some q \<and> ApplyInventoryMutation (inventory_payload q) operation s1 = (Inr (), s2) \<and>
      tables s2 = tables st' \<and> inventories (tables st') (ir_ProductId q) = Some i \<and>
      item = inventoryResp (Some i)" and "item \<noteq> None"
    using q(1,4) by auto
  with True show ?thesis by blast
qed

text \<open>
  (safety). Services of different roles never share a database by default: without settings in
  the environment, two known roles get the same data source only when they are the same role.
\<close>

theorem roles_have_their_own_database:
  assumes "\<And>k. getenv k = ''''" and "DSNForRole getenv r1 = Inr d" and "DSNForRole getenv r2 = Inr d"
  shows "r1 = r2"
  using assms(2,3) by (auto simp: DSNForRole_def role_env_def assms(1) split: if_splits)

subsection \<open>Instances\<close>

theorem exchange_reply_order_iff_success_witness:
  "snd (fst (ExchangeHandler None id (\<lambda>_. tx_return ()) (Some \<lparr>xr_UserId = 7, xr_ProductId = 1, xr_Quantity = 101, xr_RequestId = ''r''\<rparr>)
     (quiet 0 \<lparr>mall_orders = [], mall_products = []\<rparr>))) = None"
proof -
  let ?req = "Some \<lparr>xr_UserId = 7, xr_ProductId = 1, xr_Quantity = 101, xr_RequestId = ''r''\<rparr>"
  let ?st = "quiet 0 \<lparr>mall_orders = [], mall_products = []\<rparr>"
  obtain r order st' where h: "ExchangeHandler None id (\<lambda>_. tx_return ()) ?req ?st = ((r, order), st')"
    by (metis surj_pair)
  then have "Code r = 400" by (auto simp: ExchangeHandler_def)
  with exchange_reply_order_iff_success [OF h] have "order = None" by simp
  then show ?thesis unfolding h by simp
qed

theorem inventory_rpc_reply_witness:
  "\<exists>r item st'. mutateInventory (\<lambda>_. '''') (Some \<lparr>sv_db = True, sv_raw = True\<rparr>)
      (Some \<lparr>ir_OrderId = ''o1'', ir_ProductId = 1, ir_Quantity = 2\<rparr>) InventoryReserve (quiet 9 full_shelf) = ((r, item), st') \<and>
    (Code r = 0 \<longleftrightarrow> item \<noteq> None)"
proof -
  obtain r item st' where h: "mutateInventory (\<lambda>_. '''') (Some \<lparr>sv_db = True, sv_raw = True\<rparr>)
      (Some \<lparr>ir_OrderId = ''o1'', ir_ProductId = 1, ir_Quantity = 2\<rparr>) InventoryReserve (quiet 9 full_shelf) = ((r, item), st')"
    by (metis surj_pair)
  with inventory_rpc_reply [OF h] show ?thesis by blast
qed

end
