(* ===== verification/Paging.thy ===== *)
theory Paging
  imports Prelude
begin

text \<open>
  Reading a sorted result page by page from the last key seen: the interface of every list
  endpoint and scanning loop of the services (chat history, messages after an anchor, students of a
  lesson, ids for the Bloom filters). A provider answers one page and whether to go on; the scan
  collects the pages, with fuel for the number of pages.
\<close>

text \<open>The rows after a key, in the order of the result.\<close>

definition rows_after :: "('k \<Rightarrow> 'k \<Rightarrow> bool) \<Rightarrow> ('a \<Rightarrow> 'k) \<Rightarrow> 'a list \<Rightarrow> 'k option \<Rightarrow> 'a list" where
  "rows_after before key rows from =
     (case from of None \<Rightarrow> rows | Some k \<Rightarrow> filter (\<lambda>x. before k (key x)) rows)"

fun scan :: "('k option \<Rightarrow> 'a list \<times> 'k option) \<Rightarrow> nat \<Rightarrow> 'k option \<Rightarrow> 'a list option" where
  "scan fetch 0 from = None"
| "scan fetch (Suc n) from =
     (case fetch from of
        (ms, None) \<Rightarrow> Some ms
      | (ms, Some k) \<Rightarrow> map_option (\<lambda>rest. ms @ rest) (scan fetch n (Some k)))"

text \<open>A scan whose rows are converted page by page.\<close>

lemma scan_map:
  "scan (\<lambda>from. (map f (fst (fetch from)), snd (fetch from))) n from = map_option (map f) (scan fetch n from)"
proof (induction n arbitrary: "from")
  case (Suc n)
  obtain ms nx where "fetch from = (ms, nx)" by fastforce
  with Suc show ?case by (cases nx) (auto simp: option.map_comp comp_def)
qed simp

definition strictly_ordered :: "('k \<Rightarrow> 'k \<Rightarrow> bool) \<Rightarrow> ('a \<Rightarrow> 'k) \<Rightarrow> 'a list \<Rightarrow> bool" where
  "strictly_ordered before key rows \<longleftrightarrow>
     sorted_wrt (\<lambda>x y. before (key x) (key y) \<and> \<not> before (key y) (key x)) rows \<and>
     (\<forall>x \<in> set rows. \<not> before (key x) (key x))"

lemma filter_after_prefix:
  assumes "strictly_ordered before key rows" and "rows = xs @ x # ys"
  shows "filter (\<lambda>y. before (key x) (key y)) rows = ys"
  using assms by (auto simp: strictly_ordered_def sorted_wrt_append filter_empty_conv filter_id_conv)

lemma strictly_ordered_filter: "strictly_ordered before key rows \<Longrightarrow> strictly_ordered before key (filter P rows)"
  by (auto simp: strictly_ordered_def sorted_wrt_filter)

lemma take_last_split:
  assumes "0 < n" and "rows \<noteq> []"
  shows "\<exists>xs ys. rows = xs @ last (take n rows) # ys \<and> take n rows = xs @ [last (take n rows)] \<and> drop n rows = ys"
proof -
  have "take n rows \<noteq> []" using assms by (cases rows) auto
  then have "take n rows = butlast (take n rows) @ [last (take n rows)]" by simp
  moreover have "rows = take n rows @ drop n rows" by simp
  ultimately have "rows = butlast (take n rows) @ last (take n rows) # drop n rows"
    by (metis append.assoc append_Cons append_Nil)
  with \<open>take n rows = _ @ _\<close> show ?thesis by blast
qed

locale paged =
  fixes fetch :: "'k option \<Rightarrow> 'a list \<times> 'k option" and rows :: "'a list" and key :: "'a \<Rightarrow> 'k"
    and before :: "'k \<Rightarrow> 'k \<Rightarrow> bool" and limit :: nat
  assumes limit_pos: "0 < limit"
    and page: "fst (fetch from) = take limit (rows_after before key rows from)"
    and stop: "snd (fetch from) = None \<Longrightarrow> length (rows_after before key rows from) \<le> limit"
    and go_on: "snd (fetch from) = Some k \<Longrightarrow> rows_after before key rows from \<noteq> [] \<and>
      k = key (last (take limit (rows_after before key rows from)))"
begin

lemma scan_from:
  assumes "strictly_ordered before key rows" and "length (rows_after before key rows from) < n"
    and "\<And>k. from = Some k \<Longrightarrow> \<exists>xs x. rows = xs @ x # rows_after before key rows from \<and> key x = k"
  shows "scan fetch n from = Some (rows_after before key rows from)"
  using assms(2,3)
proof (induction n arbitrary: "from")
  case (Suc n)
  let ?rs = "rows_after before key rows from"
  obtain ms nx where f: "fetch from = (ms, nx)" by (cases "fetch from")
  have ms: "ms = take limit ?rs" using page [of "from"] f by simp
  show ?case
  proof (cases nx)
    case None
    with stop [of "from"] f ms show ?thesis by simp
  next
    case (Some k)
    with go_on [of "from" k] f have k: "?rs \<noteq> []" "k = key (last (take limit ?rs))" by auto
    obtain xs ys where s: "?rs = xs @ last (take limit ?rs) # ys"
      "take limit ?rs = xs @ [last (take limit ?rs)]" "drop limit ?rs = ys"
      using take_last_split [OF limit_pos k(1)] by blast
    have "\<exists>zs. rows = zs @ ?rs"
    proof (cases "from")
      case (Some k0)
      with Suc.prems(2) [OF Some] show ?thesis by (metis append.assoc append_Cons append_Nil)
    qed (simp add: rows_after_def)
    then obtain zs where "rows = (zs @ xs) @ last (take limit ?rs) # ys" using s(1) by (metis append.assoc)
    note whole = this
    have next_rows: "rows_after before key rows (Some k) = ys"
      using filter_after_prefix [OF assms(1) whole] k(2) by (simp add: rows_after_def)
    have "length ?rs = Suc (length xs + length ys)" by (subst s(1)) simp
    then have "length (rows_after before key rows (Some k)) < n" using Suc.prems(1) next_rows by simp
    moreover have "\<exists>xs x. rows = xs @ x # rows_after before key rows (Some k) \<and> key x = k"
      using whole next_rows k(2) by blast
    ultimately have "scan fetch n (Some k) = Some ys" using Suc.IH [of "Some k"] next_rows by simp
    moreover have "?rs = ms @ ys" using ms s(3) by (metis append_take_drop_id)
    ultimately show ?thesis using f Some by simp
  qed
qed simp

text \<open>Scanning from the start reads every row once, in order.\<close>

lemma scan_all:
  "strictly_ordered before key rows \<Longrightarrow> length rows < n \<Longrightarrow> scan fetch n None = Some rows"
  using scan_from [of None n] by (simp add: rows_after_def)

end

end
