(* ===== verification/Chat_Store.thy ===== *)
theory Chat_Store
  imports Paging "HOL-Library.Char_ord" "HOL-Library.List_Lexorder" "HOL-Library.Product_Lexorder"
begin

text \<open>
  The chat messages in MongoDB and their outbox (internal/rpc/chat/dao/mongo.go,
  internal/rpc/chat/model/msg.go). The collection is the list of its documents. A command is a
  function of the collection; each runs atomically on one document, as MongoDB's single-document
  commands do. Times are integers, and documents are ordered by (created_at, message_id), where
  strings compare byte by byte.
\<close>

subsection \<open>Messages\<close>

datatype outbox_status = OutboxPending | OutboxPublishing | OutboxPublished

record outbox_state =
  Status :: outbox_status
  OAttempts :: int
  NextAttemptAt :: "int option"
  LeaseOwner :: string            \<comment> \<open>empty when unset\<close>
  LeaseUntil :: "int option"
  PublishedAt :: "int option"
  LastError :: string

record message =
  MessageID :: string
  ClientMessageID :: string
  LessonID :: int
  LessonSeq :: int
  SenderID :: int
  Content :: string
  CreatedAt :: int
  Outbox :: outbox_state

type_synonym msg_key = "int \<times> string"

definition key :: "message \<Rightarrow> msg_key" where
  "key m = (CreatedAt m, MessageID m)"

definition ErrNoDocuments :: goerr where
  "ErrNoDocuments = Sentinel ''mongo: no documents in result''"

definition ErrDuplicateKey :: goerr where
  "ErrDuplicateKey = ErrNew ''E11000 duplicate key error''"

text \<open>UpdateOne and FindOneAndUpdate change the first document that matches.\<close>

fun update_first :: "('a \<Rightarrow> bool) \<Rightarrow> ('a \<Rightarrow> 'a) \<Rightarrow> 'a list \<Rightarrow> 'a list" where
  "update_first P f [] = []"
| "update_first P f (x # xs) = (if P x then f x # xs else x # update_first P f xs)"

subsection \<open>Claiming\<close>

definition claimable :: "int \<Rightarrow> message \<Rightarrow> bool" where
  "claimable now m \<longleftrightarrow>
     (Status (Outbox m) = OutboxPending \<and> (case NextAttemptAt (Outbox m) of Some t \<Rightarrow> t \<le> now | None \<Rightarrow> False)) \<or>
     (Status (Outbox m) = OutboxPublishing \<and> (case LeaseUntil (Outbox m) of Some t \<Rightarrow> t \<le> now | None \<Rightarrow> False))"

definition lease_to :: "string \<Rightarrow> int \<Rightarrow> message \<Rightarrow> message" where
  "lease_to owner leaseUntil m =
     m\<lparr>Outbox := (Outbox m)\<lparr>Status := OutboxPublishing, LeaseOwner := owner, LeaseUntil := Some leaseUntil\<rparr>\<rparr>"

definition claimNextOutbox ::
    "string \<Rightarrow> int \<Rightarrow> int \<Rightarrow> (message \<Rightarrow> bool) \<Rightarrow> message list \<Rightarrow> (goerr + message) \<times> message list" where
  "claimNextOutbox owner now lease affinity coll =
     (case sort_key key (filter (\<lambda>m. claimable now m \<and> affinity m) coll) of
        [] \<Rightarrow> (Inl ErrNoDocuments, coll)
      | m # _ \<Rightarrow> (Inr (lease_to owner (now + lease) m),
          update_first (\<lambda>x. MessageID x = MessageID m) (lease_to owner (now + lease)) coll))"

definition ClaimNextOutbox :: "string \<Rightarrow> int \<Rightarrow> int \<Rightarrow> message list \<Rightarrow> (goerr + message) \<times> message list" where
  "ClaimNextOutbox owner now lease coll = claimNextOutbox owner now lease (\<lambda>_. True) coll"

text \<open>$mod truncates towards zero, like Go's remainder.\<close>

definition mongo_mod :: "int \<Rightarrow> int \<Rightarrow> int" where
  "mongo_mod a b = sgn a * (\<bar>a\<bar> mod b)"

definition ClaimNextOutboxForWorker ::
    "string \<Rightarrow> int \<Rightarrow> int \<Rightarrow> int \<Rightarrow> int \<Rightarrow> message list \<Rightarrow> (goerr + message) \<times> message list" where
  "ClaimNextOutboxForWorker owner now lease workerID workerCount coll =
     (if workerCount \<le> 0 \<or> workerID < 0 \<or> workerID \<ge> workerCount
      then (Inl (ErrNew ''invalid outbox worker affinity''), coll)
      else claimNextOutbox owner now lease (\<lambda>m. mongo_mod (LessonID m) workerCount = workerID) coll)"

subsection \<open>The ordering fence and the end of a lease\<close>

definition HasEarlierUnpublishedOutbox :: "int \<Rightarrow> int \<Rightarrow> string \<Rightarrow> message list \<Rightarrow> bool" where
  "HasEarlierUnpublishedOutbox lessonID createdAt messageID coll =
     list_ex (\<lambda>m. LessonID m = lessonID \<and> Status (Outbox m) \<in> {OutboxPending, OutboxPublishing} \<and>
       (CreatedAt m < createdAt \<or> (CreatedAt m = createdAt \<and> MessageID m < messageID))) coll"

definition leased_by :: "string \<Rightarrow> string \<Rightarrow> message \<Rightarrow> bool" where
  "leased_by messageID owner m \<longleftrightarrow>
     MessageID m = messageID \<and> Status (Outbox m) = OutboxPublishing \<and> LeaseOwner (Outbox m) = owner"

definition finish_lease ::
    "string \<Rightarrow> string \<Rightarrow> string \<Rightarrow> (message \<Rightarrow> message) \<Rightarrow> message list \<Rightarrow> goerr option \<times> message list" where
  "finish_lease lost messageID owner f coll =
     (if list_ex (leased_by messageID owner) coll
      then (None, update_first (leased_by messageID owner) f coll)
      else (Some (ErrNew lost), coll))"

definition deferred :: "int \<Rightarrow> message \<Rightarrow> message" where
  "deferred nextAttempt m =
     m\<lparr>Outbox := (Outbox m)\<lparr>Status := OutboxPending, NextAttemptAt := Some nextAttempt,
       LeaseOwner := '''', LeaseUntil := None\<rparr>\<rparr>"

definition published :: "int \<Rightarrow> message \<Rightarrow> message" where
  "published publishedAt m =
     m\<lparr>Outbox := (Outbox m)\<lparr>Status := OutboxPublished, PublishedAt := Some publishedAt,
       LeaseOwner := '''', LeaseUntil := None, NextAttemptAt := None, LastError := ''''\<rparr>\<rparr>"

definition retried :: "string \<Rightarrow> int \<Rightarrow> message \<Rightarrow> message" where
  "retried lastError nextAttempt m =
     m\<lparr>Outbox := (Outbox m)\<lparr>Status := OutboxPending, NextAttemptAt := Some nextAttempt,
       LastError := lastError, OAttempts := OAttempts (Outbox m) + 1, LeaseOwner := '''', LeaseUntil := None\<rparr>\<rparr>"

definition DeferOutboxForOrdering :: "string \<Rightarrow> string \<Rightarrow> int \<Rightarrow> message list \<Rightarrow> goerr option \<times> message list" where
  "DeferOutboxForOrdering messageID owner nextAttempt =
     finish_lease ''outbox ordering lease lost'' messageID owner (deferred nextAttempt)"

definition MarkOutboxPublished :: "string \<Rightarrow> string \<Rightarrow> int \<Rightarrow> message list \<Rightarrow> goerr option \<times> message list" where
  "MarkOutboxPublished messageID owner publishedAt =
     finish_lease ''outbox publish lease lost'' messageID owner (published publishedAt)"

definition MarkOutboxRetry ::
    "string \<Rightarrow> string \<Rightarrow> string \<Rightarrow> int \<Rightarrow> message list \<Rightarrow> goerr option \<times> message list" where
  "MarkOutboxRetry messageID owner lastError nextAttempt =
     finish_lease ''outbox retry lease lost'' messageID owner (retried lastError nextAttempt)"

definition CountPendingOutbox :: "message list \<Rightarrow> nat" where
  "CountPendingOutbox coll = length (filter (\<lambda>m. Status (Outbox m) \<in> {OutboxPending, OutboxPublishing}) coll)"

subsection \<open>Inserting\<close>

text \<open>
  The unique indexes: message_id, and (sender_id, client_message_id) for documents that carry a
  client message id.
\<close>

definition index_conflict :: "message \<Rightarrow> message \<Rightarrow> bool" where
  "index_conflict m x \<longleftrightarrow> MessageID x = MessageID m \<or>
     (ClientMessageID m \<noteq> '''' \<and> SenderID x = SenderID m \<and> ClientMessageID x = ClientMessageID m)"

definition InsertMongo :: "message \<Rightarrow> message list \<Rightarrow> goerr option \<times> message list" where
  "InsertMongo m coll =
     (if list_ex (index_conflict m) coll then (Some ErrDuplicateKey, coll) else (None, coll @ [m]))"

definition same_client_message :: "message \<Rightarrow> message \<Rightarrow> bool" where
  "same_client_message m x \<longleftrightarrow> SenderID x = SenderID m \<and> ClientMessageID x = ClientMessageID m"

text \<open>
  The upsert either finds the document of an earlier attempt or inserts the new one; when two
  upserts race, the loser gets a duplicate key error and reads what the winner wrote.
\<close>

definition InsertMessageIdempotent ::
    "message \<Rightarrow> message list \<Rightarrow> (goerr + message \<times> bool) \<times> message list" where
  "InsertMessageIdempotent m coll =
     (if ClientMessageID m = '''' then
        (case InsertMongo m coll of
           (Some err, coll') \<Rightarrow> (Inl err, coll')
         | (None, coll') \<Rightarrow> (Inr (m, True), coll'))
      else
        (case (case List.find (same_client_message m) coll of
                 Some x \<Rightarrow> (Inr x, coll)
               | None \<Rightarrow>
                   (case InsertMongo m coll of
                      (None, coll') \<Rightarrow> (Inr m, coll')
                    | (Some _, coll') \<Rightarrow>
                        (case List.find (same_client_message m) coll' of
                           Some x \<Rightarrow> (Inr x, coll')
                         | None \<Rightarrow> (Inl ErrNoDocuments, coll')))) of
           (Inl err, coll') \<Rightarrow> (Inl err, coll')
         | (Inr persisted, coll') \<Rightarrow>
             if LessonID persisted \<noteq> LessonID m \<or> Content persisted \<noteq> Content m
             then (Inl (ErrNew ''client_message_id already used with different message content''), coll')
             else (Inr (persisted, MessageID persisted = MessageID m), coll')))"

definition SetLessonSeq :: "string \<Rightarrow> int \<Rightarrow> message list \<Rightarrow> message list" where
  "SetLessonSeq messageID seq = update_first (\<lambda>x. MessageID x = messageID) (\<lambda>x. x\<lparr>LessonSeq := seq\<rparr>)"

text \<open>The counters of the lessons: $inc with upsert, returning the new value.\<close>

definition AllocateLessonSeq :: "int \<Rightarrow> (int \<Rightarrow> int option) \<Rightarrow> int \<times> (int \<Rightarrow> int option)" where
  "AllocateLessonSeq lessonID counters =
     (let seq = (case counters lessonID of None \<Rightarrow> 1 | Some n \<Rightarrow> n + 1) in (seq, counters(lessonID \<mapsto> seq)))"

definition DeleteLessonMessages :: "int \<Rightarrow> message list \<Rightarrow> message list" where
  "DeleteLessonMessages lessonID coll = filter (\<lambda>m. LessonID m \<noteq> lessonID) coll"

subsection \<open>Reading\<close>

definition clamp_limit :: "int \<Rightarrow> nat" where
  "clamp_limit limit =
     (let l = (if limit \<le> 0 then 50 else limit) in nat (if l > 100 then 100 else l))"

text \<open>A page of a sorted result: one more than the limit is read to see whether there is more.\<close>

definition page :: "nat \<Rightarrow> 'a list \<Rightarrow> 'a list \<times> bool" where
  "page limit rows =
     (let ms = take (limit + 1) rows in if length ms \<le> limit then (ms, False) else (take limit ms, True))"

text \<open>The rows of a lesson, newest first, before a key; and oldest first, after a key.\<close>

definition history_rows :: "int \<Rightarrow> message list \<Rightarrow> msg_key option \<Rightarrow> message list" where
  "history_rows lessonID coll from =
     rev (sort_key key (filter (\<lambda>m. LessonID m = lessonID \<and>
       (case from of None \<Rightarrow> True | Some k \<Rightarrow>
          CreatedAt m < fst k \<or> (CreatedAt m = fst k \<and> MessageID m < snd k))) coll))"

definition later_rows :: "int \<Rightarrow> message list \<Rightarrow> msg_key \<Rightarrow> message list" where
  "later_rows lessonID coll k =
     sort_key key (filter (\<lambda>m. LessonID m = lessonID \<and>
       (CreatedAt m > fst k \<or> (CreatedAt m = fst k \<and> MessageID m > snd k))) coll)"

text \<open>
  SelectMongo: newest first, from an opaque cursor. encode and decode stand for the base64 and JSON
  codecs around the cursor (created_at, message_id).
\<close>

definition SelectMongo ::
    "(msg_key \<Rightarrow> string) \<Rightarrow> (string \<Rightarrow> msg_key option) \<Rightarrow> int \<Rightarrow> string \<Rightarrow> int \<Rightarrow> message list \<Rightarrow>
     goerr + message list \<times> string" where
  "SelectMongo encode decode lessonID cursor limit coll =
     (case (if cursor = '''' then Inr None
            else case decode cursor of
                   None \<Rightarrow> Inl (ErrNew ''invalid history cursor'')
                 | Some k \<Rightarrow> Inr (Some k)) of
        Inl err \<Rightarrow> Inl err
      | Inr from \<Rightarrow>
          (case page (clamp_limit limit) (history_rows lessonID coll from) of
             (ms, hasMore) \<Rightarrow>
               if \<not> hasMore then Inr (ms, '''')
               else if MessageID (List.last ms) = ''''
               then Inl (ErrNew ''invalid empty history cursor'')
               else Inr (ms, encode (key (List.last ms)))))"

definition SelectMongoAfter :: "int \<Rightarrow> string \<Rightarrow> int \<Rightarrow> message list \<Rightarrow> goerr + message list \<times> bool" where
  "SelectMongoAfter lessonID afterMessageID limit coll =
     (if afterMessageID = '''' then Inl (ErrNew ''after_message_id is required'')
      else case List.find (\<lambda>m. LessonID m = lessonID \<and> MessageID m = afterMessageID) coll of
        None \<Rightarrow> Inl ErrNoDocuments
      | Some anchor \<Rightarrow> Inr (page (clamp_limit limit) (later_rows lessonID coll (key anchor))))"

subsection \<open>Facts about the documents\<close>

definition unique_ids :: "message list \<Rightarrow> bool" where
  "unique_ids coll \<longleftrightarrow> distinct (map MessageID coll)"

lemma update_first_map:
  "(\<And>x. P x \<Longrightarrow> g (f x) = g x) \<Longrightarrow> map g (update_first P f xs) = map g xs"
  by (induction xs) auto

lemma set_update_first:
  "distinct (map MessageID xs) \<Longrightarrow> (\<And>x y. P x \<Longrightarrow> P y \<Longrightarrow> MessageID x = MessageID y) \<Longrightarrow>
   set (update_first P f xs) = (\<lambda>x. if P x then f x else x) ` set xs"
proof (induction xs)
  case (Cons x xs)
  show ?case
  proof (cases "P x")
    case True
    have "\<not> P y" if "y \<in> set xs" for y
    proof
      assume "P y"
      then have "MessageID x = MessageID y" using Cons.prems(2) True by blast
      with that Cons.prems(1) show False by auto
    qed
    then have "(\<lambda>y. if P y then f y else y) ` set xs = (\<lambda>y. y) ` set xs" by (intro image_cong) auto
    with True show ?thesis by simp
  next
    case False
    have "set (update_first P f xs) = (\<lambda>x. if P x then f x else x) ` set xs"
    proof (rule Cons.IH)
      show "distinct (map MessageID xs)" using Cons.prems(1) by simp
      show "MessageID u = MessageID v" if "P u" "P v" for u v using Cons.prems(2) that by blast
    qed
    with False show ?thesis by simp
  qed
qed simp

lemma find_SomeD: "List.find P xs = Some x \<Longrightarrow> x \<in> set xs \<and> P x"
  by (auto simp: find_Some_iff)

lemma page_short: "page limit rows = (ms, False) \<Longrightarrow> ms = rows"
  by (auto simp: page_def Let_def split: if_splits)

lemma page_more: "page limit rows = (ms, True) \<Longrightarrow> ms = take limit rows \<and> length ms = limit \<and> limit < length rows"
  by (auto simp: page_def Let_def min_def split: if_splits)

lemma clamp_limit_range: "1 \<le> clamp_limit limit \<and> clamp_limit limit \<le> 100"
  by (auto simp: clamp_limit_def Let_def)

text \<open>
  (functional). Sending is idempotent: the first attempt with a client message id stores one
  document, and repeating it (the same sender, id, lesson and content; a fresh message id) at any
  later time stores nothing, returns the stored document and says it is a duplicate. A repetition
  with another content is refused.
\<close>

theorem insert_is_idempotent:
  assumes "unique_ids coll" and "ClientMessageID m \<noteq> ''''"
    and "InsertMessageIdempotent m coll = (Inr (p, True), coll1)"
    and "\<forall>x \<in> set coll1. \<exists>y \<in> set coll2. MessageID y = MessageID x \<and> ClientMessageID y = ClientMessageID x \<and>
      SenderID y = SenderID x \<and> LessonID y = LessonID x \<and> Content y = Content x"
    and "\<forall>x \<in> set coll2. \<forall>y \<in> set coll2. same_client_message m x \<and> same_client_message m y \<longrightarrow> x = y"
    and "SenderID m' = SenderID m" and "ClientMessageID m' = ClientMessageID m"
    and "MessageID m' \<notin> MessageID ` set coll2"
  shows "snd (InsertMessageIdempotent m' coll2) = coll2 \<and>
    (case fst (InsertMessageIdempotent m' coll2) of
       Inl err \<Rightarrow> LessonID m' \<noteq> LessonID m \<or> Content m' \<noteq> Content m
     | Inr (x, new) \<Rightarrow> \<not> new \<and> MessageID x = MessageID p \<and> LessonID m' = LessonID m \<and> Content m' = Content m)"
proof -
  have p: "p \<in> set coll1" "same_client_message m p" "LessonID p = LessonID m" "Content p = Content m"
    using assms(2,3)
    by (auto simp: InsertMessageIdempotent_def InsertMongo_def same_client_message_def
        split: option.splits if_splits sum.splits prod.splits dest!: find_SomeD)
  from assms(4) p(1) obtain y where y: "y \<in> set coll2" "MessageID y = MessageID p"
    "ClientMessageID y = ClientMessageID p" "SenderID y = SenderID p" "LessonID y = LessonID p" "Content y = Content p"
    by blast
  have sy: "same_client_message m y" using y p(2) by (simp add: same_client_message_def)
  have same: "same_client_message m' = same_client_message m"
    using assms(6,7) by (simp add: same_client_message_def fun_eq_iff)
  have "List.find (same_client_message m') coll2 = Some y"
  proof (cases "List.find (same_client_message m') coll2")
    case None
    with y(1) sy same show ?thesis by (auto simp: find_None_iff)
  next
    case (Some x)
    then have "x = y" using assms(5) y(1) sy same find_SomeD by metis
    with Some show ?thesis by simp
  qed
  moreover have "MessageID y \<noteq> MessageID m'" using assms(8) imageI [OF y(1), of MessageID] by metis
  ultimately show ?thesis
    using assms(2,7) y p by (auto simp: InsertMessageIdempotent_def)
qed

text \<open>
  (functional). Every message with a positive lesson id belongs to exactly one of the workers, so
  the affinity neither loses lessons nor shares them.
\<close>

theorem worker_affinity_partitions:
  assumes "0 < workerCount" and "0 \<le> LessonID m"
  shows "\<exists>!w. 0 \<le> w \<and> w < workerCount \<and> mongo_mod (LessonID m) workerCount = w"
  using assms by (cases "LessonID m = 0") (auto simp: mongo_mod_def)

subsection \<open>The pages of a lesson's history\<close>

definition history_fetch :: "int \<Rightarrow> int \<Rightarrow> message list \<Rightarrow> msg_key option \<Rightarrow> message list \<times> msg_key option" where
  "history_fetch lessonID limit coll from =
     (case page (clamp_limit limit) (history_rows lessonID coll from) of
        (ms, hasMore) \<Rightarrow> (ms, if hasMore then Some (key (List.last ms)) else None))"

text \<open>The same for the messages after an anchor k0.\<close>

definition later_fetch :: "int \<Rightarrow> int \<Rightarrow> message list \<Rightarrow> msg_key \<Rightarrow> msg_key option \<Rightarrow> message list \<times> msg_key option" where
  "later_fetch lessonID limit coll k0 from =
     (case page (clamp_limit limit) (later_rows lessonID coll (case from of None \<Rightarrow> k0 | Some k \<Rightarrow> max k k0)) of
        (ms, hasMore) \<Rightarrow> (ms, if hasMore then Some (key (List.last ms)) else None))"

lemma key_less: "key m < k \<longleftrightarrow> CreatedAt m < fst k \<or> (CreatedAt m = fst k \<and> MessageID m < snd k)"
  "k < key m \<longleftrightarrow> CreatedAt m > fst k \<or> (CreatedAt m = fst k \<and> MessageID m > snd k)"
  by (cases k; auto simp: key_def less_prod_def')+

lemma history_rows_after:
  "history_rows l coll from = rows_after (\<lambda>a b. b < a) key (history_rows l coll None) from"
  by (cases "from")
    (simp_all add: rows_after_def history_rows_def key_less [symmetric] rev_filter [symmetric] filter_sort)

lemma later_rows_after:
  "later_rows l coll (case from of None \<Rightarrow> k0 | Some k \<Rightarrow> max k k0) =
   rows_after (<) key (later_rows l coll k0) from"
proof (cases "from")
  case (Some k)
  have "filter (\<lambda>m. LessonID m = l \<and> max k k0 < key m) coll =
      filter (\<lambda>m. k < key m) (filter (\<lambda>m. LessonID m = l \<and> k0 < key m) coll)"
    by (auto intro!: filter_cong)
  with Some show ?thesis
    by (simp add: rows_after_def later_rows_def key_less [symmetric] filter_sort)
qed (simp add: rows_after_def)

interpretation history_pages: paged "history_fetch l limit coll" "history_rows l coll None" key "\<lambda>a b. b < a"
    "clamp_limit limit"
proof unfold_locales
  show "0 < clamp_limit limit" using clamp_limit_range [of limit] by simp
  fix "from" :: "msg_key option"
  obtain ms b where p: "page (clamp_limit limit) (history_rows l coll from) = (ms, b)" by (metis surj_pair)
  note r = history_rows_after [of l coll "from", symmetric]
  show "fst (history_fetch l limit coll from) =
      take (clamp_limit limit) (rows_after (\<lambda>a b. b < a) key (history_rows l coll None) from)"
    unfolding r using p by (auto simp: history_fetch_def page_def Let_def split: if_splits)
  show "snd (history_fetch l limit coll from) = None \<Longrightarrow>
      length (rows_after (\<lambda>a b. b < a) key (history_rows l coll None) from) \<le> clamp_limit limit"
    unfolding r using p by (auto simp: history_fetch_def page_def Let_def split: if_splits)
  show "snd (history_fetch l limit coll from) = Some k \<Longrightarrow>
      rows_after (\<lambda>a b. b < a) key (history_rows l coll None) from \<noteq> [] \<and>
      k = key (last (take (clamp_limit limit) (rows_after (\<lambda>a b. b < a) key (history_rows l coll None) from)))" for k
    unfolding r using p by (auto simp: history_fetch_def page_def Let_def split: if_splits)
qed

interpretation later_pages: paged "later_fetch l limit coll k0" "later_rows l coll k0" key "(<)" "clamp_limit limit"
proof unfold_locales
  show "0 < clamp_limit limit" using clamp_limit_range [of limit] by simp
  fix "from" :: "msg_key option"
  note r = later_rows_after [of l coll k0 "from", symmetric]
  show "fst (later_fetch l limit coll k0 from) =
      take (clamp_limit limit) (rows_after (<) key (later_rows l coll k0) from)"
    unfolding r by (auto simp: later_fetch_def page_def Let_def split: if_splits)
  show "snd (later_fetch l limit coll k0 from) = None \<Longrightarrow>
      length (rows_after (<) key (later_rows l coll k0) from) \<le> clamp_limit limit"
    unfolding r by (auto simp: later_fetch_def page_def Let_def split: if_splits)
  show "snd (later_fetch l limit coll k0 from) = Some k \<Longrightarrow>
      rows_after (<) key (later_rows l coll k0) from \<noteq> [] \<and>
      k = key (last (take (clamp_limit limit) (rows_after (<) key (later_rows l coll k0) from)))" for k
    unfolding r by (auto simp: later_fetch_def page_def Let_def split: if_splits)
qed

lemma strict_key_sorted:
  assumes "distinct (map MessageID ms)"
  shows "strictly_ordered (<) key (sort_key key ms)"
proof -
  have "distinct (map MessageID (sort_key key ms))"
    using assms by (simp add: distinct_map)
  then have "inj_on key (set (sort_key key ms))" "distinct (sort_key key ms)"
    by (auto simp: distinct_map inj_on_def key_def)
  then have "distinct (map key (sort_key key ms))" by (simp add: distinct_map)
  moreover have "sorted (map key (sort_key key ms))" by simp
  ultimately have "sorted_wrt (<) (map key (sort_key key ms))" by (simp add: strict_sorted_iff)
  then show ?thesis by (auto simp: strictly_ordered_def sorted_wrt_map intro: sorted_wrt_mono_rel [rotated])
qed

text \<open>A reader that follows the cursors to the end.\<close>

fun read_history ::
    "(msg_key \<Rightarrow> string) \<Rightarrow> (string \<Rightarrow> msg_key option) \<Rightarrow> int \<Rightarrow> int \<Rightarrow> message list \<Rightarrow> nat \<Rightarrow> string \<Rightarrow>
     goerr + message list" where
  "read_history encode decode l limit coll 0 cursor = Inl (ErrNew ''out of fuel'')"
| "read_history encode decode l limit coll (Suc n) cursor =
     (case SelectMongo encode decode l cursor limit coll of
        Inl err \<Rightarrow> Inl err
      | Inr (ms, nxt) \<Rightarrow>
          if nxt = '''' then Inr ms
          else (case read_history encode decode l limit coll n nxt of
                  Inl err \<Rightarrow> Inl err
                | Inr rest \<Rightarrow> Inr (ms @ rest)))"

lemma read_history_is_scan:
  assumes "\<And>k. decode (encode k) = Some k" and "\<And>k. encode k \<noteq> ''''" and "\<forall>m \<in> set coll. MessageID m \<noteq> ''''"
    and "scan (history_fetch l limit coll) n from = Some ms"
    and "cursor = (case from of None \<Rightarrow> '''' | Some k \<Rightarrow> encode k)"
  shows "read_history encode decode l limit coll n cursor = Inr ms"
  using assms(4,5)
proof (induction n arbitrary: "from" cursor ms)
  case (Suc n)
  obtain ps b where p: "page (clamp_limit limit) (history_rows l coll from) = (ps, b)" by (metis surj_pair)
  have sel: "SelectMongo encode decode l cursor limit coll =
      (if \<not> b then Inr (ps, '''') else Inr (ps, encode (key (last ps))))"
  proof (cases b)
    case True
    have "ps = take (clamp_limit limit) (history_rows l coll from)" "0 < clamp_limit limit" "ps \<noteq> []"
      using page_more [of "clamp_limit limit" "history_rows l coll from" ps] p True clamp_limit_range [of limit]
      by auto
    then have "last ps \<in> set (history_rows l coll from)" by (metis in_set_takeD last_in_set)
    then have "MessageID (last ps) \<noteq> ''''" using assms(3) by (auto simp: history_rows_def)
    with p True Suc.prems(2) assms(1,2) show ?thesis
      by (cases "from") (simp_all add: SelectMongo_def)
  next
    case False
    with p Suc.prems(2) assms(1,2) show ?thesis by (cases "from") (simp_all add: SelectMongo_def)
  qed
  show ?case
  proof (cases b)
    case True
    then have f: "history_fetch l limit coll from = (ps, Some (key (last ps)))" using p by (simp add: history_fetch_def)
    with Suc.prems(1) obtain rest where "scan (history_fetch l limit coll) n (Some (key (last ps))) = Some rest"
      "ms = ps @ rest" by auto
    with Suc.IH [OF this(1)] sel True assms(2) show ?thesis by simp
  next
    case False
    with Suc.prems(1) p sel show ?thesis by (simp add: history_fetch_def)
  qed
qed simp


subsection \<open>Instances\<close>

definition sample_message :: "string \<Rightarrow> int \<Rightarrow> message" where
  "sample_message mid t =
     \<lparr>MessageID = mid, ClientMessageID = ''c'' @ mid, LessonID = 5, LessonSeq = 0, SenderID = 7, Content = ''hello'',
      CreatedAt = t, Outbox = \<lparr>Status = OutboxPending, OAttempts = 0, NextAttemptAt = Some t, LeaseOwner = '''',
        LeaseUntil = None, PublishedAt = None, LastError = ''''\<rparr>\<rparr>"

text \<open>A concrete cursor codec.\<close>

definition unary_encode :: "msg_key \<Rightarrow> string" where
  "unary_encode k = (if fst k < 0 then CHR ''-'' else CHR ''+'') # replicate (nat \<bar>fst k\<bar>) (CHR ''1'') @ CHR ''.'' # snd k"

definition unary_decode :: "string \<Rightarrow> msg_key option" where
  "unary_decode s =
     (case s of
        [] \<Rightarrow> None
      | c # cs \<Rightarrow>
          (let n = length (takeWhile (\<lambda>x. x = CHR ''1'') cs) in
           Some (if c = CHR ''-'' then - int n else int n, drop (Suc n) cs)))"

lemma unary_roundtrip: "unary_decode (unary_encode k) = Some k"
proof -
  have t: "takeWhile (\<lambda>x. x = CHR ''1'') (replicate n (CHR ''1'') @ CHR ''.'' # s) = replicate n (CHR ''1'')" for n s
    by (induction n) auto
  show ?thesis by (cases k) (simp add: unary_decode_def unary_encode_def t Let_def)
qed

theorem insert_is_idempotent_witness:
  "snd (InsertMessageIdempotent ((sample_message ''m1'' 1)\<lparr>MessageID := ''m2''\<rparr>) [sample_message ''m1'' 1]) = [sample_message ''m1'' 1]"
proof -
  let ?m = "sample_message ''m1'' 1"
  have "InsertMessageIdempotent ?m [] = (Inr (?m, True), [?m])"
    by (simp add: sample_message_def InsertMessageIdempotent_def InsertMongo_def)
  moreover have "unique_ids []" by (simp add: unique_ids_def)
  ultimately show ?thesis
    using insert_is_idempotent [of "[]" ?m ?m "[?m]" "[?m]" "?m\<lparr>MessageID := ''m2''\<rparr>"]
    by (simp add: sample_message_def)
qed

theorem worker_affinity_partitions_witness:
  "\<exists>!w. 0 \<le> w \<and> w < 4 \<and> mongo_mod (LessonID (sample_message ''m1'' 1)) 4 = w"
  by (rule worker_affinity_partitions) (simp_all add: sample_message_def)


end
