(* ===== verification/Chat_Hub.thy ===== *)
theory Chat_Hub
  imports Prelude
begin

text \<open>
  The chat rooms of the API (internal/api/chatroom/hub.go): a manager of rooms, one per lesson, and
  clients with a bounded send queue, a window of message ids they have seen, and a buffer of live
  messages while they catch up. A client is one record, a room is its number (rooms have an identity
  of their own: a lesson can get a new room after its old one was dropped). The methods of a client
  hold deliveryMu or stateMu throughout and are atomic; unregister is not, and its three critical
  sections are separate steps.
\<close>

subsection \<open>Configuration\<close>

record hub_config =
  SendQueueSize :: int
  MessageDedupSize :: int
  WriteWait :: int
  PongWait :: int
  PingPeriod :: int
  MaxMessageSize :: int

definition validate :: "hub_config \<Rightarrow> goerr option" where
  "validate c =
     (if SendQueueSize c \<le> 0 then Some (ErrNew ''chat send queue size must be positive'')
      else if MessageDedupSize c \<le> 0 then Some (ErrNew ''chat message dedup size must be positive'')
      else if WriteWait c \<le> 0 \<or> PongWait c \<le> 0 \<or> PingPeriod c \<le> 0
      then Some (ErrNew ''chat websocket timeouts must be positive'')
      else if PingPeriod c \<ge> PongWait c then Some (ErrNew ''chat ping period must be shorter than pong wait'')
      else if MaxMessageSize c \<le> 0 then Some (ErrNew ''chat max message size must be positive'')
      else None)"

subsection \<open>Clients\<close>

record delivery =
  messageID :: string
  lessonSeq :: int
  payload :: string

record client =
  lessonID :: int
  send :: "string list"               \<comment> \<open>the buffered channel, next payload first\<close>
  closed :: bool
  reason :: string
  resuming :: bool
  pendingLive :: "delivery list"
  seenMessageIDs :: "string set"
  seenOrder :: "string list"

definition NewResumingClient :: "int \<Rightarrow> bool \<Rightarrow> client" where
  "NewResumingClient lesson resume =
     \<lparr>lessonID = lesson, send = [], closed = False, reason = '''', resuming = resume,
      pendingLive = [], seenMessageIDs = {}, seenOrder = []\<rparr>"

definition NewClient :: "int \<Rightarrow> client" where
  "NewClient lesson = NewResumingClient lesson False"

definition Enqueue :: "hub_config \<Rightarrow> string \<Rightarrow> client \<Rightarrow> bool \<times> client" where
  "Enqueue c p cl =
     (if closed cl then (False, cl)
      else if int (length (send cl)) < SendQueueSize c then (True, cl\<lparr>send := send cl @ [p]\<rparr>)
      else (False, cl))"

definition rememberMessageLocked :: "hub_config \<Rightarrow> string \<Rightarrow> client \<Rightarrow> client" where
  "rememberMessageLocked c mid cl =
     (if mid = '''' then cl
      else if mid \<in> seenMessageIDs cl then cl
      else
        let order = seenOrder cl @ [mid];
            overflow = nat (int (length order) - MessageDedupSize c)
        in cl\<lparr>seenMessageIDs := insert mid (seenMessageIDs cl) - set (take overflow order),
              seenOrder := drop overflow order\<rparr>)"

definition EnqueueChat :: "hub_config \<Rightarrow> string \<Rightarrow> string \<Rightarrow> int \<Rightarrow> client \<Rightarrow> bool \<times> client" where
  "EnqueueChat c mid p seq cl =
     (if mid \<noteq> '''' \<and> mid \<in> seenMessageIDs cl then (True, cl)
      else if resuming cl then
        if int (length (pendingLive cl)) \<ge> SendQueueSize c then (False, cl)
        else (True, rememberMessageLocked c mid
          (cl\<lparr>pendingLive := pendingLive cl @ [\<lparr>messageID = mid, lessonSeq = seq, payload = p\<rparr>]\<rparr>))
      else case Enqueue c p cl of
        (False, cl1) \<Rightarrow> (False, cl1)
      | (True, cl1) \<Rightarrow> (True, rememberMessageLocked c mid cl1))"

definition EnqueueReplay :: "hub_config \<Rightarrow> string \<Rightarrow> string \<Rightarrow> int \<Rightarrow> client \<Rightarrow> bool \<times> client" where
  "EnqueueReplay c mid p seq cl =
     (if mid \<noteq> '''' \<and> mid \<in> seenMessageIDs cl then (True, cl)
      else case Enqueue c p cl of
        (False, cl1) \<Rightarrow> (False, cl1)
      | (True, cl1) \<Rightarrow> (True, rememberMessageLocked c mid cl1))"

fun flush_pending :: "hub_config \<Rightarrow> delivery list \<Rightarrow> client \<Rightarrow> bool \<times> client" where
  "flush_pending c [] cl = (True, cl\<lparr>pendingLive := []\<rparr>)"
| "flush_pending c (d # ds) cl =
     (case Enqueue c (payload d) cl of
        (False, cl1) \<Rightarrow> (False, cl1)
      | (True, cl1) \<Rightarrow> flush_pending c ds (rememberMessageLocked c (messageID d) cl1))"

definition FinishResume :: "hub_config \<Rightarrow> client \<Rightarrow> bool \<times> client" where
  "FinishResume c cl = flush_pending c (pendingLive cl) (cl\<lparr>resuming := False\<rparr>)"

text \<open>close reports whether it closed the client; only the first call does.\<close>

definition close :: "string \<Rightarrow> client \<Rightarrow> bool \<times> client" where
  "close r cl = (if closed cl then (False, cl) else (True, cl\<lparr>reason := r, closed := True\<rparr>))"

text \<open>
  What the select of writePump finds ready; the client after one turn, what is written to the
  socket, and whether the pump goes on.
\<close>

datatype pump_event =
    QueueReady bool       \<comment> \<open>a payload is queued; whether writing it succeeds\<close>
  | PingTick bool         \<comment> \<open>whether writing the ping succeeds\<close>
  | AliveSignal
  | IdleTimeout
  | ContextDone

datatype frame = TextFrame string | PingFrame | CloseFrame string

definition writePump :: "pump_event \<Rightarrow> client \<Rightarrow> frame list \<times> bool \<times> client" where
  "writePump e cl =
     (case e of
        QueueReady ok \<Rightarrow>
          (case send cl of
             [] \<Rightarrow> ([], True, cl)
           | p # ps \<Rightarrow>
               let cl1 = cl\<lparr>send := ps\<rparr> in
               if ok then ([TextFrame p], True, cl1) else ([], False, snd (close ''write error'' cl1)))
      | PingTick ok \<Rightarrow> if ok then ([PingFrame], True, cl) else ([], False, snd (close ''ping error'' cl))
      | AliveSignal \<Rightarrow> ([], True, cl)
      | IdleTimeout \<Rightarrow> ([], False, snd (close ''pong timeout'' cl))
      | ContextDone \<Rightarrow>
          ([CloseFrame (if reason cl = '''' then ''server shutdown'' else reason cl)], False, cl))"

text \<open>
  readPump: the socket yields messages or an error; the handler sees every message until one of
  them fails. The result is the error that ends the loop and the messages that were handled.
\<close>

fun readPump :: "(int \<times> string \<Rightarrow> goerr option) \<Rightarrow> (goerr + int \<times> string) list \<Rightarrow> goerr option \<times> (int \<times> string) list" where
  "readPump handler [] = (None, [])"
| "readPump handler (Inl err # rs) = (Some err, [])"
| "readPump handler (Inr m # rs) =
     (case handler m of
        Some err \<Rightarrow> (Some err, [m])
      | None \<Rightarrow> (case readPump handler rs of (e, ms) \<Rightarrow> (e, m # ms)))"

subsection \<open>Bounds and the window of seen messages\<close>

definition client_ok :: "hub_config \<Rightarrow> client \<Rightarrow> bool" where
  "client_ok c cl \<longleftrightarrow>
     int (length (send cl)) \<le> SendQueueSize c \<and>
     int (length (pendingLive cl)) \<le> SendQueueSize c \<and>
     seenMessageIDs cl = set (seenOrder cl) \<and> distinct (seenOrder cl) \<and> '''' \<notin> set (seenOrder cl) \<and>
     int (length (seenOrder cl)) \<le> MessageDedupSize c"

lemma NewResumingClient_ok: "validate c = None \<Longrightarrow> client_ok c (NewResumingClient l r)"
  by (auto simp: client_ok_def NewResumingClient_def validate_def split: if_splits)

lemma Enqueue_ok: "client_ok c cl \<Longrightarrow> client_ok c (snd (Enqueue c p cl))"
  by (auto simp: Enqueue_def client_ok_def)

lemma set_drop_distinct: "distinct xs \<Longrightarrow> set xs - set (take k xs) = set (drop k xs)"
  using set_take_disj_set_drop_if_distinct [of xs k k] set_append [of "take k xs" "drop k xs"] by auto

lemma remember_ok:
  assumes "client_ok c cl" and "0 < MessageDedupSize c"
  shows "client_ok c (rememberMessageLocked c mid cl)"
proof (cases "mid = '''' \<or> mid \<in> seenMessageIDs cl")
  case True
  with assms(1) show ?thesis by (auto simp: rememberMessageLocked_def)
next
  case False
  define order where "order = seenOrder cl @ [mid]"
  define k where "k = nat (int (length order) - MessageDedupSize c)"
  have new: "rememberMessageLocked c mid cl =
      cl\<lparr>seenMessageIDs := insert mid (seenMessageIDs cl) - set (take k order), seenOrder := drop k order\<rparr>"
    using False by (simp add: rememberMessageLocked_def Let_def order_def k_def)
  have d: "distinct order" "insert mid (seenMessageIDs cl) = set order"
    "\<forall>x \<in> set order. x \<noteq> ''''"
    using assms(1) False by (auto simp: client_ok_def order_def)
  have "int (length (drop k order)) \<le> MessageDedupSize c" using assms(2) by (simp add: k_def)
  with assms(1) d set_drop_distinct [OF d(1), of k] show ?thesis
    by (auto simp: client_ok_def new dest: in_set_dropD)
qed

lemma remember_frame [simp]:
  "send (rememberMessageLocked c mid cl) = send cl" "closed (rememberMessageLocked c mid cl) = closed cl"
  "pendingLive (rememberMessageLocked c mid cl) = pendingLive cl"
  "resuming (rememberMessageLocked c mid cl) = resuming cl"
  "lessonID (rememberMessageLocked c mid cl) = lessonID cl"
  by (auto simp: rememberMessageLocked_def Let_def)

lemma EnqueueChat_ok: "client_ok c cl \<Longrightarrow> 0 < MessageDedupSize c \<Longrightarrow> client_ok c (snd (EnqueueChat c mid p seq cl))"
  using Enqueue_ok [of c cl p]
  by (auto simp: EnqueueChat_def split: prod.splits bool.splits intro!: remember_ok) (auto simp: client_ok_def)

lemma EnqueueReplay_ok: "client_ok c cl \<Longrightarrow> 0 < MessageDedupSize c \<Longrightarrow> client_ok c (snd (EnqueueReplay c mid p seq cl))"
  using Enqueue_ok [of c cl p]
  by (auto simp: EnqueueReplay_def split: prod.splits bool.splits intro!: remember_ok)

lemma flush_ok: "client_ok c cl \<Longrightarrow> 0 < MessageDedupSize c \<Longrightarrow> 0 < SendQueueSize c \<Longrightarrow> client_ok c (snd (flush_pending c ds cl))"
proof (induction ds arbitrary: cl)
  case Nil
  then show ?case by (simp add: client_ok_def)
next
  case (Cons d ds)
  obtain b cl1 where e: "Enqueue c (payload d) cl = (b, cl1)" by (cases "Enqueue c (payload d) cl")
  have "client_ok c cl1" using Enqueue_ok [OF Cons.prems(1), of "payload d"] e by simp
  with Cons e show ?case by (auto simp: remember_ok split: bool.splits)
qed

datatype client_op =
    OpEnqueue string
  | OpEnqueueChat string string int
  | OpEnqueueReplay string string int
  | OpFinishResume
  | OpClose string
  | OpPump pump_event

fun client_step :: "hub_config \<Rightarrow> client_op \<Rightarrow> client \<Rightarrow> client" where
  "client_step c (OpEnqueue p) cl = snd (Enqueue c p cl)"
| "client_step c (OpEnqueueChat mid p seq) cl = snd (EnqueueChat c mid p seq cl)"
| "client_step c (OpEnqueueReplay mid p seq) cl = snd (EnqueueReplay c mid p seq cl)"
| "client_step c OpFinishResume cl = snd (FinishResume c cl)"
| "client_step c (OpClose r) cl = snd (close r cl)"
| "client_step c (OpPump e) cl = snd (snd (writePump e cl))"

lemma client_step_ok:
  assumes "client_ok c cl" and "validate c = None"
  shows "client_ok c (client_step c e cl)"
proof -
  have pos: "0 < MessageDedupSize c" "0 < SendQueueSize c"
    using assms(2) by (auto simp: validate_def split: if_splits)
  have "client_ok c (cl\<lparr>resuming := False\<rparr>)" using assms(1) by (simp add: client_ok_def)
  then show ?thesis
    using assms(1) Enqueue_ok EnqueueChat_ok [OF assms(1) pos(1)] EnqueueReplay_ok [OF assms(1) pos(1)]
      flush_ok [OF _ pos]
    by (cases e) (auto simp: FinishResume_def close_def writePump_def client_ok_def Let_def
        split: pump_event.splits list.splits)
qed

text \<open>
  C7 (invariant). Memory per connection is bounded: whatever is enqueued, replayed, flushed, closed or
  pumped, in whatever order, the send queue and the buffer of live messages never exceed
  SendQueueSize, and the window of seen ids never exceeds MessageDedupSize; the set of ids is
  exactly the set of the ids in the window, each once.
\<close>

theorem client_memory_bounded:
  assumes "validate c = None"
  shows "client_ok c (fold (client_step c) es (NewResumingClient l r))"
proof -
  have "client_ok c cl \<Longrightarrow> client_ok c (fold (client_step c) es cl)" for cl
    by (induction es arbitrary: cl) (simp_all add: client_step_ok [OF _ assms])
  then show ?thesis using NewResumingClient_ok [OF assms] by blast
qed

subsection \<open>Every message id is delivered once\<close>

text \<open>
  How recent an id is: the number of ids remembered after it. An id is forgotten only when
  MessageDedupSize others have been remembered since.
\<close>

fun age :: "string \<Rightarrow> string list \<Rightarrow> nat" where
  "age mid [] = 0"
| "age mid (x # xs) = (if x = mid then length xs else age mid xs)"

lemma age_append: "mid \<in> set xs \<Longrightarrow> x \<noteq> mid \<Longrightarrow> age mid (xs @ [x]) = age mid xs + 1"
  by (induction xs) auto

lemma age_snoc: "mid \<notin> set xs \<Longrightarrow> age mid (xs @ [mid]) = 0"
  by (induction xs) auto

lemma age_drop: "mid \<in> set xs \<Longrightarrow> k + age mid xs < length xs \<Longrightarrow> distinct xs \<Longrightarrow>
    mid \<in> set (drop k xs) \<and> age mid (drop k xs) = age mid xs"
proof (induction xs arbitrary: k)
  case (Cons x xs)
  then show ?case by (cases k) (auto split: if_splits)
qed simp

lemma age_less: "mid \<in> set xs \<Longrightarrow> age mid xs < length xs"
  by (induction xs) (auto simp: less_SucI)

text \<open>Remembering an id that is not in the window: what is kept of a window of distinct ids.\<close>

lemma remember_unfold:
  assumes "client_ok c cl" and "x \<noteq> ''''" and "x \<notin> seenMessageIDs cl"
  obtains order k where "distinct order" "order = seenOrder cl @ [x]"
    "k = nat (int (length order) - MessageDedupSize c)"
    "seenMessageIDs (rememberMessageLocked c x cl) = set (drop k order)"
    "seenOrder (rememberMessageLocked c x cl) = drop k order"
proof -
  define order where "order = seenOrder cl @ [x]"
  define k where "k = nat (int (length order) - MessageDedupSize c)"
  have d: "distinct order" "insert x (seenMessageIDs cl) = set order"
    using assms by (auto simp: client_ok_def order_def)
  have new: "rememberMessageLocked c x cl =
      cl\<lparr>seenMessageIDs := insert x (seenMessageIDs cl) - set (take k order), seenOrder := drop k order\<rparr>"
    using assms by (simp add: rememberMessageLocked_def Let_def order_def k_def)
  have "seenMessageIDs (rememberMessageLocked c x cl) = set (drop k order)"
    unfolding new using d set_drop_distinct [OF d(1), of k] by simp
  moreover have "seenOrder (rememberMessageLocked c x cl) = drop k order" unfolding new by simp
  ultimately show thesis using that [OF d(1) order_def k_def] by blast
qed

definition recent :: "hub_config \<Rightarrow> string \<Rightarrow> nat \<Rightarrow> client \<Rightarrow> bool" where
  "recent c mid n cl \<longleftrightarrow> client_ok c cl \<and> mid \<in> seenMessageIDs cl \<and> age mid (seenOrder cl) \<le> n"

lemma remember_recent:
  assumes "recent c mid n cl" and "int n + 1 < MessageDedupSize c"
  shows "recent c mid (Suc n) (rememberMessageLocked c x cl)"
proof (cases "x = '''' \<or> x \<in> seenMessageIDs cl")
  case True
  with assms(1) show ?thesis by (auto simp: rememberMessageLocked_def recent_def)
next
  case False
  have ok: "client_ok c cl" using assms(1) by (simp add: recent_def)
  obtain order k where o: "distinct order" "order = seenOrder cl @ [x]"
    "k = nat (int (length order) - MessageDedupSize c)"
    "seenMessageIDs (rememberMessageLocked c x cl) = set (drop k order)"
    "seenOrder (rememberMessageLocked c x cl) = drop k order"
    by (rule remember_unfold [OF ok, of x]) (use False in auto)
  have m: "mid \<in> set order" "age mid order = age mid (seenOrder cl) + 1"
  proof -
    have "seenMessageIDs cl = set (seenOrder cl)" using ok by (simp add: client_ok_def)
    then have "mid \<in> set (seenOrder cl)" "x \<noteq> mid" using assms(1) False by (auto simp: recent_def)
    then show "mid \<in> set order" "age mid order = age mid (seenOrder cl) + 1"
      unfolding o(2) by (simp_all add: age_append)
  qed
  have "k + age mid order < length order"
  proof -
    have "int (age mid order) < MessageDedupSize c"
      using m(2) assms by (simp add: recent_def)
    with age_less [OF m(1)] show ?thesis unfolding o(3) by linarith
  qed
  note a = age_drop [OF m(1) this o(1)]
  have "client_ok c (rememberMessageLocked c x cl)" by (rule remember_ok [OF ok]) (use assms(2) in linarith)
  moreover have "age mid (drop k order) \<le> Suc n" using a m(2) assms(1) by (simp add: recent_def)
  ultimately show ?thesis unfolding recent_def o(4,5) using a by blast
qed

lemma remember_new:
  assumes "client_ok c cl" and "0 < MessageDedupSize c" and "mid \<noteq> ''''"
    and "mid \<notin> seenMessageIDs cl"
  shows "recent c mid 0 (rememberMessageLocked c mid cl)"
proof -
  obtain order k where o: "distinct order" "order = seenOrder cl @ [mid]"
    "k = nat (int (length order) - MessageDedupSize c)"
    "seenMessageIDs (rememberMessageLocked c mid cl) = set (drop k order)"
    "seenOrder (rememberMessageLocked c mid cl) = drop k order"
    by (rule remember_unfold [OF assms(1,3,4)])
  have m: "mid \<in> set order" "age mid order = 0"
    using assms o(2) by (auto simp: client_ok_def age_snoc)
  have "k + age mid order < length order" using m o(2,3) assms(2) by auto
  note a = age_drop [OF m(1) this o(1)]
  with remember_ok [OF assms(1,2), of mid] m(2) show ?thesis unfolding recent_def o(4,5) by simp
qed

lemma recent_mono: "recent c mid n cl \<Longrightarrow> n \<le> m \<Longrightarrow> recent c mid m cl"
  by (auto simp: recent_def)

lemma recent_frame:
  "seenMessageIDs cl' = seenMessageIDs cl \<Longrightarrow> seenOrder cl' = seenOrder cl \<Longrightarrow> client_ok c cl' \<Longrightarrow>
   recent c mid n cl \<Longrightarrow> recent c mid n cl'"
  by (auto simp: recent_def)

lemma Enqueue_recent: "recent c mid n cl \<Longrightarrow> recent c mid n (snd (Enqueue c p cl))"
  by (rule recent_frame [of _ cl]) (auto simp: Enqueue_def recent_def client_ok_def)

lemma flush_recent:
  assumes "recent c mid n cl" and "int n + int (length ds) < MessageDedupSize c" and "0 \<le> SendQueueSize c"
  shows "recent c mid (n + length ds) (snd (flush_pending c ds cl))"
  using assms
proof (induction ds arbitrary: cl n)
  case Nil
  then show ?case by (auto simp: recent_def client_ok_def)
next
  case (Cons d ds)
  obtain b cl1 where e: "Enqueue c (payload d) cl = (b, cl1)" by (cases "Enqueue c (payload d) cl")
  with Enqueue_recent [OF Cons.prems(1), of "payload d"] have r: "recent c mid n cl1" by simp
  show ?case
  proof (cases b)
    case False
    with e r show ?thesis by (auto intro: recent_mono)
  next
    case True
    have "recent c mid (Suc n) (rememberMessageLocked c (messageID d) cl1)"
      by (rule remember_recent [OF r]) (use Cons.prems(2) in simp)
    from Cons.IH [OF this] Cons.prems e True show ?thesis by simp
  qed
qed

text \<open>How many ids an operation can remember.\<close>

fun remembers :: "hub_config \<Rightarrow> client_op \<Rightarrow> nat" where
  "remembers c (OpEnqueueChat _ _ _) = 1"
| "remembers c (OpEnqueueReplay _ _ _) = 1"
| "remembers c OpFinishResume = nat (SendQueueSize c)"
| "remembers c _ = 0"

lemma step_recent:
  assumes "recent c mid n cl" and "validate c = None" and "int (n + remembers c e) < MessageDedupSize c"
  shows "recent c mid (n + remembers c e) (client_step c e cl)"
proof -
  have ok: "client_ok c (client_step c e cl)"
    using assms(1,2) client_step_ok by (auto simp: recent_def)
  show ?thesis
  proof (cases e)
    case (OpEnqueueChat x p seq)
    obtain b cl1 where q: "Enqueue c p cl = (b, cl1)" by (cases "Enqueue c p cl")
    have r1: "recent c mid n cl1" using Enqueue_recent [OF assms(1), of p] q by simp
    have r2: "recent c mid n (cl\<lparr>pendingLive := pendingLive cl @ [\<lparr>messageID = x, lessonSeq = seq, payload = p\<rparr>]\<rparr>)"
      if "int (length (pendingLive cl)) < SendQueueSize c"
      using assms(1) that by (auto simp: recent_def client_ok_def)
    have m: "int n + 1 < MessageDedupSize c" using assms(3) OpEnqueueChat by simp
    show ?thesis
      using OpEnqueueChat assms(1) q r1 remember_recent [OF r1 m, of x] remember_recent [OF r2 m, of x]
      by (auto simp: EnqueueChat_def split: bool.splits intro: recent_mono [of c mid n])
  next
    case (OpEnqueueReplay x p seq)
    obtain b cl1 where q: "Enqueue c p cl = (b, cl1)" by (cases "Enqueue c p cl")
    have r1: "recent c mid n cl1" using Enqueue_recent [OF assms(1), of p] q by simp
    have m: "int n + 1 < MessageDedupSize c" using assms(3) OpEnqueueReplay by simp
    show ?thesis
      using OpEnqueueReplay assms(1) q r1 remember_recent [OF r1 m, of x]
      by (auto simp: EnqueueReplay_def split: bool.splits intro: recent_mono [of c mid n])
  next
    case OpFinishResume
    have pos: "0 < SendQueueSize c" using assms(2) by (auto simp: validate_def split: if_splits)
    have l: "int (length (pendingLive cl)) \<le> SendQueueSize c" using assms(1) by (simp add: recent_def client_ok_def)
    have "recent c mid n (cl\<lparr>resuming := False\<rparr>)" using assms(1) by (auto simp: recent_def client_ok_def)
    from flush_recent [OF this, of "pendingLive cl"] assms(3) OpFinishResume l pos
    show ?thesis by (auto simp: FinishResume_def intro: recent_mono)
  qed (use assms(1) ok Enqueue_recent in \<open>auto simp: recent_def close_def writePump_def Let_def
        split: pump_event.splits list.splits\<close>)
qed

text \<open>
  (functional). No message is delivered twice within the window: once a live message was accepted
  for a connection, the same message id is accepted again without any effect, as long as the
  operations in between can have remembered fewer than MessageDedupSize ids.
\<close>

theorem duplicate_is_suppressed:
  assumes "validate c = None" and "client_ok c cl" and "mid \<noteq> ''''"
    and "EnqueueChat c mid p seq cl = (True, cl1)" and "mid \<notin> seenMessageIDs cl"
    and "int (sum_list (map (remembers c) es)) < MessageDedupSize c"
  shows "EnqueueChat c mid p' seq' (fold (client_step c) es cl1) = (True, fold (client_step c) es cl1) \<and>
    EnqueueReplay c mid p' seq' (fold (client_step c) es cl1) = (True, fold (client_step c) es cl1)"
proof -
  have pos: "0 < MessageDedupSize c" using assms(1) by (auto simp: validate_def split: if_splits)
  have "client_ok c (snd (Enqueue c p cl))" by (rule Enqueue_ok [OF assms(2)])
  moreover have "client_ok c (cl\<lparr>pendingLive := pendingLive cl @ [\<lparr>messageID = mid, lessonSeq = seq, payload = p\<rparr>]\<rparr>)"
    if "int (length (pendingLive cl)) < SendQueueSize c"
    using assms(2) that by (auto simp: client_ok_def)
  ultimately have "recent c mid 0 cl1"
    using assms(3-5) by (auto simp: EnqueueChat_def Enqueue_def split: if_splits intro!: remember_new [OF _ pos])
  then have "recent c mid (sum_list (map (remembers c) es)) (fold (client_step c) es cl1)"
    if "int (sum_list (map (remembers c) es)) < MessageDedupSize c" for es
    using that
  proof (induction es rule: rev_induct)
    case (snoc e es)
    then have "recent c mid (sum_list (map (remembers c) es)) (fold (client_step c) es cl1)" by simp
    from step_recent [OF this assms(1), of e] snoc.prems show ?case by simp
  qed simp
  from this [OF assms(6)] assms(3) show ?thesis
    by (simp add: recent_def EnqueueChat_def EnqueueReplay_def)
qed

subsection \<open>Catching up\<close>

text \<open>
  (functional). FinishResume sends the buffered live messages in the order they arrived, whatever
  their lesson sequence numbers (lessonSeq is stored and never read): a connection that replays
  history while message 7 is already buffered and message 8 is not gets 8 before 7.
\<close>

theorem resume_can_invert_order:
  assumes "validate c = None" and "2 \<le> SendQueueSize c" and "2 \<le> MessageDedupSize c" and "m7 \<noteq> m8"
    and "m7 \<noteq> ''''" and "m8 \<noteq> ''''"
  shows "send (fold (client_step c)
     [OpEnqueueChat m7 ''seven'' 7, OpEnqueueReplay m7 ''seven'' 7, OpEnqueueReplay m8 ''eight'' 8, OpFinishResume]
     (NewResumingClient l True)) = [''eight'', ''seven'']"
proof -
  let ?d = "\<lparr>messageID = m7, lessonSeq = 7, payload = ''seven''\<rparr>"
  let ?c1 = "\<lparr>lessonID = l, send = [], closed = False, reason = '''', resuming = True,
      pendingLive = [?d], seenMessageIDs = {m7}, seenOrder = [m7]\<rparr>"
  let ?c2 = "?c1\<lparr>send := [''eight''], seenMessageIDs := {m7, m8}, seenOrder := [m7, m8]\<rparr>"
  have 1: "EnqueueChat c m7 ''seven'' 7 (NewResumingClient l True) = (True, ?c1)"
    using assms by (simp add: EnqueueChat_def NewResumingClient_def rememberMessageLocked_def Let_def)
  have 2: "EnqueueReplay c m7 ''seven'' 7 ?c1 = (True, ?c1)"
    using assms by (simp add: EnqueueReplay_def)
  have 3: "EnqueueReplay c m8 ''eight'' 8 ?c1 = (True, ?c2)"
    using assms by (auto simp: EnqueueReplay_def Enqueue_def rememberMessageLocked_def Let_def)
  have 4: "send (snd (FinishResume c ?c2)) = [''eight'', ''seven'']"
    using assms by (simp add: FinishResume_def Enqueue_def rememberMessageLocked_def)
  show ?thesis using 1 2 3 4 by simp
qed

lemma closed_stays:
  "closed cl \<Longrightarrow> closed (client_step c e cl) \<and> reason (client_step c e cl) = reason cl \<and>
     length (send (client_step c e cl)) \<le> length (send cl)"
proof (cases e)
  case OpFinishResume
  assume "closed cl"
  then have "closed cl' \<Longrightarrow> closed (snd (flush_pending c ds cl')) \<and> reason (snd (flush_pending c ds cl')) = reason cl' \<and>
      send (snd (flush_pending c ds cl')) = send cl'" for ds cl'
    by (cases ds) (auto simp: Enqueue_def)
  from this [of "cl\<lparr>resuming := False\<rparr>" "pendingLive cl"] \<open>closed cl\<close> OpFinishResume show ?thesis
    by (simp add: FinishResume_def)
qed (auto simp: Enqueue_def EnqueueChat_def EnqueueReplay_def rememberMessageLocked_def Let_def close_def writePump_def
    split: pump_event.splits list.splits)

text \<open>
  (safety). A connection is closed once: after close nothing is queued any more, whatever is
  called, every further close reports that it did nothing, and the reason that the peer is told
  is the first one.
\<close>

theorem closed_client_is_final:
  assumes "closed cl"
  shows "fst (close r (fold (client_step c) es cl)) = False \<and> reason (fold (client_step c) es cl) = reason cl \<and>
    length (send (fold (client_step c) es cl)) \<le> length (send cl)"
proof -
  have "closed (fold (client_step c) es cl) \<and> reason (fold (client_step c) es cl) = reason cl \<and>
      length (send (fold (client_step c) es cl)) \<le> length (send cl)"
    using assms
  proof (induction es rule: rev_induct)
    case (snoc e es)
    then show ?case using closed_stays [of "fold (client_step c) es cl" c e] by auto
  qed simp
  then show ?thesis by (simp add: close_def)
qed

subsection \<open>Rooms\<close>

text \<open>
  The manager: the room of every lesson, the members of every room that was ever made, and the
  connections (by number) with the lesson they belong to.
\<close>

record hub =
  hub_cfg :: hub_config
  rooms :: "int \<Rightarrow> nat option"
  members :: "nat \<Rightarrow> nat set"
  next_room :: nat
  conns :: "nat \<Rightarrow> client"
  droppedMessages :: nat     \<comment> \<open>DroppedMessagesTotal and SlowConsumerTotal\<close>
  activeConns :: int         \<comment> \<open>ActiveWebSocketConnections\<close>

definition NewManager :: "hub_config \<Rightarrow> (nat \<Rightarrow> client) \<Rightarrow> goerr + hub" where
  "NewManager c cs =
     (case validate c of
        Some err \<Rightarrow> Inl err
      | None \<Rightarrow> Inr \<lparr>hub_cfg = c, rooms = Map.empty, members = (\<lambda>_. {}), next_room = 0, conns = cs,
          droppedMessages = 0, activeConns = 0\<rparr>)"

definition register :: "nat \<Rightarrow> hub \<Rightarrow> hub" where
  "register cid h =
     (let l = lessonID (conns h cid);
          h1 = (case rooms h l of
                  Some _ \<Rightarrow> h
                | None \<Rightarrow> h\<lparr>rooms := (rooms h)(l \<mapsto> next_room h), next_room := next_room h + 1\<rparr>);
          r = the (rooms h1 l)
      in h1\<lparr>members := (members h1)(r := insert cid (members h1 r)), activeConns := activeConns h1 + 1\<rparr>)"

text \<open>
  unregister: look up the room; remove the client from it (was it there, is the room empty now);
  drop the room if it is still the one of the lesson and still empty.
\<close>

definition unreg_lookup :: "nat \<Rightarrow> hub \<Rightarrow> nat option" where
  "unreg_lookup cid h = rooms h (lessonID (conns h cid))"

definition unreg_remove :: "nat \<Rightarrow> nat \<Rightarrow> hub \<Rightarrow> (bool \<times> bool) \<times> hub" where
  "unreg_remove cid r h =
     (let removed = cid \<in> members h r;
          h1 = (if removed then h\<lparr>members := (members h)(r := members h r - {cid})\<rparr> else h)
      in ((removed, members h1 r = {}),
          if removed then h1\<lparr>activeConns := activeConns h1 - 1\<rparr> else h1))"

definition unreg_cleanup :: "nat \<Rightarrow> nat \<Rightarrow> hub \<Rightarrow> hub" where
  "unreg_cleanup cid r h =
     (let l = lessonID (conns h cid)
      in if rooms h l = Some r \<and> members h r = {} then h\<lparr>rooms := (rooms h)(l := None)\<rparr> else h)"

definition unregister :: "nat \<Rightarrow> hub \<Rightarrow> hub" where
  "unregister cid h =
     (case unreg_lookup cid h of
        None \<Rightarrow> h
      | Some r \<Rightarrow>
          (case unreg_remove cid r h of
             ((removed, emptied), h1) \<Rightarrow> if removed \<and> emptied then unreg_cleanup cid r h1 else h1))"

definition ConnectionCount :: "int \<Rightarrow> hub \<Rightarrow> nat" where
  "ConnectionCount l h = (case rooms h l of None \<Rightarrow> 0 | Some r \<Rightarrow> card (members h r))"

text \<open>
  broadcastChat to a snapshot of the room, in the order the map yields the clients; a client whose
  queue is full is closed and unregistered.
\<close>

fun deliver_chat :: "string \<Rightarrow> int \<Rightarrow> string \<Rightarrow> nat list \<Rightarrow> hub \<Rightarrow> hub" where
  "deliver_chat mid seq p [] h = h"
| "deliver_chat mid seq p (cid # cids) h =
     (case EnqueueChat (hub_cfg h) mid p seq (conns h cid) of
        (True, cl) \<Rightarrow> deliver_chat mid seq p cids (h\<lparr>conns := (conns h)(cid := cl)\<rparr>)
      | (False, cl) \<Rightarrow>
          (case close ''slow consumer'' cl of
             (True, cl') \<Rightarrow> deliver_chat mid seq p cids (unregister cid
               (h\<lparr>conns := (conns h)(cid := cl'), droppedMessages := droppedMessages h + 1\<rparr>))
           | (False, cl') \<Rightarrow> deliver_chat mid seq p cids (h\<lparr>conns := (conns h)(cid := cl')\<rparr>)))"

definition broadcastChat :: "(nat set \<Rightarrow> nat list) \<Rightarrow> int \<Rightarrow> string \<Rightarrow> int \<Rightarrow> string \<Rightarrow> hub \<Rightarrow> hub" where
  "broadcastChat snapshot l mid seq p h =
     (case rooms h l of None \<Rightarrow> h | Some r \<Rightarrow> deliver_chat mid seq p (snapshot (members h r)) h)"

text \<open>Broadcast of a payload without a message id.\<close>

fun deliver_raw :: "string \<Rightarrow> nat list \<Rightarrow> hub \<Rightarrow> hub" where
  "deliver_raw p [] h = h"
| "deliver_raw p (cid # cids) h =
     (case Enqueue (hub_cfg h) p (conns h cid) of
        (True, cl) \<Rightarrow> deliver_raw p cids (h\<lparr>conns := (conns h)(cid := cl)\<rparr>)
      | (False, cl) \<Rightarrow>
          (case close ''slow consumer'' cl of
             (True, cl') \<Rightarrow> deliver_raw p cids (unregister cid
               (h\<lparr>conns := (conns h)(cid := cl'), droppedMessages := droppedMessages h + 1\<rparr>))
           | (False, cl') \<Rightarrow> deliver_raw p cids (h\<lparr>conns := (conns h)(cid := cl')\<rparr>)))"

definition Broadcast :: "(nat set \<Rightarrow> nat list) \<Rightarrow> int \<Rightarrow> string \<Rightarrow> hub \<Rightarrow> hub" where
  "Broadcast snapshot l p h =
     (case rooms h l of None \<Rightarrow> h | Some r \<Rightarrow> deliver_raw p (snapshot (members h r)) h)"

subsection \<open>Concurrent registration and cleanup\<close>

text \<open>
  The critical sections that threads interleave: registrations, and unregistrations in progress,
  each waiting to remove its client from the room it looked up, or to drop the room.
\<close>

datatype unreg = ToRemove nat nat | ToClean nat nat

inductive hub_step :: "hub \<times> unreg set \<Rightarrow> hub \<times> unreg set \<Rightarrow> bool" where
  "hub_step (h, P) (register cid h, P)"
| "unreg_lookup cid h = Some r \<Longrightarrow> hub_step (h, P) (h, insert (ToRemove cid r) P)"
| "ToRemove cid r \<in> P \<Longrightarrow> unreg_remove cid r h = ((removed, emptied), h1) \<Longrightarrow>
   hub_step (h, P) (h1, if removed \<and> emptied then insert (ToClean cid r) P else P)"
| "ToClean cid r \<in> P \<Longrightarrow> hub_step (h, P) (unreg_cleanup cid r h, P)"
| "lessonID cl = lessonID (conns h cid) \<Longrightarrow> hub_step (h, P) (h\<lparr>conns := (conns h)(cid := cl)\<rparr>, P)"

definition hub_ok :: "hub \<Rightarrow> bool" where
  "hub_ok h \<longleftrightarrow>
     (\<forall>l r. rooms h l = Some r \<longrightarrow> r < next_room h) \<and>
     (\<forall>r. next_room h \<le> r \<longrightarrow> members h r = {}) \<and>
     (\<forall>r cid. cid \<in> members h r \<longrightarrow> rooms h (lessonID (conns h cid)) = Some r)"

lemma register_ok: "hub_ok h \<Longrightarrow> hub_ok (register cid h)"
  by (fastforce simp: hub_ok_def register_def Let_def split: option.splits if_splits)

lemma remove_ok: "hub_ok h \<Longrightarrow> unreg_remove cid r h = (x, h1) \<Longrightarrow> hub_ok h1"
  by (auto simp: hub_ok_def unreg_remove_def Let_def split: if_splits)

lemma cleanup_ok: "hub_ok h \<Longrightarrow> hub_ok (unreg_cleanup cid r h)"
  by (auto simp: hub_ok_def unreg_cleanup_def Let_def) (metis empty_iff option.inject)

lemma hub_step_ok: "hub_step a b \<Longrightarrow> hub_ok (fst a) \<Longrightarrow> hub_ok (fst b)"
  by (induction rule: hub_step.induct)
    (auto simp: register_ok cleanup_ok dest: remove_ok, auto simp: hub_ok_def)

text \<open>
  (invariant). However registrations, unregistrations and deliveries interleave: every connection
  that is a member of some room is a member of the current room of its lesson, so a room that was
  dropped never holds a client and no broadcast to a lesson misses a registered connection.
\<close>

theorem no_client_in_orphan_room:
  assumes "NewManager c cs = Inr h0" and "hub_step\<^sup>*\<^sup>* (h0, {}) (h, P)" and "cid \<in> members h r"
  shows "rooms h (lessonID (conns h cid)) = Some r"
proof -
  have "hub_ok (fst (h0, {} :: unreg set))"
    using assms(1) by (auto simp: NewManager_def hub_ok_def split: option.splits)
  with assms(2) have "hub_ok (fst (h, P))"
    by (induction rule: rtranclp_induct) (auto intro: hub_step_ok)
  with assms(3) show ?thesis by (auto simp: hub_ok_def)
qed

subsection \<open>Fan-out\<close>

lemma EnqueueChat_seen:
  assumes "EnqueueChat c mid p seq cl = (True, cl')" and "client_ok c cl" and "mid \<noteq> ''''" and "0 < MessageDedupSize c"
  shows "mid \<in> seenMessageIDs cl'"
proof (cases "mid \<in> seenMessageIDs cl")
  case True
  with assms show ?thesis by (simp add: EnqueueChat_def)
next
  case False
  have "client_ok c (snd (Enqueue c p cl))" by (rule Enqueue_ok [OF assms(2)])
  moreover have "client_ok c (cl\<lparr>pendingLive := pendingLive cl @ [\<lparr>messageID = mid, lessonSeq = seq, payload = p\<rparr>]\<rparr>)"
    if "int (length (pendingLive cl)) < SendQueueSize c"
    using assms(2) that by (auto simp: client_ok_def)
  ultimately have "recent c mid 0 cl'"
    using assms False
    by (auto simp: EnqueueChat_def Enqueue_def split: if_splits intro!: remember_new)
  then show ?thesis by (simp add: recent_def)
qed

lemma EnqueueChat_frame:
  "lessonID (snd (EnqueueChat c mid p seq cl)) = lessonID cl \<and> closed (snd (EnqueueChat c mid p seq cl)) = closed cl"
  by (auto simp: EnqueueChat_def Enqueue_def)

lemma unregister_frame:
  "conns (unregister cid h) = conns h \<and> hub_cfg (unregister cid h) = hub_cfg h \<and>
     members (unregister cid h) r \<subseteq> members h r"
  by (auto simp: unregister_def unreg_remove_def unreg_cleanup_def Let_def split: option.splits if_splits)

lemma unregister_ok: "hub_ok h \<Longrightarrow> hub_ok (unregister cid h)"
  by (auto simp: unregister_def split: option.splits prod.splits dest: remove_ok intro: cleanup_ok)

lemma unregister_gone:
  assumes "hub_ok h" shows "cid \<notin> members (unregister cid h) r"
proof
  assume a: "cid \<in> members (unregister cid h) r"
  then have "cid \<in> members h r" using unregister_frame [of cid h r] by auto
  then have "rooms h (lessonID (conns h cid)) = Some r" using assms unfolding hub_ok_def by blast
  with a show False
    by (auto simp: unregister_def unreg_lookup_def unreg_remove_def unreg_cleanup_def Let_def split: if_splits)
qed

lemma conns_ok: "hub_ok h \<Longrightarrow> lessonID cl = lessonID (conns h cid) \<Longrightarrow> hub_ok (h\<lparr>conns := (conns h)(cid := cl)\<rparr>)"
  by (auto simp: hub_ok_def)

definition fanned_out :: "string \<Rightarrow> nat set \<Rightarrow> nat \<Rightarrow> hub \<Rightarrow> hub \<Rightarrow> bool" where
  "fanned_out mid A r h h' \<longleftrightarrow>
     members h' r \<subseteq> members h r \<and> (\<forall>cid. cid \<notin> A \<longrightarrow> conns h' cid = conns h cid) \<and>
     (\<forall>cid \<in> A. cid \<in> members h' r \<longrightarrow> mid \<in> seenMessageIDs (conns h' cid) \<or> closed (conns h cid))"

lemma deliver_chat_fans_out:
  assumes "distinct cids" and "hub_ok h" and "validate (hub_cfg h) = None" and "mid \<noteq> ''''"
    and "\<forall>cid \<in> set cids. client_ok (hub_cfg h) (conns h cid)"
  shows "fanned_out mid (set cids) r h (deliver_chat mid seq p cids h)"
  using assms
proof (induction cids arbitrary: h)
  case Nil
  then show ?case by (simp add: fanned_out_def)
next
  case (Cons cid cids)
  have pos: "0 < MessageDedupSize (hub_cfg h)" using Cons.prems(3) by (auto simp: validate_def split: if_splits)
  obtain b cl where e: "EnqueueChat (hub_cfg h) mid p seq (conns h cid) = (b, cl)" by (metis surj_pair)
  have fr: "lessonID cl = lessonID (conns h cid)" "closed cl = closed (conns h cid)"
    using EnqueueChat_frame [of "hub_cfg h" mid p seq "conns h cid"] e by auto
  define h1 where "h1 = h\<lparr>conns := (conns h)(cid := cl)\<rparr>"
  define h2 where "h2 = unregister cid (h\<lparr>conns := (conns h)(cid := cl\<lparr>reason := ''slow consumer'', closed := True\<rparr>),
      droppedMessages := droppedMessages h + 1\<rparr>)"
  define h3 where "h3 = (if b \<or> closed cl then h1 else h2)"
  have run: "deliver_chat mid seq p (cid # cids) h = deliver_chat mid seq p cids h3"
    using e by (cases b; cases "closed cl") (simp_all add: h1_def h2_def h3_def close_def)
  have slow: "hub_ok (h\<lparr>conns := (conns h)(cid := cl\<lparr>reason := ''slow consumer'', closed := True\<rparr>),
      droppedMessages := droppedMessages h + 1\<rparr>)"
    using Cons.prems(2) fr by (auto simp: hub_ok_def)
  have ok3: "hub_ok h3"
    unfolding h3_def h1_def h2_def
    using conns_ok [OF Cons.prems(2) fr(1)] unregister_ok [OF slow] by simp
  have frame3: "hub_cfg h3 = hub_cfg h" "members h3 r \<subseteq> members h r" "\<forall>x. x \<noteq> cid \<longrightarrow> conns h3 x = conns h x"
    using unregister_frame [of cid "h\<lparr>conns := (conns h)(cid := cl\<lparr>reason := ''slow consumer'', closed := True\<rparr>),
      droppedMessages := droppedMessages h + 1\<rparr>" r] by (auto simp: h3_def h1_def h2_def)
  have own: "cid \<in> members h3 r \<longrightarrow> mid \<in> seenMessageIDs (conns h3 cid) \<or> closed (conns h cid)"
  proof (cases "b \<or> closed cl")
    case True
    with EnqueueChat_seen [of "hub_cfg h" mid p seq "conns h cid" cl] e Cons.prems(4,5) pos fr show ?thesis
      by (auto simp: h3_def h1_def)
  next
    case False
    from unregister_gone [OF slow] False show ?thesis by (simp add: h3_def h2_def)
  qed
  define h' where "h' = deliver_chat mid seq p cids h3"
  have rest: "fanned_out mid (set cids) r h3 h'"
    unfolding h'_def by (rule Cons.IH) (use Cons.prems ok3 frame3 in auto)
  have new: "cid \<notin> set cids" using Cons.prems(1) by simp
  have "mid \<in> seenMessageIDs (conns h' x) \<or> closed (conns h x)"
    if "x \<in> set (cid # cids)" "x \<in> members h' r" for x
  proof (cases "x = cid")
    case True
    with rest new that own show ?thesis unfolding fanned_out_def by auto
  next
    case False
    then have "conns h3 x = conns h x" "x \<in> set cids" using frame3(3) that by auto
    with rest that(2) show ?thesis unfolding fanned_out_def by metis
  qed
  moreover have "members h' r \<subseteq> members h r" using rest frame3(2) unfolding fanned_out_def by blast
  moreover have "conns h' x = conns h x" if "x \<notin> set (cid # cids)" for x
    using rest frame3(3) that unfolding fanned_out_def by auto
  ultimately show ?case unfolding run fanned_out_def h'_def [symmetric] by blast
qed

text \<open>
  (functional). A broadcast reaches everyone: whoever is still a member of the room afterwards has
  the message (it is in the queue, in the catch-up buffer, or was delivered before), unless the
  connection had already been closed before the broadcast; a client that could not take it was
  removed from the room.
\<close>

theorem broadcast_reaches_members:
  assumes "hub_ok h" and "validate (hub_cfg h) = None" and "mid \<noteq> ''''"
    and "\<forall>cid. client_ok (hub_cfg h) (conns h cid)"
    and "rooms h l = Some r" and "distinct (snapshot (members h r))" and "set (snapshot (members h r)) = members h r"
    and "cid \<in> members (broadcastChat snapshot l mid seq p h) r"
  shows "mid \<in> seenMessageIDs (conns (broadcastChat snapshot l mid seq p h) cid) \<or> closed (conns h cid)"
proof -
  have "fanned_out mid (members h r) r h (broadcastChat snapshot l mid seq p h)"
    using deliver_chat_fans_out [OF assms(6,1,2,3), of r seq p] assms(4,5,7) by (simp add: broadcastChat_def)
  with assms(8) show ?thesis by (auto simp: fanned_out_def)
qed

subsection \<open>Instances\<close>

definition small_hub :: hub_config where
  "small_hub = \<lparr>SendQueueSize = 2, MessageDedupSize = 8, WriteWait = 10, PongWait = 60, PingPeriod = 30, MaxMessageSize = 4096\<rparr>"

lemma small_hub_valid: "validate small_hub = None"
  by (simp add: small_hub_def validate_def)

lemma new_client_ok: "client_ok small_hub (NewClient l)"
  unfolding NewClient_def by (rule NewResumingClient_ok [OF small_hub_valid])

theorem client_memory_bounded_witness:
  "client_ok small_hub (fold (client_step small_hub) [OpEnqueueChat ''a'' ''x'' 1, OpEnqueue ''y'', OpEnqueue ''z'']
     (NewResumingClient 5 False))"
  by (rule client_memory_bounded [OF small_hub_valid])

theorem duplicate_is_suppressed_witness:
  "EnqueueChat small_hub ''m1'' ''other'' 9
     (fold (client_step small_hub) [OpEnqueueChat ''m2'' ''y'' 2, OpFinishResume] (snd (EnqueueChat small_hub ''m1'' ''x'' 1 (NewClient 5)))) =
   (True, fold (client_step small_hub) [OpEnqueueChat ''m2'' ''y'' 2, OpFinishResume] (snd (EnqueueChat small_hub ''m1'' ''x'' 1 (NewClient 5))))"
proof -
  have "EnqueueChat small_hub ''m1'' ''x'' 1 (NewClient 5) = (True, snd (EnqueueChat small_hub ''m1'' ''x'' 1 (NewClient 5)))"
    by (simp add: EnqueueChat_def Enqueue_def NewClient_def NewResumingClient_def small_hub_def)
  from duplicate_is_suppressed [OF small_hub_valid new_client_ok _ this, of "[OpEnqueueChat ''m2'' ''y'' 2, OpFinishResume]" "''other''" 9]
  show ?thesis by (simp add: NewClient_def NewResumingClient_def small_hub_def)
qed

theorem resume_can_invert_order_witness:
  "send (fold (client_step small_hub)
     [OpEnqueueChat ''a'' ''seven'' 7, OpEnqueueReplay ''a'' ''seven'' 7, OpEnqueueReplay ''b'' ''eight'' 8, OpFinishResume]
     (NewResumingClient 5 True)) = [''eight'', ''seven'']"
  by (rule resume_can_invert_order [OF small_hub_valid]) (simp_all add: small_hub_def)

theorem closed_client_is_final_witness:
  "fst (close ''again'' (fold (client_step small_hub) [OpEnqueue ''p''] ((NewClient 5)\<lparr>closed := True, reason := ''first''\<rparr>))) = False"
  using closed_client_is_final [of "(NewClient 5)\<lparr>closed := True, reason := ''first''\<rparr>" "''again''" small_hub "[OpEnqueue ''p'']"]
  by simp

definition small_manager :: hub where
  "small_manager = \<lparr>hub_cfg = small_hub, rooms = Map.empty, members = (\<lambda>_. {}), next_room = 0,
     conns = (\<lambda>_. NewClient 5), droppedMessages = 0, activeConns = 0\<rparr>"

theorem no_client_in_orphan_room_witness:
  "rooms (register 3 small_manager) (lessonID (conns (register 3 small_manager) 3)) = Some 0"
proof (rule no_client_in_orphan_room)
  show "NewManager small_hub (\<lambda>_. NewClient 5) = Inr small_manager"
    by (simp add: NewManager_def small_hub_valid small_manager_def)
  show "hub_step\<^sup>*\<^sup>* (small_manager, {}) (register 3 small_manager, {})"
    by (rule r_into_rtranclp) (rule hub_step.intros(1))
  show "3 \<in> members (register 3 small_manager) 0"
    by (simp add: register_def small_manager_def NewClient_def NewResumingClient_def Let_def)
qed

theorem broadcast_reaches_members_witness:
  "''m1'' \<in> seenMessageIDs (conns (broadcastChat (\<lambda>_. [3]) 5 ''m1'' 1 ''x'' (register 3 small_manager)) 3) \<or>
   closed (conns (register 3 small_manager) 3)"
proof (rule broadcast_reaches_members)
  let ?h = "register 3 small_manager"
  have h: "?h = small_manager\<lparr>rooms := [5 \<mapsto> 0], next_room := 1, members := (\<lambda>r. if r = 0 then {3} else {}), activeConns := 1\<rparr>"
    by (auto simp: register_def small_manager_def NewClient_def NewResumingClient_def Let_def)
  show "hub_ok ?h"
    by (rule register_ok) (simp add: hub_ok_def small_manager_def)
  show "validate (hub_cfg ?h) = None" unfolding h by (simp add: small_manager_def small_hub_valid)
  show "\<forall>cid. client_ok (hub_cfg ?h) (conns ?h cid)" unfolding h by (simp add: small_manager_def new_client_ok)
  show "rooms ?h 5 = Some 0" by (simp add: h)
  show "set [3] = members ?h 0" by (simp add: h)
  show "3 \<in> members (broadcastChat (\<lambda>_. [3]) 5 ''m1'' 1 ''x'' ?h) 0"
    unfolding h by (simp add: small_manager_def broadcastChat_def EnqueueChat_def Enqueue_def NewClient_def NewResumingClient_def small_hub_def)
qed simp_all

end
