(* ===== verification/Chat_Service.thy ===== *)
theory Chat_Service
  imports Chat_Store Chat_Hub Sql_Tx
begin

text \<open>
  The chat service (internal/rpc/chat/handler.go): sending a message, reading and deleting the history
  with the permission checks and their Redis cache; and the replay of missed messages when a
  WebSocket reconnects (internal/api/service/chat_ws.go). MongoDB commands are statements of the
  layer Sql_Tx: each may fail. The lesson service is a parameter: what IsStudentInLesson and
  GetLessonInfoById answer. clean stands for the text filters, whose regular expressions work on
  Unicode characters.
\<close>

subsection \<open>State\<close>

record chat_world =
  msgs :: "message list"
  counters :: "int \<Rightarrow> int option"
  stu_cache :: "(int \<times> int) set"        \<comment> \<open>Redis keys perm:stu:lesson:user with value 1\<close>
  teacher_cache :: "(int \<times> int) set"    \<comment> \<open>Redis keys perm:teacher:lesson:user with value 1\<close>
  notified :: nat                            \<comment> \<open>calls of the relay's Notify\<close>

text \<open>What the service was configured with, and what other services answer.\<close>

record chat_env =
  has_redis :: bool
  has_relay :: bool
  IsStudent :: "int \<Rightarrow> int \<Rightarrow> goerr + string option"   \<comment> \<open>the message of the reply; None for an empty reply\<close>
  TeacherOf :: "int \<Rightarrow> goerr + int"                      \<comment> \<open>GetLessonInfoById\<close>
  clean :: "string \<Rightarrow> string"

datatype chat_error = NotAStudent | NotTheTeacher | NoHistoryPermission | ChatError goerr

type_synonym 'a chat_op = "chat_world tx_state \<Rightarrow> (chat_error + 'a) \<times> chat_world tx_state"

definition world_update :: "(chat_world \<Rightarrow> chat_world) \<Rightarrow> chat_world tx_state \<Rightarrow> chat_world tx_state" where
  "world_update f s = s\<lparr>tables := f (tables s)\<rparr>"

subsection \<open>Permissions\<close>

definition requireStudentInLesson :: "chat_env \<Rightarrow> int \<Rightarrow> int \<Rightarrow> unit chat_op" where
  "requireStudentInLesson env lid userID s =
     (if has_redis env \<and> (lid, userID) \<in> stu_cache (tables s) then (Inr (), s)
      else case IsStudent env lid userID of
        Inl err \<Rightarrow> (Inl (ChatError err), s)
      | Inr None \<Rightarrow> (Inl (ChatError (ErrNew ''webrtc_live service: empty student check'')), s)
      | Inr (Some msg) \<Rightarrow>
          if msg \<noteq> ''exist'' then (Inl NotAStudent, s)
          else (Inr (), if has_redis env
                then world_update (\<lambda>w. w\<lparr>stu_cache := insert (lid, userID) (stu_cache w)\<rparr>) s else s))"

definition requireTeacherOfLesson :: "chat_env \<Rightarrow> int \<Rightarrow> int \<Rightarrow> unit chat_op" where
  "requireTeacherOfLesson env lid userID s =
     (if has_redis env \<and> (lid, userID) \<in> teacher_cache (tables s) then (Inr (), s)
      else case TeacherOf env lid of
        Inl err \<Rightarrow> (Inl (ChatError err), s)
      | Inr teacher \<Rightarrow>
          if teacher \<noteq> userID then (Inl NotTheTeacher, s)
          else (Inr (), if has_redis env
                then world_update (\<lambda>w. w\<lparr>teacher_cache := insert (lid, userID) (teacher_cache w)\<rparr>) s else s))"

subsection \<open>Sending\<close>

definition is_alnum :: "char \<Rightarrow> bool" where
  "is_alnum c \<longleftrightarrow> (let n = of_char c :: nat in 48 \<le> n \<and> n \<le> 57 \<or> 65 \<le> n \<and> n \<le> 90 \<or> 97 \<le> n \<and> n \<le> 122)"

text \<open>The pattern [A-Za-z0-9][A-Za-z0-9._:-]{0,127} on the whole text.\<close>

definition clientMessageIDPattern :: "string \<Rightarrow> bool" where
  "clientMessageIDPattern s =
     (case s of
        [] \<Rightarrow> False
      | c # cs \<Rightarrow> is_alnum c \<and> length cs \<le> 127 \<and>
          list_all (\<lambda>x. is_alnum x \<or> x \<in> {CHR ''.'', CHR ''_'', CHR '':'', CHR ''-''}) cs)"

record live_chat_req =
  lc_Lessonid :: int
  lc_Userid :: int
  lc_Message :: string
  lc_ClientMessageId :: string

definition insert_sql :: "message \<Rightarrow> (chat_world, message \<times> bool) sql" where
  "insert_sql m now w = (case InsertMessageIdempotent m (msgs w) of (r, c) \<Rightarrow> (r, w\<lparr>msgs := c\<rparr>))"

definition allocate_sql :: "int \<Rightarrow> (chat_world, int) sql" where
  "allocate_sql lid now w = (case AllocateLessonSeq lid (counters w) of (seq, c) \<Rightarrow> (Inr seq, w\<lparr>counters := c\<rparr>))"

definition set_seq_sql :: "string \<Rightarrow> int \<Rightarrow> (chat_world, unit) sql" where
  "set_seq_sql mid seq now w = (Inr (), w\<lparr>msgs := SetLessonSeq mid seq (msgs w)\<rparr>)"

definition delete_sql :: "int \<Rightarrow> (chat_world, unit) sql" where
  "delete_sql lid now w = (Inr (), w\<lparr>msgs := DeleteLessonMessages lid (msgs w)\<rparr>)"

text \<open>
  LiveChat with the message id (a version 7 UUID), the time it took and the error of the injected
  delay. The reply is the id of the stored message and the delivery status.
\<close>

definition new_message :: "chat_env \<Rightarrow> live_chat_req \<Rightarrow> string \<Rightarrow> int \<Rightarrow> message" where
  "new_message env r uuid now =
     \<lparr>MessageID = uuid, ClientMessageID = TrimSpace (lc_ClientMessageId r), LessonID = lc_Lessonid r,
      LessonSeq = 0, SenderID = lc_Userid r, Content = clean env (lc_Message r), CreatedAt = now,
      Outbox = \<lparr>Status = OutboxPending, OAttempts = 0, NextAttemptAt = Some now, LeaseOwner = '''',
        LeaseUntil = None, PublishedAt = None, LastError = ''''\<rparr>\<rparr>"

definition LiveChat ::
    "chat_env \<Rightarrow> goerr + string \<Rightarrow> int \<Rightarrow> goerr option \<Rightarrow> live_chat_req option \<Rightarrow> (string \<times> string) chat_op" where
  "LiveChat env uuid now delay req s =
     (case req of
        None \<Rightarrow> (Inl (ChatError (ErrNew ''nil chat request'')), s)
      | Some r \<Rightarrow>
          (case requireStudentInLesson env (lc_Lessonid r) (lc_Userid r) s of
             (Inl err, s1) \<Rightarrow> (Inl err, s1)
           | (Inr _, s1) \<Rightarrow>
               let clientMessageID = TrimSpace (lc_ClientMessageId r) in
               if clientMessageID \<noteq> '''' \<and> \<not> clientMessageIDPattern clientMessageID
               then (Inl (ChatError (ErrNew ''invalid client_message_id'')), s1)
               else case uuid of
                 Inl err \<Rightarrow> (Inl (ChatError (Wrapf ''generate message id: '' err '''')), s1)
               | Inr mid \<Rightarrow>
                   (case delay of
                      Some err \<Rightarrow> (Inl (ChatError err), s1)
                    | None \<Rightarrow>
                        (case stmt (insert_sql (new_message env r mid now)) s1 of
                           (Inl err, s2) \<Rightarrow> (Inl (ChatError err), s2)
                         | (Inr (persisted, inserted), s2) \<Rightarrow>
                             let reply = (\<lambda>s. (Inr (MessageID persisted,
                                   if inserted then ''outbox_pending'' else ''duplicate''),
                                   if has_relay env then world_update (\<lambda>w. w\<lparr>notified := notified w + 1\<rparr>) s else s))
                             in if LessonSeq persisted = 0
                                then (case stmt (allocate_sql (lc_Lessonid r)) s2 of
                                   (Inl err, s3) \<Rightarrow> (Inl (ChatError (Wrapf ''allocate lesson sequence: '' err '''')), s3)
                                 | (Inr seq, s3) \<Rightarrow>
                                     (case stmt (set_seq_sql (MessageID persisted) seq) s3 of
                                        (Inl err, s4) \<Rightarrow>
                                          (Inl (ChatError (Wrapf ''persist lesson sequence: '' err '''')), s4)
                                      | (Inr _, s4) \<Rightarrow> reply s4))
                                else reply s2))))"

subsection \<open>History\<close>

record history_req =
  hr_LessonId :: int
  hr_Userid :: int
  hr_AfterMessageId :: string
  hr_Cursor :: string
  hr_Limit :: int

record history_resp =
  hp_messages :: "message list"
  hp_HasMore :: bool
  hp_NextCursor :: "string option"

definition after_sql :: "int \<Rightarrow> string \<Rightarrow> int \<Rightarrow> (chat_world, message list \<times> bool) sql" where
  "after_sql l after limit now w = (SelectMongoAfter l after limit (msgs w), w)"

definition page_sql ::
    "(msg_key \<Rightarrow> string) \<Rightarrow> (string \<Rightarrow> msg_key option) \<Rightarrow> int \<Rightarrow> string \<Rightarrow> int \<Rightarrow> (chat_world, message list \<times> string) sql" where
  "page_sql encode decode l cursor limit now w = (SelectMongo encode decode l cursor limit (msgs w), w)"

definition GetHistory ::
    "chat_env \<Rightarrow> (msg_key \<Rightarrow> string) \<Rightarrow> (string \<Rightarrow> msg_key option) \<Rightarrow> history_req option \<Rightarrow> history_resp chat_op" where
  "GetHistory env encode decode req s =
     (case req of
        None \<Rightarrow> (Inl (ChatError (ErrNew ''nil history request'')), s)
      | Some r \<Rightarrow>
          (case requireStudentInLesson env (hr_LessonId r) (hr_Userid r) s of
             (Inl err, s1) \<Rightarrow> (Inl NoHistoryPermission, s1)
           | (Inr _, s1) \<Rightarrow>
               let after = TrimSpace (hr_AfterMessageId r) in
               if after \<noteq> '''' then
                 (case stmt (after_sql (hr_LessonId r) after (hr_Limit r)) s1 of
                    (Inl err, s2) \<Rightarrow> (Inl (ChatError err), s2)
                  | (Inr (ms, hasMore), s2) \<Rightarrow>
                      (Inr \<lparr>hp_messages = ms, hp_HasMore = hasMore,
                         hp_NextCursor = (if ms = [] \<or> MessageID (last ms) = '''' then None else Some (MessageID (last ms)))\<rparr>, s2))
               else
                 (case stmt (page_sql encode decode (hr_LessonId r) (hr_Cursor r) (hr_Limit r)) s1 of
                    (Inl err, s2) \<Rightarrow> (Inl (ChatError err), s2)
                  | (Inr (ms, next_cursor), s2) \<Rightarrow>
                      (Inr \<lparr>hp_messages = ms, hp_HasMore = False,
                         hp_NextCursor = (if next_cursor = '''' then None else Some next_cursor)\<rparr>, s2))))"

definition DelHistory :: "chat_env \<Rightarrow> int \<Rightarrow> int \<Rightarrow> unit chat_op" where
  "DelHistory env lid userID s =
     (case requireTeacherOfLesson env lid userID s of
        (Inl err, s1) \<Rightarrow> (Inl err, s1)
      | (Inr _, s1) \<Rightarrow>
          (case stmt (delete_sql lid) s1 of
             (Inl err, s2) \<Rightarrow> (Inl (ChatError err), s2)
           | (Inr _, s2) \<Rightarrow> (Inr (), s2)))"

subsection \<open>Properties of the service\<close>

lemmas chat_defs = requireStudentInLesson_def requireTeacherOfLesson_def world_update_def stmt_def
  insert_sql_def allocate_sql_def set_seq_sql_def delete_sql_def after_sql_def page_sql_def

text \<open>
  (safety). Only a member of the lesson changes or reads its chat: when the lesson service does not
  answer exist and the Redis cache does not hold the permission, LiveChat and GetHistory fail and
  the messages are untouched; and only the teacher (or a cached teacher) deletes.
\<close>

theorem chat_needs_membership:
  assumes "IsStudent env l u \<noteq> Inr (Some ''exist'')" and "(l, u) \<notin> stu_cache (tables s)"
    and "lc_Lessonid r = l" and "lc_Userid r = u" and "hr_LessonId h = l" and "hr_Userid h = u"
    and "TeacherOf env l \<noteq> Inr u" and "(l, u) \<notin> teacher_cache (tables s)"
  shows "(\<exists>e. LiveChat env uuid now delay (Some r) s = (Inl e, s)) \<and>
    (\<exists>e. GetHistory env encode decode (Some h) s = (Inl e, s)) \<and>
    (\<exists>e. DelHistory env l u s = (Inl e, s))"
  using assms
  by (auto simp: LiveChat_def GetHistory_def DelHistory_def requireStudentInLesson_def requireTeacherOfLesson_def
      split: sum.splits option.splits)

text \<open>
  (safety). The cached permission is not checked again: a user whom the lesson service no longer
  counts as a student still sends messages while the cache entry lives (five minutes after the
  last check), since nothing removes the entry when a student leaves a lesson.
\<close>

theorem removed_student_still_sends:
  assumes "has_redis env" and "(lc_Lessonid r, lc_Userid r) \<in> stu_cache w"
    and "lc_ClientMessageId r = ''''" and "mid \<notin> MessageID ` set (msgs w)"
  shows "\<exists>st w'. LiveChat env (Inr mid) now None (Some r) (quiet t w) = (Inr (mid, st), quiet t w') \<and>
    mid \<in> MessageID ` set (msgs w')"
proof -
  let ?m = "new_message env r mid now"
  have ins: "InsertMessageIdempotent ?m (msgs w) = (Inr (?m, True), msgs w @ [?m])"
    using assms(3,4)
    by (auto simp: InsertMessageIdempotent_def InsertMongo_def index_conflict_def list_ex_iff new_message_def TrimSpace_def)
  have ids: "MessageID ` set (SetLessonSeq mid seq c) = MessageID ` set c" for seq c
  proof -
    have "map MessageID (SetLessonSeq mid seq c) = map MessageID c"
      unfolding SetLessonSeq_def by (rule update_first_map) simp
    then show ?thesis by (metis list.set_map)
  qed
  show ?thesis
    using assms(1-3) ins
    by (auto simp: LiveChat_def requireStudentInLesson_def insert_sql_def allocate_sql_def set_seq_sql_def
        world_update_def quiet_def stmt_def no_fault_def TrimSpace_def Let_def AllocateLessonSeq_def ids
        new_message_def split: option.splits)
qed

text \<open>
  (functional). A page of the history read by cursor never says that there is more: HasMore is
  false even when the page is followed by others and the reply carries the cursor to the next one.
\<close>

theorem cursor_page_never_has_more:
  assumes "GetHistory env encode decode (Some r) s = (Inr resp, s')" and "TrimSpace (hr_AfterMessageId r) = ''''"
  shows "\<not> hp_HasMore resp"
  using assms by (auto simp: GetHistory_def split: sum.splits prod.splits)

subsection \<open>Replaying what a reconnecting client missed\<close>

record resume_status =
  rs_Type :: string
  rs_AfterMessageID :: string
  rs_Recovered :: nat
  rs_LastLessonSeq :: int
  rs_Error :: string
  rs_Truncated :: bool

definition resume_failed :: "string \<Rightarrow> resume_status \<Rightarrow> resume_status" where
  "resume_failed e st = st\<lparr>rs_Type := ''resume_error'', rs_Error := e\<rparr>"

text \<open>
  The messages of one page: each is queued for the client; render stands for the JSON of a message.
  The flag says that the queue took them all.
\<close>

fun replay_page ::
    "hub_config \<Rightarrow> (message \<Rightarrow> string) \<Rightarrow> message list \<Rightarrow> resume_status \<Rightarrow> client \<Rightarrow> bool \<times> resume_status \<times> client" where
  "replay_page c render [] st cl = (True, st, cl)"
| "replay_page c render (m # ms) st cl =
     (case EnqueueReplay c (MessageID m) (render m) (LessonSeq m) cl of
        (False, cl1) \<Rightarrow> (False, resume_failed ''resume send queue full'' st, cl1)
      | (True, cl1) \<Rightarrow>
          replay_page c render ms
            (st\<lparr>rs_Recovered := rs_Recovered st + 1, rs_AfterMessageID := MessageID m,
                rs_LastLessonSeq := (if LessonSeq m > rs_LastLessonSeq st then LessonSeq m else rs_LastLessonSeq st)\<rparr>) cl1)"

text \<open>
  The loop over the pages; history after limit stands for the GetHistory call (its error text, or
  the messages, HasMore and the next cursor). The fuel bounds the number of pages.
\<close>

fun replay_loop ::
    "hub_config \<Rightarrow> (message \<Rightarrow> string) \<Rightarrow> (string \<Rightarrow> nat \<Rightarrow> string + message list \<times> bool \<times> string) \<Rightarrow> nat \<Rightarrow>
     string \<Rightarrow> resume_status \<Rightarrow> client \<Rightarrow> (resume_status \<times> client) option" where
  "replay_loop c render history 0 after st cl = None"
| "replay_loop c render history (Suc n) after st cl =
     (if rs_Recovered st \<ge> 1000 then Some (st\<lparr>rs_Truncated := True\<rparr>, cl)
      else case history after (min 100 (1000 - rs_Recovered st)) of
        Inl e \<Rightarrow> Some (resume_failed e st, cl)
      | Inr (ms, hasMore, next_cursor) \<Rightarrow>
          (case replay_page c render ms st cl of
             (False, st1, cl1) \<Rightarrow> Some (st1, cl1)
           | (True, st1, cl1) \<Rightarrow>
               if \<not> hasMore then Some (st1, cl1)
               else if next_cursor = '''' then Some (resume_failed ''missing resume cursor'' st1, cl1)
               else replay_loop c render history n next_cursor st1 cl1))"

definition replayMissedMessages ::
    "hub_config \<Rightarrow> (message \<Rightarrow> string) \<Rightarrow> (string \<Rightarrow> nat \<Rightarrow> string + message list \<times> bool \<times> string) \<Rightarrow> nat \<Rightarrow>
     string \<Rightarrow> client \<Rightarrow> (resume_status \<times> client) option" where
  "replayMissedMessages c render history fuel after cl =
     replay_loop c render history fuel after
       \<lparr>rs_Type = ''resume_complete'', rs_AfterMessageID = after, rs_Recovered = 0, rs_LastLessonSeq = 0,
        rs_Error = '''', rs_Truncated = False\<rparr> cl"

lemma replay_page_recovered:
  "replay_page c render ms st cl = (b, st1, cl1) \<Longrightarrow>
   rs_Recovered st1 \<le> rs_Recovered st + length ms \<and> (b \<longrightarrow> rs_Recovered st1 = rs_Recovered st + length ms) \<and>
   rs_Truncated st1 = rs_Truncated st"
proof (induction ms arbitrary: st cl)
  case (Cons m ms)
  obtain ok cl2 where "EnqueueReplay c (MessageID m) (render m) (LessonSeq m) cl = (ok, cl2)" by (metis surj_pair)
  with Cons show ?case by (fastforce simp: resume_failed_def split: bool.splits)
qed simp

text \<open>What the loop relies on: pages within the limit, and not empty when there is more.\<close>

definition honest :: "(string \<Rightarrow> nat \<Rightarrow> string + message list \<times> bool \<times> string) \<Rightarrow> bool" where
  "honest history \<longleftrightarrow> (\<forall>after limit ms more next_cursor. history after limit = Inr (ms, more, next_cursor) \<longrightarrow>
     length ms \<le> limit \<and> (more \<longrightarrow> ms \<noteq> []))"

lemma replay_loop_ends:
  assumes "honest history" and "rs_Recovered st \<le> 1000" and "\<not> rs_Truncated st" and "1000 < n + rs_Recovered st"
  shows "\<exists>st' cl'. replay_loop c render history n after st cl = Some (st', cl') \<and> rs_Recovered st' \<le> 1000 \<and>
    (rs_Truncated st' \<longrightarrow> rs_Recovered st' = 1000)"
  using assms(2-4)
proof (induction n arbitrary: after st cl)
  case (Suc n)
  show ?case
  proof (cases "rs_Recovered st \<ge> 1000")
    case True
    with Suc.prems show ?thesis by simp
  next
    case False
    show ?thesis
    proof (cases "history after (min 100 (1000 - rs_Recovered st))")
      case (Inl e)
      with False Suc.prems show ?thesis by (simp add: resume_failed_def)
    next
      case (Inr r)
      obtain ms more nx where r: "r = (ms, more, nx)" by (metis surj_pair)
      have len: "length ms \<le> 1000 - rs_Recovered st" "more \<longrightarrow> ms \<noteq> []"
        using assms(1) Inr r unfolding honest_def by fastforce+
      obtain b st1 cl1 where p: "replay_page c render ms st cl = (b, st1, cl1)" by (metis surj_pair)
      note rec = replay_page_recovered [OF p]
      have bound: "rs_Recovered st1 \<le> 1000" using rec len Suc.prems(1) by linarith
      show ?thesis
      proof (cases "b \<and> more \<and> nx \<noteq> ''''")
        case True
        then have "ms \<noteq> []" using len by simp
        then have "1000 < n + rs_Recovered st1" using rec True Suc.prems(3) by (cases ms) auto
        from Suc.IH [OF bound _ this, of nx cl1] rec Suc.prems(2) False Inr r p True show ?thesis by simp
      next
        case False': False
        with False Inr r p rec bound Suc.prems(2) show ?thesis
          by (auto simp: resume_failed_def split: bool.splits)
      qed
    qed
  qed
qed simp

text \<open>
  (termination). Catching up ends: against a history service that keeps the page limit and does not
  announce more after an empty page, at most 1001 pages are read, at most 1000 messages are
  replayed, and the status says truncated only when exactly 1000 were.
\<close>

theorem replay_terminates:
  assumes "honest history"
  shows "\<exists>st cl'. replayMissedMessages c render history 1001 after cl = Some (st, cl') \<and>
    rs_Recovered st \<le> 1000 \<and> (rs_Truncated st \<longrightarrow> rs_Recovered st = 1000)"
  unfolding replayMissedMessages_def by (rule replay_loop_ends [OF assms]) simp_all

subsection \<open>Instances\<close>

definition strict_env :: chat_env where
  "strict_env = \<lparr>has_redis = True, has_relay = True, IsStudent = (\<lambda>_ _. Inr (Some ''not exist'')), TeacherOf = (\<lambda>_. Inr 1), clean = id\<rparr>"

definition one_message :: chat_world where
  "one_message = \<lparr>msgs = [sample_message ''a'' 1], counters = Map.empty, stu_cache = {(5, 8)}, teacher_cache = {}, notified = 0\<rparr>"

definition chat_from :: "int \<Rightarrow> live_chat_req" where
  "chat_from u = \<lparr>lc_Lessonid = 5, lc_Userid = u, lc_Message = ''hi'', lc_ClientMessageId = ''''\<rparr>"

definition history_from :: "int \<Rightarrow> history_req" where
  "history_from u = \<lparr>hr_LessonId = 5, hr_Userid = u, hr_AfterMessageId = '''', hr_Cursor = '''', hr_Limit = 10\<rparr>"

theorem chat_needs_membership_witness:
  "\<exists>e. DelHistory strict_env 5 9 (quiet 0 one_message) = (Inl e, quiet 0 one_message)"
  using chat_needs_membership [of strict_env 5 9 "quiet 0 one_message" "chat_from 9" "history_from 9"]
  by (simp add: strict_env_def one_message_def chat_from_def history_from_def)

theorem removed_student_still_sends_witness:
  "\<exists>st w'. LiveChat strict_env (Inr ''b'') 3 None (Some (chat_from 8)) (quiet 0 one_message) = (Inr (''b'', st), quiet 0 w') \<and>
    ''b'' \<in> MessageID ` set (msgs w')"
  by (rule removed_student_still_sends) (simp_all add: strict_env_def one_message_def chat_from_def sample_message_def)

theorem cursor_page_never_has_more_witness:
  "\<not> hp_HasMore \<lparr>hp_messages = [sample_message ''a'' 1], hp_HasMore = False, hp_NextCursor = None\<rparr>"
proof (rule cursor_page_never_has_more)
  show "GetHistory strict_env unary_encode unary_decode (Some (history_from 8)) (quiet 0 one_message) =
      (Inr \<lparr>hp_messages = [sample_message ''a'' 1], hp_HasMore = False, hp_NextCursor = None\<rparr>, quiet 0 one_message)"
    by (simp add: GetHistory_def requireStudentInLesson_def strict_env_def one_message_def history_from_def
        page_sql_def SelectMongo_def history_rows_def clamp_limit_def page_def sample_message_def TrimSpace_def Let_def)
qed (simp add: history_from_def TrimSpace_def)

theorem replay_terminates_witness:
  "\<exists>st cl'. replayMissedMessages small_hub Content (\<lambda>after limit. Inr ([], False, '''')) 1001 ''a'' (NewClient 5) = Some (st, cl') \<and>
    rs_Recovered st \<le> 1000"
  using replay_terminates [of "\<lambda>after limit. Inr ([], False, '''')" small_hub Content "''a''" "NewClient 5"]
  by (auto simp: honest_def)

end
