(* ===== verification/Chat_Relay.thy ===== *)
theory Chat_Relay
  imports Chat_Store
begin

text \<open>
  The outbox relay (internal/rpc/chat/kafka_dispatcher.go): workers that claim pending messages,
  check the ordering fence of the lesson, write to Kafka and mark the message. The body of drain is
  cut at its database and Kafka calls into phases of a worker, so that the steps of all workers, of
  all instances of the service, interleave freely; every call may fail, with or without having
  taken effect, leases may expire at any moment, and a worker may die anywhere. Kafka is the log
  of what was written.
\<close>

subsection \<open>Configuration and back-off\<close>

record outbox_config =
  Workers :: int
  PollInterval :: int
  OrderingRetryInterval :: int
  LeaseDuration :: int
  WriteTimeout :: int
  RetryAttempts :: int
  RetryBaseBackoff :: int
  RetryMaxBackoff :: int

definition NewOutboxRelay :: "bool \<Rightarrow> bool \<Rightarrow> outbox_config \<Rightarrow> goerr + outbox_config" where
  "NewOutboxRelay has_writer has_store c =
     (if \<not> has_writer \<or> \<not> has_store then Inl (ErrNew ''outbox relay requires writer and store'')
      else if Workers c \<le> 0 \<or> PollInterval c \<le> 0 \<or> LeaseDuration c \<le> 0 \<or> WriteTimeout c \<le> 0 \<or>
        RetryAttempts c \<le> 0 \<or> RetryBaseBackoff c \<le> 0 \<or> RetryMaxBackoff c < RetryBaseBackoff c
      then Inl (ErrNew ''invalid outbox relay configuration'')
      else Inr (if OrderingRetryInterval c \<le> 0 then c\<lparr>OrderingRetryInterval := 10000000\<rparr> else c))"

text \<open>The doubling loop of retryDelay, in int64; n rounds remain. The jitter comes on top.\<close>

fun delay_loop :: "int \<Rightarrow> nat \<Rightarrow> int \<Rightarrow> int" where
  "delay_loop mx 0 delay = delay"
| "delay_loop mx (Suc n) delay =
     (if delay < mx
      then (let d = wrap64 (delay * 2) in delay_loop mx n (if d > mx then mx else d))
      else delay)"

definition retryDelay :: "outbox_config \<Rightarrow> int \<Rightarrow> int" where
  "retryDelay c attempt =
     (let attempt = (if attempt < 1 then 1 else attempt)
      in delay_loop (RetryMaxBackoff c) (nat (attempt - 1)) (RetryBaseBackoff c))"

lemma delay_loop_min:
  assumes "0 < d" and "d \<le> mx" and "mx \<le> 2 ^ 62"
  shows "delay_loop mx n d = min mx (d * 2 ^ n)"
  using assms
proof (induction n arbitrary: d)
  case (Suc n)
  show ?case
  proof (cases "d < mx")
    case True
    have w: "wrap64 (d * 2) = d * 2" using Suc.prems True by (intro wrap64_id) (simp add: in_int64_def)
    show ?thesis
    proof (cases "d * 2 > mx")
      case big: True
      have "delay_loop mx n mx = mx" by (cases n) auto
      moreover have "mx \<le> d * 2 ^ Suc n"
      proof -
        have "d * 2 * 1 \<le> d * 2 * 2 ^ n" using Suc.prems(1) by (intro mult_left_mono) auto
        with big show ?thesis by simp
      qed
      ultimately show ?thesis using True big w by (simp add: Let_def min_def)
    next
      case False
      with Suc.IH [of "d * 2"] Suc.prems True w show ?thesis by (simp add: Let_def ac_simps)
    qed
  next
    case False
    then have "d = mx" using Suc.prems by simp
    moreover have "mx * 1 \<le> mx * 2 ^ Suc n"
      using Suc.prems one_le_power [of "2 :: int" "Suc n"] by (intro mult_left_mono) auto
    ultimately show ?thesis by (simp add: min_def)
  qed
qed simp

text \<open>
  (bounds). The delay before a failed message is retried starts at RetryBaseBackoff, doubles with
  every attempt and never exceeds RetryMaxBackoff, however many attempts there were: the loop
  stops doubling before the product could overflow.
\<close>

theorem retry_delay_bounded:
  assumes "NewOutboxRelay w s c0 = Inr c" and "RetryMaxBackoff c \<le> 2 ^ 62"
  shows "retryDelay c attempt = min (RetryMaxBackoff c) (RetryBaseBackoff c * 2 ^ nat (attempt - 1)) \<and>
    RetryBaseBackoff c \<le> retryDelay c attempt \<and> retryDelay c attempt \<le> RetryMaxBackoff c"
proof -
  have c: "0 < RetryBaseBackoff c" "RetryBaseBackoff c \<le> RetryMaxBackoff c"
    using assms(1) by (auto simp: NewOutboxRelay_def split: if_splits)
  have "RetryBaseBackoff c * 1 \<le> RetryBaseBackoff c * 2 ^ nat (attempt - 1)"
    using c by (intro mult_left_mono) auto
  with delay_loop_min [OF c assms(2), of "nat (attempt - 1)"] c show ?thesis
    by (cases "attempt < 1") (auto simp: retryDelay_def Let_def)
qed

subsection \<open>Writing to Kafka\<close>

text \<open>
  One write returns no error, or an error; a write that fails may still have appended the record
  (the acknowledgement was lost). copies counts the records a run appended.
\<close>

datatype write_outcome = WriteOk | WriteFailed goerr bool

text \<open>
  The attempts of writeWithRetry: those that remain, the outcome of each, and the error of the
  context while it waits.
\<close>

fun writeWithRetry ::
    "nat \<Rightarrow> (nat \<Rightarrow> write_outcome) \<Rightarrow> (nat \<Rightarrow> goerr option) \<Rightarrow> nat \<Rightarrow> nat \<Rightarrow> goerr option \<times> nat" where
  "writeWithRetry 0 outcome ctx attempt copies = (Some (ErrNew ''publish failed''), copies)"
| "writeWithRetry (Suc n) outcome ctx attempt copies =
     (case outcome attempt of
        WriteOk \<Rightarrow> (None, copies + 1)
      | WriteFailed err appended \<Rightarrow>
          let copies = (if appended then copies + 1 else copies)
          in if n = 0 then (Some (Wrapf ''publish failed: '' err ''''), copies)
             else case ctx attempt of
                    Some e \<Rightarrow> (Some e, copies)
                  | None \<Rightarrow> writeWithRetry n outcome ctx (attempt + 1) copies)"

lemma writeWithRetry_copies:
  "writeWithRetry n outcome ctx k copies = (r, copies') \<Longrightarrow>
   copies \<le> copies' \<and> copies' \<le> copies + n \<and> (r = None \<longrightarrow> copies < copies')"
proof (induction n arbitrary: k copies)
  case (Suc n)
  then show ?case
    by (fastforce simp: Let_def split: write_outcome.splits if_splits option.splits)
qed auto

text \<open>TrimSpace, then at most 512 bytes of the text.\<close>

definition truncateError :: "goerr \<Rightarrow> string" where
  "truncateError err = take 512 (TrimSpace (err_text err))"

subsection \<open>Workers\<close>

datatype phase =
    Idle
  | Claimed message     \<comment> \<open>has the lease\<close>
  | Gated message       \<comment> \<open>and the gate of the lesson in its instance\<close>
  | Cleared message     \<comment> \<open>and found no earlier unpublished message\<close>
  | Written message     \<comment> \<open>and wrote to Kafka\<close>

record relay =
  coll :: "message list"
  kafka :: "message list"
  phase_of :: "string \<Rightarrow> phase"
  gates :: "(nat \<times> int) set"

definition set_phase :: "string \<Rightarrow> phase \<Rightarrow> relay \<Rightarrow> relay" where
  "set_phase w p r = r\<lparr>phase_of := (phase_of r)(w := p)\<rparr>"

definition release_gate :: "nat \<Rightarrow> int \<Rightarrow> relay \<Rightarrow> relay" where
  "release_gate i l r = r\<lparr>gates := gates r - {(i, l)}\<rparr>"

definition order_blocked :: "relay \<Rightarrow> message \<Rightarrow> bool" where
  "order_blocked r m = HasEarlierUnpublishedOutbox (LessonID m) (CreatedAt m) (MessageID m) (coll r)"

definition ident :: "message \<Rightarrow> int \<times> msg_key" where
  "ident m = (LessonID m, key m)"

text \<open>
  The steps. inst is the instance a worker belongs to. A command that the client sees fail may have
  been applied or not: applied says which. Messages are accepted in the order of their keys within a
  lesson (accept); a worker may lose everything it had in memory (crash).
\<close>

inductive relay_step :: "(string \<Rightarrow> nat) \<Rightarrow> relay \<Rightarrow> relay \<Rightarrow> bool" for inst :: "string \<Rightarrow> nat" where
  accept: "InsertMongo m (coll r) = (None, c) \<Longrightarrow> Status (Outbox m) = OutboxPending \<Longrightarrow>
    \<forall>x \<in> set (coll r). LessonID x = LessonID m \<longrightarrow> key x < key m \<Longrightarrow>
    relay_step inst r (r\<lparr>coll := c\<rparr>)"
| sequence: "relay_step inst r (r\<lparr>coll := SetLessonSeq mid seq (coll r)\<rparr>)"
| claim: "phase_of r w = Idle \<Longrightarrow> claimNextOutbox w now lease affinity (coll r) = (Inr m, c) \<Longrightarrow>
    relay_step inst r (set_phase w (if seen then Claimed m else Idle) (r\<lparr>coll := c\<rparr>))"
| gate_busy: "phase_of r w = Claimed m \<Longrightarrow> (inst w, LessonID m) \<in> gates r \<Longrightarrow>
    DeferOutboxForOrdering (MessageID m) w next_at (coll r) = (err, c) \<Longrightarrow>
    relay_step inst r (set_phase w Idle (r\<lparr>coll := if applied then c else coll r\<rparr>))"
| gate_free: "phase_of r w = Claimed m \<Longrightarrow> (inst w, LessonID m) \<notin> gates r \<Longrightarrow>
    relay_step inst r (set_phase w (Gated m) (r\<lparr>gates := insert (inst w, LessonID m) (gates r)\<rparr>))"
| blocked: "phase_of r w = Gated m \<Longrightarrow> order_blocked r m \<or> check_failed \<Longrightarrow>
    DeferOutboxForOrdering (MessageID m) w next_at (coll r) = (err, c) \<Longrightarrow>
    relay_step inst r (set_phase w Idle (release_gate (inst w) (LessonID m) (r\<lparr>coll := if applied then c else coll r\<rparr>)))"
| clear: "phase_of r w = Gated m \<Longrightarrow> \<not> order_blocked r m \<Longrightarrow>
    relay_step inst r (set_phase w (Cleared m) r)"
| write_ok: "phase_of r w = Cleared m \<Longrightarrow> writeWithRetry n outcome ctx 1 0 = (None, copies) \<Longrightarrow>
    relay_step inst r (set_phase w (Written m) (r\<lparr>kafka := kafka r @ replicate copies m\<rparr>))"
| write_failed: "phase_of r w = Cleared m \<Longrightarrow> writeWithRetry n outcome ctx 1 0 = (Some werr, copies) \<Longrightarrow>
    MarkOutboxRetry (MessageID m) w (truncateError werr) next_at (coll r) = (err, c) \<Longrightarrow>
    relay_step inst r (set_phase w Idle (release_gate (inst w) (LessonID m)
      (r\<lparr>kafka := kafka r @ replicate copies m, coll := if applied then c else coll r\<rparr>)))"
| mark: "phase_of r w = Written m \<Longrightarrow> MarkOutboxPublished (MessageID m) w now (coll r) = (err, c) \<Longrightarrow>
    relay_step inst r (set_phase w Idle (release_gate (inst w) (LessonID m) (r\<lparr>coll := if applied then c else coll r\<rparr>)))"
| crash: "relay_step inst r (set_phase w Idle (r\<lparr>gates := gates r - {g. fst g = inst w}\<rparr>))"

subsection \<open>What the documents keep\<close>

definition idents :: "message list \<Rightarrow> (int \<times> msg_key) set" where
  "idents c = ident ` set c"

definition pub :: "message list \<Rightarrow> (int \<times> msg_key) set" where
  "pub c = ident ` {m \<in> set c. Status (Outbox m) = OutboxPublished}"

definition same_docs :: "message list \<Rightarrow> message list \<Rightarrow> bool" where
  "same_docs c c' \<longleftrightarrow> idents c' = idents c \<and> map MessageID c' = map MessageID c"

lemma update_docs:
  assumes "\<And>x. ident (f x) = ident x"
  shows "same_docs c (update_first P f c)"
proof -
  have "map ident (update_first P f c) = map ident c" by (rule update_first_map) (rule assms)
  moreover have "MessageID (f x) = MessageID x" for x using assms [of x] by (simp add: ident_def key_def)
  then have "map MessageID (update_first P f c) = map MessageID c" by (intro update_first_map) simp
  ultimately show ?thesis unfolding same_docs_def idents_def by (metis list.set_map)
qed

lemma pub_update:
  assumes "unique_ids c" and "\<And>x y. P x \<Longrightarrow> P y \<Longrightarrow> MessageID x = MessageID y"
    and "\<And>x. ident (f x) = ident x"
    and "\<And>x. x \<in> set c \<Longrightarrow> P x \<Longrightarrow> Status (Outbox x) \<noteq> OutboxPublished \<and> (Status (Outbox (f x)) = OutboxPublished \<longrightarrow> ident x \<in> A)"
  shows "pub c \<subseteq> pub (update_first P f c) \<and> pub (update_first P f c) \<subseteq> pub c \<union> A"
proof -
  have s: "set (update_first P f c) = (\<lambda>x. if P x then f x else x) ` set c"
    by (rule set_update_first [OF assms(1) [unfolded unique_ids_def] assms(2)])
  have "i \<in> pub (update_first P f c)" if "i \<in> pub c" for i
  proof -
    from that obtain x where x: "x \<in> set c" "i = ident x" "Status (Outbox x) = OutboxPublished"
      by (auto simp: pub_def)
    with assms(4) have "\<not> P x" by blast
    with x have "x \<in> set (update_first P f c)" unfolding s by force
    with x show ?thesis by (auto simp: pub_def)
  qed
  moreover have "i \<in> pub c \<union> A" if "i \<in> pub (update_first P f c)" for i
  proof -
    from that obtain y where y: "y \<in> set (update_first P f c)" "i = ident y" "Status (Outbox y) = OutboxPublished"
      by (auto simp: pub_def)
    then obtain x where x: "x \<in> set c" "y = (if P x then f x else x)" unfolding s by blast
    show ?thesis
    proof (cases "P x")
      case True
      with x y assms(3,4) show ?thesis by auto
    next
      case False
      with x y show ?thesis by (auto simp: pub_def)
    qed
  qed
  ultimately show ?thesis by blast
qed

lemma lease_to_ident [simp]: "ident (lease_to w u m) = ident m"
  by (simp add: lease_to_def ident_def key_def)

lemma deferred_ident [simp]: "ident (deferred t m) = ident m"
  by (simp add: deferred_def ident_def key_def)

lemma published_ident [simp]: "ident (published t m) = ident m"
  by (simp add: published_def ident_def key_def)

lemma retried_ident [simp]: "ident (retried e t m) = ident m"
  by (simp add: retried_def ident_def key_def)

lemma claim_docs:
  assumes "claimNextOutbox w now lease affinity c = (Inr m, c')" and "unique_ids c"
  shows "same_docs c c' \<and> pub c' = pub c \<and> ident m \<in> idents c"
proof -
  obtain x xs where s: "sort_key key (filter (\<lambda>m. claimable now m \<and> affinity m) c) = x # xs"
    and m: "m = lease_to w (now + lease) x"
    and c': "c' = update_first (\<lambda>y. MessageID y = MessageID x) (lease_to w (now + lease)) c"
    using assms(1) by (auto simp: claimNextOutbox_def split: list.splits)
  have "x \<in> set (sort_key key (filter (\<lambda>m. claimable now m \<and> affinity m) c))" by (simp add: s)
  then have x: "x \<in> set c" "claimable now x" by auto
  have only: "y = x" if "y \<in> set c" "MessageID y = MessageID x" for y
    using assms(2) x(1) that by (auto simp: unique_ids_def distinct_map dest: inj_onD)
  have "pub c \<subseteq> pub c' \<and> pub c' \<subseteq> pub c \<union> {}"
    unfolding c'
  proof (rule pub_update [OF assms(2) _ lease_to_ident])
    fix y assume "y \<in> set c" "MessageID y = MessageID x"
    with only have "y = x" by blast
    with x(2) show "Status (Outbox y) \<noteq> OutboxPublished \<and>
        (Status (Outbox (lease_to w (now + lease) y)) = OutboxPublished \<longrightarrow> ident y \<in> {})"
      by (auto simp: claimable_def lease_to_def)
  qed simp
  with x(1) update_docs [of "lease_to w (now + lease)" c "\<lambda>y. MessageID y = MessageID x"] show ?thesis
    by (auto simp: c' m idents_def)
qed

lemma finish_docs:
  assumes "finish_lease lost mid w f c = (err, c')" and "unique_ids c"
    and "\<And>x. ident (f x) = ident x"
    and "\<And>x. x \<in> set c \<Longrightarrow> leased_by mid w x \<Longrightarrow> Status (Outbox (f x)) = OutboxPublished \<Longrightarrow> ident x \<in> A"
  shows "same_docs c c' \<and> pub c \<subseteq> pub c' \<and> pub c' \<subseteq> pub c \<union> A"
proof (cases "list_ex (leased_by mid w) c")
  case True
  with assms(1) have c': "c' = update_first (leased_by mid w) f c" by (simp add: finish_lease_def)
  have "pub c \<subseteq> pub c' \<and> pub c' \<subseteq> pub c \<union> A"
    unfolding c' by (rule pub_update [OF assms(2) _ assms(3)]) (use assms(4) in \<open>auto simp: leased_by_def\<close>)
  with update_docs [OF assms(3)] show ?thesis by (simp add: c')
next
  case False
  with assms(1) show ?thesis by (simp add: finish_lease_def same_docs_def)
qed

subsection \<open>The invariant\<close>

definition earlier :: "(int \<times> msg_key) set \<Rightarrow> int \<times> msg_key \<Rightarrow> (int \<times> msg_key) set" where
  "earlier I i = {j \<in> I. fst j = fst i \<and> snd j < snd i}"

fun holds :: "phase \<Rightarrow> message option" where
  "holds Idle = None"
| "holds (Claimed m) = Some m"
| "holds (Gated m) = Some m"
| "holds (Cleared m) = Some m"
| "holds (Written m) = Some m"

text \<open>
  On the identities of the documents (I), of the published ones (P), of the records in Kafka (K) and
  the phases: whoever is cleared to write has all earlier messages of the lesson published, and in
  Kafka a message follows all earlier ones.
\<close>

definition inv :: "(int \<times> msg_key) set \<Rightarrow> (int \<times> msg_key) set \<Rightarrow> (int \<times> msg_key) list \<Rightarrow> (string \<Rightarrow> phase) \<Rightarrow> bool" where
  "inv I P K ph \<longleftrightarrow>
     P \<subseteq> set K \<and> set K \<subseteq> I \<and>
     (\<forall>w m. holds (ph w) = Some m \<longrightarrow> ident m \<in> I) \<and>
     (\<forall>w m. ph w = Cleared m \<or> ph w = Written m \<longrightarrow> earlier I (ident m) \<subseteq> P) \<and>
     (\<forall>w m. ph w = Written m \<longrightarrow> ident m \<in> set K) \<and>
     (\<forall>xs i ys. K = xs @ i # ys \<longrightarrow> earlier I i \<subseteq> set xs)"

lemma inv_phase:
  assumes "inv I P K ph" and "\<And>m. holds p = Some m \<Longrightarrow> ident m \<in> I"
    and "\<And>m. p = Cleared m \<or> p = Written m \<Longrightarrow> earlier I (ident m) \<subseteq> P"
    and "\<And>m. p = Written m \<Longrightarrow> ident m \<in> set K"
  shows "inv I P K (ph(w := p))"
  using assms unfolding inv_def by auto

lemma inv_idle: "inv I P K ph \<Longrightarrow> inv I P K (ph(w := Idle))"
  by (rule inv_phase) auto

lemma inv_pub: "inv I P K ph \<Longrightarrow> P \<subseteq> P' \<Longrightarrow> P' \<subseteq> set K \<Longrightarrow> inv I P' K ph"
  unfolding inv_def by blast

lemma inv_accept:
  assumes "inv I P K ph" and "\<And>j. j \<in> I \<Longrightarrow> fst j = fst i \<Longrightarrow> snd j < snd i"
  shows "inv (insert i I) P K ph"
proof -
  have e: "earlier (insert i I) j = earlier I j" if "j \<in> I" for j
    using assms(2) [OF that] by (fastforce simp: earlier_def)
  have K: "j \<in> I" if "K = xs @ j # ys" for j xs ys
    using assms(1) that by (auto simp: inv_def)
  have h: "ident m \<in> I" if "holds (ph w) = Some m" for w m
    using assms(1) that by (auto simp: inv_def)
  show ?thesis
    unfolding inv_def
  proof (intro conjI allI impI)
    show "P \<subseteq> set K" "set K \<subseteq> insert i I" using assms(1) by (auto simp: inv_def)
    show "ident m \<in> insert i I" if "holds (ph w) = Some m" for w m using h [OF that] by simp
    show "earlier (insert i I) (ident m) \<subseteq> P" if "ph w = Cleared m \<or> ph w = Written m" for w m
    proof -
      have "ident m \<in> I" using h [of w m] that by auto
      with assms(1) that e show ?thesis unfolding inv_def by metis
    qed
    show "ident m \<in> set K" if "ph w = Written m" for w m using assms(1) that by (auto simp: inv_def)
    show "earlier (insert i I) j \<subseteq> set xs" if "K = xs @ j # ys" for xs j ys
    proof -
      have "earlier I j \<subseteq> set xs" using assms(1) that unfolding inv_def by blast
      then show ?thesis using e [OF K [OF that]] by simp
    qed
  qed
qed

lemma split_replicate:
  "K @ replicate n a = xs @ i # ys \<Longrightarrow> (\<exists>zs. K = xs @ i # zs) \<or> (i = a \<and> set K \<subseteq> set xs)"
proof -
  assume a: "K @ replicate n a = xs @ i # ys"
  then consider zs where "K = xs @ zs" "zs @ replicate n a = i # ys" | zs where "xs = K @ zs" "replicate n a = zs @ i # ys"
    by (auto simp: append_eq_append_conv2)
  then show ?thesis
  proof cases
    case 1
    show ?thesis
    proof (cases zs)
      case Nil
      with 1 have "i = a" by (cases n) auto
      with 1 Nil show ?thesis by simp
    next
      case (Cons z zs')
      with 1 show ?thesis by auto
    qed
  next
    case 2
    have "i \<in> set (replicate n a)" unfolding 2(2) by simp
    then have "i = a" by auto
    with 2(1) show ?thesis by simp
  qed
qed

lemma inv_write:
  assumes "inv I P K ph" and "ph w = Cleared m"
  shows "inv I P (K @ replicate n (ident m)) ph"
  unfolding inv_def
proof (intro conjI allI impI)
  have m: "ident m \<in> I" "earlier I (ident m) \<subseteq> P" "P \<subseteq> set K"
    using assms unfolding inv_def by (metis holds.simps(4), metis, metis)
  show "P \<subseteq> set (K @ replicate n (ident m))" "set (K @ replicate n (ident m)) \<subseteq> I"
    using assms(1) m by (auto simp: inv_def)
  show "ident m \<in> I" if "holds (ph w) = Some m" for w m using assms(1) that by (auto simp: inv_def)
  show "earlier I (ident m) \<subseteq> P" if "ph w = Cleared m \<or> ph w = Written m" for w m
    using assms(1) that unfolding inv_def by metis
  show "ident m' \<in> set (K @ replicate n (ident m))" if "ph w = Written m'" for w m'
    using assms(1) that by (auto simp: inv_def)
  show "earlier I i \<subseteq> set xs" if "K @ replicate n (ident m) = xs @ i # ys" for xs i ys
    using split_replicate [OF that]
  proof
    assume "\<exists>zs. K = xs @ i # zs"
    with assms(1) show ?thesis unfolding inv_def by blast
  next
    assume "i = ident m \<and> set K \<subseteq> set xs"
    with m show ?thesis by blast
  qed
qed

definition relay_ok :: "relay \<Rightarrow> bool" where
  "relay_ok r \<longleftrightarrow> unique_ids (coll r) \<and> inv (idents (coll r)) (pub (coll r)) (map ident (kafka r)) (phase_of r)"

lemma not_blocked:
  assumes "\<not> order_blocked r m"
  shows "earlier (idents (coll r)) (ident m) \<subseteq> pub (coll r)"
proof
  fix j assume "j \<in> earlier (idents (coll r)) (ident m)"
  then obtain x where x: "x \<in> set (coll r)" "j = ident x" "LessonID x = LessonID m" "key x < key m"
    by (auto simp: earlier_def idents_def ident_def)
  then have "Status (Outbox x) \<notin> {OutboxPending, OutboxPublishing}"
    using assms by (auto simp: order_blocked_def HasEarlierUnpublishedOutbox_def list_ex_iff key_def less_prod_def')
  then have "Status (Outbox x) = OutboxPublished" by (cases "Status (Outbox x)") auto
  with x show "j \<in> pub (coll r)" by (auto simp: pub_def)
qed

lemma unique_same: "same_docs c c' \<Longrightarrow> unique_ids c \<Longrightarrow> unique_ids c'"
  by (simp add: same_docs_def unique_ids_def)

text \<open>Ending a lease without publishing changes neither the documents nor what is published.\<close>

lemma defer_docs:
  assumes "DeferOutboxForOrdering mid w t c = (err, c')" and "unique_ids c"
  shows "same_docs c c' \<and> pub c' = pub c"
proof -
  have "same_docs c c' \<and> pub c \<subseteq> pub c' \<and> pub c' \<subseteq> pub c \<union> {}"
    by (rule finish_docs [OF assms(1) [unfolded DeferOutboxForOrdering_def] assms(2) deferred_ident])
      (simp add: deferred_def)
  then show ?thesis by blast
qed

lemma retry_docs:
  assumes "MarkOutboxRetry mid w e t c = (err, c')" and "unique_ids c"
  shows "same_docs c c' \<and> pub c' = pub c"
proof -
  have "same_docs c c' \<and> pub c \<subseteq> pub c' \<and> pub c' \<subseteq> pub c \<union> {}"
    by (rule finish_docs [OF assms(1) [unfolded MarkOutboxRetry_def] assms(2) retried_ident])
      (simp add: retried_def)
  then show ?thesis by blast
qed

lemma mark_docs:
  assumes "MarkOutboxPublished mid w t c = (err, c')" and "unique_ids c"
  shows "same_docs c c' \<and> pub c \<subseteq> pub c' \<and> pub c' \<subseteq> pub c \<union> {i \<in> idents c. snd (snd i) = mid}"
  by (rule finish_docs [OF assms(1) [unfolded MarkOutboxPublished_def] assms(2) published_ident])
    (auto simp: leased_by_def idents_def ident_def key_def)

lemma ident_by_id:
  assumes "unique_ids c" and "i \<in> idents c" and "j \<in> idents c" and "snd (snd i) = snd (snd j)"
  shows "i = j"
  using assms by (auto simp: unique_ids_def idents_def ident_def key_def distinct_map dest: inj_onD)

lemma relay_ok_docs:
  assumes "relay_ok r" and "same_docs (coll r) c" and "pub c = pub (coll r)"
  shows "unique_ids c \<and> inv (idents c) (pub c) (map ident (kafka r)) (phase_of r)"
  using assms unique_same by (auto simp: relay_ok_def same_docs_def)

lemma relay_step_ok: "relay_step inst r r' \<Longrightarrow> relay_ok r \<Longrightarrow> relay_ok r'"
proof (induction rule: relay_step.induct)
  case (accept m r c)
  then have c: "c = coll r @ [m]" "MessageID m \<notin> MessageID ` set (coll r)"
    by (auto simp: InsertMongo_def index_conflict_def list_ex_iff split: if_splits)
  have "inv (insert (ident m) (idents (coll r))) (pub (coll r)) (map ident (kafka r)) (phase_of r)"
    by (rule inv_accept) (use accept in \<open>auto simp: relay_ok_def idents_def ident_def\<close>)
  moreover have "pub c = pub (coll r)" using accept(2) by (auto simp: pub_def c)
  ultimately show ?case using accept c by (auto simp: relay_ok_def unique_ids_def idents_def)
next
  case (sequence r mid seq)
  let ?c = "SetLessonSeq mid seq (coll r)"
  have d: "same_docs (coll r) ?c"
    unfolding SetLessonSeq_def by (rule update_docs) (simp add: ident_def key_def)
  have eq: "map (\<lambda>m. (ident m, Outbox m)) ?c = map (\<lambda>m. (ident m, Outbox m)) (coll r)"
    unfolding SetLessonSeq_def by (rule update_first_map) (simp add: ident_def key_def)
  have p: "pub c = fst ` {x \<in> set (map (\<lambda>m. (ident m, Outbox m)) c). Status (snd x) = OutboxPublished}" for c
  proof -
    have "{x \<in> set (map (\<lambda>m. (ident m, Outbox m)) c). Status (snd x) = OutboxPublished} =
        (\<lambda>m. (ident m, Outbox m)) ` {m \<in> set c. Status (Outbox m) = OutboxPublished}" by auto
    then show ?thesis by (simp add: pub_def image_image)
  qed
  have "pub ?c = pub (coll r)" by (simp only: p [of ?c] p [of "coll r"] eq)
  from relay_ok_docs [OF sequence d this] show ?case by (simp add: relay_ok_def)
next
  case (claim r w now lease affinity m c seen)
  have u: "unique_ids (coll r)" using claim(3) by (simp add: relay_ok_def)
  note d = claim_docs [OF claim(2) u]
  have "unique_ids c \<and> inv (idents c) (pub c) (map ident (kafka r)) (phase_of r)"
    by (rule relay_ok_docs [OF claim(3)]) (use d in blast)+
  moreover have "ident m \<in> idents c" using d by (simp add: same_docs_def)
  ultimately show ?case
    by (auto simp: relay_ok_def set_phase_def intro!: inv_phase inv_idle)
next
  case (gate_busy r w m next_at err c applied)
  have u: "unique_ids (coll r)" using gate_busy(4) by (simp add: relay_ok_def)
  have "unique_ids c \<and> inv (idents c) (pub c) (map ident (kafka r)) (phase_of r)"
    by (rule relay_ok_docs [OF gate_busy(4)]) (use defer_docs [OF gate_busy(3) u] in blast)+
  with gate_busy(4) show ?case by (auto simp: relay_ok_def set_phase_def intro!: inv_idle)
next
  case (gate_free r w m)
  then show ?case
    by (auto simp: relay_ok_def set_phase_def inv_def intro!: inv_phase) (metis holds.simps(2))
next
  case (blocked r w m check_failed next_at err c applied)
  have u: "unique_ids (coll r)" using blocked(4) by (simp add: relay_ok_def)
  have "unique_ids c \<and> inv (idents c) (pub c) (map ident (kafka r)) (phase_of r)"
    by (rule relay_ok_docs [OF blocked(4)]) (use defer_docs [OF blocked(3) u] in blast)+
  with blocked(4) show ?case by (auto simp: relay_ok_def set_phase_def release_gate_def intro!: inv_idle)
next
  case (clear r w m)
  have "ident m \<in> idents (coll r)"
    using clear(1,3) unfolding relay_ok_def inv_def by (metis holds.simps(3))
  with clear not_blocked [OF clear(2)] show ?case
    by (auto simp: relay_ok_def set_phase_def intro!: inv_phase)
next
  case (write_ok r w m n outcome ctx copies)
  have n: "0 < copies" using writeWithRetry_copies [OF write_ok(2)] by simp
  have "inv (idents (coll r)) (pub (coll r)) (map ident (kafka r) @ replicate copies (ident m)) (phase_of r)"
    by (rule inv_write) (use write_ok in \<open>auto simp: relay_ok_def\<close>)
  moreover have "ident m \<in> idents (coll r)" "earlier (idents (coll r)) (ident m) \<subseteq> pub (coll r)"
    using write_ok(1,3) unfolding relay_ok_def inv_def by (metis holds.simps(4), metis)
  ultimately show ?case using n write_ok(3)
    by (auto simp: relay_ok_def set_phase_def map_replicate_const intro!: inv_phase)
next
  case (write_failed r w m n outcome ctx werr copies next_at err c applied)
  have u: "unique_ids (coll r)" using write_failed(4) by (simp add: relay_ok_def)
  note d = retry_docs [OF write_failed(3) u]
  have i: "inv (idents (coll r)) (pub (coll r)) (map ident (kafka r) @ replicate copies (ident m)) (phase_of r)"
    by (rule inv_write) (use write_failed in \<open>auto simp: relay_ok_def\<close>)
  then have "inv (idents c) (pub c) (map ident (kafka r) @ replicate copies (ident m)) (phase_of r)"
    using d by (simp add: same_docs_def)
  with i u unique_same d show ?case
    by (auto simp: relay_ok_def set_phase_def release_gate_def map_replicate_const intro!: inv_idle)
next
  case (mark r w m now err c applied)
  have ok: "unique_ids (coll r)" "inv (idents (coll r)) (pub (coll r)) (map ident (kafka r)) (phase_of r)"
    using mark(3) by (auto simp: relay_ok_def)
  note d = mark_docs [OF mark(2) ok(1)]
  have m: "ident m \<in> idents (coll r)" "ident m \<in> set (map ident (kafka r))" "pub (coll r) \<subseteq> set (map ident (kafka r))"
    using mark(1) ok(2) unfolding inv_def by (metis holds.simps(5), metis, metis)
  have "i = ident m" if "i \<in> idents (coll r)" "snd (snd i) = MessageID m" for i
    by (rule ident_by_id [OF ok(1) that(1) m(1)]) (simp add: that(2) ident_def key_def)
  then have "{i \<in> idents (coll r). snd (snd i) = MessageID m} \<subseteq> set (map ident (kafka r))"
    using m(2) by blast
  then have "pub c \<subseteq> set (map ident (kafka r))" using d m(3) by blast
  then have "inv (idents c) (pub c) (map ident (kafka r)) (phase_of r)"
    using inv_pub [OF ok(2), of "pub c"] d by (simp add: same_docs_def)
  with ok unique_same d show ?case
    by (auto simp: relay_ok_def set_phase_def release_gate_def intro!: inv_idle)
next
  case (crash r w)
  then show ?case by (auto simp: relay_ok_def set_phase_def intro!: inv_idle)
qed

definition new_relay :: relay where
  "new_relay = \<lparr>coll = [], kafka = [], phase_of = (\<lambda>_. Idle), gates = {}\<rparr>"

lemma reachable_ok: "(relay_step inst)\<^sup>*\<^sup>* new_relay r \<Longrightarrow> relay_ok r"
proof (induction rule: rtranclp_induct)
  case base
  show ?case by (simp add: relay_ok_def new_relay_def unique_ids_def inv_def idents_def pub_def)
qed (rule relay_step_ok)

text \<open>
  C28 (safety). Nothing is lost: a message that is marked as published is in Kafka, however workers
  and instances interleave, calls fail with or without effect, leases expire and workers die.
\<close>

theorem published_is_in_kafka:
  assumes "(relay_step inst)\<^sup>*\<^sup>* new_relay r" and "m \<in> set (coll r)" and "Status (Outbox m) = OutboxPublished"
  shows "\<exists>k \<in> set (kafka r). MessageID k = MessageID m \<and> LessonID k = LessonID m"
proof -
  have "ident m \<in> set (map ident (kafka r))"
    using reachable_ok [OF assms(1)] assms(2,3) unfolding relay_ok_def inv_def pub_def by blast
  then show ?thesis by (auto simp: ident_def key_def)
qed

text \<open>
  C2 (safety). The ordering fence works across workers and instances: if messages of a lesson are
  accepted in the order of their keys, then whenever a message appears in Kafka, every earlier
  message of the lesson appears before it. Repetitions may follow later (consumers drop them by
  message id), but the first appearances are in order.
\<close>

theorem kafka_order_per_lesson:
  assumes "(relay_step inst)\<^sup>*\<^sup>* new_relay r" and "kafka r = xs @ m # ys"
    and "x \<in> set (coll r)" and "LessonID x = LessonID m" and "key x < key m"
  shows "\<exists>k \<in> set xs. MessageID k = MessageID x \<and> LessonID k = LessonID x"
proof -
  have "earlier (idents (coll r)) (ident m) \<subseteq> set (map ident xs)"
    using reachable_ok [OF assms(1)] assms(2) unfolding relay_ok_def inv_def by (metis list.simps(9) map_append)
  moreover have "ident x \<in> earlier (idents (coll r)) (ident m)"
  proof -
    have "ident x \<in> idents (coll r)" using assms(3) unfolding idents_def by blast
    with assms(4,5) show ?thesis by (simp add: earlier_def ident_def)
  qed
  ultimately have "ident x \<in> ident ` set xs" by auto
  then show ?thesis by (auto simp: ident_def key_def)
qed

subsection \<open>Instances\<close>

definition small_outbox :: outbox_config where
  "small_outbox = \<lparr>Workers = 1, PollInterval = 5, OrderingRetryInterval = 5, LeaseDuration = 10, WriteTimeout = 5,
     RetryAttempts = 1, RetryBaseBackoff = 4, RetryMaxBackoff = 16\<rparr>"

theorem retry_delay_bounded_witness: "retryDelay small_outbox 2 = 8"
proof -
  have "NewOutboxRelay True True small_outbox = Inr small_outbox"
    by (simp add: NewOutboxRelay_def small_outbox_def)
  from retry_delay_bounded [OF this, of 2] show ?thesis by (simp add: small_outbox_def)
qed

text \<open>One undisturbed cycle of a worker: claim, gate, clear, write, mark.\<close>

lemma publish_cycle:
  assumes "phase_of r = (\<lambda>_. Idle)" and "gates r = {}"
    and "claimNextOutbox w now lease (\<lambda>_. True) (coll r) = (Inr m, c)"
    and "\<not> HasEarlierUnpublishedOutbox (LessonID m) (CreatedAt m) (MessageID m) c"
    and "MarkOutboxPublished (MessageID m) w now c = (None, c')"
  shows "(relay_step inst)\<^sup>*\<^sup>* r (r\<lparr>coll := c', kafka := kafka r @ [m]\<rparr>)"
proof -
  define r1 where "r1 = set_phase w (Claimed m) (r\<lparr>coll := c\<rparr>)"
  define r2 where "r2 = set_phase w (Gated m) (r1\<lparr>gates := insert (inst w, LessonID m) (gates r1)\<rparr>)"
  define r3 where "r3 = set_phase w (Cleared m) r2"
  define r4 where "r4 = set_phase w (Written m) (r3\<lparr>kafka := kafka r3 @ replicate 1 m\<rparr>)"
  define r5 where "r5 = set_phase w Idle (release_gate (inst w) (LessonID m) (r4\<lparr>coll := c'\<rparr>))"
  have "relay_step inst r r1"
    using relay_step.claim [of r w now lease "\<lambda>_. True" m c inst True] assms(1,3) by (simp add: r1_def)
  moreover have "relay_step inst r1 r2"
    unfolding r2_def by (rule relay_step.gate_free) (simp_all add: r1_def set_phase_def assms(2))
  moreover have "relay_step inst r2 r3"
    unfolding r3_def by (rule relay_step.clear)
      (simp_all add: r2_def r1_def set_phase_def order_blocked_def assms(4))
  moreover have "relay_step inst r3 r4"
    unfolding r4_def by (rule relay_step.write_ok [where n = 1 and outcome = "\<lambda>_. WriteOk" and ctx = "\<lambda>_. None"])
      (simp_all add: r3_def set_phase_def)
  moreover have "relay_step inst r4 r5"
    using relay_step.mark [of r4 w m now None c' inst True] assms(5)
    by (simp add: r5_def r4_def r3_def r2_def r1_def set_phase_def)
  moreover have "r5 = r\<lparr>coll := c', kafka := kafka r @ [m]\<rparr>"
    using assms(1,2)
    by (cases r) (simp add: r5_def r4_def r3_def r2_def r1_def set_phase_def release_gate_def fun_upd_idem)
  ultimately show ?thesis by (metis (no_types, lifting) converse_rtranclp_into_rtranclp rtranclp.rtrancl_refl)
qed

lemma accept_message:
  assumes "InsertMongo m (coll r) = (None, c)" and "Status (Outbox m) = OutboxPending"
    and "\<forall>x \<in> set (coll r). LessonID x = LessonID m \<longrightarrow> key x < key m"
  shows "(relay_step inst)\<^sup>*\<^sup>* r (r\<lparr>coll := c\<rparr>)"
  using relay_step.accept [OF assms] by (rule r_into_rtranclp)

abbreviation m_first :: message where "m_first \<equiv> sample_message ''a'' 1"
abbreviation m_second :: message where "m_second \<equiv> sample_message ''b'' 2"

definition after_first :: relay where
  "after_first = new_relay\<lparr>coll := [published 1 (lease_to ''w'' 11 m_first)], kafka := [lease_to ''w'' 11 m_first]\<rparr>"

definition after_second :: relay where
  "after_second = new_relay\<lparr>coll := [published 1 (lease_to ''w'' 11 m_first), published 2 (lease_to ''w'' 12 m_second)],
     kafka := [lease_to ''w'' 11 m_first, lease_to ''w'' 12 m_second]\<rparr>"

lemma reach_first: "(relay_step inst)\<^sup>*\<^sup>* new_relay after_first"
proof -
  let ?r = "new_relay\<lparr>coll := [m_first]\<rparr>"
  have 1: "(relay_step inst)\<^sup>*\<^sup>* new_relay ?r"
    by (rule accept_message [where m = m_first]) (simp_all add: InsertMongo_def new_relay_def sample_message_def)
  have 2: "(relay_step inst)\<^sup>*\<^sup>* ?r (?r\<lparr>coll := [published 1 (lease_to ''w'' 11 m_first)],
        kafka := kafka ?r @ [lease_to ''w'' 11 m_first]\<rparr>)"
    by (rule publish_cycle [where w = "''w''" and now = 1 and lease = 10 and c = "[lease_to ''w'' 11 m_first]"])
      (simp_all add: new_relay_def claimNextOutbox_def claimable_def sample_message_def lease_to_def
        HasEarlierUnpublishedOutbox_def MarkOutboxPublished_def finish_lease_def leased_by_def)
  have "?r\<lparr>coll := [published 1 (lease_to ''w'' 11 m_first)], kafka := kafka ?r @ [lease_to ''w'' 11 m_first]\<rparr> = after_first"
    by (simp add: after_first_def new_relay_def)
  with rtranclp_trans [OF 1 2] show ?thesis by simp
qed

lemma reach_second: "(relay_step inst)\<^sup>*\<^sup>* new_relay after_second"
proof -
  let ?p = "published 1 (lease_to ''w'' 11 m_first)"
  let ?r = "after_first\<lparr>coll := [?p, m_second]\<rparr>"
  have 1: "(relay_step inst)\<^sup>*\<^sup>* after_first ?r"
    by (rule accept_message [where m = m_second])
      (simp_all add: InsertMongo_def after_first_def new_relay_def sample_message_def index_conflict_def
        published_def lease_to_def key_def)
  have 2: "(relay_step inst)\<^sup>*\<^sup>* ?r (?r\<lparr>coll := [?p, published 2 (lease_to ''w'' 12 m_second)],
        kafka := kafka ?r @ [lease_to ''w'' 12 m_second]\<rparr>)"
    by (rule publish_cycle [where w = "''w''" and now = 2 and lease = 10 and c = "[?p, lease_to ''w'' 12 m_second]"])
      (simp_all add: after_first_def new_relay_def claimNextOutbox_def claimable_def sample_message_def lease_to_def published_def
        HasEarlierUnpublishedOutbox_def MarkOutboxPublished_def finish_lease_def leased_by_def)
  have "?r\<lparr>coll := [?p, published 2 (lease_to ''w'' 12 m_second)], kafka := kafka ?r @ [lease_to ''w'' 12 m_second]\<rparr> = after_second"
    by (simp add: after_first_def after_second_def new_relay_def)
  with rtranclp_trans [OF rtranclp_trans [OF reach_first 1] 2] show ?thesis by simp
qed

theorem published_is_in_kafka_witness:
  "\<exists>k \<in> set (kafka after_first). MessageID k = ''a'' \<and> LessonID k = 5"
  using published_is_in_kafka [OF reach_first [of "\<lambda>_. 0"], of "published 1 (lease_to ''w'' 11 m_first)"]
  by (simp add: after_first_def published_def lease_to_def sample_message_def)

theorem kafka_order_per_lesson_witness:
  "\<exists>k \<in> set [lease_to ''w'' 11 m_first]. MessageID k = ''a'' \<and> LessonID k = 5"
  using kafka_order_per_lesson [OF reach_second [of "\<lambda>_. 0"],
      of "[lease_to ''w'' 11 m_first]" "lease_to ''w'' 12 m_second" "[]" "published 1 (lease_to ''w'' 11 m_first)"]
  by (simp add: after_second_def published_def lease_to_def sample_message_def key_def)

end
