(* ===== verification/Resilience.thy ===== *)
theory Resilience
  imports Prelude
begin

text \<open>
  The circuit breaker (internal/resilience/breaker.go) and the retrying executor around calls to
  dependencies (internal/resilience/executor.go). Times and durations are nanoseconds. Every
  method of the breaker runs under its mutex, so it is one atomic step that gets the clock reading
  it takes. The failure threshold is the fraction thr_num / thr_den; the floating-point comparison
  of the source agrees with the comparison of fractions for the counts a window can hold.
\<close>

subsection \<open>The circuit breaker\<close>

datatype breaker_state = StateClosed | StateOpen | StateHalfOpen

record breaker_config =
  Dependency :: string
  RollingWindow :: int
  MinimumRequests :: int
  thr_num :: int
  thr_den :: int
  OpenDuration :: int
  HalfOpenProbes :: int

record outcome =
  at :: int
  success :: bool

record breaker =
  cfg :: breaker_config
  state :: breaker_state
  openedAt :: int
  outcomes :: "outcome list"
  halfOpenInFlight :: int
  halfOpenSuccess :: int
  stateGauge :: breaker_state     \<comment> \<open>the metric breakerState of the dependency\<close>
  openTotal :: nat                \<comment> \<open>the metric breakerOpenTotal of the dependency\<close>

definition ErrCircuitOpen :: goerr where
  "ErrCircuitOpen = Sentinel ''circuit breaker is open''"

definition NewCircuitBreaker :: "breaker_config \<Rightarrow> goerr + breaker" where
  "NewCircuitBreaker c =
     (if Dependency c = '''' then Inl (ErrNew ''breaker dependency is required'')
      else if RollingWindow c \<le> 0 \<or> MinimumRequests c \<le> 0 \<or> OpenDuration c \<le> 0 \<or> HalfOpenProbes c \<le> 0
      then Inl (ErrNew ''breaker durations, minimum requests and half-open probes must be positive'')
      else if thr_num c \<le> 0 \<or> thr_num c > thr_den c
      then Inl (ErrNew ''breaker failure threshold must be in (0,1]'')
      else Inr \<lparr>cfg = c, state = StateClosed, openedAt = 0, outcomes = [], halfOpenInFlight = 0,
        halfOpenSuccess = 0, stateGauge = StateClosed, openTotal = 0\<rparr>)"

text \<open>Acquire: True stands for a permit, False for ErrCircuitOpen.\<close>

definition Acquire :: "int \<Rightarrow> breaker \<Rightarrow> bool \<times> breaker" where
  "Acquire now b =
     (if state b = StateOpen \<and> now - openedAt b < OpenDuration (cfg b) then (False, b)
      else
        let b1 = (if state b = StateOpen
                  then b\<lparr>state := StateHalfOpen, halfOpenInFlight := 0, halfOpenSuccess := 0,
                         stateGauge := StateHalfOpen\<rparr>
                  else b)
        in if state b1 = StateHalfOpen
           then if halfOpenInFlight b1 \<ge> HalfOpenProbes (cfg b1) then (False, b1)
                else (True, b1\<lparr>halfOpenInFlight := halfOpenInFlight b1 + 1\<rparr>)
           else (True, b1))"

definition State :: "int \<Rightarrow> breaker \<Rightarrow> breaker_state" where
  "State now b =
     (if state b = StateOpen \<and> now - openedAt b \<ge> OpenDuration (cfg b) then StateHalfOpen else state b)"

definition open_breaker :: "int \<Rightarrow> breaker \<Rightarrow> breaker" where
  "open_breaker now b =
     b\<lparr>state := StateOpen, openedAt := now, halfOpenInFlight := 0, halfOpenSuccess := 0,
       openTotal := openTotal b + 1, stateGauge := StateOpen\<rparr>"

definition failures :: "outcome list \<Rightarrow> int" where
  "failures os = int (length (filter (\<lambda>x. \<not> success x) os))"

definition record_outcome :: "int \<Rightarrow> bool \<Rightarrow> breaker \<Rightarrow> breaker" where
  "record_outcome now ok b =
     (if state b = StateHalfOpen then
        let b1 = (if halfOpenInFlight b > 0 then b\<lparr>halfOpenInFlight := halfOpenInFlight b - 1\<rparr> else b)
        in if \<not> ok then open_breaker now b1
           else
             let b2 = b1\<lparr>halfOpenSuccess := halfOpenSuccess b1 + 1\<rparr>
             in if halfOpenSuccess b2 \<ge> HalfOpenProbes (cfg b2)
                then b2\<lparr>state := StateClosed, outcomes := [], halfOpenSuccess := 0, stateGauge := StateClosed\<rparr>
                else b2
      else if state b \<noteq> StateClosed then b
      else
        let cutoff = now - RollingWindow (cfg b);
            os = dropWhile (\<lambda>x. at x < cutoff) (outcomes b @ [\<lparr>at = now, success = ok\<rparr>]);
            b1 = b\<lparr>outcomes := os\<rparr>
        in if int (length os) < MinimumRequests (cfg b) then b1
           else if failures os * thr_den (cfg b) \<ge> thr_num (cfg b) * int (length os)
           then open_breaker now b1 else b1)"

text \<open>
  The breaker with the permits it has handed out: a permit is its number, and Done records the
  outcome of a permit once.
\<close>

record guarded =
  brk :: breaker
  issued :: nat
  finished :: "nat set"

datatype breaker_event =
    AcquireAt int
  | DoneAt nat bool int    \<comment> \<open>the permit, its outcome, the time\<close>

definition Done :: "nat \<Rightarrow> bool \<Rightarrow> int \<Rightarrow> guarded \<Rightarrow> guarded" where
  "Done p ok now g =
     (if p \<in> finished g \<or> p \<ge> issued g then g
      else g\<lparr>brk := record_outcome now ok (brk g), finished := insert p (finished g)\<rparr>)"

fun breaker_step :: "breaker_event \<Rightarrow> guarded \<Rightarrow> guarded" where
  "breaker_step (AcquireAt now) g =
     (case Acquire now (brk g) of
        (granted, b) \<Rightarrow> g\<lparr>brk := b, issued := (if granted then issued g + 1 else issued g)\<rparr>)"
| "breaker_step (DoneAt p ok now) g = Done p ok now g"

definition breaker_run :: "breaker_event list \<Rightarrow> breaker \<Rightarrow> guarded" where
  "breaker_run es b = fold breaker_step es \<lparr>brk = b, issued = 0, finished = {}\<rparr>"

subsection \<open>The invariant of the breaker\<close>

definition breaker_ok :: "breaker \<Rightarrow> bool" where
  "breaker_ok b \<longleftrightarrow>
     0 < RollingWindow (cfg b) \<and> 0 < MinimumRequests (cfg b) \<and> 0 < OpenDuration (cfg b) \<and>
     0 < HalfOpenProbes (cfg b) \<and> 0 < thr_num (cfg b) \<and> thr_num (cfg b) \<le> thr_den (cfg b) \<and>
     0 \<le> halfOpenInFlight b \<and> halfOpenInFlight b \<le> HalfOpenProbes (cfg b) \<and>
     0 \<le> halfOpenSuccess b \<and> halfOpenSuccess b < HalfOpenProbes (cfg b) \<and>
     (state b = StateOpen \<longrightarrow> halfOpenInFlight b = 0 \<and> halfOpenSuccess b = 0) \<and>
     (state b = StateClosed \<longrightarrow> halfOpenSuccess b = 0) \<and>
     stateGauge b = state b"

lemma NewCircuitBreaker_ok: "NewCircuitBreaker c = Inr b \<Longrightarrow> breaker_ok b \<and> cfg b = c \<and> state b = StateClosed"
  by (auto simp: NewCircuitBreaker_def breaker_ok_def split: if_splits)

lemma Acquire_ok: "breaker_ok b \<Longrightarrow> breaker_ok (snd (Acquire now b)) \<and> cfg (snd (Acquire now b)) = cfg b"
  by (auto simp: Acquire_def breaker_ok_def Let_def)

lemma open_breaker_ok: "breaker_ok b \<Longrightarrow> breaker_ok (open_breaker now b) \<and> cfg (open_breaker now b) = cfg b"
  by (auto simp: open_breaker_def breaker_ok_def)

lemma record_outcome_ok:
  "breaker_ok b \<Longrightarrow> breaker_ok (record_outcome now ok b) \<and> cfg (record_outcome now ok b) = cfg b"
  by (auto simp: record_outcome_def breaker_ok_def Let_def open_breaker_def)

lemma breaker_step_ok:
  "breaker_ok (brk g) \<Longrightarrow> breaker_ok (brk (breaker_step e g)) \<and> cfg (brk (breaker_step e g)) = cfg (brk g)"
  using Acquire_ok record_outcome_ok by (cases e) (auto simp: Done_def split: prod.splits, (metis snd_conv)+)

lemma fold_breaker_ok:
  "breaker_ok (brk g) \<Longrightarrow> breaker_ok (brk (fold breaker_step es g)) \<and> cfg (brk (fold breaker_step es g)) = cfg (brk g)"
  by (induction es arbitrary: g) (use breaker_step_ok in auto)

text \<open>
  (invariant). Whatever the callers do with permits, in whatever order and at whatever clock
  readings: the breaker counts at most HalfOpenProbes probes in flight and fewer than that many
  successes, both are zero while it is open, and the exported state gauge is its state.
\<close>

theorem breaker_invariant:
  assumes "NewCircuitBreaker c = Inr b"
  shows "breaker_ok (brk (breaker_run es b)) \<and> cfg (brk (breaker_run es b)) = c"
  using NewCircuitBreaker_ok [OF assms] fold_breaker_ok [of "\<lparr>brk = b, issued = 0, finished = {}\<rparr>" es]
  by (simp add: breaker_run_def)

subsection \<open>Tripping\<close>

text \<open>The outcomes are in the order of time, as long as the clock does not run backwards.\<close>

definition times_sorted :: "int \<Rightarrow> breaker \<Rightarrow> bool" where
  "times_sorted now b \<longleftrightarrow> sorted (map at (outcomes b)) \<and> (\<forall>x \<in> set (outcomes b). at x \<le> now)"

lemma dropWhile_sorted: "sorted (map at os) \<Longrightarrow> dropWhile (\<lambda>x. at x < c) os = filter (\<lambda>x. c \<le> at x) os"
proof (induction os)
  case (Cons x os)
  then show ?case
  proof (cases "at x < c")
    case False
    with Cons.prems have "filter (\<lambda>x. c \<le> at x) os = os" by (auto simp: filter_id_conv)
    with False show ?thesis by simp
  qed auto
qed simp

text \<open>
  (functional). A closed breaker trips exactly on the rule of its configuration: with a clock that
  does not run backwards, the outcomes it keeps are those of the rolling window, the new one
  included, and it opens at once when the window holds at least MinimumRequests outcomes and the
  share of failures reaches the threshold; otherwise it stays closed.
\<close>

theorem breaker_trips_on_window_rate:
  fixes ok :: bool
  assumes "state b = StateClosed" and "times_sorted now b"
  defines "w \<equiv> filter (\<lambda>x. now - RollingWindow (cfg b) \<le> at x) (outcomes b @ [\<lparr>at = now, success = ok\<rparr>])"
  shows "outcomes (record_outcome now ok b) = w \<and>
    (state (record_outcome now ok b) = StateOpen \<longleftrightarrow>
       MinimumRequests (cfg b) \<le> int (length w) \<and>
       thr_num (cfg b) * int (length w) \<le> failures w * thr_den (cfg b)) \<and>
    (state (record_outcome now ok b) \<noteq> StateOpen \<longrightarrow> state (record_outcome now ok b) = StateClosed)"
proof -
  have "sorted (map at (outcomes b @ [\<lparr>at = now, success = ok\<rparr>]))"
    using assms(2) by (auto simp: times_sorted_def sorted_append)
  then have "dropWhile (\<lambda>x. at x < now - RollingWindow (cfg b)) (outcomes b @ [\<lparr>at = now, success = ok\<rparr>]) = w"
    unfolding w_def by (rule dropWhile_sorted)
  with assms(1) show ?thesis
    by (auto simp: record_outcome_def Let_def open_breaker_def)
qed

subsection \<open>Open and half-open\<close>

fun event_time :: "breaker_event \<Rightarrow> int" where
  "event_time (AcquireAt now) = now"
| "event_time (DoneAt p ok now) = now"

text \<open>
  (safety). An open breaker lets nothing through: until OpenDuration after it opened, whatever
  happens to the breaker, no permit is issued and nothing of its state changes (late results of
  earlier calls are ignored).
\<close>

theorem open_breaker_rejects:
  assumes "state (brk g) = StateOpen"
    and "\<forall>e \<in> set es. event_time e < openedAt (brk g) + OpenDuration (cfg (brk g))"
  shows "brk (fold breaker_step es g) = brk g \<and> issued (fold breaker_step es g) = issued g"
  using assms
proof (induction es arbitrary: g)
  case (Cons e es)
  have "brk (breaker_step e g) = brk g \<and> issued (breaker_step e g) = issued g"
    using Cons.prems by (cases e) (auto simp: Acquire_def Done_def record_outcome_def)
  with Cons show ?case by simp
qed simp

lemma acquire_probes:
  assumes "state (brk g) = StateHalfOpen" and "int n + halfOpenInFlight (brk g) \<le> HalfOpenProbes (cfg (brk g))"
  shows "fold breaker_step (replicate n (AcquireAt now)) g =
    g\<lparr>brk := (brk g)\<lparr>halfOpenInFlight := halfOpenInFlight (brk g) + int n\<rparr>, issued := issued g + n\<rparr>"
  using assms
proof (induction n arbitrary: g)
  case (Suc n)
  have "breaker_step (AcquireAt now) g =
      g\<lparr>brk := (brk g)\<lparr>halfOpenInFlight := halfOpenInFlight (brk g) + 1\<rparr>, issued := issued g + 1\<rparr>"
    using Suc.prems by (simp add: Acquire_def Let_def)
  with Suc show ?case
    by (simp only: replicate.simps fold_simps) (simp add: ac_simps)
qed simp

lemma finish_probes:
  assumes "state (brk g) = StateHalfOpen" and "halfOpenSuccess (brk g) + int (length ps) < HalfOpenProbes (cfg (brk g))"
    and "0 \<le> halfOpenSuccess (brk g)"
    and "distinct ps" and "set ps \<inter> finished g = {}" and "\<forall>p \<in> set ps. p < issued g"
  shows "state (brk (fold (\<lambda>p. breaker_step (DoneAt p True now)) ps g)) = StateHalfOpen \<and>
    halfOpenSuccess (brk (fold (\<lambda>p. breaker_step (DoneAt p True now)) ps g)) = halfOpenSuccess (brk g) + int (length ps) \<and>
    cfg (brk (fold (\<lambda>p. breaker_step (DoneAt p True now)) ps g)) = cfg (brk g) \<and>
    finished (fold (\<lambda>p. breaker_step (DoneAt p True now)) ps g) = finished g \<union> set ps \<and>
    issued (fold (\<lambda>p. breaker_step (DoneAt p True now)) ps g) = issued g"
  using assms
proof (induction ps arbitrary: g)
  case (Cons p ps)
  let ?g = "breaker_step (DoneAt p True now) g"
  have s: "state (brk ?g) = StateHalfOpen" "halfOpenSuccess (brk ?g) = halfOpenSuccess (brk g) + 1"
    "cfg (brk ?g) = cfg (brk g)" "finished ?g = insert p (finished g)" "issued ?g = issued g"
    using Cons.prems by (auto simp: Done_def record_outcome_def Let_def)
  have "set ps \<inter> finished ?g = {}" using Cons.prems s by auto
  with Cons.IH [of ?g] Cons.prems s show ?case by auto
qed simp

text \<open>
  (liveness). A recovered dependency closes the breaker: when the open time is over, the next
  HalfOpenProbes calls all get a permit, and when they all succeed the breaker is closed with an
  empty window.
\<close>

theorem successful_probes_close_breaker:
  fixes later :: int
  assumes "breaker_ok b" and "state b = StateOpen" and "openedAt b + OpenDuration (cfg b) \<le> now"
  defines "n \<equiv> nat (HalfOpenProbes (cfg b))"
  defines "g \<equiv> breaker_run (replicate n (AcquireAt now) @ map (\<lambda>p. DoneAt p True later) [0..<n]) b"
  shows "issued g = n \<and> finished g = {..<n} \<and> state (brk g) = StateClosed \<and> outcomes (brk g) = []"
proof -
  let ?g0 = "\<lparr>brk = b, issued = 0, finished = {}\<rparr>"
  obtain m where m: "n = Suc m" using assms(1) by (cases n) (auto simp: n_def breaker_ok_def)
  have probes: "HalfOpenProbes (cfg b) = int n" using assms(1) by (simp add: n_def breaker_ok_def)
  let ?b1 = "b\<lparr>state := StateHalfOpen, halfOpenInFlight := 1, halfOpenSuccess := 0, stateGauge := StateHalfOpen\<rparr>"
  let ?g1 = "\<lparr>brk = ?b1, issued = 1, finished = {}\<rparr>"
  have first: "breaker_step (AcquireAt now) ?g0 = ?g1"
    using assms(2,3) probes m by (auto simp: Acquire_def)
  let ?g2 = "\<lparr>brk = ?b1\<lparr>halfOpenInFlight := int n\<rparr>, issued = n, finished = {}\<rparr>"
  have acq: "fold breaker_step (replicate n (AcquireAt now)) ?g0 = ?g2"
    unfolding m replicate.simps fold_simps first
    by (subst acquire_probes) (simp_all add: probes m)
  have eq: "fold breaker_step (map (\<lambda>p. DoneAt p True later) ps) h =
      fold (\<lambda>p. breaker_step (DoneAt p True later)) ps h" for ps h
    by (induction ps arbitrary: h) auto
  define h where "h = fold (\<lambda>p. breaker_step (DoneAt p True later)) [0..<m] ?g2"
  have h: "state (brk h) = StateHalfOpen" "halfOpenSuccess (brk h) = int m"
    "cfg (brk h) = cfg b" "finished h = {..<m}" "issued h = n"
    using finish_probes [of ?g2 "[0..<m]" later] probes m by (auto simp: h_def atLeast0LessThan)
  have "g = breaker_step (DoneAt m True later) h"
    unfolding g_def breaker_run_def fold_append comp_def acq eq by (simp add: m h_def)
  moreover have "breaker_step (DoneAt m True later) h =
      h\<lparr>brk := record_outcome later True (brk h), finished := insert m (finished h)\<rparr>"
    using h(4,5) m by (simp add: Done_def)
  moreover have "state (record_outcome later True (brk h)) = StateClosed"
    "outcomes (record_outcome later True (brk h)) = []"
    using h(1-3) probes m by (simp_all add: record_outcome_def Let_def)
  ultimately show ?thesis using h(4,5) m by (simp add: lessThan_Suc)
qed

text \<open>
  (safety). Half-open counts every result, not only those of its probes: with one probe
  allowed, a call that got its permit before the breaker opened and succeeds only after the open
  time closes the breaker, while the probe it let through is still running.
\<close>

theorem stale_permit_closes_breaker:
  assumes "breaker_ok b" and "state b = StateClosed" and "outcomes b = []"
    and "MinimumRequests (cfg b) = 1" and "HalfOpenProbes (cfg b) = 1" and "OpenDuration (cfg b) \<le> d"
  defines "g \<equiv> breaker_run [AcquireAt 0, AcquireAt 0, DoneAt 1 False 0, AcquireAt d, DoneAt 0 True d] b"
  shows "state (brk g) = StateClosed \<and> issued g = 3 \<and> 2 \<notin> finished g"
proof -
  have c: "Acquire 0 b = (True, b)" using assms(2) by (simp add: Acquire_def Let_def)
  let ?b1 = "open_breaker 0 (b\<lparr>outcomes := [\<lparr>at = 0, success = False\<rparr>]\<rparr>)"
  have pos: "0 < RollingWindow (cfg b)" "thr_num (cfg b) \<le> thr_den (cfg b)"
    using assms(1) by (auto simp: breaker_ok_def)
  have t: "record_outcome 0 False b = ?b1"
    using assms(2-4) pos by (simp add: record_outcome_def Let_def failures_def)
  let ?b2 = "?b1\<lparr>state := StateHalfOpen, stateGauge := StateHalfOpen, halfOpenInFlight := 1\<rparr>"
  have h: "Acquire d ?b1 = (True, ?b2)"
    using assms(5,6) by (simp add: Acquire_def Let_def open_breaker_def)
  have e: "state (record_outcome d True ?b2) = StateClosed"
    using assms(5) by (simp add: record_outcome_def Let_def open_breaker_def)
  have "g = \<lparr>brk = record_outcome d True ?b2, issued = 3, finished = {0, 1}\<rparr>"
    unfolding g_def breaker_run_def by (simp add: c t h Done_def)
  with e show ?thesis by simp
qed

subsection \<open>The executor\<close>

record policy =
  Attempts :: int
  Backoff :: int
  MaxBackoff :: int
  RetryIf :: "(goerr \<Rightarrow> bool) option"
  UseBreaker :: bool

text \<open>
  What surrounds a call of Do: the error of the context when an attempt begins, the operation (its
  result, the error of the attempt's context after it, and its effect on the world), and whether
  the context is done during the wait after an attempt.
\<close>

record ('w, 'a) call_env =
  ctx_err :: "nat \<Rightarrow> goerr option"
  operation :: "nat \<Rightarrow> 'w \<Rightarrow> (goerr + 'a) \<times> goerr option \<times> 'w"
  wait_err :: "nat \<Rightarrow> goerr option"

record 'w exec =
  world :: 'w
  breaker_of :: breaker
  clock :: "nat \<Rightarrow> int"      \<comment> \<open>the clock readings still to come\<close>
  calls :: nat                \<comment> \<open>how often the operation was called\<close>
  requests :: nat             \<comment> \<open>the counters of metrics.go for the dependency and operation\<close>
  errors :: nat
  timeouts :: nat
  retries :: nat

text \<open>
  The delay before the next attempt is shifted in int64, and the argument of rand.Int63n, which
  panics unless it is positive.
\<close>

definition backoff_delay :: "policy \<Rightarrow> nat \<Rightarrow> int" where
  "backoff_delay p failedAttempt =
     (let delay = wrap64 (Backoff p * 2 ^ (failedAttempt - 1))
      in if MaxBackoff p > 0 \<and> delay > MaxBackoff p then MaxBackoff p else delay)"

definition jitter_bound :: "policy \<Rightarrow> nat \<Rightarrow> int" where
  "jitter_bound p failedAttempt = wrap64 (go_div (backoff_delay p failedAttempt) 2 + 1)"

datatype wait_result = WaitPanic | Waited "goerr option"

definition waitBackoff :: "policy \<Rightarrow> nat \<Rightarrow> goerr option \<Rightarrow> wait_result" where
  "waitBackoff p failedAttempt done =
     (if Backoff p \<le> 0 then Waited None
      else if jitter_bound p failedAttempt \<le> 0 then WaitPanic
      else Waited done)"

datatype 'a do_result = Panicked | Ret "'a option" "goerr option"

definition finish :: "'a option \<Rightarrow> goerr \<Rightarrow> 'w exec \<Rightarrow> 'a do_result option \<times> 'w exec" where
  "finish v e s = (Some (Ret v (Some e)), s\<lparr>errors := errors s + 1\<rparr>)"

text \<open>One reading of the clock by the breaker.\<close>

definition acquire_permit :: "'w exec \<Rightarrow> bool \<times> 'w exec" where
  "acquire_permit s =
     (case Acquire (clock s 0) (breaker_of s) of
        (granted, b) \<Rightarrow> (granted, s\<lparr>breaker_of := b, clock := \<lambda>i. clock s (Suc i)\<rparr>))"

definition permit_done :: "policy \<Rightarrow> bool \<Rightarrow> 'w exec \<Rightarrow> 'w exec" where
  "permit_done p ok s =
     (if UseBreaker p
      then s\<lparr>breaker_of := record_outcome (clock s 0) ok (breaker_of s), clock := \<lambda>i. clock s (Suc i)\<rparr>
      else s)"

text \<open>
  One round of the loop, attempt number k; final tells that it is the last one. The result is None
  when the loop goes on.
\<close>

definition do_attempt ::
    "('w, 'a) call_env \<Rightarrow> policy \<Rightarrow> bool \<Rightarrow> nat \<Rightarrow> 'w exec \<Rightarrow> 'a do_result option \<times> 'w exec" where
  "do_attempt env p final k s =
     (case ctx_err env k of
        Some e \<Rightarrow> finish None e s
      | None \<Rightarrow>
          (case (if UseBreaker p then acquire_permit s else (True, s)) of
             (granted, s1) \<Rightarrow>
               if \<not> granted then finish None ErrCircuitOpen s1
               else (case operation env k (world s1) of
                  (Inr value, _, w) \<Rightarrow>
                    (Some (Ret (Some value) None), permit_done p True (s1\<lparr>world := w, calls := calls s1 + 1\<rparr>))
                | (Inl err, attemptErr, w) \<Rightarrow>
                    let s2 = permit_done p False (s1\<lparr>world := w, calls := calls s1 + 1\<rparr>);
                        s3 = (if attemptErr = Some DeadlineExceeded \<or> err_is err DeadlineExceeded
                              then s2\<lparr>timeouts := timeouts s2 + 1\<rparr> else s2)
                    in if final \<or> RetryIf p = None \<or> \<not> the (RetryIf p) err then finish None err s3
                       else let s4 = s3\<lparr>retries := retries s3 + 1\<rparr>
                            in case waitBackoff p k (wait_err env k) of
                                 WaitPanic \<Rightarrow> (Some Panicked, s4)
                               | Waited (Some e) \<Rightarrow> finish None e s4
                               | Waited None \<Rightarrow> (None, s4))))"

fun do_loop ::
    "('w, 'a) call_env \<Rightarrow> policy \<Rightarrow> nat \<Rightarrow> nat \<Rightarrow> 'w exec \<Rightarrow> 'a do_result \<times> 'w exec" where
  "do_loop env p 0 k s = (Ret None None, s)"
| "do_loop env p (Suc n) k s =
     (case do_attempt env p (n = 0) k s of
        (Some r, s') \<Rightarrow> (r, s')
      | (None, s') \<Rightarrow> do_loop env p n (k + 1) s')"

definition Do :: "('w, 'a) call_env \<Rightarrow> policy \<Rightarrow> 'w exec \<Rightarrow> 'a do_result \<times> 'w exec" where
  "Do env p s =
     (let p = (if Attempts p \<le> 0 then p\<lparr>Attempts := 1\<rparr> else p)
      in do_loop env p (nat (Attempts p)) 1 (s\<lparr>requests := requests s + 1\<rparr>))"

subsection \<open>What the executor guarantees\<close>

text \<open>A completed call gives back what it acquired.\<close>

lemma record_gives_back:
  assumes "0 \<le> halfOpenInFlight b" and "Acquire t b = (granted, b1)"
  shows "0 \<le> halfOpenInFlight b1"
    and "granted \<Longrightarrow> halfOpenInFlight (record_outcome t' ok b1) \<le> halfOpenInFlight b \<and>
      0 \<le> halfOpenInFlight (record_outcome t' ok b1)"
    and "\<not> granted \<Longrightarrow> halfOpenInFlight b1 \<le> halfOpenInFlight b"
  using assms by (auto simp: Acquire_def record_outcome_def open_breaker_def Let_def split: if_splits)

lemmas exec_defs = finish_def acquire_permit_def permit_done_def

definition round_bound :: "'a do_result option \<Rightarrow> 'w exec \<Rightarrow> 'w exec \<Rightarrow> bool" where
  "round_bound r s s' \<longleftrightarrow>
     calls s' \<le> calls s + 1 \<and> requests s' = requests s \<and> retries s' \<le> retries s + 1 \<and>
     calls s' + retries s \<le> calls s + retries s' + (if r = None then 0 else 1) \<and>
     errors s' = errors s + (case r of Some (Ret v (Some e)) \<Rightarrow> 1 | _ \<Rightarrow> 0) \<and>
     0 \<le> halfOpenInFlight (breaker_of s') \<and> halfOpenInFlight (breaker_of s') \<le> halfOpenInFlight (breaker_of s)"

lemma do_attempt_bound:
  assumes "do_attempt env p final k s = (r, s')" and "0 \<le> halfOpenInFlight (breaker_of s)"
  shows "round_bound r s s' \<and> (final \<longrightarrow> r \<noteq> None)"
proof -
  obtain granted b where a: "Acquire (clock s 0) (breaker_of s) = (granted, b)" by (metis surj_pair)
  note g = record_gives_back [OF assms(2) a]
  consider "ctx_err env k \<noteq> None" | "ctx_err env k = None" "UseBreaker p" "\<not> granted"
    | "ctx_err env k = None" "UseBreaker p" "granted" | "ctx_err env k = None" "\<not> UseBreaker p" by blast
  then show ?thesis
  proof cases
    case 1
    with assms show ?thesis by (auto simp: do_attempt_def round_bound_def finish_def)
  next
    case 2
    with assms a g show ?thesis by (auto simp: do_attempt_def round_bound_def exec_defs)
  next
    case 3
    with assms a g show ?thesis
      by (auto simp: do_attempt_def round_bound_def exec_defs Let_def
          split: prod.splits sum.splits if_splits wait_result.splits option.splits)
  next
    case 4
    with assms show ?thesis
      by (auto simp: do_attempt_def round_bound_def exec_defs Let_def
          split: prod.splits sum.splits if_splits wait_result.splits option.splits)
  qed
qed

definition loop_bound :: "nat \<Rightarrow> 'a do_result \<Rightarrow> 'w exec \<Rightarrow> 'w exec \<Rightarrow> bool" where
  "loop_bound n r s s' \<longleftrightarrow>
     calls s' \<le> calls s + n \<and> requests s' = requests s \<and>
     calls s' + retries s \<le> calls s + retries s' + 1 \<and>
     errors s' = errors s + (case r of Ret v (Some e) \<Rightarrow> 1 | _ \<Rightarrow> 0) \<and>
     0 \<le> halfOpenInFlight (breaker_of s') \<and> halfOpenInFlight (breaker_of s') \<le> halfOpenInFlight (breaker_of s)"

lemma do_loop_bound:
  assumes "do_loop env p (Suc n) k s = (r, s')" and "0 \<le> halfOpenInFlight (breaker_of s)"
  shows "loop_bound (Suc n) r s s'"
  using assms
proof (induction n arbitrary: k s)
  case (0 k s)
  obtain r1 s1 where a: "do_attempt env p True k s = (r1, s1)" by (metis surj_pair)
  from do_attempt_bound [OF a 0(2)] 0(1) a show ?case
    by (cases r1) (auto simp: round_bound_def loop_bound_def)
next
  case (Suc n k s)
  obtain r1 s1 where a: "do_attempt env p False k s = (r1, s1)" by (metis surj_pair)
  note b = do_attempt_bound [OF a Suc.prems(2)]
  show ?case
  proof (cases r1)
    case None
    with a Suc.prems(1) have l: "do_loop env p (Suc n) (k + 1) s1 = (r, s')"
      by (simp only: do_loop.simps(2) [of env p "Suc n"]) simp
    have "0 \<le> halfOpenInFlight (breaker_of s1)" using b by (simp add: round_bound_def)
    from Suc.IH [OF l this] b None show ?thesis
      by (simp add: loop_bound_def round_bound_def)
  next
    case (Some r2)
    with a Suc.prems(1) have "r = r2" "s' = s1"
      by (simp_all only: do_loop.simps(2) [of env p "Suc n"]) simp_all
    with b Some show ?thesis by (simp add: loop_bound_def round_bound_def)
  qed
qed


subsection \<open>Back-off\<close>

text \<open>
  (bounds). While the shifted delay fits into an int64, the wait between two attempts does not
  panic: the delay doubles from Backoff up to MaxBackoff, and the jitter adds less than half of it
  and one nanosecond.
\<close>

theorem backoff_within_bounds:
  assumes "0 < Backoff p" and "1 \<le> k" and "Backoff p * 2 ^ (k - 1) < 2 ^ 63" and "0 < MaxBackoff p"
  shows "backoff_delay p k = min (MaxBackoff p) (Backoff p * 2 ^ (k - 1)) \<and>
    0 < jitter_bound p k \<and> jitter_bound p k \<le> backoff_delay p k div 2 + 1 \<and>
    waitBackoff p k e = Waited e"
proof -
  have pos: "0 < Backoff p * 2 ^ (k - 1)" using assms(1) by simp
  then have w: "wrap64 (Backoff p * 2 ^ (k - 1)) = Backoff p * 2 ^ (k - 1)"
    using assms(3) by (intro wrap64_id) (simp add: in_int64_def)
  then have d: "backoff_delay p k = min (MaxBackoff p) (Backoff p * 2 ^ (k - 1))"
    using assms(4) by (auto simp: backoff_delay_def Let_def)
  then have b: "0 < backoff_delay p k" "backoff_delay p k < 2 ^ 63" using assms pos by auto
  have "in_int64 (backoff_delay p k div 2 + 1)"
    using b by (simp add: in_int64_def)
  then have j: "jitter_bound p k = backoff_delay p k div 2 + 1"
    using b by (simp add: jitter_bound_def go_div_pos)
  have "0 \<le> backoff_delay p k div 2" using b by simp
  then have jp: "0 < jitter_bound p k" using j by linarith
  then have "waitBackoff p k e = Waited e" using assms(1) by (auto simp: waitBackoff_def)
  moreover have "jitter_bound p k \<le> backoff_delay p k div 2 + 1" using j by simp
  ultimately show ?thesis using d jp by blast
qed

text \<open>
  (bounds). Beyond that the shift overflows before MaxBackoff is applied: a policy with a back-off
  of 100 ms, a maximum of one second and 38 failed attempts panics inside rand.Int63n.
\<close>

theorem backoff_overflow_panics:
  "waitBackoff \<lparr>Attempts = 40, Backoff = 100000000, MaxBackoff = 1000000000, RetryIf = Some (\<lambda>_. True),
     UseBreaker = False\<rparr> 38 None = WaitPanic"
  by (simp add: waitBackoff_def jitter_bound_def backoff_delay_def wrap64_def go_div_def Let_def)

subsection \<open>Instances\<close>

definition small_breaker :: breaker_config where
  "small_breaker = \<lparr>Dependency = ''llm'', RollingWindow = 100, MinimumRequests = 1, thr_num = 1, thr_den = 2,
     OpenDuration = 10, HalfOpenProbes = 1\<rparr>"

definition closed_breaker :: breaker where
  "closed_breaker = \<lparr>cfg = small_breaker, state = StateClosed, openedAt = 0, outcomes = [], halfOpenInFlight = 0,
     halfOpenSuccess = 0, stateGauge = StateClosed, openTotal = 0\<rparr>"

lemma new_small_breaker: "NewCircuitBreaker small_breaker = Inr closed_breaker"
  by (simp add: NewCircuitBreaker_def small_breaker_def closed_breaker_def)

lemma closed_breaker_ok: "breaker_ok closed_breaker"
  using NewCircuitBreaker_ok [OF new_small_breaker] by blast

theorem breaker_invariant_witness:
  "breaker_ok (brk (breaker_run [AcquireAt 1, DoneAt 0 False 2] closed_breaker))"
  using breaker_invariant [OF new_small_breaker] by blast

theorem breaker_trips_on_window_rate_witness:
  "state (record_outcome 5 False closed_breaker) = StateOpen"
  using breaker_trips_on_window_rate [of closed_breaker 5 False]
  by (simp add: closed_breaker_def small_breaker_def times_sorted_def failures_def)

theorem open_breaker_rejects_witness:
  "issued (fold breaker_step [AcquireAt 4] \<lparr>brk = closed_breaker\<lparr>state := StateOpen, openedAt := 1\<rparr>, issued = 0, finished = {}\<rparr>) = 0"
  using open_breaker_rejects [of "\<lparr>brk = closed_breaker\<lparr>state := StateOpen, openedAt := 1\<rparr>, issued = 0, finished = {}\<rparr>" "[AcquireAt 4]"]
  by (simp add: closed_breaker_def small_breaker_def)

definition tripped_breaker :: breaker where
  "tripped_breaker = brk (breaker_run [AcquireAt 1, DoneAt 0 False 2] closed_breaker)"

lemma tripped_breaker_eq:
  "tripped_breaker = closed_breaker\<lparr>state := StateOpen, openedAt := 2, outcomes := outcomes tripped_breaker,
     stateGauge := StateOpen, openTotal := 1\<rparr>"
  by (simp add: tripped_breaker_def breaker_run_def closed_breaker_def small_breaker_def Acquire_def Done_def
      record_outcome_def open_breaker_def failures_def Let_def)

theorem successful_probes_close_breaker_witness:
  "state (brk (breaker_run (replicate 1 (AcquireAt 20) @ map (\<lambda>p. DoneAt p True 21) [0..<1]) tripped_breaker)) = StateClosed"
proof -
  have "breaker_ok tripped_breaker"
    unfolding tripped_breaker_def breaker_run_def by (rule conjunct1 [OF fold_breaker_ok]) (simp add: closed_breaker_ok)
  moreover have "cfg tripped_breaker = small_breaker" "state tripped_breaker = StateOpen" "openedAt tripped_breaker = 2"
    by (subst tripped_breaker_eq; simp add: closed_breaker_def)+
  ultimately show ?thesis
    using successful_probes_close_breaker [of tripped_breaker 20 21] by (simp add: small_breaker_def)
qed

theorem stale_permit_closes_breaker_witness:
  "state (brk (breaker_run [AcquireAt 0, AcquireAt 0, DoneAt 1 False 0, AcquireAt 15, DoneAt 0 True 15] closed_breaker)) = StateClosed"
  using stale_permit_closes_breaker [OF closed_breaker_ok, of 15]
  by (simp add: closed_breaker_def small_breaker_def)

definition idle_exec :: "unit exec" where
  "idle_exec = \<lparr>world = (), breaker_of = closed_breaker, clock = (\<lambda>_. 1), calls = 0, requests = 0, errors = 0,
     timeouts = 0, retries = 0\<rparr>"

definition failing_env :: "(unit, int) call_env" where
  "failing_env = \<lparr>ctx_err = (\<lambda>_. None), operation = (\<lambda>_ w. (Inl (ErrNew ''down''), None, w)), wait_err = (\<lambda>_. None)\<rparr>"

definition two_attempts :: policy where
  "two_attempts = \<lparr>Attempts = 2, Backoff = 4, MaxBackoff = 16, RetryIf = Some (\<lambda>_. True), UseBreaker = False\<rparr>"


theorem backoff_within_bounds_witness: "backoff_delay two_attempts 2 = 8"
  using backoff_within_bounds [of two_attempts 2] by (simp add: two_attempts_def)

end
