(* ===== verification/Plan_Proposal.thy ===== *)
theory Plan_Proposal
  imports Prelude "HOL-Library.List_Lexorder" "HOL-Library.Char_ord"
begin

text \<open>
  The planner's proposals of the agent service
  (src/internal/rpc/agent/workflow/agent/plan_executor.go): when the runtime asks for a plan,
  parsing of the model's reply, validation with the depth-first search for a cycle, and the
  fallback plan. The lemmas show that the search visits every key with recursion depth at most
  the number of steps, that what it accepts has a topological order, and that it rejects only
  graphs with a cycle.
\<close>

subsection \<open>Proposals\<close>

text \<open>The Go strings of the sources that are not ASCII are given by their UTF-8 bytes.\<close>

definition utf8 :: "nat list \<Rightarrow> string" where
  "utf8 = map char_of"

record planStepProposal =
  Key :: string
  Description :: string
  DependsOn :: "string list"

record planProposal =
  Goal :: string
  Steps :: "planStepProposal list"

record stepExecutionResult =
  Status :: string
  Output :: string
  NeedsReplan :: bool
  Reason :: string

text \<open>
  The errors of planning and execution. Joined is errors.Join of the non-nil errors; StepFailed
  carries the key and the reason of its message.
\<close>

datatype plan_error =
    StoreError goerr
  | ModelError goerr
  | InvalidDependencies
  | MissingPrincipal
  | NilPlanner
  | NoJSON
  | DecodeError goerr
  | BadShape nat nat
  | BadStep string
  | BadDependency string string
  | CyclicPlan
  | NoReadyStep
  | StepFailed string string
  | IterationLimit
  | Joined "plan_error list"

text \<open>regexp ^[a-z][a-z0-9_]{1,63}$.\<close>

definition is_lower :: "char \<Rightarrow> bool" where
  "is_lower c \<longleftrightarrow> (let n = of_char c :: nat in 97 \<le> n \<and> n \<le> 122)"

definition planStepKeyPattern :: "string \<Rightarrow> bool" where
  "planStepKeyPattern s \<longleftrightarrow>
     (case s of
        [] \<Rightarrow> False
      | c # cs \<Rightarrow>
          is_lower c \<and> 1 \<le> length cs \<and> length cs \<le> 63 \<and>
          list_all (\<lambda>x. is_lower x \<or> x = CHR ''_'' \<or> char_digit x \<noteq> None) cs)"

text \<open>strings.Index and strings.LastIndex of a byte, and the slice raw[start : end+1].\<close>

definition Index :: "char \<Rightarrow> string \<Rightarrow> nat option" where
  "Index c s = (if c \<in> set s then Some (length (takeWhile (\<lambda>x. x \<noteq> c) s)) else None)"

definition LastIndex :: "char \<Rightarrow> string \<Rightarrow> nat option" where
  "LastIndex c s = map_option (\<lambda>i. length s - 1 - i) (Index c (rev s))"

definition braced :: "string \<Rightarrow> string option" where
  "braced raw =
     (case (Index (CHR ''{'') raw, LastIndex (CHR ''}'') raw) of
        (Some a, Some b) \<Rightarrow> if b \<le> a then None else Some (take (b + 1 - a) (drop a raw))
      | _ \<Rightarrow> None)"

text \<open>unmarshal is json.Unmarshal into the proposal type.\<close>

definition trim_step :: "planStepProposal \<Rightarrow> planStepProposal" where
  "trim_step s = s\<lparr>Key := TrimSpace (Key s), Description := TrimSpace (Description s)\<rparr>"

definition parsePlanProposal :: "(string \<Rightarrow> goerr + planProposal) \<Rightarrow> string \<Rightarrow> plan_error + planProposal" where
  "parsePlanProposal unmarshal raw =
     (case braced raw of
        None \<Rightarrow> Inl NoJSON
      | Some body \<Rightarrow>
          (case unmarshal body of
             Inl e \<Rightarrow> Inl (DecodeError e)
           | Inr p \<Rightarrow> Inr (p\<lparr>Goal := TrimSpace (Goal p), Steps := map trim_step (Steps p)\<rparr>)))"

text \<open>
  The parse of a step's reply; a reply that is not the requested JSON counts as a finished step.
  ToLower is modelled for ASCII letters.
\<close>

definition ToLower :: "string \<Rightarrow> string" where
  "ToLower = map (\<lambda>c. let n = of_char c :: nat in if 65 \<le> n \<and> n \<le> 90 then char_of (n + 32) else c)"

definition parseStepExecutionResult ::
    "(string \<Rightarrow> stepExecutionResult option) \<Rightarrow> string \<Rightarrow> stepExecutionResult" where
  "parseStepExecutionResult unmarshal raw =
     (let plain = \<lparr>Status = ''done'', Output = TrimSpace raw, NeedsReplan = False, Reason = ''''\<rparr> in
      case Option.bind (braced raw) unmarshal of
        None \<Rightarrow> plain
      | Some r \<Rightarrow>
          (let st = ToLower (TrimSpace (Status r)) in
           if st = ''done'' \<or> st = ''failed'' then r\<lparr>Status := st\<rparr> else plain))"

subsection \<open>The routing decision\<close>

record skill_advice =
  RequiresPlan :: bool
  Complexity :: string
  EstimatedSteps :: int

record user_message =
  Query :: string
  SkillAdvice :: "skill_advice option"

fun substr :: "string \<Rightarrow> string \<Rightarrow> bool" where
  "substr [] v = (v = [])"
| "substr (c # s) v = (HasPrefix (c # s) v \<or> substr s v)"

definition containsAny :: "string \<Rightarrow> string list \<Rightarrow> bool" where
  "containsAny text values = list_ex (substr text) values"

definition planning_words :: "string list" where
  "planning_words =
     [utf8 [229, 136, 182, 229, 174, 154], utf8 [232, 167, 132, 229, 136, 146],
      utf8 [229, 174, 137, 230, 142, 146], utf8 [232, 174, 161, 229, 136, 146], ''plan'']"

definition multi_step_words :: "string list" where
  "multi_step_words =
     [utf8 [229, 136, 134, 230, 173, 165, 233, 170, 164], utf8 [229, 164, 154, 230, 173, 165, 233, 170, 164],
      utf8 [228, 190, 157, 232, 181, 150], utf8 [233, 152, 182, 230, 174, 181],
      utf8 [233, 161, 186, 229, 186, 143], utf8 [229, 185, 182, 228, 184, 148],
      utf8 [231, 132, 182, 229, 144, 142], utf8 [230, 142, 165, 231, 157, 128],
      utf8 [230, 156, 172, 229, 145, 168], utf8 [228, 184, 139, 229, 145, 168],
      utf8 [228, 184, 164, 229, 145, 168], utf8 [228, 184, 139, 228, 184, 170, 230, 156, 136],
      utf8 [228, 184, 137, 229, 164, 169], utf8 [232, 175, 190, 232, 161, 168],
      utf8 [232, 150, 132, 229, 188, 177], utf8 [230, 137, 167, 232, 161, 140],
      ''multi-step'', ''multiple step'']"

text \<open>strings.EqualFold against the ASCII word complex.\<close>

definition runtimeRequiresPlan :: "user_message option \<Rightarrow> bool" where
  "runtimeRequiresPlan input =
     (case input of
        None \<Rightarrow> False
      | Some m \<Rightarrow>
          (let query = ToLower (TrimSpace (Query m)) in
           if containsAny query planning_words \<and> containsAny query multi_step_words then True
           else (case SkillAdvice m of
                   None \<Rightarrow> False
                 | Some a \<Rightarrow> RequiresPlan a \<and> ToLower (Complexity a) = ''complex'' \<and> 2 \<le> EstimatedSteps a)))"

subsection \<open>Validation\<close>

text \<open>
  The search: visiting holds the calls in progress (the source sets visiting[key] on entry and
  clears it on return, so it is the same before and after a successful call), visited the finished
  keys, newest first. depth bounds the recursion; the source recurses without a bound.
\<close>

datatype visit_result = Cycle | OutOfDepth | Visited "string list"

fun visit :: "(string \<Rightarrow> string list) \<Rightarrow> string list \<Rightarrow> nat \<Rightarrow> string list \<Rightarrow> string list \<Rightarrow> string \<Rightarrow> visit_result"
and visit_deps :: "(string \<Rightarrow> string list) \<Rightarrow> string list \<Rightarrow> nat \<Rightarrow> string list \<Rightarrow> string list \<Rightarrow> string list \<Rightarrow> visit_result"
where
  "visit deps keys 0 visiting visited key = OutOfDepth"
| "visit deps keys (Suc depth) visiting visited key =
     (if key \<in> set visiting then Cycle
      else if key \<in> set visited then Visited visited
      else (case visit_deps deps keys depth (key # visiting) visited (deps key) of
              Visited visited' \<Rightarrow> Visited (key # visited')
            | r \<Rightarrow> r))"
| "visit_deps deps keys depth visiting visited [] = Visited visited"
| "visit_deps deps keys depth visiting visited (d # ds) =
     (if d \<in> set keys then
        (case visit deps keys depth visiting visited d of
           Visited visited' \<Rightarrow> visit_deps deps keys depth visiting visited' ds
         | r \<Rightarrow> r)
      else visit_deps deps keys depth visiting visited ds)"

text \<open>for key := range keys: in the order in which the map is iterated.\<close>

definition visit_all :: "(string \<Rightarrow> string list) \<Rightarrow> string list \<Rightarrow> string list \<Rightarrow> visit_result" where
  "visit_all deps keys order = visit_deps deps keys (Suc (length keys)) [] [] order"

text \<open>The map byKey; a key it does not have reads as the zero step.\<close>

definition byKey :: "planStepProposal list \<Rightarrow> string \<Rightarrow> string list" where
  "byKey steps key =
     (case map_of (rev (map (\<lambda>s. (Key s, DependsOn s)) steps)) key of None \<Rightarrow> [] | Some ds \<Rightarrow> ds)"

fun check_keys :: "string list \<Rightarrow> planStepProposal list \<Rightarrow> plan_error + string list" where
  "check_keys keys [] = Inr keys"
| "check_keys keys (s # ss) =
     (if \<not> planStepKeyPattern (Key s) \<or> Description s = '''' \<or> Key s \<in> set keys
      then Inl (BadStep (Key s)) else check_keys (keys @ [Key s]) ss)"

definition bad_dependency :: "string list \<Rightarrow> string list \<Rightarrow> planStepProposal \<Rightarrow> string \<Rightarrow> bool" where
  "bad_dependency keys done s d \<longleftrightarrow> d = Key s \<or> (d \<notin> set keys \<and> d \<notin> set done)"

fun check_deps :: "string list \<Rightarrow> string list \<Rightarrow> planStepProposal list \<Rightarrow> plan_error option" where
  "check_deps keys done [] = None"
| "check_deps keys done (s # ss) =
     (case find (bad_dependency keys done s) (DependsOn s) of
        Some d \<Rightarrow> Some (BadDependency d (Key s))
      | None \<Rightarrow> check_deps keys done ss)"

text \<open>
  validatePlanProposal; order is the iteration order of the map of the keys, done the keys of
  externallyDone. None is the nil error.
\<close>

definition validatePlanProposal ::
    "(string list \<Rightarrow> string list) \<Rightarrow> planProposal \<Rightarrow> nat \<Rightarrow> nat \<Rightarrow> string list \<Rightarrow> plan_error option" where
  "validatePlanProposal order p maxSteps minSteps done =
     (if Goal p = '''' \<or> length (Steps p) < minSteps \<or> maxSteps < length (Steps p)
      then Some (BadShape minSteps maxSteps)
      else (case check_keys [] (Steps p) of
              Inl e \<Rightarrow> Some e
            | Inr keys \<Rightarrow>
                (case check_deps keys done (Steps p) of
                   Some e \<Rightarrow> Some e
                 | None \<Rightarrow>
                     (case visit_all (byKey (Steps p)) keys (order keys) of
                        Visited _ \<Rightarrow> None
                      | _ \<Rightarrow> Some CyclicPlan))))"

definition fallbackPlan :: "string \<Rightarrow> planProposal" where
  "fallbackPlan goal =
     \<lparr>Goal = goal, Steps =
       [\<lparr>Key = ''analyze_requirements'',
          Description = utf8 [231, 161, 174, 232, 174, 164, 231, 155, 174, 230, 160, 135, 227, 128, 129, 231, 186, 166, 230,
            157, 159, 228, 184, 142, 229, 174, 140, 230, 136, 144, 230, 160, 135, 229, 135, 134], DependsOn = []\<rparr>,
        \<lparr>Key = ''execute_task'',
          Description = utf8 [230, 160, 185, 230, 141, 174, 231, 155, 174, 230, 160, 135, 232, 176, 131, 231, 148, 168, 229,
            191, 133, 232, 166, 129, 229, 183, 165, 229, 133, 183, 229, 185, 182, 229, 174, 140, 230, 136, 144, 228, 187,
            187, 229, 138, 161], DependsOn = [''analyze_requirements'']\<rparr>,
        \<lparr>Key = ''verify_result'',
          Description = utf8 [230, 163, 128, 230, 159, 165, 230, 137, 167, 232, 161, 140, 231, 187, 147, 230, 158, 156, 229,
            185, 182, 229, 189, 162, 230, 136, 144, 230, 156, 128, 231, 187, 136, 231, 187, 147, 232, 174, 186],
          DependsOn = [''execute_task'']\<rparr>]\<rparr>"

subsection \<open>The search for a cycle\<close>

definition internal :: "(string \<Rightarrow> string list) \<Rightarrow> string list \<Rightarrow> (string \<times> string) set" where
  "internal deps keys = {(a, b). a \<in> set keys \<and> b \<in> set keys \<and> b \<in> set (deps a)}"

text \<open>The recursion never gets deeper than the number of keys.\<close>

lemma visit_depth:
  "key \<in> set keys \<Longrightarrow> card (set keys - set visiting) < depth \<Longrightarrow>
     visit deps keys depth visiting visited key \<noteq> OutOfDepth"
  "card (set keys - set visiting) < depth \<Longrightarrow>
     visit_deps deps keys depth visiting visited ds \<noteq> OutOfDepth"
proof (induction deps keys depth visiting visited key and deps keys depth visiting visited ds
    rule: visit_visit_deps.induct)
  case (2 deps keys depth visiting visited key)
  show ?case
  proof (cases "key \<in> set visiting \<or> key \<in> set visited")
    case False
    have "card (set keys - set (key # visiting)) < card (set keys - set visiting)"
      using 2(2) False by (intro psubset_card_mono) auto
    then have "visit_deps deps keys depth (key # visiting) visited (deps key) \<noteq> OutOfDepth"
      using 2 False by auto
    with False show ?thesis by (auto split: visit_result.splits)
  qed auto
qed (auto split: visit_result.splits)

text \<open>
  The finished keys, newest first, are a topological order: every internal dependency of a key
  finished before it.
\<close>

fun topo :: "(string \<Rightarrow> string list) \<Rightarrow> string list \<Rightarrow> string list \<Rightarrow> bool" where
  "topo deps keys [] = True"
| "topo deps keys (k # ks) =
     ((\<forall>d \<in> set (deps k). d \<in> set keys \<longrightarrow> d \<in> set ks) \<and> topo deps keys ks)"

lemma visit_topo:
  "topo deps keys visited \<Longrightarrow> visit deps keys depth visiting visited key = Visited v \<Longrightarrow>
     topo deps keys v \<and> key \<in> set v \<and> set visited \<subseteq> set v"
  "topo deps keys visited \<Longrightarrow> visit_deps deps keys depth visiting visited ds = Visited v \<Longrightarrow>
     topo deps keys v \<and> set visited \<subseteq> set v \<and> (\<forall>d \<in> set ds. d \<in> set keys \<longrightarrow> d \<in> set v)"
proof (induction deps keys depth visiting visited key and deps keys depth visiting visited ds
    arbitrary: v and v rule: visit_visit_deps.induct)
  case (2 deps keys depth visiting visited key)
  then show ?case by (fastforce split: if_splits visit_result.splits)
next
  case (4 deps keys depth visiting visited d ds)
  show ?case
  proof (cases "d \<in> set keys")
    case True
    with 4(5) obtain v1 where v1: "visit deps keys depth visiting visited d = Visited v1"
      "visit_deps deps keys depth visiting v1 ds = Visited v"
      by (auto split: visit_result.splits)
    from 4(1) [OF True 4(4) v1(1)] have t: "topo deps keys v1" "d \<in> set v1" "set visited \<subseteq> set v1" by auto
    from 4(2) [OF True v1(1) t(1) v1(2)] t show ?thesis by auto
  next
    case False
    then have "visit_deps deps keys depth visiting visited ds = Visited v" using 4(5) by simp
    from 4(3) [OF False 4(4) this] False show ?thesis by auto
  qed
qed auto

fun rank :: "string list \<Rightarrow> string \<Rightarrow> nat" where
  "rank [] k = 0"
| "rank (x # xs) k = (if k \<in> set xs then rank xs k else Suc (length xs))"

lemma rank_le: "k \<in> set ks \<Longrightarrow> rank ks k \<le> length ks"
  by (induction ks) auto

lemma topo_rank:
  "topo deps keys ks \<Longrightarrow> a \<in> set ks \<Longrightarrow> b \<in> set (deps a) \<Longrightarrow> b \<in> set keys \<Longrightarrow>
     b \<in> set ks \<and> rank ks b < rank ks a"
proof (induction ks)
  case (Cons k ks)
  show ?case
  proof (cases "a \<in> set ks")
    case True
    with Cons show ?thesis by auto
  next
    case False
    with Cons.prems have "b \<in> set ks" by auto
    with False show ?thesis using rank_le [of b ks] by auto
  qed
qed simp

text \<open>A cycle is reported only where there is one: the calls in progress all lead to the key.\<close>

lemma visit_cycle:
  "(\<forall>s \<in> set visiting. (s, key) \<in> (internal deps keys)\<^sup>+) \<Longrightarrow> key \<in> set keys \<Longrightarrow>
     visit deps keys depth visiting visited key = Cycle \<Longrightarrow> \<exists>c. (c, c) \<in> (internal deps keys)\<^sup>+"
  "(\<forall>s \<in> set visiting. \<forall>d \<in> set ds. d \<in> set keys \<longrightarrow> (s, d) \<in> (internal deps keys)\<^sup>+) \<Longrightarrow>
     visit_deps deps keys depth visiting visited ds = Cycle \<Longrightarrow> \<exists>c. (c, c) \<in> (internal deps keys)\<^sup>+"
proof (induction deps keys depth visiting visited key and deps keys depth visiting visited ds
    rule: visit_visit_deps.induct)
  case (2 deps keys depth visiting visited key)
  show ?case
  proof (cases "key \<in> set visiting")
    case True
    with 2(2) show ?thesis by blast
  next
    case False
    with 2(4) have c: "key \<notin> set visited"
      "visit_deps deps keys depth (key # visiting) visited (deps key) = Cycle"
      by (auto split: if_splits visit_result.splits)
    have "\<forall>s \<in> set (key # visiting). \<forall>d \<in> set (deps key). d \<in> set keys \<longrightarrow> (s, d) \<in> (internal deps keys)\<^sup>+"
    proof (intro ballI impI)
      fix s d assume s: "s \<in> set (key # visiting)" and d: "d \<in> set (deps key)" "d \<in> set keys"
      have e: "(key, d) \<in> internal deps keys" using d 2(3) by (simp add: internal_def)
      show "(s, d) \<in> (internal deps keys)\<^sup>+"
        using s e 2(2) by (cases "s = key") (auto intro: trancl_into_trancl)
    qed
    from 2(1) [OF False c(1) this c(2)] show ?thesis .
  qed
next
  case (4 deps keys depth visiting visited d ds)
  show ?case
  proof (cases "d \<in> set keys")
    case True
    show ?thesis
    proof (cases "visit deps keys depth visiting visited d")
      case Cycle
      have "\<forall>s \<in> set visiting. (s, d) \<in> (internal deps keys)\<^sup>+" using 4(4) True by simp
      from 4(1) [OF True this True Cycle] show ?thesis .
    next
      case OutOfDepth
      with 4(5) True show ?thesis by simp
    next
      case (Visited v)
      have "\<forall>s \<in> set visiting. \<forall>d \<in> set ds. d \<in> set keys \<longrightarrow> (s, d) \<in> (internal deps keys)\<^sup>+"
        using 4(4) by simp
      from 4(2) [OF True Visited this] Visited True 4(5) show ?thesis by simp
    qed
  next
    case False
    with 4 show ?thesis by simp
  qed
qed auto

text \<open>The search accepts exactly the acyclic graphs.\<close>

lemma visited_acyclic:
  assumes "visit_all deps keys order = Visited v" and o: "set order = set keys"
  shows "acyclic (internal deps keys)" and "\<exists>r. \<forall>(a, b) \<in> internal deps keys. r b < (r a :: nat)"
proof -
  have t: "topo deps keys v" "\<forall>d \<in> set order. d \<in> set keys \<longrightarrow> d \<in> set v"
    using visit_topo(2) [of deps keys "[]"] assms(1) by (fastforce simp: visit_all_def)+
  have r: "\<forall>(a, b) \<in> internal deps keys. rank v b < rank v a"
    using topo_rank [OF t(1)] t(2) o by (auto simp: internal_def)
  then show "\<exists>r. \<forall>(a, b) \<in> internal deps keys. r b < (r a :: nat)" by blast
  have "internal deps keys \<subseteq> (measure (rank v))\<inverse>" using r by auto
  moreover have "acyclic ((measure (rank v))\<inverse>)" by (simp add: wf_acyclic)
  ultimately show "acyclic (internal deps keys)" by (rule acyclic_subset [rotated])
qed

lemma visit_all_iff:
  assumes "set order = set keys"
  shows "(\<exists>v. visit_all deps keys order = Visited v) \<longleftrightarrow> acyclic (internal deps keys)"
proof
  assume "acyclic (internal deps keys)"
  then have "visit_all deps keys order \<noteq> Cycle"
    using visit_cycle(2) [of "[]" order keys deps] by (auto simp: visit_all_def acyclic_def)
  moreover have "visit_all deps keys order \<noteq> OutOfDepth"
    unfolding visit_all_def by (rule visit_depth(2)) (simp add: card_length le_imp_less_Suc)
  ultimately show "\<exists>v. visit_all deps keys order = Visited v"
    by (cases "visit_all deps keys order") auto
qed (use visited_acyclic(1) assms in blast)

subsection \<open>Validation against its specification\<close>

definition step_graph :: "planStepProposal list \<Rightarrow> (string \<times> string) set" where
  "step_graph steps = {(Key s, d) | s d. s \<in> set steps \<and> d \<in> set (DependsOn s) \<and> d \<in> Key ` set steps}"

definition sound_plan :: "planProposal \<Rightarrow> nat \<Rightarrow> nat \<Rightarrow> string list \<Rightarrow> bool" where
  "sound_plan p maxSteps minSteps done \<longleftrightarrow>
     Goal p \<noteq> '''' \<and> minSteps \<le> length (Steps p) \<and> length (Steps p) \<le> maxSteps \<and>
     distinct (map Key (Steps p)) \<and>
     (\<forall>s \<in> set (Steps p). planStepKeyPattern (Key s) \<and> Description s \<noteq> '''' \<and>
        (\<forall>d \<in> set (DependsOn s). d \<noteq> Key s \<and> d \<in> Key ` set (Steps p) \<union> set done)) \<and>
     acyclic (step_graph (Steps p))"

lemma check_keys_iff:
  "check_keys ks ss = Inr keys \<longleftrightarrow>
     keys = ks @ map Key ss \<and> distinct (map Key ss) \<and> Key ` set ss \<inter> set ks = {} \<and>
     (\<forall>s \<in> set ss. planStepKeyPattern (Key s) \<and> Description s \<noteq> '''')"
  by (induction ks ss rule: check_keys.induct) auto

lemma check_deps_iff:
  "check_deps keys done ss = None \<longleftrightarrow>
     (\<forall>s \<in> set ss. \<forall>d \<in> set (DependsOn s). d \<noteq> Key s \<and> (d \<in> set keys \<or> d \<in> set done))"
proof (induction keys "done" ss rule: check_deps.induct)
  case (2 keys "done" s ss)
  show ?case
  proof (cases "find (bad_dependency keys done s) (DependsOn s)")
    case None
    then have "\<forall>d \<in> set (DependsOn s). d \<noteq> Key s \<and> (d \<in> set keys \<or> d \<in> set done)"
      by (auto simp: find_None_iff bad_dependency_def)
    with None 2(1) [OF None] show ?thesis by simp
  next
    case (Some d)
    then have "d \<in> set (DependsOn s) \<and> bad_dependency keys done s d"
      by (auto simp: find_Some_iff in_set_conv_nth)
    with Some show ?thesis by (auto simp: bad_dependency_def)
  qed
qed simp

lemma byKey_eq:
  assumes "distinct (map Key ss)" and "s \<in> set ss"
  shows "byKey ss (Key s) = DependsOn s"
proof -
  have "map fst (rev (map (\<lambda>s. (Key s, DependsOn s)) ss)) = rev (map Key ss)"
    by (simp add: rev_map o_def)
  then have "map_of (rev (map (\<lambda>s. (Key s, DependsOn s)) ss)) (Key s) = Some (DependsOn s)"
    using assms by (intro map_of_is_SomeI) auto
  then show ?thesis by (simp add: byKey_def)
qed

lemma internal_step_graph:
  assumes "distinct (map Key ss)"
  shows "internal (byKey ss) (map Key ss) = step_graph ss"
  using byKey_eq [OF assms] by (auto simp: internal_def step_graph_def)

lemma plan_sound:
  assumes "set (order (map Key (Steps p))) = set (map Key (Steps p))"
  shows "validatePlanProposal order p maxSteps minSteps done = None \<longleftrightarrow> sound_plan p maxSteps minSteps done"
proof (cases "Goal p = '''' \<or> length (Steps p) < minSteps \<or> maxSteps < length (Steps p)")
  case True
  then show ?thesis by (auto simp: validatePlanProposal_def sound_plan_def)
next
  case shape: False
  show ?thesis
  proof (cases "check_keys [] (Steps p)")
    case (Inl e)
    then have "\<not> (distinct (map Key (Steps p)) \<and> (\<forall>s \<in> set (Steps p). planStepKeyPattern (Key s) \<and> Description s \<noteq> ''''))"
      using check_keys_iff [of "[]" "Steps p" "map Key (Steps p)"] by auto
    with shape Inl show ?thesis by (auto simp: validatePlanProposal_def sound_plan_def)
  next
    case (Inr keys)
    then have k: "keys = map Key (Steps p)" "distinct (map Key (Steps p))"
      "\<forall>s \<in> set (Steps p). planStepKeyPattern (Key s) \<and> Description s \<noteq> ''''"
      by (simp_all add: check_keys_iff)
    have v: "(\<exists>v. visit_all (byKey (Steps p)) keys (order keys) = Visited v) \<longleftrightarrow> acyclic (step_graph (Steps p))"
      using visit_all_iff [of "order keys" keys] assms internal_step_graph [OF k(2)] k(1) by simp
    have d: "check_deps keys done (Steps p) = None \<longleftrightarrow>
        (\<forall>s \<in> set (Steps p). \<forall>d \<in> set (DependsOn s). d \<noteq> Key s \<and> d \<in> Key ` set (Steps p) \<union> set done)"
      by (simp add: check_deps_iff k(1))
    have "validatePlanProposal order p maxSteps minSteps done = None \<longleftrightarrow>
        check_deps keys done (Steps p) = None \<and> (\<exists>v. visit_all (byKey (Steps p)) keys (order keys) = Visited v)"
      using shape Inr by (auto simp: validatePlanProposal_def split: option.splits visit_result.splits)
    then show ?thesis using shape v d k(2,3) by (auto simp: sound_plan_def)
  qed
qed

text \<open>
  C4 (equivalence). For every iteration order of the key map, validatePlanProposal accepts a
  proposal exactly when it is sound: a goal, a number of steps in the bounds, well-formed and
  pairwise different keys, non-empty descriptions, dependencies on other steps or completed ones,
  and no cycle. The depth-first search neither misses a cycle nor reports one that is not there.
\<close>

theorem plan_validation_iff_sound:
  assumes "set (order (map Key (Steps p))) = set (map Key (Steps p))"
  shows "validatePlanProposal order p maxSteps minSteps done = None \<longleftrightarrow> sound_plan p maxSteps minSteps done"
  using assms by (rule plan_sound)

definition sample_plan :: planProposal where
  "sample_plan = \<lparr>Goal = ''prepare'', Steps =
     [\<lparr>Key = ''collect'', Description = ''collect'', DependsOn = []\<rparr>,
      \<lparr>Key = ''build'', Description = ''build'', DependsOn = [''collect'']\<rparr>]\<rparr>"

theorem plan_validation_iff_sound_witness:
  "validatePlanProposal rev sample_plan 6 2 [] = None \<and> sound_plan sample_plan 6 2 []"
proof -
  have "validatePlanProposal rev sample_plan 6 2 [] = None" by code_simp
  then show ?thesis using plan_validation_iff_sound [of rev sample_plan 6 2 "[]"] by simp
qed

text \<open>A sound plan has a rank that falls along its dependencies.\<close>

lemma accepted_rank:
  assumes v: "validatePlanProposal order p maxSteps minSteps done = None"
    and o: "set (order (map Key (Steps p))) = set (map Key (Steps p))"
  shows "\<exists>r. \<forall>s \<in> set (Steps p). \<forall>d \<in> set (DependsOn s). d \<in> Key ` set (Steps p) \<longrightarrow> r d < (r (Key s) :: nat)"
proof -
  have "\<not> (Goal p = '''' \<or> length (Steps p) < minSteps \<or> maxSteps < length (Steps p))"
    using v by (auto simp: validatePlanProposal_def)
  with v obtain keys w where k: "check_keys [] (Steps p) = Inr keys"
    "visit_all (byKey (Steps p)) keys (order keys) = Visited w"
    by (auto simp: validatePlanProposal_def split: sum.splits option.splits visit_result.splits)
  then have ke: "keys = map Key (Steps p)" "distinct (map Key (Steps p))" by (simp_all add: check_keys_iff)
  have "set (order keys) = set keys" using o ke(1) by simp
  from visited_acyclic(2) [OF k(2) this] obtain r
    where "\<forall>(a, b) \<in> step_graph (Steps p). r b < (r a :: nat)"
    using internal_step_graph [OF ke(2)] ke(1) by auto
  then have "\<forall>s \<in> set (Steps p). \<forall>d \<in> set (DependsOn s). d \<in> Key ` set (Steps p) \<longrightarrow> r d < r (Key s)"
    by (auto simp: step_graph_def)
  then show ?thesis by blast
qed

end
