(* ===== verification/Plan_Store.thy ===== *)
theory Plan_Store
  imports Sql_Tx
begin

text \<open>
  The persistent task plans of the agent service (src/internal/rpc/agent/memory/task_plan.go, the
  transcript events of memory/session.go it uses, and the tables of model/session.go). Every
  operation is a run against the adversarial driver of Sql_Tx. The invariant says that the rows of
  a plan are uniquely keyed, that a step was started only after its dependencies were done, and
  that the status of a plan agrees with its steps.

  The deployed policies give PostgreSQL writes one attempt, so postgresWriteError is a plain call
  here; a retried read is one read whose failure is an event of the driver.
\<close>

subsection \<open>Tables\<close>

text \<open>The jsonb column depends_on: a list of strings (null and [] are the empty one), or other JSON.\<close>

datatype depends_column = JsonList "string list" | OtherJson string

record task_plan =
  PlanID :: int
  PlanUser :: int
  PlanSession :: string
  PlanRequest :: string
  PlanGoal :: string
  PlanStatus :: string

record task_step =
  StepPlan :: int
  StepKey :: string
  StepDescription :: string
  StepStatus :: string
  StepDepends :: depends_column

record new_task_step =
  NewKey :: string
  NewDescription :: string
  NewDepends :: depends_column

text \<open>
  Rows are in the order of their ids. Steps are addressed by (plan_id, step_key), which the unique
  index uk_plan_step makes a key; events by (session_id, request_id, event_key).
\<close>

record plan_tables =
  task_plans :: "task_plan list"
  task_steps :: "task_step list"
  transcript :: "string \<times> string \<times> string \<Rightarrow> string option"
  next_plan_id :: int

definition firstPlan :: "(task_plan \<Rightarrow> bool) \<Rightarrow> (plan_tables, task_plan) sql" where
  [sql_defs]: "firstPlan P = (\<lambda>now t.
     (case find P (task_plans t) of None \<Rightarrow> Inl ErrRecordNotFound | Some p \<Rightarrow> Inr p, t))"

definition firstStep :: "(task_step \<Rightarrow> bool) \<Rightarrow> (plan_tables, task_step) sql" where
  [sql_defs]: "firstStep P = (\<lambda>now t.
     (case find P (task_steps t) of None \<Rightarrow> Inl ErrRecordNotFound | Some s \<Rightarrow> Inr s, t))"

definition findSteps :: "(task_step \<Rightarrow> bool) \<Rightarrow> (plan_tables, task_step list) sql" where
  [sql_defs]: "findSteps P = (\<lambda>now t. (Inr (filter P (task_steps t)), t))"

definition countSteps :: "(task_step \<Rightarrow> bool) \<Rightarrow> (plan_tables, nat) sql" where
  [sql_defs]: "countSteps P = (\<lambda>now t. (Inr (length (filter P (task_steps t))), t))"

definition same_request :: "string \<Rightarrow> string \<Rightarrow> task_plan \<Rightarrow> bool" where
  "same_request session request p \<longleftrightarrow> PlanSession p = session \<and> PlanRequest p = request"

text \<open>INSERT ... ON CONFLICT (session_id, request_id) DO NOTHING: the id and the affected rows.\<close>

definition insertPlan :: "task_plan \<Rightarrow> (plan_tables, int \<times> nat) sql" where
  [sql_defs]: "insertPlan p = (\<lambda>now t.
     if find (same_request (PlanSession p) (PlanRequest p)) (task_plans t) \<noteq> None then (Inr (0, 0), t)
     else (Inr (next_plan_id t, 1),
           t\<lparr>task_plans := task_plans t @ [p\<lparr>PlanID := next_plan_id t\<rparr>], next_plan_id := next_plan_id t + 1\<rparr>))"

definition step_row :: "int \<Rightarrow> string \<Rightarrow> task_step \<Rightarrow> bool" where
  "step_row pid key s \<longleftrightarrow> StepPlan s = pid \<and> StepKey s = key"

definition insertStep :: "task_step \<Rightarrow> (plan_tables, unit) sql" where
  [sql_defs]: "insertStep s = (\<lambda>now t.
     if find (step_row (StepPlan s) (StepKey s)) (task_steps t) \<noteq> None
     then (Inl (DriverError ''duplicate key value violates unique constraint uk_plan_step''), t)
     else (Inr (), t\<lparr>task_steps := task_steps t @ [s]\<rparr>))"

definition mark_step :: "int \<Rightarrow> string \<Rightarrow> string \<Rightarrow> task_step list \<Rightarrow> task_step list" where
  "mark_step pid key st = map (\<lambda>s. if step_row pid key s then s\<lparr>StepStatus := st\<rparr> else s)"

definition mark_plan :: "int \<Rightarrow> string \<Rightarrow> task_plan list \<Rightarrow> task_plan list" where
  "mark_plan pid st = map (\<lambda>p. if PlanID p = pid then p\<lparr>PlanStatus := st\<rparr> else p)"

definition updateStep :: "int \<Rightarrow> string \<Rightarrow> string \<Rightarrow> (plan_tables, unit) sql" where
  [sql_defs]: "updateStep pid key st = (\<lambda>now t. (Inr (), t\<lparr>task_steps := mark_step pid key st (task_steps t)\<rparr>))"

definition updatePlan :: "int \<Rightarrow> string \<Rightarrow> (plan_tables, unit) sql" where
  [sql_defs]: "updatePlan pid st = (\<lambda>now t. (Inr (), t\<lparr>task_plans := mark_plan pid st (task_plans t)\<rparr>))"

definition deleteSteps :: "(task_step \<Rightarrow> bool) \<Rightarrow> (plan_tables, unit) sql" where
  [sql_defs]: "deleteSteps P = (\<lambda>now t. (Inr (), t\<lparr>task_steps := filter (\<lambda>s. \<not> P s) (task_steps t)\<rparr>))"

definition insertEvent :: "string \<times> string \<times> string \<Rightarrow> string \<Rightarrow> (plan_tables, unit) sql" where
  [sql_defs]: "insertEvent k content = (\<lambda>now t.
     if transcript t k \<noteq> None then (Inr (), t) else (Inr (), t\<lparr>transcript := (transcript t)(k \<mapsto> content)\<rparr>))"

definition firstEvent :: "string \<times> string \<times> string \<Rightarrow> (plan_tables, string) sql" where
  [sql_defs]: "firstEvent k = (\<lambda>now t.
     (case transcript t k of None \<Rightarrow> Inl ErrRecordNotFound | Some c \<Rightarrow> Inr c, t))"

subsection \<open>Operations\<close>

abbreviation missing_step_text :: goerr where
  "missing_step_text \<equiv> ErrNew ''task step key and description are required''"

definition new_row :: "int \<Rightarrow> new_task_step \<Rightarrow> task_step" where
  "new_row pid i =
     \<lparr>StepPlan = pid, StepKey = NewKey i, StepDescription = NewDescription i,
      StepStatus = ''pending'', StepDepends = NewDepends i\<rparr>"

fun createSteps :: "int \<Rightarrow> new_task_step list \<Rightarrow> (plan_tables, unit) tx" where
  "createSteps pid [] = tx_return ()"
| "createSteps pid (i # is) =
     (if NewKey i = '''' \<or> NewDescription i = '''' then tx_fail missing_step_text
      else tx_bind (stmt (insertStep (new_row pid i)))
             (\<lambda>_. createSteps pid is))"

definition CreateTaskPlan ::
    "int \<Rightarrow> string \<Rightarrow> string \<Rightarrow> string \<Rightarrow> new_task_step list \<Rightarrow> (plan_tables, task_plan) tx" where
  "CreateTaskPlan userID sessionID requestID goal steps =
     (if userID \<le> 0 \<or> sessionID = '''' \<or> requestID = '''' \<or> goal = '''' \<or> length steps < 2
      then tx_fail (ErrNew ''task plan requires a goal and at least two steps'')
      else
        (let tp = \<lparr>PlanID = 0, PlanUser = userID, PlanSession = sessionID, PlanRequest = requestID,
                     PlanGoal = goal, PlanStatus = ''pending''\<rparr> in
         Transaction
           (tx_bind (stmt (insertPlan tp)) (\<lambda>(i, affected).
              if affected = 0 then stmt (firstPlan (same_request sessionID requestID))
              else if i = 0 then tx_fail (ErrNew ''created task plan has no id'')
              else tx_bind (createSteps i steps) (\<lambda>_. tx_return (tp\<lparr>PlanID := i\<rparr>))))))"

definition validTaskTransition :: "string \<Rightarrow> string \<Rightarrow> bool" where
  "validTaskTransition current next \<longleftrightarrow>
     (if current = next then True
      else if current = ''pending'' then next = ''running'' \<or> next = ''failed''
      else if current = ''running'' then next = ''done'' \<or> next = ''failed''
      else False)"

text \<open>The verb %q of a text without quotes, backslashes and non-printable characters.\<close>

definition go_quote :: "string \<Rightarrow> string" where
  "go_quote s = [CHR 0x22] @ s @ [CHR 0x22]"

definition owned_plan :: "int \<Rightarrow> int \<Rightarrow> task_plan \<Rightarrow> bool" where
  "owned_plan planID userID p \<longleftrightarrow> PlanID p = planID \<and> PlanUser p = userID"

definition check_dependencies :: "int \<Rightarrow> task_step \<Rightarrow> string \<Rightarrow> (plan_tables, unit) tx" where
  "check_dependencies planID step next =
     (if next \<noteq> ''running'' then tx_return ()
      else (case StepDepends step of
              OtherJson s \<Rightarrow> tx_fail (Wrapf ''invalid step dependencies: '' (ErrNew s) '''')
            | JsonList dependencies \<Rightarrow>
                if dependencies = [] then tx_return ()
                else tx_bind (stmt (countSteps (\<lambda>s. StepPlan s = planID \<and> StepKey s \<in> set dependencies \<and> StepStatus s = ''done'')))
                       (\<lambda>n. if n \<noteq> length dependencies then tx_fail (ErrNew ''task dependencies are not complete'')
                             else tx_return ())))"

definition mark_and_count :: "int \<Rightarrow> string \<Rightarrow> string \<Rightarrow> (plan_tables, unit) tx" where
  "mark_and_count planID stepKey next =
     tx_bind (stmt (updateStep planID stepKey next)) (\<lambda>_.
     tx_bind (stmt (countSteps (\<lambda>s. StepPlan s = planID \<and> StepStatus s \<noteq> ''done'' \<and> StepStatus s \<noteq> ''failed''))) (\<lambda>remaining.
     tx_bind (stmt (countSteps (\<lambda>s. StepPlan s = planID \<and> StepStatus s = ''failed''))) (\<lambda>failed.
     stmt (updatePlan planID
       (if 0 < failed then ''failed'' else if remaining = 0 then ''done'' else ''running'')))))"

definition UpdateTaskStep :: "int \<Rightarrow> int \<Rightarrow> string \<Rightarrow> string \<Rightarrow> (plan_tables, unit) tx" where
  "UpdateTaskStep userID planID stepKey next =
     (if next \<noteq> ''running'' \<and> next \<noteq> ''done'' \<and> next \<noteq> ''failed''
      then tx_fail (ErrNew (''invalid task status '' @ go_quote next))
      else Transaction
        (tx_bind (stmt (firstPlan (owned_plan planID userID))) (\<lambda>tp.
         tx_bind (stmt (firstStep (step_row planID stepKey))) (\<lambda>step.
         if \<not> validTaskTransition (StepStatus step) next
         then tx_fail (ErrNew (''invalid task transition '' @ StepStatus step @ '' -> '' @ next))
         else tx_bind (check_dependencies planID step next) (\<lambda>_. mark_and_count planID stepKey next)))))"

definition GetTaskPlan :: "int \<Rightarrow> int \<Rightarrow> (plan_tables, task_plan \<times> task_step list) tx" where
  "GetTaskPlan userID planID =
     tx_bind (stmt (firstPlan (owned_plan planID userID))) (\<lambda>tp.
     tx_bind (stmt (findSteps (\<lambda>s. StepPlan s = planID))) (\<lambda>steps. tx_return (tp, steps)))"

text \<open>None is the answer (nil, nil, nil).\<close>

definition GetTaskPlanByRequest :: "int \<Rightarrow> string \<Rightarrow> string \<Rightarrow> (plan_tables, (task_plan \<times> task_step list) option) tx" where
  "GetTaskPlanByRequest userID sessionID requestID =
     tx_then (stmt (firstPlan (\<lambda>p. PlanUser p = userID \<and> same_request sessionID requestID p))) (\<lambda>r.
       case r of
         Inl e \<Rightarrow> if err_is e ErrRecordNotFound then tx_return None else tx_fail e
       | Inr tp \<Rightarrow> tx_bind (stmt (findSteps (\<lambda>s. StepPlan s = PlanID tp))) (\<lambda>steps. tx_return (Some (tp, steps))))"

fun reviseSteps :: "int \<Rightarrow> string list \<Rightarrow> new_task_step list \<Rightarrow> nat \<Rightarrow> (plan_tables, nat) tx" where
  "reviseSteps pid done [] inserted = tx_return inserted"
| "reviseSteps pid done (i # is) inserted =
     (if NewKey i \<in> set done then reviseSteps pid done is inserted
      else if NewKey i = '''' \<or> NewDescription i = '''' then tx_fail missing_step_text
      else tx_bind (stmt (insertStep (new_row pid i)))
             (\<lambda>_. reviseSteps pid done is (Suc inserted)))"

definition ReviseTaskPlan :: "int \<Rightarrow> int \<Rightarrow> new_task_step list \<Rightarrow> (plan_tables, unit) tx" where
  "ReviseTaskPlan userID planID steps =
     (if steps = [] then tx_fail (ErrNew ''invalid task plan revision'')
      else Transaction
        (tx_bind (stmt (firstPlan (owned_plan planID userID))) (\<lambda>tp.
         tx_bind (stmt (findSteps (\<lambda>s. StepPlan s = planID \<and> StepStatus s = ''done''))) (\<lambda>completed.
         tx_bind (stmt (deleteSteps (\<lambda>s. StepPlan s = planID \<and> StepStatus s \<noteq> ''done''))) (\<lambda>_.
         tx_bind (reviseSteps planID (map StepKey completed) steps 0) (\<lambda>inserted.
         if inserted = 0 then tx_fail (ErrNew ''task plan revision has no unfinished steps'')
         else stmt (updatePlan planID ''pending'')))))))"

definition TaskStepResultEventKey :: "int \<Rightarrow> string \<Rightarrow> string" where
  "TaskStepResultEventKey planID stepKey = ''plan_step:'' @ show_int planID @ '':'' @ stepKey"

text \<open>AppendTranscriptEvent; the event type plan_step_result is never empty.\<close>

definition AppendTranscriptEvent :: "string \<Rightarrow> string \<Rightarrow> string \<Rightarrow> string \<Rightarrow> (plan_tables, unit) tx" where
  "AppendTranscriptEvent sessionID requestID eventKey content =
     (if sessionID = '''' \<or> requestID = '''' \<or> eventKey = '''' then tx_fail (ErrNew ''invalid transcript event'')
      else stmt (insertEvent (sessionID, requestID, eventKey) content))"

definition GetTranscriptEvent :: "string \<Rightarrow> string \<Rightarrow> string \<Rightarrow> (plan_tables, string option) tx" where
  "GetTranscriptEvent sessionID requestID eventKey =
     tx_then (stmt (firstEvent (sessionID, requestID, eventKey))) (\<lambda>r.
       case r of
         Inl e \<Rightarrow> if err_is e ErrRecordNotFound then tx_return None else tx_fail e
       | Inr content \<Rightarrow> tx_return (Some content))"

definition SaveTaskStepResult :: "string \<Rightarrow> string \<Rightarrow> int \<Rightarrow> string \<Rightarrow> string \<Rightarrow> (plan_tables, unit) tx" where
  "SaveTaskStepResult sessionID requestID planID stepKey result =
     AppendTranscriptEvent sessionID requestID (TaskStepResultEventKey planID stepKey) result"

definition LoadTaskStepResult :: "string \<Rightarrow> string \<Rightarrow> int \<Rightarrow> string \<Rightarrow> (plan_tables, string) tx" where
  "LoadTaskStepResult sessionID requestID planID stepKey =
     tx_bind (GetTranscriptEvent sessionID requestID (TaskStepResultEventKey planID stepKey)) (\<lambda>event.
       tx_return (case event of None \<Rightarrow> '''' | Some content \<Rightarrow> content))"

subsection \<open>What each write does\<close>

definition keyed :: "task_step list \<Rightarrow> bool" where
  "keyed rows \<longleftrightarrow> distinct (map (\<lambda>s. (StepPlan s, StepKey s)) rows)"

definition met :: "int \<Rightarrow> task_step list \<Rightarrow> string list \<Rightarrow> task_step list" where
  "met pid rows ds = filter (\<lambda>s. StepPlan s = pid \<and> StepKey s \<in> set ds \<and> StepStatus s = ''done'') rows"

definition deps_met :: "int \<Rightarrow> task_step list \<Rightarrow> task_step \<Rightarrow> bool" where
  "deps_met pid rows s \<longleftrightarrow>
     (\<exists>ds. StepDepends s = JsonList ds \<and> (ds = [] \<or> length (met pid rows ds) = length ds))"

definition plan_status :: "int \<Rightarrow> task_step list \<Rightarrow> string" where
  "plan_status pid rows =
     (if filter (\<lambda>s. StepPlan s = pid \<and> StepStatus s = ''failed'') rows \<noteq> [] then ''failed''
      else if filter (\<lambda>s. StepPlan s = pid \<and> StepStatus s \<noteq> ''done'' \<and> StepStatus s \<noteq> ''failed'') rows = [] then ''done''
      else ''running'')"

definition step_marked :: "int \<Rightarrow> int \<Rightarrow> string \<Rightarrow> string \<Rightarrow> plan_tables \<Rightarrow> plan_tables \<Rightarrow> bool" where
  "step_marked userID pid key next t t' \<longleftrightarrow>
     (\<exists>s. find (step_row pid key) (task_steps t) = Some s \<and> validTaskTransition (StepStatus s) next \<and>
        next \<in> {''running'', ''done'', ''failed''} \<and>
        (next = ''running'' \<longrightarrow> deps_met pid (task_steps t) s) \<and>
        t' = t\<lparr>task_steps := mark_step pid key next (task_steps t),
               task_plans := mark_plan pid (plan_status pid (mark_step pid key next (task_steps t))) (task_plans t)\<rparr>)"

lemma mark_and_count_effect:
  "always (mark_and_count pid key next) t (\<lambda>r t'. (\<exists>e. r = Inl e) \<or>
     t' = t\<lparr>task_steps := mark_step pid key next (task_steps t),
            task_plans := mark_plan pid (plan_status pid (mark_step pid key next (task_steps t))) (task_plans t)\<rparr>)"
  by (simp add: mark_and_count_def always_simps sql_defs plan_status_def)

lemma check_dependencies_effect:
  "always (check_dependencies pid s next) t
     (\<lambda>r t'. t' = t \<and> ((\<exists>e. r = Inl e) \<or> (next = ''running'' \<longrightarrow> deps_met pid (task_steps t) s)))"
  by (simp add: check_dependencies_def always_simps sql_defs deps_met_def met_def split: depends_column.splits)

lemma UpdateTaskStep_effect:
  "always (UpdateTaskStep userID pid key next) t
     (\<lambda>r t'. (\<exists>e. r = Inl e) \<and> t' = t \<or> step_marked userID pid key next t t')"
proof (cases "next \<in> {''running'', ''done'', ''failed''}")
  case False
  then show ?thesis by (simp add: UpdateTaskStep_def always_simps)
next
  case True
  let ?R = "\<lambda>r t'. (\<exists>e. r = Inl e) \<or> step_marked userID pid key next t t'"
  have "always (tx_bind (check_dependencies pid s next) (\<lambda>_. mark_and_count pid key next)) t ?R"
    if "find (step_row pid key) (task_steps t) = Some s" "validTaskTransition (StepStatus s) next" for s
  proof (rule always_bind [OF check_dependencies_effect])
    fix u t' assume t': "t' = t \<and> ((\<exists>e. Inr u = Inl e) \<or> (next = ''running'' \<longrightarrow> deps_met pid (task_steps t) s))"
    then have "step_marked userID pid key next t
        (t\<lparr>task_steps := mark_step pid key next (task_steps t),
          task_plans := mark_plan pid (plan_status pid (mark_step pid key next (task_steps t))) (task_plans t)\<rparr>)"
      using that True by (simp add: step_marked_def)
    then show "always (mark_and_count pid key next) t' ?R"
      using t' by (intro always_mono [OF mark_and_count_effect]) auto
  qed auto
  then have "always (tx_bind (stmt (firstPlan (owned_plan pid userID))) (\<lambda>tp.
         tx_bind (stmt (firstStep (step_row pid key))) (\<lambda>step.
         if \<not> validTaskTransition (StepStatus step) next
         then tx_fail (ErrNew (''invalid task transition '' @ StepStatus step @ '' -> '' @ next))
         else tx_bind (check_dependencies pid step next) (\<lambda>_. mark_and_count pid key next)))) t ?R"
    by (simp add: always_simps sql_defs split: option.splits)
  then have "always (Transaction (tx_bind (stmt (firstPlan (owned_plan pid userID))) (\<lambda>tp.
         tx_bind (stmt (firstStep (step_row pid key))) (\<lambda>step.
         if \<not> validTaskTransition (StepStatus step) next
         then tx_fail (ErrNew (''invalid task transition '' @ StepStatus step @ '' -> '' @ next))
         else tx_bind (check_dependencies pid step next) (\<lambda>_. mark_and_count pid key next))))) t
     (\<lambda>r t'. (\<exists>e. r = Inl e) \<and> t' = t \<or> step_marked userID pid key next t t')"
    by (intro always_Transaction) (auto elim!: always_mono split: sum.splits)
  with True show ?thesis unfolding UpdateTaskStep_def by auto
qed

lemma createSteps_effect:
  "keyed (task_steps t) \<Longrightarrow> always (createSteps pid is) t (\<lambda>r t'. (\<exists>e. r = Inl e) \<or>
     t' = t\<lparr>task_steps := task_steps t @ map (new_row pid) is\<rparr> \<and> keyed (task_steps t'))"
proof (induction "is" arbitrary: t)
  case Nil
  then show ?case by (simp add: always_simps)
next
  case (Cons i "is")
  show ?case
  proof (cases "find (step_row pid (NewKey i)) (task_steps t)")
    case None
    let ?t = "t\<lparr>task_steps := task_steps t @ [new_row pid i]\<rparr>"
    have "keyed (task_steps ?t)"
      using None Cons.prems by (auto simp: keyed_def new_row_def find_None_iff step_row_def)
    from Cons.IH [OF this] show ?thesis
      using None by (auto simp: always_simps sql_defs new_row_def elim!: always_mono)
  next
    case (Some s)
    then show ?thesis by (simp add: always_simps sql_defs new_row_def)
  qed
qed

lemma reviseSteps_effect:
  "keyed (task_steps t) \<Longrightarrow> always (reviseSteps pid done is n) t (\<lambda>r t'. (\<exists>e. r = Inl e) \<or>
     (let new = filter (\<lambda>i. NewKey i \<notin> set done) is in
       r = Inr (n + length new) \<and> t' = t\<lparr>task_steps := task_steps t @ map (new_row pid) new\<rparr> \<and> keyed (task_steps t')))"
proof (induction "is" arbitrary: t n)
  case Nil
  then show ?case by (simp add: always_simps)
next
  case (Cons i "is")
  show ?case
  proof (cases "NewKey i \<in> set done \<or> find (step_row pid (NewKey i)) (task_steps t) \<noteq> None")
    case True
    with Cons show ?thesis by (auto simp: always_simps sql_defs new_row_def)
  next
    case False
    let ?t = "t\<lparr>task_steps := task_steps t @ [new_row pid i]\<rparr>"
    have "keyed (task_steps ?t)"
      using False Cons.prems by (auto simp: keyed_def new_row_def find_None_iff step_row_def)
    from Cons.IH [OF this, of "Suc n"] False show ?thesis
      by (auto simp: always_simps sql_defs new_row_def Let_def elim!: always_mono)
  qed
qed

definition fresh_plan :: "int \<Rightarrow> string \<Rightarrow> string \<Rightarrow> string \<Rightarrow> int \<Rightarrow> task_plan" where
  "fresh_plan userID session request goal i =
     \<lparr>PlanID = i, PlanUser = userID, PlanSession = session, PlanRequest = request,
      PlanGoal = goal, PlanStatus = ''pending''\<rparr>"

definition plan_created :: "task_plan \<Rightarrow> new_task_step list \<Rightarrow> plan_tables \<Rightarrow> plan_tables \<Rightarrow> bool" where
  "plan_created p steps t t' \<longleftrightarrow>
     PlanStatus p = ''pending'' \<and> PlanID p = next_plan_id t \<and> 2 \<le> length steps \<and> keyed (task_steps t') \<and>
     t' = t\<lparr>task_plans := task_plans t @ [p], next_plan_id := next_plan_id t + 1,
            task_steps := task_steps t @ map (new_row (next_plan_id t)) steps\<rparr>"

lemma CreateTaskPlan_effect:
  assumes "keyed (task_steps t)"
  shows "always (CreateTaskPlan userID session request goal steps) t (\<lambda>r t'.
     t' = t \<and> (find (same_request session request) (task_plans t) = None \<longrightarrow> (\<exists>e. r = Inl e)) \<or>
     plan_created (fresh_plan userID session request goal (next_plan_id t)) steps t t' \<and>
              (\<forall>p. r = Inr p \<longrightarrow> p = fresh_plan userID session request goal (next_plan_id t)))"
proof (cases "userID \<le> 0 \<or> session = '''' \<or> request = '''' \<or> goal = '''' \<or> length steps < 2")
  case True
  then show ?thesis by (simp add: CreateTaskPlan_def always_simps)
next
  case False
  let ?p = "fresh_plan userID session request goal"
  let ?body = "tx_bind (stmt (insertPlan (?p 0))) (\<lambda>(i, affected).
              if affected = 0 then stmt (firstPlan (same_request session request))
              else if i = 0 then tx_fail (ErrNew ''created task plan has no id'')
              else tx_bind (createSteps i steps) (\<lambda>_. tx_return ((?p 0)\<lparr>PlanID := i\<rparr>)))"
  let ?Q = "\<lambda>r t'. (\<exists>e. r = Inl e) \<or> t' = t \<and> find (same_request session request) (task_plans t) \<noteq> None \<or>
      r = Inr (?p (next_plan_id t)) \<and> plan_created (?p (next_plan_id t)) steps t t'"
  let ?t = "t\<lparr>task_plans := task_plans t @ [?p (next_plan_id t)], next_plan_id := next_plan_id t + 1\<rparr>"
  have eff: "always (tx_bind (createSteps (next_plan_id t) steps) (\<lambda>_. tx_return (?p (next_plan_id t)))) ?t ?Q"
  proof (rule always_bind [OF createSteps_effect])
    show "keyed (task_steps ?t)" using assms by simp
    fix x t' assume "(\<exists>e. Inr x = Inl e) \<or> t' = ?t\<lparr>task_steps := task_steps ?t @ map (new_row (next_plan_id t)) steps\<rparr> \<and> keyed (task_steps t')"
    then have "plan_created (?p (next_plan_id t)) steps t t'"
      using False by (auto simp: plan_created_def fresh_plan_def)
    then show "always (tx_return (?p (next_plan_id t))) t' ?Q" by (simp add: always_simps)
  qed simp
  have "always ?body t ?Q"
  proof (cases "find (same_request session request) (task_plans t)")
    case None
    have "(?p 0)\<lparr>PlanID := i\<rparr> = ?p i" for i by (simp add: fresh_plan_def)
    with None eff show ?thesis
      by (auto simp: always_simps sql_defs fresh_plan_def)
  next
    case (Some x)
    then show ?thesis by (simp add: always_simps sql_defs fresh_plan_def)
  qed
  then have "always (Transaction ?body) t (\<lambda>r t'.
      t' = t \<and> (find (same_request session request) (task_plans t) = None \<longrightarrow> (\<exists>e. r = Inl e)) \<or>
      plan_created (?p (next_plan_id t)) steps t t' \<and> (\<forall>p. r = Inr p \<longrightarrow> p = ?p (next_plan_id t)))"
    by (intro always_Transaction) (auto elim!: always_mono split: sum.splits)
  moreover have "CreateTaskPlan userID session request goal steps = Transaction ?body"
    unfolding CreateTaskPlan_def fresh_plan_def Let_def using False by simp
  ultimately show ?thesis by simp
qed

definition plan_revised :: "int \<Rightarrow> new_task_step list \<Rightarrow> plan_tables \<Rightarrow> plan_tables \<Rightarrow> bool" where
  "plan_revised pid steps t t' \<longleftrightarrow>
     (let done = map StepKey (filter (\<lambda>s. StepPlan s = pid \<and> StepStatus s = ''done'') (task_steps t));
          new = filter (\<lambda>i. NewKey i \<notin> set done) steps in
      (\<exists>p \<in> set (task_plans t). PlanID p = pid) \<and> new \<noteq> [] \<and> keyed (task_steps t') \<and>
      t' = t\<lparr>task_steps := filter (\<lambda>s. \<not> (StepPlan s = pid \<and> StepStatus s \<noteq> ''done'')) (task_steps t) @ map (new_row pid) new,
             task_plans := mark_plan pid ''pending'' (task_plans t)\<rparr>)"

lemma ReviseTaskPlan_effect:
  assumes "keyed (task_steps t)"
  shows "always (ReviseTaskPlan userID pid steps) t (\<lambda>r t'. (\<exists>e. r = Inl e) \<and> t' = t \<or> plan_revised pid steps t t')"
proof (cases "steps = []")
  case True
  then show ?thesis by (simp add: ReviseTaskPlan_def always_simps)
next
  case False
  let ?R = "\<lambda>r t'. (\<exists>e. r = Inl e) \<or> plan_revised pid steps t t'"
  let ?done = "map StepKey (filter (\<lambda>s. StepPlan s = pid \<and> StepStatus s = ''done'') (task_steps t))"
  let ?t = "t\<lparr>task_steps := filter (\<lambda>s. \<not> (StepPlan s = pid \<and> StepStatus s \<noteq> ''done'')) (task_steps t)\<rparr>"
  have "keyed (task_steps ?t)" using assms by (simp add: keyed_def distinct_map inj_on_def)
  from reviseSteps_effect [OF this, of pid ?done steps 0]
  have "always (tx_bind (reviseSteps pid ?done steps 0) (\<lambda>inserted.
         if inserted = 0 then tx_fail (ErrNew ''task plan revision has no unfinished steps'')
         else stmt (updatePlan pid ''pending''))) ?t ?R" if "\<exists>p \<in> set (task_plans t). PlanID p = pid"
    by (rule always_bind)
      (use that in \<open>auto simp: always_simps sql_defs plan_revised_def Let_def\<close>)
  moreover have "\<exists>p \<in> set (task_plans t). PlanID p = pid"
    if "find (owned_plan pid userID) (task_plans t) = Some p" for p
    using that by (auto simp: find_Some_iff owned_plan_def)
  ultimately have "always (tx_bind (stmt (firstPlan (owned_plan pid userID))) (\<lambda>tp.
         tx_bind (stmt (findSteps (\<lambda>s. StepPlan s = pid \<and> StepStatus s = ''done''))) (\<lambda>completed.
         tx_bind (stmt (deleteSteps (\<lambda>s. StepPlan s = pid \<and> StepStatus s \<noteq> ''done''))) (\<lambda>_.
         tx_bind (reviseSteps pid (map StepKey completed) steps 0) (\<lambda>inserted.
         if inserted = 0 then tx_fail (ErrNew ''task plan revision has no unfinished steps'')
         else stmt (updatePlan pid ''pending'')))))) t ?R"
    by (simp add: always_simps sql_defs split: option.splits)
  then have "always (Transaction (tx_bind (stmt (firstPlan (owned_plan pid userID))) (\<lambda>tp.
         tx_bind (stmt (findSteps (\<lambda>s. StepPlan s = pid \<and> StepStatus s = ''done''))) (\<lambda>completed.
         tx_bind (stmt (deleteSteps (\<lambda>s. StepPlan s = pid \<and> StepStatus s \<noteq> ''done''))) (\<lambda>_.
         tx_bind (reviseSteps pid (map StepKey completed) steps 0) (\<lambda>inserted.
         if inserted = 0 then tx_fail (ErrNew ''task plan revision has no unfinished steps'')
         else stmt (updatePlan pid ''pending''))))))) t (\<lambda>r t'. (\<exists>e. r = Inl e) \<and> t' = t \<or> plan_revised pid steps t t')"
    by (intro always_Transaction) (auto elim!: always_mono split: sum.splits)
  with False show ?thesis by (simp add: ReviseTaskPlan_def)
qed

subsection \<open>The invariant of the tables\<close>

definition deps_done :: "task_step list \<Rightarrow> task_step \<Rightarrow> bool" where
  "deps_done rows s \<longleftrightarrow>
     (\<exists>ds. StepDepends s = JsonList ds \<and>
        (\<forall>d \<in> set ds. \<exists>r \<in> set rows. step_row (StepPlan s) d r \<and> StepStatus r = ''done''))"

definition steps_ok :: "task_step list \<Rightarrow> bool" where
  "steps_ok rows \<longleftrightarrow> keyed rows \<and>
     (\<forall>s \<in> set rows. StepStatus s \<in> {''pending'', ''running'', ''done'', ''failed''} \<and>
        (StepStatus s = ''running'' \<or> StepStatus s = ''done'' \<longrightarrow> deps_done rows s))"

definition plan_agrees :: "task_step list \<Rightarrow> task_plan \<Rightarrow> bool" where
  "plan_agrees rows p \<longleftrightarrow>
     (PlanStatus p = ''done'' \<longleftrightarrow>
        (\<exists>s \<in> set rows. StepPlan s = PlanID p) \<and> (\<forall>s \<in> set rows. StepPlan s = PlanID p \<longrightarrow> StepStatus s = ''done''))"

definition plans_ok :: "plan_tables \<Rightarrow> bool" where
  "plans_ok t \<longleftrightarrow> steps_ok (task_steps t) \<and>
     (\<forall>s \<in> set (task_steps t). StepPlan s < next_plan_id t) \<and>
     (\<forall>p \<in> set (task_plans t). PlanID p < next_plan_id t \<and> plan_agrees (task_steps t) p)"

lemma keyed_unique: "keyed rows \<Longrightarrow> step_row pid k r \<Longrightarrow> step_row pid k s \<Longrightarrow> r \<in> set rows \<Longrightarrow> s \<in> set rows \<Longrightarrow> r = s"
  unfolding keyed_def distinct_map inj_on_def step_row_def by auto

text \<open>As many completed rows as names: the names are different, and each one is completed.\<close>

lemma met_all:
  assumes k: "keyed rows" and l: "length (met pid rows ds) = length ds"
  shows "distinct ds \<and> (\<forall>d \<in> set ds. \<exists>r \<in> set rows. step_row pid d r \<and> StepStatus r = ''done'')"
proof -
  have dist: "distinct (map StepKey (met pid rows ds))"
    using k by (auto simp: keyed_def met_def distinct_map inj_on_def)
  have sub: "set (map StepKey (met pid rows ds)) \<subseteq> set ds" by (auto simp: met_def)
  have c: "card (set (map StepKey (met pid rows ds))) = length ds"
    using distinct_card [OF dist] l by simp
  then have "card (set ds) = length ds"
    using card_mono [OF _ sub] card_length [of ds] by simp
  then have "distinct ds" "set (map StepKey (met pid rows ds)) = set ds"
    using card_subset_eq [OF _ sub] c by (auto simp: card_distinct)
  moreover have "\<exists>r \<in> set rows. step_row pid d r \<and> StepStatus r = ''done''"
    if "d \<in> set (map StepKey (met pid rows ds))" for d
    using that by (auto simp: met_def step_row_def)
  ultimately show ?thesis by blast
qed

lemma deps_met_done: "keyed rows \<Longrightarrow> StepPlan s = pid \<Longrightarrow> deps_met pid rows s \<Longrightarrow> deps_done rows s"
  unfolding deps_met_def deps_done_def using met_all by fastforce

lemma keyed_mark [simp]: "keyed (mark_step pid key st rows) = keyed rows"
proof -
  have "(\<lambda>s. (StepPlan s, StepKey s)) \<circ> (\<lambda>s. if step_row pid key s then s\<lparr>StepStatus := st\<rparr> else s)
      = (\<lambda>s. (StepPlan s, StepKey s))" by (rule ext) simp
  then show ?thesis by (simp add: keyed_def mark_step_def)
qed

lemma step_row_mark [simp]: "step_row a b (s\<lparr>StepStatus := st\<rparr>) = step_row a b s"
  by (simp add: step_row_def)

text \<open>Completed rows stay: a legal transition never leaves done.\<close>

lemma deps_done_mark:
  assumes "deps_done rows s" and "keyed rows"
    and "find (step_row pid key) rows = Some f" and "StepStatus f = ''done'' \<longrightarrow> next = ''done''"
  shows "deps_done (mark_step pid key next rows) (s\<lparr>StepStatus := st\<rparr>)" "deps_done (mark_step pid key next rows) s"
proof -
  obtain ds where ds: "StepDepends s = JsonList ds"
    "\<And>d. d \<in> set ds \<Longrightarrow> \<exists>r \<in> set rows. step_row (StepPlan s) d r \<and> StepStatus r = ''done''"
    using assms(1) by (auto simp: deps_done_def)
  have f: "f \<in> set rows" "step_row pid key f" using assms(3) by (auto simp: find_Some_iff)
  have "\<exists>r \<in> set (mark_step pid key next rows). step_row (StepPlan s) d r \<and> StepStatus r = ''done''"
    if d: "d \<in> set ds" for d
  proof -
    from ds(2) [OF d] obtain r where r: "r \<in> set rows" "step_row (StepPlan s) d r" "StepStatus r = ''done''" by blast
    let ?r = "if step_row pid key r then r\<lparr>StepStatus := next\<rparr> else r"
    have "?r \<in> set (mark_step pid key next rows)" using r(1) by (auto simp: mark_step_def)
    moreover have "step_row (StepPlan s) d ?r \<and> StepStatus ?r = ''done''"
      using r keyed_unique [OF assms(2) _ f(2) r(1) f(1)] assms(4) by auto
    ultimately show ?thesis by blast
  qed
  with ds(1) show "deps_done (mark_step pid key next rows) (s\<lparr>StepStatus := st\<rparr>)"
    "deps_done (mark_step pid key next rows) s"
    by (auto simp: deps_done_def)
qed

lemma deps_done_superset: "deps_done rows s \<Longrightarrow> set rows \<subseteq> set rows' \<Longrightarrow> deps_done rows' s"
  unfolding deps_done_def by blast

lemma not_done_transition: "validTaskTransition a next \<Longrightarrow> a = ''done'' \<longrightarrow> next = ''done''"
  by (auto simp: validTaskTransition_def split: if_splits)

lemma steps_ok_mark:
  assumes ok: "steps_ok (task_steps t)" and m: "step_marked userID pid key next t t'"
  shows "steps_ok (task_steps t')"
proof -
  obtain f where f: "find (step_row pid key) (task_steps t) = Some f" "validTaskTransition (StepStatus f) next"
    "next \<in> {''running'', ''done'', ''failed''}" "next = ''running'' \<longrightarrow> deps_met pid (task_steps t) f"
    "task_steps t' = mark_step pid key next (task_steps t)"
    using m by (auto simp: step_marked_def)
  let ?rows = "task_steps t"
  have fin: "f \<in> set ?rows" "step_row pid key f" using f(1) by (auto simp: find_Some_iff)
  have k: "keyed ?rows" using ok by (simp add: steps_ok_def)
  note keep = deps_done_mark [OF _ k f(1) not_done_transition [OF f(2)]]
  have "deps_done ?rows f" if "next = ''running'' \<or> next = ''done''"
  proof (cases "StepStatus f = ''running'' \<or> StepStatus f = ''done''")
    case True
    with ok fin(1) show ?thesis by (auto simp: steps_ok_def)
  next
    case False
    with that f(2) have "next = ''running''" by (auto simp: validTaskTransition_def split: if_splits)
    with f(4) fin(2) deps_met_done [OF k, of f pid] show ?thesis by (simp add: step_row_def)
  qed
  then have new: "deps_done (mark_step pid key next ?rows) (f\<lparr>StepStatus := next\<rparr>)"
    if "next = ''running'' \<or> next = ''done''" using that keep(1) by blast
  have "StepStatus s \<in> {''pending'', ''running'', ''done'', ''failed''} \<and>
      (StepStatus s = ''running'' \<or> StepStatus s = ''done'' \<longrightarrow> deps_done (mark_step pid key next ?rows) s)"
    if s: "s \<in> set (mark_step pid key next ?rows)" for s
  proof -
    from s obtain s0 where s0: "s0 \<in> set ?rows" "s = (if step_row pid key s0 then s0\<lparr>StepStatus := next\<rparr> else s0)"
      by (auto simp: mark_step_def)
    show ?thesis
    proof (cases "step_row pid key s0")
      case True
      then have "s0 = f" using keyed_unique [OF k _ fin(2) s0(1) fin(1)] by blast
      with True s0(2) new f(3) show ?thesis by auto
    next
      case False
      have old: "StepStatus s0 \<in> {''pending'', ''running'', ''done'', ''failed''}"
        "StepStatus s0 = ''running'' \<or> StepStatus s0 = ''done'' \<Longrightarrow> deps_done ?rows s0"
        using ok s0(1) by (auto simp: steps_ok_def)
      with keep(2) [of s0] False s0(2) show ?thesis by auto
    qed
  qed
  with k show ?thesis unfolding f(5) steps_ok_def by simp
qed

definition rows_of :: "int \<Rightarrow> task_step list \<Rightarrow> task_step list" where
  "rows_of pid rows = filter (\<lambda>s. StepPlan s = pid) rows"

lemma plan_agrees_rows:
  "plan_agrees rows p \<longleftrightarrow> (PlanStatus p = ''done'' \<longleftrightarrow>
     rows_of (PlanID p) rows \<noteq> [] \<and> (\<forall>s \<in> set (rows_of (PlanID p) rows). StepStatus s = ''done''))"
  by (auto simp: plan_agrees_def rows_of_def filter_empty_conv)

lemma rows_of_mark: "rows_of q (mark_step pid key st rows) = mark_step pid key st (rows_of q rows)"
  by (induction rows) (auto simp: rows_of_def mark_step_def step_row_def)

lemma mark_other: "q \<noteq> pid \<Longrightarrow> mark_step pid key st (rows_of q rows) = rows_of q rows"
  unfolding mark_step_def rows_of_def by (rule map_idI) (auto simp: step_row_def)

lemma plan_status_done:
  "plan_status pid rows = ''done'' \<longleftrightarrow> (\<forall>s \<in> set (rows_of pid rows). StepStatus s = ''done'')"
  by (auto simp: plan_status_def rows_of_def filter_empty_conv)

lemma plans_ok_mark:
  assumes ok: "plans_ok t" and m: "step_marked userID pid key next t t'"
  shows "plans_ok t'"
proof -
  let ?rows = "mark_step pid key next (task_steps t)"
  obtain f where f: "find (step_row pid key) (task_steps t) = Some f"
    "t' = t\<lparr>task_steps := ?rows, task_plans := mark_plan pid (plan_status pid ?rows) (task_plans t)\<rparr>"
    using m by (auto simp: step_marked_def)
  have fin: "f \<in> set (task_steps t)" "step_row pid key f" using f(1) by (auto simp: find_Some_iff)
  have ne: "rows_of pid ?rows \<noteq> []"
  proof -
    have "f\<lparr>StepStatus := next\<rparr> \<in> set (rows_of pid ?rows)"
      using fin by (force simp: rows_of_def mark_step_def step_row_def)
    then show ?thesis by (cases "rows_of pid ?rows") auto
  qed
  have "steps_ok (task_steps t')" by (rule steps_ok_mark [OF _ m]) (use ok in \<open>simp add: plans_ok_def\<close>)
  moreover have "\<forall>s \<in> set ?rows. StepPlan s < next_plan_id t"
    using ok by (auto simp: plans_ok_def mark_step_def)
  moreover have "PlanID p < next_plan_id t \<and> plan_agrees ?rows p" if p: "p \<in> set (task_plans t')" for p
  proof -
    from p f(2) obtain p0 where p0: "p0 \<in> set (task_plans t)"
      "p = (if PlanID p0 = pid then p0\<lparr>PlanStatus := plan_status pid ?rows\<rparr> else p0)"
      by (auto simp: mark_plan_def)
    have "PlanID p0 < next_plan_id t" "plan_agrees (task_steps t) p0" using ok p0(1) by (auto simp: plans_ok_def)
    with p0(2) show ?thesis
      using ne plan_status_done [of pid ?rows] by (auto simp: plan_agrees_rows rows_of_mark mark_other)
  qed
  ultimately show ?thesis using f(2) by (simp add: plans_ok_def)
qed

lemma steps_ok_append:
  assumes "steps_ok rows" and "keyed (rows @ map (new_row pid) is)"
  shows "steps_ok (rows @ map (new_row pid) is)"
  using assms deps_done_superset [of rows _ "rows @ map (new_row pid) is"]
  unfolding steps_ok_def by (auto simp: new_row_def)

lemma plans_ok_created:
  assumes ok: "plans_ok t" and c: "plan_created p steps t t'"
  shows "plans_ok t'"
proof -
  let ?i = "next_plan_id t"
  have t': "t' = t\<lparr>task_plans := task_plans t @ [p], next_plan_id := ?i + 1,
      task_steps := task_steps t @ map (new_row ?i) steps\<rparr>"
    and p: "PlanStatus p = ''pending''" "PlanID p = ?i" and k: "keyed (task_steps t')"
    and l: "2 \<le> length steps" using c by (auto simp: plan_created_def)
  have "steps_ok (task_steps t')"
    using steps_ok_append [of "task_steps t" ?i steps] ok k t' by (simp add: plans_ok_def)
  moreover have "rows_of ?i (task_steps t') = map (new_row ?i) steps"
    using ok by (auto simp: plans_ok_def rows_of_def t' new_row_def filter_empty_conv)
  moreover have "\<exists>x. x \<in> set steps" using l by (cases steps) auto
  ultimately have "plan_agrees (task_steps t') p"
    using p by (auto simp: plan_agrees_rows new_row_def)
  moreover have "rows_of q (task_steps t') = rows_of q (task_steps t)" if "q < ?i" for q
    using that by (auto simp: rows_of_def t' new_row_def)
  ultimately show ?thesis
    using ok \<open>steps_ok (task_steps t')\<close> p
    by (auto simp: plans_ok_def t' plan_agrees_rows new_row_def)
qed

lemma plans_ok_revised:
  assumes ok: "plans_ok t" and r: "plan_revised pid steps t t'"
  shows "plans_ok t'"
proof -
  define kept where "kept = filter (\<lambda>s. \<not> (StepPlan s = pid \<and> StepStatus s \<noteq> ''done'')) (task_steps t)"
  obtain new where new: "new \<noteq> []" "keyed (kept @ map (new_row pid) new)"
    "t' = t\<lparr>task_steps := kept @ map (new_row pid) new, task_plans := mark_plan pid ''pending'' (task_plans t)\<rparr>"
    "\<exists>p \<in> set (task_plans t). PlanID p = pid"
    using r by (auto simp: plan_revised_def Let_def kept_def)
  have sok: "steps_ok (task_steps t)" using ok by (simp add: plans_ok_def)
  have "deps_done kept s" if "deps_done (task_steps t) s" for s
  proof -
    have "r \<in> set kept" if "r \<in> set (task_steps t)" "StepStatus r = ''done''" for r
      using that by (simp add: kept_def)
    with that show ?thesis unfolding deps_done_def by blast
  qed
  then have "steps_ok kept"
    using sok unfolding steps_ok_def by (auto simp: kept_def keyed_def distinct_map inj_on_def)
  from steps_ok_append [OF this new(2)] have s': "steps_ok (task_steps t')" using new(3) by simp
  have b: "\<forall>s \<in> set (task_steps t'). StepPlan s < next_plan_id t"
    using ok new(4) by (auto simp: plans_ok_def new(3) kept_def new_row_def)
  obtain x where x: "x \<in> set new" using new(1) by (cases new) auto
  have "PlanID p < next_plan_id t \<and> plan_agrees (task_steps t') p" if p: "p \<in> set (task_plans t')" for p
  proof -
    from p new(3) obtain p0 where p0: "p0 \<in> set (task_plans t)"
      "p = (if PlanID p0 = pid then p0\<lparr>PlanStatus := ''pending''\<rparr> else p0)"
      by (auto simp: mark_plan_def)
    have o: "PlanID p0 < next_plan_id t" "plan_agrees (task_steps t) p0" using ok p0(1) by (auto simp: plans_ok_def)
    show ?thesis
    proof (cases "PlanID p0 = pid")
      case True
      have "new_row pid x \<in> set (rows_of pid (task_steps t'))" "StepStatus (new_row pid x) \<noteq> ''done''"
        using x by (auto simp: rows_of_def new(3) new_row_def)
      with True p0(2) o(1) show ?thesis by (auto simp: plan_agrees_rows)
    next
      case False
      then have "rows_of (PlanID p0) (task_steps t') = rows_of (PlanID p0) (task_steps t)"
        by (auto simp: rows_of_def new(3) kept_def new_row_def filter_empty_conv intro!: filter_cong)
      with False p0(2) o show ?thesis by (simp add: plan_agrees_rows)
    qed
  qed
  with s' b show ?thesis by (simp add: plans_ok_def new(3))
qed

subsection \<open>Sequences of calls\<close>

text \<open>The calls that write, in any order and by any user, their results ignored.\<close>

datatype plan_call =
    CallCreate int string string string "new_task_step list"
  | CallUpdate int int string string
  | CallRevise int int "new_task_step list"
  | CallSave string string int string string

fun plan_call_run :: "plan_call \<Rightarrow> plan_tables tx_state \<Rightarrow> plan_tables tx_state" where
  "plan_call_run (CallCreate u s r g steps) st = snd (CreateTaskPlan u s r g steps st)"
| "plan_call_run (CallUpdate u pid key next) st = snd (UpdateTaskStep u pid key next st)"
| "plan_call_run (CallRevise u pid steps) st = snd (ReviseTaskPlan u pid steps st)"
| "plan_call_run (CallSave s r pid key res) st = snd (SaveTaskStepResult s r pid key res st)"

definition plan_calls :: "plan_call list \<Rightarrow> plan_tables tx_state \<Rightarrow> plan_tables tx_state" where
  "plan_calls cs st = fold plan_call_run cs st"

definition no_plans :: plan_tables where
  "no_plans = \<lparr>task_plans = [], task_steps = [], transcript = Map.empty, next_plan_id = 1\<rparr>"

lemma SaveTaskStepResult_effect:
  "always (SaveTaskStepResult s r pid key res) t (\<lambda>_ t'. task_plans t' = task_plans t \<and>
     task_steps t' = task_steps t \<and> next_plan_id t' = next_plan_id t)"
  by (simp add: SaveTaskStepResult_def AppendTranscriptEvent_def always_simps sql_defs)

lemma plan_call_ok:
  assumes "plans_ok (tables st)"
  shows "plans_ok (tables (plan_call_run c st))"
proof -
  have k: "keyed (task_steps (tables st))" using assms by (simp add: plans_ok_def steps_ok_def)
  have run: "plans_ok (tables (snd (m st)))" if "always m (tables st) Q" "\<And>r t'. Q r t' \<Longrightarrow> plans_ok t'"
    for m :: "(plan_tables, 'a) tx" and Q
    using alwaysD [OF that(1), of "fst (m st)" "snd (m st)"] that(2) by simp
  show ?thesis
  proof (cases c)
    case (CallCreate u s r g steps)
    show ?thesis unfolding CallCreate plan_call_run.simps
      by (rule run [OF CreateTaskPlan_effect [OF k]]) (use plans_ok_created assms in blast)
  next
    case (CallUpdate u pid key nx)
    show ?thesis unfolding CallUpdate plan_call_run.simps
      by (rule run [OF UpdateTaskStep_effect]) (use plans_ok_mark assms in blast)
  next
    case (CallRevise u pid steps)
    show ?thesis unfolding CallRevise plan_call_run.simps
      by (rule run [OF ReviseTaskPlan_effect [OF k]]) (use plans_ok_revised assms in blast)
  next
    case (CallSave s r pid key res)
    show ?thesis unfolding CallSave plan_call_run.simps
      by (rule run [OF SaveTaskStepResult_effect]) (use assms in \<open>simp add: plans_ok_def\<close>)
  qed
qed

text \<open>
  C16 (invariant). Whatever calls are made on the task-plan store, in whatever order, and wherever
  the database fails, loses the reply of a commit or refuses a statement: step keys stay unique per
  plan, a step is running or done only if every step it depends on is done, and a plan is marked
  done exactly when it has steps and all of them are done.
\<close>

theorem task_plans_stay_consistent:
  "plans_ok (tables (plan_calls cs \<lparr>tables = no_plans, plan = p\<rparr>))"
proof -
  have "plans_ok (tables st) \<Longrightarrow> plans_ok (tables (plan_calls cs st))" for st
    unfolding plan_calls_def by (induction cs arbitrary: st) (simp_all add: plan_call_ok)
  moreover have "plans_ok no_plans" by (simp add: no_plans_def plans_ok_def steps_ok_def keyed_def)
  ultimately show ?thesis by simp
qed

text \<open>
  (error). A pending step whose depends_on column names a step twice can never be started: the
  guard compares the number of completed rows with the number of names, so every run of
  UpdateTaskStep fails and changes nothing, also when all the dependencies are done.
\<close>

theorem duplicate_dependency_never_starts:
  assumes "keyed (task_steps t)" and "find (step_row pid key) (task_steps t) = Some s"
    and "StepStatus s = ''pending''" and "StepDepends s = JsonList ds" and "\<not> distinct ds"
  shows "always (UpdateTaskStep userID pid key ''running'') t (\<lambda>r t'. (\<exists>e. r = Inl e) \<and> t' = t)"
proof (rule always_mono [OF UpdateTaskStep_effect])
  fix r t'
  assume "(\<exists>e. r = Inl e) \<and> t' = t \<or> step_marked userID pid key ''running'' t t'"
  moreover have "\<not> step_marked userID pid key ''running'' t t'"
  proof
    assume "step_marked userID pid key ''running'' t t'"
    then have "deps_met pid (task_steps t) s" using assms(2) by (auto simp: step_marked_def)
    then have "ds = [] \<or> length (met pid (task_steps t) ds) = length ds"
      using assms(4) by (simp add: deps_met_def)
    with met_all [OF assms(1)] assms(5) show False by auto
  qed
  ultimately show "(\<exists>e. r = Inl e) \<and> t' = t" by blast
qed

definition repeated_tables :: plan_tables where
  "repeated_tables = no_plans\<lparr>task_steps :=
     [\<lparr>StepPlan = 1, StepKey = ''collect'', StepDescription = ''d'', StepStatus = ''done'', StepDepends = JsonList []\<rparr>,
      \<lparr>StepPlan = 1, StepKey = ''build'', StepDescription = ''d'', StepStatus = ''pending'',
       StepDepends = JsonList [''collect'', ''collect'']\<rparr>]\<rparr>"

theorem duplicate_dependency_never_starts_witness:
  "always (UpdateTaskStep 7 1 ''build'' ''running'') repeated_tables (\<lambda>r t'. (\<exists>e. r = Inl e) \<and> t' = repeated_tables)"
  by (rule duplicate_dependency_never_starts [where s = "task_steps repeated_tables ! 1" and ds = "[''collect'', ''collect'']"])
    (simp_all add: repeated_tables_def no_plans_def keyed_def step_row_def)

subsection \<open>Step results\<close>

lemma split_at_colon: "CHR '':'' \<notin> set a \<Longrightarrow> CHR '':'' \<notin> set b \<Longrightarrow> a @ '':'' @ x = b @ '':'' @ y \<Longrightarrow> a = b \<and> x = y"
proof (induction a arbitrary: b)
  case Nil
  then show ?case by (cases b) auto
next
  case (Cons c a)
  then show ?case by (cases b) auto
qed

lemma event_key_inject:
  assumes "in_int64 i" and "in_int64 j" and "TaskStepResultEventKey i k = TaskStepResultEventKey j l"
  shows "i = j \<and> k = l"
  using split_at_colon [OF show_int_no_colon show_int_no_colon, of i k j l] assms show_int_inject
  by (auto simp: TaskStepResultEventKey_def)

text \<open>
  (roundtrip). Without faults a saved step result is what LoadTaskStepResult then returns,
  unless the step already had one, which is kept; and saving it changes no other step's result, of
  this or any other plan: the event keys of different steps are different.
\<close>

theorem step_result_roundtrip:
  assumes "session \<noteq> ''''" and "request \<noteq> ''''" and "in_int64 pid" and "in_int64 pid'"
  shows "\<exists>t'. SaveTaskStepResult session request pid key res (quiet now t) = (Inr (), quiet now t') \<and>
    LoadTaskStepResult session request pid' key' (quiet now t') =
      (Inr (if (pid', key') = (pid, key) \<and> transcript t (session, request, TaskStepResultEventKey pid key) = None then res
            else (case transcript t (session, request, TaskStepResultEventKey pid' key') of None \<Rightarrow> '''' | Some c \<Rightarrow> c)),
       quiet now t')"
proof -
  have "TaskStepResultEventKey pid key \<noteq> ''''" by (simp add: TaskStepResultEventKey_def)
  moreover have "TaskStepResultEventKey pid' key' = TaskStepResultEventKey pid key \<longleftrightarrow> pid' = pid \<and> key' = key"
    using event_key_inject [OF assms(4,3), of key' key] by auto
  ultimately show ?thesis
    using assms
    by (cases "transcript t (session, request, TaskStepResultEventKey pid key)")
      (force simp: SaveTaskStepResult_def AppendTranscriptEvent_def LoadTaskStepResult_def GetTranscriptEvent_def
        tx_run sql_defs split: option.splits)+
qed

theorem step_result_roundtrip_witness:
  "\<exists>t'. SaveTaskStepResult ''s'' ''r'' 1 ''build'' ''out'' (quiet 0 no_plans) = (Inr (), quiet 0 t') \<and>
    LoadTaskStepResult ''s'' ''r'' 1 ''build'' (quiet 0 t') = (Inr ''out'', quiet 0 t')"
  using step_result_roundtrip [of "''s''" "''r''" 1 1 "''build''" "''out''" 0 no_plans "''build''"]
  by (simp add: in_int64_def no_plans_def)

end
