(* ===== verification/Plan_Executor.thy ===== *)
theory Plan_Executor
  imports Plan_Proposal Plan_Store "HOL-Library.AList"
begin

text \<open>
  The plan executor of the agent service (executePlannedTask and what it calls in
  src/internal/rpc/agent/workflow/agent/plan_executor.go), on the task-plan store of Plan_Store.
  The language models are parameters: the planner, the runner of one step and the synthesis answer
  with a text or an error, differently in every call. The lemmas show that every iteration makes
  progress, so that the iteration limit is never what ends a run, and that a plan the executor
  made itself never gets stuck.
\<close>

subsection \<open>What surrounds a run\<close>

record plan_question =
  q_Query :: string
  q_Previous :: "task_step list"
  q_Results :: "(string \<times> string) list"
  q_Failure :: string
  q_MaxSteps :: nat

record step_prompt =
  sp_Goal :: string
  sp_Key :: string
  sp_Description :: string
  sp_Completed :: string

text \<open>
  The models see their prompts (the sources format them into texts with the same contents); the
  number of the call makes the answers independent. key_order is the iteration order of a map.
\<close>

record plan_env =
  PlanLimits :: "(int \<times> int) option"     \<comment> \<open>PlanMaxSteps and PlanMaxReplans of the configuration\<close>
  has_model :: bool
  planner :: "nat \<Rightarrow> plan_question \<Rightarrow> goerr + string"
  runner :: "nat \<Rightarrow> step_prompt \<Rightarrow> goerr + string"
  synthesizer :: "string \<Rightarrow> string \<Rightarrow> goerr + string"
  unmarshal_plan :: "string \<Rightarrow> goerr + planProposal"
  unmarshal_result :: "string \<Rightarrow> stepExecutionResult option"
  key_order :: "string list \<Rightarrow> string list"

record principal =
  pr_UserID :: int
  pr_SessionID :: string
  pr_RequestID :: string

record plan_world =
  db :: "plan_tables tx_state"
  n_plans :: nat
  n_runs :: nat

definition on_db :: "(plan_tables, 'a) tx \<Rightarrow> plan_world \<Rightarrow> (goerr + 'a) \<times> plan_world" where
  "on_db m w = (case m (db w) of (r, s) \<Rightarrow> (r, w\<lparr>db := s\<rparr>))"

definition max_steps :: "plan_env \<Rightarrow> nat" where
  "max_steps env = (case PlanLimits env of Some (m, _) \<Rightarrow> if 0 < m then nat m else 6 | None \<Rightarrow> 6)"

definition max_replans :: "plan_env \<Rightarrow> nat" where
  "max_replans env = (case PlanLimits env of Some (_, r) \<Rightarrow> if 0 < r then nat r else 1 | None \<Rightarrow> 1)"

subsection \<open>Steps and results\<close>

definition toNewTaskSteps :: "planStepProposal list \<Rightarrow> new_task_step list" where
  "toNewTaskSteps = map (\<lambda>s. \<lparr>NewKey = Key s, NewDescription = Description s, NewDepends = JsonList (DependsOn s)\<rparr>)"

definition completedStepKeys :: "task_step list \<Rightarrow> string list" where
  "completedStepKeys steps = map StepKey (filter (\<lambda>s. StepStatus s = ''done'') steps)"

definition allPlanStepsDone :: "task_step list \<Rightarrow> bool" where
  "allPlanStepsDone steps \<longleftrightarrow> steps \<noteq> [] \<and> list_all (\<lambda>s. StepStatus s = ''done'') steps"

fun ready_step :: "(string \<Rightarrow> string option) \<Rightarrow> task_step list \<Rightarrow> plan_error + task_step" where
  "ready_step status [] = Inl NoReadyStep"
| "ready_step status (s # ss) =
     (if StepStatus s \<noteq> ''pending'' \<and> StepStatus s \<noteq> ''running'' then ready_step status ss
      else (case StepDepends s of
              OtherJson t \<Rightarrow> Inl (DecodeError (ErrNew t))
            | JsonList ds \<Rightarrow>
                if list_all (\<lambda>d. status d = Some ''done'') ds then Inr s else ready_step status ss))"

definition nextReadyStep :: "task_step list \<Rightarrow> plan_error + task_step" where
  "nextReadyStep steps = ready_step (map_of (rev (map (\<lambda>s. (StepKey s, StepStatus s)) steps))) steps"

definition sorted_keys :: "(string \<times> string) list \<Rightarrow> string list" where
  "sorted_keys results = sort (map fst results)"

definition result_of :: "(string \<times> string) list \<Rightarrow> string \<Rightarrow> string" where
  "result_of results k = (case map_of results k of None \<Rightarrow> '''' | Some v \<Rightarrow> v)"

definition buildStepPrompt :: "string \<Rightarrow> task_step \<Rightarrow> (string \<times> string) list \<Rightarrow> step_prompt" where
  "buildStepPrompt goal step results =
     \<lparr>sp_Goal = goal, sp_Key = StepKey step, sp_Description = StepDescription step,
      sp_Completed = concat (map (\<lambda>k. [CHR 0x0A] @ ''- '' @ k @ '': '' @ result_of results k) (sorted_keys results))\<rparr>"

definition synthesizePlanResult :: "plan_env \<Rightarrow> string \<Rightarrow> (string \<times> string) list \<Rightarrow> plan_error + string" where
  "synthesizePlanResult env goal results =
     (let body = concat (map (\<lambda>k. [CHR 0x0A] @ ''['' @ k @ '']'' @ [CHR 0x0A] @ result_of results k @ [CHR 0x0A]) (sorted_keys results)) in
      if \<not> has_model env then Inr (TrimSpace body)
      else (case synthesizer env goal body of Inl e \<Rightarrow> Inl (ModelError e) | Inr text \<Rightarrow> Inr text))"

text \<open>SafeError; errorText of a nil error is empty.\<close>

definition errorText :: "goerr option \<Rightarrow> string" where
  "errorText err =
     (case err of
        None \<Rightarrow> ''''
      | Some e \<Rightarrow>
          if substr (err_text e) ''SetLimitExceeded'' then ''provider inference limit exceeded''
          else if 512 < length (err_text e) then take 512 (err_text e) @ ''...'' else err_text e)"

definition generatePlan :: "plan_env \<Rightarrow> nat \<Rightarrow> plan_question \<Rightarrow> plan_error + planProposal" where
  "generatePlan env n q =
     (if \<not> has_model env then Inl NilPlanner
      else (case planner env n q of
              Inl e \<Rightarrow> Inl (ModelError e)
            | Inr content \<Rightarrow>
                (case parsePlanProposal (unmarshal_plan env) content of
                   Inl e \<Rightarrow> Inl e
                 | Inr p \<Rightarrow>
                     (case validatePlanProposal (key_order env) p (q_MaxSteps q) 2 (completedStepKeys (q_Previous q)) of
                        Some e \<Rightarrow> Inl e
                      | None \<Rightarrow> Inr p))))"

subsection \<open>One iteration\<close>

text \<open>What an iteration ends in: the return of the executor, or the results and replans to go on with.\<close>

datatype round_result = Finished "plan_error + string" | Again "(string \<times> string) list" nat

definition complete_step :: "principal \<Rightarrow> int \<Rightarrow> string \<Rightarrow> string \<Rightarrow> (string \<times> string) list \<Rightarrow> nat \<Rightarrow> plan_world \<Rightarrow> round_result \<times> plan_world" where
  "complete_step pr pid key output results replans w =
     (case on_db (SaveTaskStepResult (pr_SessionID pr) (pr_RequestID pr) pid key output) w of
        (Inl e, w1) \<Rightarrow> (Finished (Inl (StoreError e)), w1)
      | (Inr _, w1) \<Rightarrow>
          (case on_db (UpdateTaskStep (pr_UserID pr) pid key ''done'') w1 of
             (Inl e, w2) \<Rightarrow> (Finished (Inl (StoreError e)), w2)
           | (Inr _, w2) \<Rightarrow> (Again (AList.update key output results) replans, w2)))"

definition replan ::
    "plan_env \<Rightarrow> principal \<Rightarrow> string \<Rightarrow> int \<Rightarrow> task_step list \<Rightarrow> string \<Rightarrow> goerr option \<Rightarrow> string \<Rightarrow>
     (string \<times> string) list \<Rightarrow> nat \<Rightarrow> plan_world \<Rightarrow> round_result \<times> plan_world" where
  "replan env pr query pid steps key invokeErr reason results replans w =
     (case on_db (UpdateTaskStep (pr_UserID pr) pid key ''failed'') w of
        (_, w1) \<Rightarrow>
          if max_replans env \<le> replans then
            (Finished (Inl (case invokeErr of Some e \<Rightarrow> ModelError e | None \<Rightarrow> StepFailed key reason)), w1)
          else
            (let failure = (if TrimSpace reason = '''' then errorText invokeErr else TrimSpace reason);
                 q = \<lparr>q_Query = query, q_Previous = steps, q_Results = results, q_Failure = key @ '': '' @ failure,
                      q_MaxSteps = max_steps env\<rparr>;
                 w2 = w1\<lparr>n_plans := n_plans w1 + 1\<rparr> in
             case generatePlan env (n_plans w1) q of
               Inl e \<Rightarrow> (Finished (Inl (Joined (case invokeErr of None \<Rightarrow> [e] | Some i \<Rightarrow> [ModelError i, e]))), w2)
             | Inr p \<Rightarrow>
                 (case validatePlanProposal (key_order env) p (max_steps env) 1 (completedStepKeys steps) of
                    Some e \<Rightarrow> (Finished (Inl e), w2)
                  | None \<Rightarrow>
                      (case on_db (ReviseTaskPlan (pr_UserID pr) pid (toNewTaskSteps (Steps p))) w2 of
                         (Inl e, w3) \<Rightarrow> (Finished (Inl (StoreError e)), w3)
                       | (Inr _, w3) \<Rightarrow> (Again results (Suc replans), w3)))))"

definition run_step ::
    "plan_env \<Rightarrow> principal \<Rightarrow> string \<Rightarrow> task_plan \<Rightarrow> task_step list \<Rightarrow> task_step \<Rightarrow>
     (string \<times> string) list \<Rightarrow> nat \<Rightarrow> plan_world \<Rightarrow> round_result \<times> plan_world" where
  "run_step env pr query tp steps step results replans w =
     (let resp = runner env (n_runs w) (buildStepPrompt (PlanGoal tp) step results);
          w1 = w\<lparr>n_runs := n_runs w + 1\<rparr> in
      case resp of
        Inl e \<Rightarrow> replan env pr query (PlanID tp) steps (StepKey step) (Some e) (errorText (Some e)) results replans w1
      | Inr content \<Rightarrow>
          (let parsed = parseStepExecutionResult (unmarshal_result env) content in
           if Status parsed \<noteq> ''failed'' \<and> \<not> NeedsReplan parsed
           then complete_step pr (PlanID tp) (StepKey step) (Output parsed) results replans w1
           else replan env pr query (PlanID tp) steps (StepKey step) None (Reason parsed) results replans w1))"

definition executor_round ::
    "plan_env \<Rightarrow> principal \<Rightarrow> string \<Rightarrow> task_plan \<Rightarrow> (string \<times> string) list \<Rightarrow> nat \<Rightarrow> plan_world \<Rightarrow>
     round_result \<times> plan_world" where
  "executor_round env pr query tp results replans w =
     (case on_db (GetTaskPlan (pr_UserID pr) (PlanID tp)) w of
        (Inl e, w1) \<Rightarrow> (Finished (Inl (StoreError e)), w1)
      | (Inr (_, steps), w1) \<Rightarrow>
          if allPlanStepsDone steps then (Finished (synthesizePlanResult env query results), w1)
          else (case nextReadyStep steps of
            Inl e \<Rightarrow> (Finished (Inl e), w1)
          | Inr step \<Rightarrow>
              if StepStatus step = ''running'' then
                (case on_db (LoadTaskStepResult (pr_SessionID pr) (pr_RequestID pr) (PlanID tp) (StepKey step)) w1 of
                   (r, w2) \<Rightarrow>
                     (case r of
                        Inr saved \<Rightarrow>
                          if saved \<noteq> '''' then
                            (case on_db (UpdateTaskStep (pr_UserID pr) (PlanID tp) (StepKey step) ''done'') w2 of
                               (Inl e, w3) \<Rightarrow> (Finished (Inl (StoreError e)), w3)
                             | (Inr _, w3) \<Rightarrow> (Again (AList.update (StepKey step) saved results) replans, w3))
                          else run_step env pr query tp steps step results replans w2
                      | Inl _ \<Rightarrow> run_step env pr query tp steps step results replans w2))
              else
                (case on_db (UpdateTaskStep (pr_UserID pr) (PlanID tp) (StepKey step) ''running'') w1 of
                   (Inl e, w2) \<Rightarrow> (Finished (Inl (StoreError e)), w2)
                 | (Inr _, w2) \<Rightarrow> run_step env pr query tp steps step results replans w2)))"

fun executor_loop ::
    "plan_env \<Rightarrow> principal \<Rightarrow> string \<Rightarrow> task_plan \<Rightarrow> nat \<Rightarrow> (string \<times> string) list \<Rightarrow> nat \<Rightarrow> plan_world \<Rightarrow>
     (plan_error + string) \<times> plan_world" where
  "executor_loop env pr query tp 0 results replans w = (Inl IterationLimit, w)"
| "executor_loop env pr query tp (Suc n) results replans w =
     (case executor_round env pr query tp results replans w of
        (Finished r, w1) \<Rightarrow> (r, w1)
      | (Again results1 replans1, w1) \<Rightarrow> executor_loop env pr query tp n results1 replans1 w1)"

subsection \<open>A run\<close>

fun load_results :: "principal \<Rightarrow> int \<Rightarrow> task_step list \<Rightarrow> (string \<times> string) list \<Rightarrow> plan_world \<Rightarrow> (string \<times> string) list \<times> plan_world" where
  "load_results pr pid [] results w = (results, w)"
| "load_results pr pid (s # ss) results w =
     (if StepStatus s = ''done'' then
        (case on_db (LoadTaskStepResult (pr_SessionID pr) (pr_RequestID pr) pid (StepKey s)) w of
           (Inr res, w1) \<Rightarrow> load_results pr pid ss (if res \<noteq> '''' then AList.update (StepKey s) res results else results) w1
         | (Inl _, w1) \<Rightarrow> load_results pr pid ss results w1)
      else load_results pr pid ss results w)"

text \<open>The proposal of a new plan: the planner's, or the fallback plan when planning fails.\<close>

definition first_proposal :: "plan_env \<Rightarrow> string \<Rightarrow> plan_world \<Rightarrow> (plan_error + planProposal) \<times> plan_world" where
  "first_proposal env query w =
     (let q = \<lparr>q_Query = query, q_Previous = [], q_Results = [], q_Failure = '''', q_MaxSteps = max_steps env\<rparr>;
          w1 = w\<lparr>n_plans := n_plans w + 1\<rparr> in
      case generatePlan env (n_plans w) q of
        Inr p \<Rightarrow> (Inr p, w1)
      | Inl planErr \<Rightarrow>
          (case validatePlanProposal (key_order env) (fallbackPlan query) (max_steps env) 2 [] of
             Some validateErr \<Rightarrow> (Inl (Joined [planErr, validateErr]), w1)
           | None \<Rightarrow> (Inr (fallbackPlan query), w1)))"

definition find_or_create ::
    "plan_env \<Rightarrow> principal \<Rightarrow> string \<Rightarrow> plan_world \<Rightarrow> (plan_error + task_plan \<times> task_step list) \<times> plan_world" where
  "find_or_create env pr query w =
     (case on_db (GetTaskPlanByRequest (pr_UserID pr) (pr_SessionID pr) (pr_RequestID pr)) w of
        (Inl e, w1) \<Rightarrow> (Inl (StoreError e), w1)
      | (Inr (Some found), w1) \<Rightarrow> (Inr found, w1)
      | (Inr None, w1) \<Rightarrow>
          (case first_proposal env query w1 of
             (Inl e, w2) \<Rightarrow> (Inl e, w2)
           | (Inr p, w2) \<Rightarrow>
               (case on_db (CreateTaskPlan (pr_UserID pr) (pr_SessionID pr) (pr_RequestID pr) (Goal p) (toNewTaskSteps (Steps p))) w2 of
                  (Inl e, w3) \<Rightarrow> (Inl (StoreError e), w3)
                | (Inr created, w3) \<Rightarrow>
                    (case on_db (GetTaskPlan (pr_UserID pr) (PlanID created)) w3 of
                       (Inl e, w4) \<Rightarrow> (Inl (StoreError e), w4)
                     | (Inr (_, steps), w4) \<Rightarrow> (Inr (created, steps), w4)))))"

definition executePlannedTask ::
    "plan_env \<Rightarrow> principal option \<Rightarrow> user_message option \<Rightarrow> plan_world \<Rightarrow> (plan_error + string) \<times> plan_world" where
  "executePlannedTask env caller input w =
     (case input of
        None \<Rightarrow> (Inl InvalidDependencies, w)
      | Some m \<Rightarrow>
          (case caller of
             None \<Rightarrow> (Inl MissingPrincipal, w)
           | Some pr \<Rightarrow>
               if pr_SessionID pr = '''' \<or> pr_RequestID pr = '''' then (Inl MissingPrincipal, w)
               else (case find_or_create env pr (Query m) w of
                 (Inl e, w1) \<Rightarrow> (Inl e, w1)
               | (Inr (tp, steps), w1) \<Rightarrow>
                   (case load_results pr (PlanID tp) steps [] w1 of
                      (results, w2) \<Rightarrow>
                        executor_loop env pr (Query m) tp
                          (max_steps env * (max_replans env + 1) + max_replans env + 1) results 0 w2))))"

subsection \<open>What the store operations do to the steps of a plan\<close>

abbreviation tabs :: "plan_world \<Rightarrow> plan_tables" where
  "tabs w \<equiv> tables (db w)"

lemma on_dbD: "always m (tabs w) Q \<Longrightarrow> on_db m w = (r, w') \<Longrightarrow> Q r (tabs w')"
  by (auto simp: on_db_def split: prod.splits dest: alwaysD)

lemma GetTaskPlan_reads:
  "on_db (GetTaskPlan u pid) w = (r, w') \<Longrightarrow>
     tabs w' = tabs w \<and> (\<forall>tp steps. r = Inr (tp, steps) \<longrightarrow> PlanID tp = pid \<and> steps = rows_of pid (task_steps (tabs w)))"
  by (rule on_dbD [of "GetTaskPlan u pid" w
        "\<lambda>r t'. t' = tabs w \<and> (\<forall>tp steps. r = Inr (tp, steps) \<longrightarrow> PlanID tp = pid \<and> steps = rows_of pid (task_steps (tabs w)))"])
    (auto simp: GetTaskPlan_def always_simps sql_defs rows_of_def owned_plan_def find_Some_iff split: option.splits)

lemma Load_reads: "on_db (LoadTaskStepResult s r pid key) w = (x, w') \<Longrightarrow> tabs w' = tabs w"
  by (rule on_dbD [where Q = "\<lambda>_ t'. t' = tabs w"])
    (auto simp: LoadTaskStepResult_def GetTranscriptEvent_def tx_bind_def tx_then_def always_def stmt_def
      tx_return_def tx_fail_def sql_defs split: prod.splits sum.splits db_event.splits option.splits if_splits)

definition open_steps :: "int \<Rightarrow> plan_tables \<Rightarrow> nat" where
  "open_steps pid t = length (filter (\<lambda>s. StepStatus s \<noteq> ''done'') (rows_of pid (task_steps t)))"

definition done_keys :: "int \<Rightarrow> plan_tables \<Rightarrow> string set" where
  "done_keys pid t = {StepKey s | s. s \<in> set (rows_of pid (task_steps t)) \<and> StepStatus s = ''done''}"

definition schedulable :: "int \<Rightarrow> plan_tables \<Rightarrow> bool" where
  "schedulable pid t \<longleftrightarrow>
     (let rows = rows_of pid (task_steps t) in
      rows \<noteq> [] \<and> (\<forall>s \<in> set rows. StepStatus s \<noteq> ''failed'') \<and>
      (\<exists>rk :: string \<Rightarrow> nat. \<forall>s \<in> set rows. StepStatus s \<noteq> ''done'' \<longrightarrow>
         (\<exists>ds. StepDepends s = JsonList ds \<and> (\<forall>d \<in> set ds. d \<in> done_keys pid t \<or> d \<in> StepKey ` set rows \<and> rk d < rk (StepKey s)))))"

lemma filter_map_less:
  assumes "\<And>x. Q (g x) \<Longrightarrow> Q x"
  shows "length (filter Q (map g xs)) \<le> length (filter Q xs)"
    and "x \<in> set xs \<Longrightarrow> Q x \<Longrightarrow> \<not> Q (g x) \<Longrightarrow> length (filter Q (map g xs)) < length (filter Q xs)"
proof -
  show le: "length (filter Q (map g xs)) \<le> length (filter Q xs)" for xs
    using assms by (induction xs) auto
  show "x \<in> set xs \<Longrightarrow> Q x \<Longrightarrow> \<not> Q (g x) \<Longrightarrow> length (filter Q (map g xs)) < length (filter Q xs)"
  proof (induction xs)
    case (Cons y ys)
    then show ?case using le [of ys] assms [of y] by (cases "x = y") (auto simp: less_Suc_eq_le)
  qed simp
qed

lemma marked_rows:
  assumes "step_marked u pid key next t t'"
  shows "rows_of pid (task_steps t') = mark_step pid key next (rows_of pid (task_steps t))"
  using assms by (auto simp: step_marked_def rows_of_mark)

lemma marked_row:
  assumes "keyed (task_steps t)" and "step_marked u pid key next t t'"
    and "s \<in> set (rows_of pid (task_steps t))" and "StepKey s = key"
  shows "validTaskTransition (StepStatus s) next"
proof -
  obtain f where f: "find (step_row pid key) (task_steps t) = Some f" "validTaskTransition (StepStatus f) next"
    using assms(2) by (auto simp: step_marked_def)
  then have "f \<in> set (task_steps t)" "step_row pid key f" by (auto simp: find_Some_iff)
  then have "s = f"
    using keyed_unique [OF assms(1), of pid key s f] assms(3,4) by (auto simp: rows_of_def step_row_def)
  with f(2) show ?thesis by simp
qed

text \<open>Marking keeps completed steps completed.\<close>

lemma marked_done_keys:
  assumes "keyed (task_steps t)" and "step_marked u pid key next t t'"
  shows "done_keys pid t \<subseteq> done_keys pid t'"
proof
  fix k assume "k \<in> done_keys pid t"
  then obtain s where s: "s \<in> set (rows_of pid (task_steps t))" "StepStatus s = ''done''" "StepKey s = k"
    by (auto simp: done_keys_def)
  let ?s = "if step_row pid key s then s\<lparr>StepStatus := next\<rparr> else s"
  have "?s \<in> set (rows_of pid (task_steps t'))"
    unfolding marked_rows [OF assms(2)] mark_step_def using s(1) by simp
  moreover have "StepStatus ?s = ''done''" "StepKey ?s = k"
    using s not_done_transition [OF marked_row [OF assms s(1)]] by (auto simp: step_row_def)
  ultimately show "k \<in> done_keys pid t'" unfolding done_keys_def by blast
qed

lemma marked_schedulable:
  assumes k: "keyed (task_steps t)" and m: "step_marked u pid key next t t'" and n: "next \<noteq> ''failed''"
    and sc: "schedulable pid t"
  shows "schedulable pid t'"
proof -
  let ?rows = "rows_of pid (task_steps t)"
  obtain rk :: "string \<Rightarrow> nat" where rk: "?rows \<noteq> []" "\<forall>s \<in> set ?rows. StepStatus s \<noteq> ''failed''"
    "\<forall>s \<in> set ?rows. StepStatus s \<noteq> ''done'' \<longrightarrow> (\<exists>ds. StepDepends s = JsonList ds \<and>
        (\<forall>d \<in> set ds. d \<in> done_keys pid t \<or> d \<in> StepKey ` set ?rows \<and> rk d < rk (StepKey s)))"
    using sc by (auto simp: schedulable_def Let_def)
  have keys: "StepKey ` set (rows_of pid (task_steps t')) = StepKey ` set ?rows"
    unfolding marked_rows [OF m] mark_step_def set_map image_image by (rule image_cong) auto
  have rows': "s' \<in> set (rows_of pid (task_steps t')) \<Longrightarrow>
      \<exists>s \<in> set ?rows. s' = (if step_row pid key s then s\<lparr>StepStatus := next\<rparr> else s)" for s'
    unfolding marked_rows [OF m] mark_step_def by auto
  have "\<exists>ds. StepDepends s' = JsonList ds \<and>
      (\<forall>d \<in> set ds. d \<in> done_keys pid t' \<or> d \<in> StepKey ` set (rows_of pid (task_steps t')) \<and> rk d < rk (StepKey s'))"
    if "s' \<in> set (rows_of pid (task_steps t'))" "StepStatus s' \<noteq> ''done''" for s'
  proof -
    from rows' [OF that(1)] obtain s where s: "s \<in> set ?rows" "s' = (if step_row pid key s then s\<lparr>StepStatus := next\<rparr> else s)"
      by blast
    have "StepStatus s \<noteq> ''done''"
      using that(2) s not_done_transition [OF marked_row [OF k m s(1)]] by (auto simp: step_row_def split: if_splits)
    with rk(3) s(1) obtain ds where "StepDepends s = JsonList ds"
      "\<forall>d \<in> set ds. d \<in> done_keys pid t \<or> d \<in> StepKey ` set ?rows \<and> rk d < rk (StepKey s)" by blast
    with s(2) marked_done_keys [OF k m] keys show ?thesis by auto
  qed
  moreover have "\<forall>s' \<in> set (rows_of pid (task_steps t')). StepStatus s' \<noteq> ''failed''"
  proof
    fix s' assume "s' \<in> set (rows_of pid (task_steps t'))"
    from rows' [OF this] obtain s where "s \<in> set ?rows" "s' = (if step_row pid key s then s\<lparr>StepStatus := next\<rparr> else s)" ..
    with rk(2) n show "StepStatus s' \<noteq> ''failed''" by simp
  qed
  moreover have "rows_of pid (task_steps t') \<noteq> []"
    using rk(1) by (simp add: marked_rows [OF m] mark_step_def)
  ultimately show ?thesis by (auto simp: schedulable_def Let_def)
qed

lemma marked_open:
  assumes k: "keyed (task_steps t)" and m: "step_marked u pid key next t t'"
  shows "open_steps pid t' \<le> open_steps pid t"
    and "next = ''done'' \<Longrightarrow> s \<in> set (rows_of pid (task_steps t)) \<Longrightarrow> StepKey s = key \<Longrightarrow> StepStatus s \<noteq> ''done'' \<Longrightarrow>
         open_steps pid t' < open_steps pid t"
proof -
  let ?rows = "rows_of pid (task_steps t)"
  let ?g = "\<lambda>s. if s \<in> set ?rows \<and> step_row pid key s then s\<lparr>StepStatus := next\<rparr> else s"
  have rows: "rows_of pid (task_steps t') = map ?g ?rows"
    unfolding marked_rows [OF m] mark_step_def by (rule map_cong) auto
  have q: "StepStatus (?g x) \<noteq> ''done'' \<Longrightarrow> StepStatus x \<noteq> ''done''" for x
    using not_done_transition [OF marked_row [OF k m, of x]] by (auto simp: step_row_def split: if_splits)
  show "open_steps pid t' \<le> open_steps pid t"
    unfolding open_steps_def rows by (rule filter_map_less(1)) (rule q)
  show "open_steps pid t' < open_steps pid t"
    if "next = ''done''" "s \<in> set ?rows" "StepKey s = key" "StepStatus s \<noteq> ''done''"
    unfolding open_steps_def rows
    by (rule filter_map_less(2) [OF q that(2)]) (use that in \<open>auto simp: step_row_def rows_of_def\<close>)
qed

subsection \<open>A revised plan\<close>

definition orders_keys :: "plan_env \<Rightarrow> bool" where
  "orders_keys env \<longleftrightarrow> (\<forall>ks. set (key_order env ks) = set ks)"

text \<open>
  The rows of a validated proposal next to completed ones: those the proposal adds, with a rank
  that falls along their dependencies.
\<close>

lemma accepted_schedulable:
  assumes v: "validatePlanProposal order p mx mn done = None"
    and o: "set (order (map Key (Steps p))) = set (map Key (Steps p))"
    and rows: "rows_of pid (task_steps t) = kept @ map (new_row pid) (filter (\<lambda>i. NewKey i \<notin> dk) (toNewTaskSteps (Steps p)))"
    and ne: "filter (\<lambda>i. NewKey i \<notin> dk) (toNewTaskSteps (Steps p)) \<noteq> []"
    and kept: "\<forall>s \<in> set kept. StepStatus s = ''done''" and dk: "dk = StepKey ` set kept" and sub: "set done \<subseteq> dk"
  shows "schedulable pid t"
proof -
  let ?new = "filter (\<lambda>i. NewKey i \<notin> dk) (toNewTaskSteps (Steps p))"
  let ?rows = "rows_of pid (task_steps t)"
  obtain rk :: "string \<Rightarrow> nat" where rk:
    "\<forall>s \<in> set (Steps p). \<forall>d \<in> set (DependsOn s). d \<in> Key ` set (Steps p) \<longrightarrow> rk d < rk (Key s)"
    using accepted_rank [OF v o] by blast
  have sound: "sound_plan p mx mn done" using v plan_sound [of order p, OF o] by simp
  have dkd: "dk \<subseteq> done_keys pid t" using kept dk by (auto simp: done_keys_def rows)
  have keys: "k \<in> dk \<or> k \<in> StepKey ` set ?rows" if k: "k \<in> Key ` set (Steps p)" for k
  proof (cases "k \<in> dk")
    case False
    from k obtain s where s: "s \<in> set (Steps p)" "k = Key s" by blast
    let ?i = "\<lparr>NewKey = Key s, NewDescription = Description s, NewDepends = JsonList (DependsOn s)\<rparr>"
    have "?i \<in> set ?new" using s False by (simp add: toNewTaskSteps_def)
    then have "new_row pid ?i \<in> set ?rows" by (simp add: rows)
    moreover have "StepKey (new_row pid ?i) = k" using s(2) by (simp add: new_row_def)
    ultimately show ?thesis by blast
  qed simp
  have "\<exists>ds. StepDepends r = JsonList ds \<and>
      (\<forall>d \<in> set ds. d \<in> done_keys pid t \<or> d \<in> StepKey ` set ?rows \<and> rk d < rk (StepKey r))"
    if r: "r \<in> set ?rows" "StepStatus r \<noteq> ''done''" for r
  proof -
    from r kept rows obtain s where s: "s \<in> set (Steps p)" "StepKey r = Key s" "StepDepends r = JsonList (DependsOn s)"
      by (auto simp: toNewTaskSteps_def new_row_def)
    have "d \<in> done_keys pid t \<or> d \<in> StepKey ` set ?rows \<and> rk d < rk (Key s)" if d: "d \<in> set (DependsOn s)" for d
    proof -
      have "d \<in> Key ` set (Steps p) \<or> d \<in> set done" using sound s(1) d by (auto simp: sound_plan_def)
      with keys [of d] dkd sub rk s(1) d show ?thesis by blast
    qed
    with s show ?thesis by auto
  qed
  moreover have "\<forall>s \<in> set ?rows. StepStatus s \<noteq> ''failed''"
    using kept by (auto simp: rows new_row_def)
  moreover have "?rows \<noteq> []" using ne by (simp add: rows)
  ultimately show ?thesis by (auto simp: schedulable_def Let_def)
qed

lemma revised_rows:
  assumes "plan_revised pid (toNewTaskSteps ps) t t'"
  shows "open_steps pid t' \<le> length ps"
    and "\<exists>kept. rows_of pid (task_steps t') =
        kept @ map (new_row pid) (filter (\<lambda>i. NewKey i \<notin> done_keys pid t) (toNewTaskSteps ps)) \<and>
      filter (\<lambda>i. NewKey i \<notin> done_keys pid t) (toNewTaskSteps ps) \<noteq> [] \<and>
      (\<forall>s \<in> set kept. StepStatus s = ''done'') \<and> StepKey ` set kept = done_keys pid t"
proof -
  let ?new = "filter (\<lambda>i. NewKey i \<notin> done_keys pid t) (toNewTaskSteps ps)"
  let ?kept = "filter (\<lambda>s. StepStatus s = ''done'') (rows_of pid (task_steps t))"
  have dk: "set (map StepKey (filter (\<lambda>s. StepPlan s = pid \<and> StepStatus s = ''done'') (task_steps t))) = done_keys pid t"
    by (auto simp: done_keys_def rows_of_def)
  have ne: "?new \<noteq> []" and t': "task_steps t' =
      filter (\<lambda>s. \<not> (StepPlan s = pid \<and> StepStatus s \<noteq> ''done'')) (task_steps t) @ map (new_row pid) ?new"
    using assms unfolding plan_revised_def Let_def dk by auto
  have rows: "rows_of pid (task_steps t') = ?kept @ map (new_row pid) ?new"
    unfolding t' rows_of_def filter_append filter_filter
    by (rule arg_cong2 [where f = "(@)"]) (auto simp: new_row_def intro: filter_cong)
  have k: "\<forall>s \<in> set ?kept. StepStatus s = ''done''" "StepKey ` set ?kept = done_keys pid t"
    by (auto simp: done_keys_def)
  show "\<exists>kept. rows_of pid (task_steps t') = kept @ map (new_row pid) ?new \<and> ?new \<noteq> [] \<and>
      (\<forall>s \<in> set kept. StepStatus s = ''done'') \<and> StepKey ` set kept = done_keys pid t"
    using rows ne k by blast
  have "length (filter (\<lambda>s. StepStatus s \<noteq> ''done'') (rows_of pid (task_steps t'))) =
      length (filter (\<lambda>s. StepStatus s \<noteq> ''done'') (map (new_row pid) ?new))"
    unfolding rows filter_append using k(1) by (simp add: filter_empty_conv)
  also have "\<dots> \<le> length ps"
    using length_filter_le [of "\<lambda>s. StepStatus s \<noteq> ''done''" "map (new_row pid) ?new"]
      length_filter_le [of "\<lambda>i. NewKey i \<notin> done_keys pid t" "toNewTaskSteps ps"]
    by (simp add: toNewTaskSteps_def)
  finally show "open_steps pid t' \<le> length ps" by (simp add: open_steps_def)
qed

subsection \<open>Errors of planning\<close>

lemma check_errors:
  "check_keys ks ss = Inl e \<Longrightarrow> e \<notin> {NoReadyStep, IterationLimit}"
  "check_deps ks done ss = Some e \<Longrightarrow> e \<notin> {NoReadyStep, IterationLimit}"
proof -
  show "check_keys ks ss = Inl e \<Longrightarrow> e \<notin> {NoReadyStep, IterationLimit}"
    by (induction ks ss rule: check_keys.induct) (auto split: if_splits)
  show "check_deps ks done ss = Some e \<Longrightarrow> e \<notin> {NoReadyStep, IterationLimit}"
    by (induction ks "done" ss rule: check_deps.induct) (auto split: option.splits)
qed

lemma validate_errors:
  "validatePlanProposal order p mx mn done = Some e \<Longrightarrow> e \<notin> {NoReadyStep, IterationLimit}"
  using check_errors by (fastforce simp: validatePlanProposal_def split: if_splits sum.splits option.splits visit_result.splits)

lemma generatePlan_errors: "generatePlan env n q = Inl e \<Longrightarrow> e \<notin> {NoReadyStep, IterationLimit}"
  using validate_errors
  by (fastforce simp: generatePlan_def parsePlanProposal_def split: if_splits sum.splits option.splits)

lemma generatePlan_valid:
  "generatePlan env n q = Inr p \<Longrightarrow>
     validatePlanProposal (key_order env) p (q_MaxSteps q) 2 (completedStepKeys (q_Previous q)) = None"
  by (auto simp: generatePlan_def split: if_splits sum.splits option.splits)

lemma accepted_shape:
  "validatePlanProposal order p mx mn done = None \<Longrightarrow> Goal p \<noteq> '''' \<and> mn \<le> length (Steps p) \<and> length (Steps p) \<le> mx"
  by (auto simp: validatePlanProposal_def split: if_splits)

subsection \<open>The next step\<close>

lemma ready_step_cases:
  "ready_step st ss = Inr s \<Longrightarrow> s \<in> set ss \<and> (StepStatus s = ''pending'' \<or> StepStatus s = ''running'') \<and>
     (\<exists>ds. StepDepends s = JsonList ds \<and> (\<forall>d \<in> set ds. st d = Some ''done''))"
  by (induction ss) (auto simp: list_all_iff split: if_splits depends_column.splits)

lemma ready_step_error: "ready_step st ss = Inl e \<Longrightarrow> e \<noteq> IterationLimit"
  by (induction ss) (auto split: if_splits depends_column.splits)

lemma ready_step_found:
  assumes "s \<in> set ss" and "StepStatus s = ''pending'' \<or> StepStatus s = ''running''"
    and "StepDepends s = JsonList ds" and "\<forall>d \<in> set ds. st d = Some ''done''"
  shows "ready_step st ss \<noteq> Inl NoReadyStep"
  using assms by (induction ss) (auto simp: list_all_iff split: depends_column.splits)

text \<open>Some unfinished step of a schedulable plan has only completed dependencies: one of least rank.\<close>

lemma schedulable_ready:
  assumes sc: "schedulable pid t" and ok: "steps_ok (task_steps t)"
    and nd: "\<not> allPlanStepsDone (rows_of pid (task_steps t))"
  shows "nextReadyStep (rows_of pid (task_steps t)) \<noteq> Inl NoReadyStep"
proof -
  let ?rows = "rows_of pid (task_steps t)"
  obtain rk :: "string \<Rightarrow> nat" where rk: "?rows \<noteq> []" "\<forall>s \<in> set ?rows. StepStatus s \<noteq> ''failed''"
    "\<forall>s \<in> set ?rows. StepStatus s \<noteq> ''done'' \<longrightarrow> (\<exists>ds. StepDepends s = JsonList ds \<and>
        (\<forall>d \<in> set ds. d \<in> done_keys pid t \<or> d \<in> StepKey ` set ?rows \<and> rk d < rk (StepKey s)))"
    using sc by (auto simp: schedulable_def Let_def)
  let ?open = "\<lambda>s. s \<in> set ?rows \<and> StepStatus s \<noteq> ''done''"
  obtain s0 where "?open s0"
    using nd rk(1) by (auto simp: allPlanStepsDone_def list_all_iff)
  from ex_has_least_nat [of ?open, OF this, of "\<lambda>s. rk (StepKey s)"]
  obtain s where s: "?open s" "\<And>r. ?open r \<Longrightarrow> rk (StepKey s) \<le> rk (StepKey r)"
    by blast
  obtain ds where ds: "StepDepends s = JsonList ds"
    "\<And>d. d \<in> set ds \<Longrightarrow> d \<in> done_keys pid t \<or> d \<in> StepKey ` set ?rows \<and> rk d < rk (StepKey s)"
    using rk(3) s(1) by blast
  have dk: "d \<in> done_keys pid t" if "d \<in> set ds" for d
  proof (rule ccontr)
    assume n: "d \<notin> done_keys pid t"
    with ds(2) [OF that] obtain r where r: "r \<in> set ?rows" "d = StepKey r" "rk d < rk (StepKey s)" by blast
    with n have "?open r" by (auto simp: done_keys_def)
    with s(2) [of r] r(2,3) show False by simp
  qed
  have "distinct (map StepKey ?rows)"
    using ok by (auto simp: steps_ok_def keyed_def rows_of_def distinct_map inj_on_def)
  then have st: "map_of (rev (map (\<lambda>s. (StepKey s, StepStatus s)) ?rows)) d = Some ''done''" if "d \<in> set ds" for d
    using dk [OF that]
    by (intro map_of_is_SomeI) (auto simp: done_keys_def comp_def rev_map [symmetric] intro: rev_image_eqI)
  have "StepStatus s = ''pending'' \<or> StepStatus s = ''running''"
    using ok s(1) rk(2) by (fastforce simp: steps_ok_def rows_of_def)
  from ready_step_found [OF _ this ds(1)] s(1) st show ?thesis
    unfolding nextReadyStep_def by blast
qed

subsection \<open>Every iteration makes progress\<close>

definition state_ok :: "int \<Rightarrow> bool \<Rightarrow> plan_tables \<Rightarrow> bool" where
  "state_ok pid live t \<longleftrightarrow> plans_ok t \<and> (live \<longrightarrow> schedulable pid t)"

text \<open>
  What an iteration that started with n open steps and k replans may end in; live says that the
  plan is schedulable and the iteration order of maps is one.
\<close>

definition progress :: "plan_env \<Rightarrow> int \<Rightarrow> bool \<Rightarrow> nat \<Rightarrow> nat \<Rightarrow> round_result \<times> plan_world \<Rightarrow> bool" where
  "progress env pid live n k out \<longleftrightarrow>
     (case out of
        (Finished r, w') \<Rightarrow> r \<noteq> Inl IterationLimit \<and> (live \<longrightarrow> r \<noteq> Inl NoReadyStep) \<and> plans_ok (tabs w')
      | (Again res k', w') \<Rightarrow> state_ok pid live (tabs w') \<and>
          (k' = k \<and> open_steps pid (tabs w') < n \<or>
           k' = Suc k \<and> k < max_replans env \<and> open_steps pid (tabs w') \<le> max_steps env))"

lemma Update_reads:
  assumes "plans_ok (tabs w)" and "on_db (UpdateTaskStep u pid key st) w = (r, w')"
  shows "plans_ok (tabs w')"
    and "tabs w' = tabs w \<and> (\<exists>e. r = Inl e) \<or> step_marked u pid key st (tabs w) (tabs w')"
proof -
  show c: "tabs w' = tabs w \<and> (\<exists>e. r = Inl e) \<or> step_marked u pid key st (tabs w) (tabs w')"
    using on_dbD [OF UpdateTaskStep_effect assms(2)] by blast
  with assms(1) plans_ok_mark show "plans_ok (tabs w')" by metis
qed

lemma plans_ok_keyed: "plans_ok t \<Longrightarrow> keyed (task_steps t)" "plans_ok t \<Longrightarrow> steps_ok (task_steps t)"
  by (auto simp: plans_ok_def steps_ok_def)

lemma Save_reads:
  assumes "on_db (SaveTaskStepResult s q pid key v) w = (r, w')"
  shows "task_steps (tabs w') = task_steps (tabs w)" "plans_ok (tabs w') = plans_ok (tabs w)"
proof -
  have "task_steps (tabs w') = task_steps (tabs w) \<and> task_plans (tabs w') = task_plans (tabs w) \<and>
      next_plan_id (tabs w') = next_plan_id (tabs w)"
    by (rule on_dbD [OF _ assms, of "\<lambda>_ t'. task_steps t' = task_steps (tabs w) \<and> task_plans t' = task_plans (tabs w) \<and>
          next_plan_id t' = next_plan_id (tabs w)"])
      (simp add: SaveTaskStepResult_def AppendTranscriptEvent_def always_simps sql_defs)
  then show "task_steps (tabs w') = task_steps (tabs w)" "plans_ok (tabs w') = plans_ok (tabs w)"
    by (simp_all add: plans_ok_def)
qed

lemma same_rows:
  "task_steps t' = task_steps t \<Longrightarrow> open_steps pid t' = open_steps pid t \<and> schedulable pid t' = schedulable pid t"
  by (simp add: open_steps_def schedulable_def done_keys_def)

text \<open>Marking the step of the iteration done.\<close>

lemma done_progress:
  assumes ok: "state_ok pid live (tabs w)" and u: "on_db (UpdateTaskStep u pid key ''done'') w = (Inr x, w')"
    and s: "s \<in> set (rows_of pid (task_steps (tabs w)))" "StepKey s = key" "StepStatus s \<noteq> ''done''"
  shows "progress env pid live (open_steps pid (tabs w)) k (Again res k, w')"
proof -
  have p: "plans_ok (tabs w)" using ok by (simp add: state_ok_def)
  have m: "step_marked u pid key ''done'' (tabs w) (tabs w')" using Update_reads(2) [OF p u] by auto
  show ?thesis
    using Update_reads(1) [OF p u] marked_open(2) [OF plans_ok_keyed(1) [OF p] m refl s]
      marked_schedulable [OF plans_ok_keyed(1) [OF p] m] ok
    by (simp add: progress_def state_ok_def)
qed

lemma complete_progress:
  assumes ok: "state_ok pid live (tabs w)"
    and s: "s \<in> set (rows_of pid (task_steps (tabs w)))" "StepStatus s \<noteq> ''done''"
  shows "progress env pid live (open_steps pid (tabs w)) k (complete_step pr pid (StepKey s) out results k w)"
proof -
  obtain r1 w1 where w1: "on_db (SaveTaskStepResult (pr_SessionID pr) (pr_RequestID pr) pid (StepKey s) out) w = (r1, w1)"
    by fastforce
  obtain r2 w2 where w2: "on_db (UpdateTaskStep (pr_UserID pr) pid (StepKey s) ''done'') w1 = (r2, w2)"
    by fastforce
  note rows = Save_reads [OF w1] same_rows [OF Save_reads(1) [OF w1], of pid]
  have ok1: "state_ok pid live (tabs w1)" using ok rows by (simp add: state_ok_def)
  then have p2: "plans_ok (tabs w2)" using Update_reads(1) [OF _ w2] by (simp add: state_ok_def)
  show ?thesis
  proof (cases r2)
    case (Inl e)
    then show ?thesis using w1 w2 p2 ok1
      by (auto simp: complete_step_def progress_def state_ok_def split: sum.splits)
  next
    case (Inr x)
    from done_progress [OF ok1 w2 [unfolded Inr], of s env k] s rows Inr w1 w2 ok1 show ?thesis
      by (auto simp: complete_step_def progress_def state_ok_def split: sum.splits)
  qed
qed

lemma revised_schedulable:
  assumes "plan_revised pid (toNewTaskSteps (Steps p)) t t'" and "orders_keys env"
    and "validatePlanProposal (key_order env) p mx mn done = None" and "set done \<subseteq> done_keys pid t"
  shows "schedulable pid t'"
proof -
  obtain kept where "rows_of pid (task_steps t') =
        kept @ map (new_row pid) (filter (\<lambda>i. NewKey i \<notin> done_keys pid t) (toNewTaskSteps (Steps p)))"
      "filter (\<lambda>i. NewKey i \<notin> done_keys pid t) (toNewTaskSteps (Steps p)) \<noteq> []"
      "\<forall>s \<in> set kept. StepStatus s = ''done''" "StepKey ` set kept = done_keys pid t"
    using revised_rows(2) [OF assms(1)] by blast
  with accepted_schedulable [OF assms(3) _ this(1,2,3)] assms(2,4) show ?thesis
    by (simp add: orders_keys_def)
qed

lemma replan_progress:
  assumes p: "plans_ok (tabs w)" and live: "live \<longrightarrow> orders_keys env"
    and dk: "set (completedStepKeys steps) \<subseteq> done_keys pid (tabs w)"
  shows "progress env pid live n k (replan env pr query pid steps key ie reason results k w)"
proof -
  obtain r1 w1 where w1: "on_db (UpdateTaskStep (pr_UserID pr) pid key ''failed'') w = (r1, w1)"
    by fastforce
  have p1: "plans_ok (tabs w1)" using Update_reads(1) [OF p w1] .
  have dk1: "set (completedStepKeys steps) \<subseteq> done_keys pid (tabs w1)"
    using Update_reads(2) [OF p w1] dk
      marked_done_keys [OF plans_ok_keyed(1) [OF p], of "pr_UserID pr" pid key "''failed''" "tabs w1"] by auto
  let ?w2 = "w1\<lparr>n_plans := n_plans w1 + 1\<rparr>"
  have "progress env pid live n k (Again results (Suc k), w3)"
    if "k < max_replans env" "on_db (ReviseTaskPlan (pr_UserID pr) pid (toNewTaskSteps (Steps q))) ?w2 = (Inr x, w3)"
      "validatePlanProposal (key_order env) q (max_steps env) 1 (completedStepKeys steps) = None" for q x w3
  proof -
    have rev: "plan_revised pid (toNewTaskSteps (Steps q)) (tabs w1) (tabs w3)"
      using on_dbD [OF ReviseTaskPlan_effect that(2)] plans_ok_keyed(1) [OF p1] by fastforce
    show ?thesis
      using that(1) plans_ok_revised [OF p1 rev] revised_schedulable [OF rev _ that(3) dk1] live
        revised_rows(1) [OF rev] accepted_shape [OF that(3)]
      by (auto simp: progress_def state_ok_def)
  qed
  moreover have "plans_ok (tabs w3)"
    if "on_db (ReviseTaskPlan (pr_UserID pr) pid (toNewTaskSteps (Steps q))) ?w2 = (Inl e, w3)" for q e w3
    using on_dbD [OF ReviseTaskPlan_effect that] plans_ok_keyed(1) [OF p1] plans_ok_revised [OF p1] p1 by fastforce
  ultimately show ?thesis
    using p1 validate_errors
    by (fastforce simp: replan_def w1 Let_def progress_def split: sum.splits option.splits prod.splits)
qed

lemma progress_mono: "progress env pid live n k out \<Longrightarrow> n \<le> n' \<Longrightarrow> progress env pid live n' k out"
  by (fastforce simp: progress_def split: prod.splits round_result.splits)

lemma run_step_progress:
  assumes ok: "state_ok (PlanID tp) live (tabs w)" and live: "live \<longrightarrow> orders_keys env"
    and s: "s \<in> set (rows_of (PlanID tp) (task_steps (tabs w)))" "StepStatus s \<noteq> ''done''" "StepKey s = StepKey step"
    and dk: "set (completedStepKeys steps) \<subseteq> done_keys (PlanID tp) (tabs w)"
  shows "progress env (PlanID tp) live (open_steps (PlanID tp) (tabs w)) k (run_step env pr query tp steps step results k w)"
proof -
  let ?w = "w\<lparr>n_runs := n_runs w + 1\<rparr>"
  have "plans_ok (tabs ?w)" "set (completedStepKeys steps) \<subseteq> done_keys (PlanID tp) (tabs ?w)"
    using ok dk by (simp_all add: state_ok_def)
  note re = replan_progress [OF this(1) live this(2)]
  have "progress env (PlanID tp) live (open_steps (PlanID tp) (tabs w)) k
      (complete_step pr (PlanID tp) (StepKey step) out results k ?w)" for out
    using complete_progress [of "PlanID tp" live ?w s] ok s by simp
  with re show ?thesis
    by (simp add: run_step_def Let_def split: sum.splits)
qed

lemma completed_rows: "set (completedStepKeys (rows_of pid (task_steps t))) = done_keys pid t"
  by (auto simp: completedStepKeys_def done_keys_def)

text \<open>The two ways to the runner: a step found running without a result, and one set to running.\<close>

lemma resume_progress:
  assumes ok: "state_ok pid live (tabs w)"
    and s: "s \<in> set (rows_of pid (task_steps (tabs w)))" "StepStatus s \<noteq> ''done''"
  shows "progress env pid live (open_steps pid (tabs w)) k
      (case on_db (UpdateTaskStep u pid (StepKey s) ''done'') w of
         (Inl e, w') \<Rightarrow> (Finished (Inl (StoreError e)), w')
       | (Inr _, w') \<Rightarrow> (Again res k, w'))"
proof -
  obtain r w' where w': "on_db (UpdateTaskStep u pid (StepKey s) ''done'') w = (r, w')" by fastforce
  show ?thesis
    using done_progress [OF ok, of u "StepKey s" _ w' s] w' s Update_reads(1) [OF _ w'] ok
    by (cases r) (auto simp: progress_def state_ok_def)
qed

lemma start_progress:
  assumes ok: "state_ok (PlanID tp) live (tabs w)" and live: "live \<longrightarrow> orders_keys env"
    and s: "s \<in> set (rows_of (PlanID tp) (task_steps (tabs w)))" "StepStatus s \<noteq> ''done''"
    and dk: "set (completedStepKeys steps) \<subseteq> done_keys (PlanID tp) (tabs w)"
  shows "progress env (PlanID tp) live (open_steps (PlanID tp) (tabs w)) k
      (case on_db (UpdateTaskStep (pr_UserID pr) (PlanID tp) (StepKey s) ''running'') w of
         (Inl e, w') \<Rightarrow> (Finished (Inl (StoreError e)), w')
       | (Inr _, w') \<Rightarrow> run_step env pr query tp steps s results k w')"
proof -
  let ?pid = "PlanID tp"
  obtain r w' where w': "on_db (UpdateTaskStep (pr_UserID pr) ?pid (StepKey s) ''running'') w = (r, w')"
    by fastforce
  have p: "plans_ok (tabs w)" using ok by (simp add: state_ok_def)
  note u = Update_reads [OF p w'] and k = plans_ok_keyed(1) [OF p]
  show ?thesis
  proof (cases r)
    case (Inl e)
    with w' u(1) show ?thesis by (simp add: progress_def)
  next
    case (Inr y)
    have m: "step_marked (pr_UserID pr) ?pid (StepKey s) ''running'' (tabs w) (tabs w')"
      using u(2) Inr by simp
    let ?s = "if step_row ?pid (StepKey s) s then s\<lparr>StepStatus := ''running''\<rparr> else s"
    have s': "?s \<in> set (rows_of ?pid (task_steps (tabs w')))" "StepStatus ?s \<noteq> ''done''" "StepKey ?s = StepKey s"
      using s by (auto simp: marked_rows [OF m] mark_step_def)
    have "state_ok ?pid live (tabs w')"
      using u(1) ok marked_schedulable [OF k m] by (simp add: state_ok_def)
    from run_step_progress [OF this live s', of steps k pr query results] dk marked_done_keys [OF k m]
    have "progress env ?pid live (open_steps ?pid (tabs w')) k (run_step env pr query tp steps s results k w')"
      by blast
    from progress_mono [OF this marked_open(1) [OF k m]] w' Inr show ?thesis by simp
  qed
qed

lemma round_progress:
  assumes ok: "state_ok (PlanID tp) live (tabs w)" and live: "live \<longrightarrow> orders_keys env"
  shows "progress env (PlanID tp) live (open_steps (PlanID tp) (tabs w)) k (executor_round env pr query tp results k w)"
proof -
  let ?pid = "PlanID tp"
  obtain r1 w1 where w1: "on_db (GetTaskPlan (pr_UserID pr) ?pid) w = (r1, w1)" by fastforce
  have t1: "tabs w1 = tabs w" using GetTaskPlan_reads [OF w1] by blast
  have p: "plans_ok (tabs w)" using ok by (simp add: state_ok_def)
  show ?thesis
  proof (cases "\<exists>tp' steps s. r1 = Inr (tp', steps) \<and> \<not> allPlanStepsDone steps \<and> nextReadyStep steps = Inr s")
    case False
    have "e \<noteq> IterationLimit \<and> (live \<longrightarrow> e \<noteq> NoReadyStep)"
      if "r1 = Inr (tp', steps)" "\<not> allPlanStepsDone steps" "nextReadyStep steps = Inl e" for tp' steps e
      using GetTaskPlan_reads [OF w1] that schedulable_ready [of ?pid "tabs w"] ok plans_ok_keyed(2) [OF p]
      by (auto simp: nextReadyStep_def state_ok_def dest: ready_step_error)
    with False p t1 show ?thesis
      by (auto simp: executor_round_def w1 progress_def synthesizePlanResult_def Let_def split: sum.splits)
  next
    case True
    then obtain tp' steps s where go: "r1 = Inr (tp', steps)" "\<not> allPlanStepsDone steps" "nextReadyStep steps = Inr s"
      by blast
    have steps: "steps = rows_of ?pid (task_steps (tabs w))" using GetTaskPlan_reads [OF w1] go(1) by blast
    have dk: "set (completedStepKeys steps) \<subseteq> done_keys ?pid (tabs w)" by (simp add: steps completed_rows)
    have s: "s \<in> set (rows_of ?pid (task_steps (tabs w)))" "StepStatus s \<noteq> ''done''"
      using go(3) by (auto simp: nextReadyStep_def steps dest: ready_step_cases)
    obtain r2 w2 where w2: "on_db (LoadTaskStepResult (pr_SessionID pr) (pr_RequestID pr) ?pid (StepKey s)) w1 = (r2, w2)"
      by fastforce
    have t2: "tabs w2 = tabs w" using Load_reads [OF w2] t1 by simp
    note start = start_progress [of tp live w1 env s steps k pr query results]
      and run = run_step_progress [of tp live w2 env s s steps k pr query results]
      and resume = resume_progress [where pid = ?pid and w = w2 and s = s and u = "pr_UserID pr"]
    show ?thesis
      using start run resume t1 t2 ok live s dk go w1 w2
      by (simp add: executor_round_def split: sum.splits)
  qed
qed

subsection \<open>A whole run\<close>

lemma loop_progress:
  assumes "state_ok (PlanID tp) live (tabs w)" and "live \<longrightarrow> orders_keys env"
    and "open_steps (PlanID tp) (tabs w) + (max_replans env - k) * (max_steps env + 1) < n"
  shows "case executor_loop env pr query tp n results k w of (r, w') \<Rightarrow>
    r \<noteq> Inl IterationLimit \<and> (live \<longrightarrow> r \<noteq> Inl NoReadyStep) \<and> plans_ok (tabs w')"
  using assms
proof (induction n arbitrary: results k w)
  case (Suc n)
  obtain out w1 where out: "executor_round env pr query tp results k w = (out, w1)" by fastforce
  from round_progress [OF Suc.prems(1,2), of k pr query results] out
  have p: "progress env (PlanID tp) live (open_steps (PlanID tp) (tabs w)) k (out, w1)" by simp
  show ?case
  proof (cases out)
    case (Finished r)
    with p out show ?thesis by (simp add: progress_def)
  next
    case (Again res k')
    with p have st: "state_ok (PlanID tp) live (tabs w1)"
      and c: "k' = k \<and> open_steps (PlanID tp) (tabs w1) < open_steps (PlanID tp) (tabs w) \<or>
        k' = Suc k \<and> k < max_replans env \<and> open_steps (PlanID tp) (tabs w1) \<le> max_steps env"
      by (auto simp: progress_def)
    have "open_steps (PlanID tp) (tabs w1) + (max_replans env - k') * (max_steps env + 1)
        < open_steps (PlanID tp) (tabs w) + (max_replans env - k) * (max_steps env + 1)"
    proof (rule disjE [OF c])
      assume a: "k' = Suc k \<and> k < max_replans env \<and> open_steps (PlanID tp) (tabs w1) \<le> max_steps env"
      then obtain d where "max_replans env = Suc k + d" using less_iff_Suc_add by (metis add_Suc)
      with a show ?thesis by simp
    qed simp
    with Suc.prems(3) have "open_steps (PlanID tp) (tabs w1) + (max_replans env - k') * (max_steps env + 1) < n"
      by simp
    from Suc.IH [OF st Suc.prems(2) this] Again out show ?thesis by simp
  qed
qed simp

lemma load_results_tabs: "load_results pr pid steps results w = (res, w') \<Longrightarrow> tabs w' = tabs w"
proof (induction pr pid steps results w rule: load_results.induct)
  case (2 pr pid s ss results w)
  obtain r w1 where l: "on_db (LoadTaskStepResult (pr_SessionID pr) (pr_RequestID pr) pid (StepKey s)) w = (r, w1)"
    by fastforce
  from 2 l show ?case by (auto simp: Load_reads [OF l] split: if_splits sum.splits)
qed simp

text \<open>The plan a run works on: it is stored, and a run that finds none makes a schedulable one.\<close>

definition small_plans :: "plan_env \<Rightarrow> plan_tables \<Rightarrow> bool" where
  "small_plans env t \<longleftrightarrow> (\<forall>p \<in> set (task_plans t). open_steps (PlanID p) t \<le> max_steps env)"

definition new_request :: "principal \<Rightarrow> plan_tables \<Rightarrow> bool" where
  "new_request pr t \<longleftrightarrow> find (same_request (pr_SessionID pr) (pr_RequestID pr)) (task_plans t) = None"

lemma first_proposal_valid:
  assumes "first_proposal env query w = (Inr p, w')"
  shows "tabs w' = tabs w \<and> (\<exists>mn. validatePlanProposal (key_order env) p (max_steps env) mn [] = None)"
  using assms generatePlan_valid [of env "n_plans w"]
  by (fastforce simp: first_proposal_def Let_def completedStepKeys_def split: sum.splits option.splits)

lemma first_proposal_errors:
  "first_proposal env query w = (Inl e, w') \<Longrightarrow> tabs w' = tabs w \<and> e \<noteq> NoReadyStep \<and> e \<noteq> IterationLimit"
  by (auto simp: first_proposal_def Let_def split: sum.splits option.splits)

lemma ByRequest_reads:
  "on_db (GetTaskPlanByRequest u s q) w = (r, w') \<Longrightarrow>
     tabs w' = tabs w \<and> (\<forall>tp steps. r = Inr (Some (tp, steps)) \<longrightarrow> tp \<in> set (task_plans (tabs w)) \<and> same_request s q tp)"
  by (rule on_dbD [of "GetTaskPlanByRequest u s q" w
        "\<lambda>r t'. t' = tabs w \<and> (\<forall>tp steps. r = Inr (Some (tp, steps)) \<longrightarrow>
           tp \<in> set (task_plans (tabs w)) \<and> same_request s q tp)"])
    (auto simp: GetTaskPlanByRequest_def always_simps sql_defs find_Some_iff split: option.splits)

lemma GetTaskPlan_stored:
  assumes "on_db (GetTaskPlan u pid) w = (Inr x, w')"
  shows "pid \<in> PlanID ` set (task_plans (tabs w))"
proof -
  have "always (GetTaskPlan u pid) (tabs w) (\<lambda>r t'. (\<exists>e. r = Inl e) \<or> pid \<in> PlanID ` set (task_plans (tabs w)))"
    by (auto simp: GetTaskPlan_def always_simps sql_defs owned_plan_def find_Some_iff split: option.splits)
  from on_dbD [OF this assms] show ?thesis by simp
qed

lemma created_rows:
  assumes "plans_ok t" and "plan_created p steps t t'"
  shows "rows_of (PlanID p) (task_steps t') = map (new_row (PlanID p)) steps"
    and "q < next_plan_id t \<Longrightarrow> open_steps q t' = open_steps q t"
proof -
  have "rows_of (PlanID p) (task_steps t) = []"
    using assms by (auto simp: plans_ok_def plan_created_def rows_of_def filter_empty_conv)
  then show "rows_of (PlanID p) (task_steps t') = map (new_row (PlanID p)) steps"
    using assms(2) by (auto simp: plan_created_def rows_of_def new_row_def)
  show "q < next_plan_id t \<Longrightarrow> open_steps q t' = open_steps q t"
    using assms(2) by (auto simp: plan_created_def rows_of_def new_row_def open_steps_def)
qed

text \<open>What find_or_create leaves: a consistent store in which the plan is small, and schedulable if it is new.\<close>

lemma created_plan_ok:
  assumes ok: "plans_ok t" and small: "small_plans env t"
    and v: "validatePlanProposal (key_order env) p (max_steps env) mn [] = None"
    and c: "plan_created tp (toNewTaskSteps (Steps p)) t t'"
  shows "small_plans env t'" and "orders_keys env \<Longrightarrow> schedulable (PlanID tp) t'"
proof -
  let ?new = "toNewTaskSteps (Steps p)"
  have rows: "rows_of (PlanID tp) (task_steps t') = [] @ map (new_row (PlanID tp)) (filter (\<lambda>i. NewKey i \<notin> {}) ?new)"
    using created_rows(1) [OF ok c] by simp
  have "open_steps (PlanID tp) t' \<le> length (Steps p)"
    using created_rows(1) [OF ok c] length_filter_le by (simp add: open_steps_def toNewTaskSteps_def)
  with accepted_shape [OF v] have "open_steps (PlanID tp) t' \<le> max_steps env" by simp
  with created_rows(2) [OF ok c] small ok c show "small_plans env t'"
    by (auto simp: small_plans_def plans_ok_def plan_created_def)
  show "schedulable (PlanID tp) t'" if "orders_keys env"
    by (rule accepted_schedulable [OF v _ rows])
      (use that c in \<open>auto simp: orders_keys_def plan_created_def\<close>)
qed

lemma find_or_create_ok:
  assumes ok: "plans_ok (tabs w)" and small: "small_plans env (tabs w)" and o: "new \<longrightarrow> orders_keys env"
    and nw: "new \<longrightarrow> new_request pr (tabs w)"
    and r: "find_or_create env pr query w = (r, w')"
  shows "plans_ok (tabs w') \<and> small_plans env (tabs w') \<and> r \<notin> {Inl NoReadyStep, Inl IterationLimit} \<and>
    (\<forall>tp steps. r = Inr (tp, steps) \<longrightarrow> PlanID tp \<in> PlanID ` set (task_plans (tabs w')) \<and>
       (new \<longrightarrow> schedulable (PlanID tp) (tabs w')))"
proof -
  obtain r1 w1 where r1: "on_db (GetTaskPlanByRequest (pr_UserID pr) (pr_SessionID pr) (pr_RequestID pr)) w = (r1, w1)"
    by fastforce
  have t1: "tabs w1 = tabs w" using ByRequest_reads [OF r1] by blast
  consider e where "r1 = Inl e" | tp steps where "r1 = Inr (Some (tp, steps))" | "r1 = Inr None"
    by (metis sum.exhaust option.exhaust surj_pair)
  then show ?thesis
  proof cases
    case 1
    with r r1 t1 ok small show ?thesis by (auto simp: find_or_create_def)
  next
    case 2
    with ByRequest_reads [OF r1] r r1 t1 ok small nw show ?thesis
      by (auto simp: find_or_create_def new_request_def find_None_iff)
  next
    case 3
    obtain r2 w2 where r2: "first_proposal env query w1 = (r2, w2)" by fastforce
    show ?thesis
    proof (cases r2)
      case (Inl e)
      with 3 r r1 r2 t1 ok small first_proposal_errors [of env query w1 e w2] show ?thesis
        by (auto simp: find_or_create_def)
    next
      case (Inr p)
      obtain mn where p: "tabs w2 = tabs w" "validatePlanProposal (key_order env) p (max_steps env) mn [] = None"
        using first_proposal_valid [of env query w1 p w2] r2 Inr t1 by auto
      obtain r3 w3 where r3: "on_db (CreateTaskPlan (pr_UserID pr) (pr_SessionID pr) (pr_RequestID pr) (Goal p)
          (toNewTaskSteps (Steps p))) w2 = (r3, w3)" by fastforce
      let ?p = "fresh_plan (pr_UserID pr) (pr_SessionID pr) (pr_RequestID pr) (Goal p) (next_plan_id (tabs w))"
      have c: "tabs w3 = tabs w \<and> (new \<longrightarrow> (\<exists>e. r3 = Inl e)) \<or>
          plan_created ?p (toNewTaskSteps (Steps p)) (tabs w) (tabs w3) \<and> (\<forall>q. r3 = Inr q \<longrightarrow> q = ?p)"
        using on_dbD [OF CreateTaskPlan_effect r3] plans_ok_keyed(1) [OF ok] nw unfolding p(1) new_request_def
        by auto
      have ok3: "plans_ok (tabs w3)" "small_plans env (tabs w3)"
        using c ok small plans_ok_created [OF ok] created_plan_ok(1) [OF ok small p(2)] by auto
      have new3: "new \<Longrightarrow> r3 = Inr q \<Longrightarrow> schedulable (PlanID q) (tabs w3)" for q
        using c created_plan_ok(2) [OF ok small p(2)] o by auto
      show ?thesis
      proof (cases r3)
        case (Inl e)
        with 3 r r1 r2 \<open>r2 = Inr p\<close> r3 ok3 show ?thesis by (auto simp: find_or_create_def)
      next
        case (Inr q)
        obtain r4 w4 where r4: "on_db (GetTaskPlan (pr_UserID pr) (PlanID q)) w3 = (r4, w4)" by fastforce
        have t4: "tabs w4 = tabs w3" using GetTaskPlan_reads [OF r4] by blast
        have run: "find_or_create env pr query w =
            (case r4 of Inl e \<Rightarrow> (Inl (StoreError e), w4) | Inr (_, steps) \<Rightarrow> (Inr (q, steps), w4))"
          by (simp add: find_or_create_def r1 3 r2 \<open>r2 = Inr p\<close> r3 Inr r4)
        show ?thesis
          using run r ok3 t4 new3 [OF _ Inr] GetTaskPlan_stored [of "pr_UserID pr" "PlanID q" w3 _ w4] r4
          by (cases r4) auto
      qed
    qed
  qed
qed

lemma executePlannedTask_ok:
  assumes "plans_ok (tabs w)" and "small_plans env (tabs w)" and o: "new \<longrightarrow> orders_keys env"
    and n: "new \<longrightarrow> (\<forall>pr. caller = Some pr \<longrightarrow> new_request pr (tabs w))"
  shows "case executePlannedTask env caller input w of (r, w') \<Rightarrow>
    r \<noteq> Inl IterationLimit \<and> (new \<longrightarrow> r \<noteq> Inl NoReadyStep) \<and> plans_ok (tabs w')"
proof (cases "\<exists>m pr. input = Some m \<and> caller = Some pr \<and> \<not> (pr_SessionID pr = '''' \<or> pr_RequestID pr = '''')")
  case False
  with assms(1) show ?thesis by (auto simp: executePlannedTask_def split: option.splits)
next
  case True
  then obtain m pr where i: "input = Some m" "caller = Some pr" "\<not> (pr_SessionID pr = '''' \<or> pr_RequestID pr = '''')"
    by blast
  obtain r1 w1 where r1: "find_or_create env pr (Query m) w = (r1, w1)" by fastforce
  from n i(2) have "new \<longrightarrow> new_request pr (tabs w)" by simp
  note f = find_or_create_ok [OF assms(1,2) o this r1]
  show ?thesis
  proof (cases r1)
    case (Inl e)
    with f i r1 show ?thesis by (simp add: executePlannedTask_def)
  next
    case (Inr x)
    obtain tp steps where x: "x = (tp, steps)" by fastforce
    obtain res w2 where r2: "load_results pr (PlanID tp) steps [] w1 = (res, w2)" by fastforce
    have t2: "tabs w2 = tabs w1" by (rule load_results_tabs [OF r2])
    have st: "state_ok (PlanID tp) new (tabs w2)" using f Inr x t2 by (simp add: state_ok_def)
    have "open_steps (PlanID tp) (tabs w2) \<le> max_steps env"
      using f Inr x t2 by (auto simp: small_plans_def)
    then have "open_steps (PlanID tp) (tabs w2) + (max_replans env - 0) * (max_steps env + 1)
        < max_steps env * (max_replans env + 1) + max_replans env + 1"
      by (simp add: algebra_simps)
    from loop_progress [OF st o this, of pr "Query m" res] i r1 Inr x r2 show ?thesis
      by (simp add: executePlannedTask_def)
  qed
qed

text \<open>
  C18 (termination). No run of the executor is ended by its iteration limit, whatever the models
  answer and wherever the database fails: every iteration completes a step or uses up one of the
  replans, and the limit has room for all of them, as long as no stored plan has more unfinished
  steps than the configured maximum. A run leaves the store consistent.
\<close>

theorem executor_within_iteration_limit:
  assumes "plans_ok (tables (db w))" and "small_plans env (tables (db w))"
    and "executePlannedTask env caller input w = (r, w')"
  shows "r \<noteq> Inl IterationLimit \<and> plans_ok (tables (db w'))"
  using executePlannedTask_ok [OF assms(1,2), of False caller input] assms(3) by simp

definition refusing_env :: plan_env where
  "refusing_env = \<lparr>PlanLimits = Some (3, 2), has_model = True,
     planner = \<lambda>_ _. Inl (ErrNew ''busy''), runner = \<lambda>n _. if n = 0 then Inl (ErrNew ''busy'') else Inr ''{}'',
     synthesizer = \<lambda>_ b. Inr b, unmarshal_plan = \<lambda>s. Inl (ErrNew s), unmarshal_result = \<lambda>_. None, key_order = \<lambda>ks. ks\<rparr>"

definition idle_world :: plan_world where
  "idle_world = \<lparr>db = quiet 0 no_plans, n_plans = 0, n_runs = 0\<rparr>"

definition some_principal :: principal where
  "some_principal = \<lparr>pr_UserID = 7, pr_SessionID = ''s'', pr_RequestID = ''r''\<rparr>"

lemma idle_ok [simp]: "plans_ok (tables (db idle_world))" "small_plans env (tables (db idle_world))"
  "new_request pr (tables (db idle_world))" "orders_keys refusing_env"
  by (simp_all add: idle_world_def no_plans_def plans_ok_def steps_ok_def keyed_def small_plans_def
      new_request_def orders_keys_def refusing_env_def)

theorem executor_within_iteration_limit_witness:
  "fst (executePlannedTask refusing_env (Some some_principal) (Some \<lparr>Query = ''q'', SkillAdvice = None\<rparr>) idle_world) \<noteq> Inl IterationLimit"
  using executor_within_iteration_limit [OF idle_ok(1,2) prod.collapse [symmetric]] by blast



text \<open>
  (error). A plan that a run left without a ready step (its step failed and replanning failed
  too) stays so: every later run for the same request reports that no step is ready, without
  asking the planner, and changes nothing.
\<close>

theorem stuck_plan_stays_stuck:
  assumes "find (\<lambda>p. PlanUser p = pr_UserID pr \<and> same_request (pr_SessionID pr) (pr_RequestID pr) p) (task_plans t) = Some tp"
    and "find (owned_plan (PlanID tp) (pr_UserID pr)) (task_plans t) = Some tp'"
    and "\<not> allPlanStepsDone (rows_of (PlanID tp) (task_steps t))"
    and "nextReadyStep (rows_of (PlanID tp) (task_steps t)) = Inl NoReadyStep"
    and "pr_SessionID pr \<noteq> ''''" and "pr_RequestID pr \<noteq> ''''"
  shows "executePlannedTask env (Some pr) (Some m) \<lparr>db = quiet now t, n_plans = np, n_runs = nr\<rparr>
    = (Inl NoReadyStep, \<lparr>db = quiet now t, n_plans = np, n_runs = nr\<rparr>)"
proof -
  let ?w = "\<lparr>db = quiet now t, n_plans = np, n_runs = nr\<rparr>"
  let ?rows = "rows_of (PlanID tp) (task_steps t)"
  have get: "find_or_create env pr (Query m) ?w = (Inr (tp, ?rows), ?w)"
    using assms(1)
    by (simp add: find_or_create_def on_db_def GetTaskPlanByRequest_def tx_run sql_defs rows_of_def)
  have load: "on_db (LoadTaskStepResult s q pid key) ?w = (Inr x, w') \<Longrightarrow> w' = ?w"
    "\<exists>x. on_db (LoadTaskStepResult s q pid key) ?w = (Inr x, ?w)" for s q pid key x w'
    by (auto simp: on_db_def LoadTaskStepResult_def GetTranscriptEvent_def tx_run sql_defs split: option.splits)
  have "\<exists>res. load_results pr (PlanID tp) ss results ?w = (res, ?w)" for ss results
  proof (induction ss arbitrary: results)
    case (Cons s ss)
    with load(2) [of "pr_SessionID pr" "pr_RequestID pr" "PlanID tp" "StepKey s"] show ?case by auto
  qed simp
  then obtain res where res: "load_results pr (PlanID tp) ?rows [] ?w = (res, ?w)" by blast
  have "executor_round env pr (Query m) tp results k ?w = (Finished (Inl NoReadyStep), ?w)" for results k
    using assms(2-4) by (simp add: executor_round_def on_db_def GetTaskPlan_def tx_run sql_defs rows_of_def)
  then show ?thesis
    using assms(5,6) get res by (simp add: executePlannedTask_def)
qed

definition failed_tables :: plan_tables where
  "failed_tables =
     \<lparr>task_plans = [\<lparr>PlanID = 1, PlanUser = 7, PlanSession = ''s'', PlanRequest = ''r'', PlanGoal = ''g'', PlanStatus = ''failed''\<rparr>],
      task_steps =
        [\<lparr>StepPlan = 1, StepKey = ''collect'', StepDescription = ''d'', StepStatus = ''failed'', StepDepends = JsonList []\<rparr>,
         \<lparr>StepPlan = 1, StepKey = ''build'', StepDescription = ''d'', StepStatus = ''pending'', StepDepends = JsonList [''collect'']\<rparr>],
      transcript = Map.empty, next_plan_id = 2\<rparr>"

theorem stuck_plan_stays_stuck_witness:
  "executePlannedTask refusing_env (Some some_principal) (Some \<lparr>Query = ''q'', SkillAdvice = None\<rparr>)
      \<lparr>db = quiet 0 failed_tables, n_plans = 0, n_runs = 0\<rparr>
    = (Inl NoReadyStep, \<lparr>db = quiet 0 failed_tables, n_plans = 0, n_runs = 0\<rparr>)"
  by (rule stuck_plan_stays_stuck [where tp = "task_plans failed_tables ! 0" and tp' = "task_plans failed_tables ! 0"])
    (simp_all add: failed_tables_def some_principal_def same_request_def owned_plan_def rows_of_def
      allPlanStepsDone_def nextReadyStep_def)

end
