(* ===== verification/Cached_Rows.thy ===== *)
theory Cached_Rows
  imports Sql_Tx Paging
begin

text \<open>
  What the user service and the lesson service do in the same way
  (src/internal/rpc/{user,webrtc_live}: getUserCached and getLessonCached, ensureUserExists and
  ensureLessonExists, GetAllUserIDs and GetAllLessonIDs, dao/redis.go, and the start-up and refresh
  of the Bloom filter in initialize/redis.go): a row behind a cache behind a Bloom filter, and the
  loops that read a table in batches. The parts that differ are parameters: the statements on the
  service's own keys and tables.
\<close>

subsection \<open>Reading in batches\<close>

text \<open>
  The loop both list operations are: read a batch behind the cursor, move the cursor to its last
  row, stop after an empty or a short batch. The fuel stands for the number of iterations.
\<close>

abbreviation out_of_fuel :: goerr where
  "out_of_fuel \<equiv> Sentinel ''out of fuel''"

fun read_batches ::
    "(int \<Rightarrow> nat \<Rightarrow> ('w, 'r list) sql) \<Rightarrow> ('r \<Rightarrow> int) \<Rightarrow> nat \<Rightarrow> nat \<Rightarrow> int \<Rightarrow> 'r list \<Rightarrow> ('w, 'r list) tx" where
  "read_batches batch key bsize 0 cursor acc = tx_fail out_of_fuel"
| "read_batches batch key bsize (Suc n) cursor acc =
     tx_bind (stmt (batch cursor bsize)) (\<lambda>rows.
       if rows = [] then tx_return acc
       else if length rows < bsize then tx_return (acc @ rows)
       else read_batches batch key bsize n (key (last rows)) (acc @ rows))"

lemma keeps_read_batches:
  "(\<And>c. keeps I (stmt (batch c n))) \<Longrightarrow> keeps I (read_batches batch key n fuel c acc)"
  by (induction fuel arbitrary: c acc) (auto intro!: keeps_rules)

definition batch_fetch :: "('r \<Rightarrow> int) \<Rightarrow> 'r list \<Rightarrow> nat \<Rightarrow> int option \<Rightarrow> 'r list \<times> int option" where
  "batch_fetch key rows n from =
     (let rs = take n (rows_after (<) key rows from) in (rs, if length rs < n then None else Some (key (last rs))))"

lemma batch_paged: "0 < n \<Longrightarrow> paged (batch_fetch key rows n) rows key (<) n"
  by unfold_locales (auto simp: batch_fetch_def Let_def split: if_splits)

text \<open>The loop is the scan of these pages, and a failing statement ends it.\<close>

lemma read_batches_scan:
  assumes b: "\<And>c now. batch c n now t = (Inr (take n (filter (\<lambda>x. c < key x) rows)), t)" and n: "0 < n"
    and c: "rows_after (<) key rows from = filter (\<lambda>x. c < key x) rows"
  shows "always (read_batches batch key n fuel c acc) t (\<lambda>r t'. t' = t \<and>
    (\<forall>xs. r = Inr xs \<longrightarrow> (\<exists>ys. scan (batch_fetch key rows n) fuel from = Some ys \<and> xs = acc @ ys)) \<and>
    (r = Inl out_of_fuel \<longrightarrow> scan (batch_fetch key rows n) fuel from = None))"
  using c
proof (induction fuel arbitrary: c acc "from")
  case 0
  then show ?case by (simp add: always_simps)
next
  case (Suc fuel)
  let ?rs = "take n (filter (\<lambda>x. c < key x) rows)"
  have f: "batch_fetch key rows n from = (?rs, if length ?rs < n then None else Some (key (last ?rs)))"
    by (simp only: batch_fetch_def Let_def Suc.prems)
  have d: "drv e \<noteq> out_of_fuel" for e by (cases e) auto
  consider "length ?rs < n" | "\<not> length ?rs < n" "?rs \<noteq> []" using n by (cases "?rs = []") auto
  then show ?case
  proof cases
    case 1
    then show ?thesis using d by (simp add: always_simps b f Let_def)
  next
    case 2
    have "rows_after (<) key rows (Some (key (last ?rs))) = filter (\<lambda>x. key (last ?rs) < key x) rows"
      by (simp add: rows_after_def)
    from Suc.IH [OF this, of "acc @ ?rs"] 2
    have "always (read_batches batch key n fuel (key (last ?rs)) (acc @ ?rs)) t (\<lambda>r t'. t' = t \<and>
        (\<forall>xs. r = Inr xs \<longrightarrow> (\<exists>ys. scan (batch_fetch key rows n) (Suc fuel) from = Some ys \<and> xs = acc @ ys)) \<and>
        (r = Inl out_of_fuel \<longrightarrow> scan (batch_fetch key rows n) (Suc fuel) from = None))"
      by (elim always_mono) (auto simp: f)
    with 2 d show ?thesis by (simp add: always_simps b del: scan.simps)
  qed
qed

lemma sorted_rows_ordered:
  fixes key :: "'r \<Rightarrow> int"
  assumes "distinct (map key xs)"
  shows "strictly_ordered (<) key (sort_key key xs)"
proof -
  have "sorted (map key (sort_key key xs))" "distinct (map key (sort_key key xs))"
    using assms by (simp_all add: distinct_map)
  then have "sorted_wrt (<) (map key (sort_key key xs))" by (simp add: strict_sorted_iff)
  then have "sorted_wrt (\<lambda>x y. key x < key y) (sort_key key xs)" by (simp add: sorted_wrt_map)
  then show ?thesis by (auto simp: strictly_ordered_def elim: sorted_wrt_mono_rel [rotated])
qed

interpretation batches: paged "batch_fetch key rows 300" rows key "(<)" 300
  for key :: "'r \<Rightarrow> int" and rows
  by (rule batch_paged) simp

text \<open>Every batch is read: the list is that of all rows, in order.\<close>

lemma read_all_batches:
  assumes b: "\<And>c now. batch c 300 now t = (Inr (take 300 (filter (\<lambda>x. c < key x) (sort_key key xs))), t)"
    and d: "distinct (map key xs)" and p: "\<forall>x \<in> set xs. 0 < key x" and l: "length xs \<le> l"
  shows "always (read_batches batch key 300 (Suc l) 0 []) t
    (\<lambda>r t'. t' = t \<and> r \<noteq> Inl out_of_fuel \<and> (\<forall>ys. r = Inr ys \<longrightarrow> ys = sort_key key xs))"
proof -
  let ?rows = "sort_key key xs"
  have "rows_after (<) key ?rows None = filter (\<lambda>x. 0 < key x) ?rows"
    using p by (simp add: rows_after_def filter_id_conv)
  note r = read_batches_scan [where rows = ?rows and n = 300 and key = key and batch = batch and t = t and c = 0,
      OF b _ this, simplified]
  have "scan (batch_fetch key ?rows 300) (Suc l) None = Some ?rows"
    by (rule batches.scan_all [OF sorted_rows_ordered [OF d]]) (use l in simp)
  with always_mono [OF r [of "Suc l" "[]"]] show ?thesis by fastforce
qed

lemma insort_key_snoc: "f a \<le> f x \<Longrightarrow> insort_key f a (ys @ [x]) = insort_key f a ys @ [x]"
  if "\<forall>y \<in> set ys. f y \<le> f x"
  using that by (induction ys) auto

lemma sort_key_snoc: "\<forall>y \<in> set xs. f y \<le> f x \<Longrightarrow> sort_key f (xs @ [x]) = sort_key f xs @ [x]"
  by (induction xs) (auto simp: insort_key_snoc)

lemma find_append_Some: "find P xs = Some x \<Longrightarrow> find P (xs @ ys) = Some x"
  by (induction xs) (auto split: if_splits)

subsection \<open>A row behind a cache and a Bloom filter\<close>

text \<open>A cached row is its JSON text, or any other text.\<close>

datatype 'r cached = Cached 'r | OtherText string

abbreviation redis_nil :: goerr where
  "redis_nil \<equiv> Sentinel ''redis: nil''"

text \<open>The function that fills the cache, under single flight; a failing SET is ignored.\<close>

definition load_row :: "('w, 'r) sql \<Rightarrow> ('r \<Rightarrow> ('w, unit) sql) \<Rightarrow> ('w, 'r) tx" where
  "load_row select store = tx_bind (stmt select) (\<lambda>r. tx_then (stmt (store r)) (\<lambda>_. tx_return r))"

definition get_cached ::
    "('w, 'r cached) sql \<Rightarrow> ('w, unit) sql \<Rightarrow> ('w, 'r) sql \<Rightarrow> ('r \<Rightarrow> ('w, unit) sql) \<Rightarrow> ('w, 'r) tx" where
  "get_cached get del select store =
     tx_then (stmt get) (\<lambda>r.
       case r of
         Inl e \<Rightarrow> if \<not> err_is e redis_nil then tx_fail e else load_row select store
       | Inr v \<Rightarrow>
           (case v of
              Cached l \<Rightarrow> tx_return l
            | OtherText s \<Rightarrow>
                if s \<noteq> '''' then tx_then (stmt del) (\<lambda>_. load_row select store)
                else load_row select store))"

definition ensure_exists :: "goerr \<Rightarrow> ('w, bool) sql \<Rightarrow> ('w, 'r) tx \<Rightarrow> ('w, 'r) tx" where
  "ensure_exists not_exist maybe cached =
     tx_then (stmt maybe) (\<lambda>m.
       if m = Inr False then tx_fail not_exist
       else tx_then cached (\<lambda>r.
         case r of
           Inl e \<Rightarrow> if err_is e ErrRecordNotFound then tx_fail not_exist else tx_fail e
         | Inr l \<Rightarrow> tx_return l))"

text \<open>
  What the lookup relies on. I is the invariant of the service's state, P what it promises of a row
  of this key, and present says that the row is stored and its key is in the filter.
\<close>

locale cached_row =
  fixes I :: "'w \<Rightarrow> bool" and P :: "'r \<Rightarrow> bool" and present :: "'w \<Rightarrow> bool"
    and maybe :: "('w, bool) sql" and get :: "('w, 'r cached) sql" and del :: "('w, unit) sql"
    and select :: "('w, 'r) sql" and store :: "'r \<Rightarrow> ('w, unit) sql"
  assumes maybe_reads: "snd (maybe now t) = t"
    and get_reads: "snd (get now t) = t"
    and select_reads: "snd (select now t) = t"
    and get_sound: "I t \<Longrightarrow> fst (get now t) = Inr (Cached v) \<Longrightarrow> P v"
    and select_sound: "I t \<Longrightarrow> fst (select now t) = Inr v \<Longrightarrow> P v"
    and del_keeps: "I t \<Longrightarrow> I (snd (del now t))"
    and store_keeps: "I t \<Longrightarrow> P v \<Longrightarrow> I (snd (store v now t))"
    and present_maybe: "present t \<Longrightarrow> fst (maybe now t) = Inr True"
    and present_select: "present t \<Longrightarrow> \<exists>v. fst (select now t) = Inr v"
    and get_errors: "fst (get now t) = Inl e \<Longrightarrow> e = redis_nil"
    and present_del: "present (snd (del now t)) = present t"
    and present_store: "present (snd (store v now t)) = present t"
begin

lemma load_yields: "yields I (load_row select store) P"
  unfolding load_row_def
proof (rule yields_bind)
  show "yields I (stmt select) P"
    by (rule yields_stmt_parts) (use select_reads select_sound in auto)
  show "yields I (tx_then (stmt (store x)) (\<lambda>_. tx_return x)) P" if "P x" for x
    by (rule yields_then [of _ _ "\<lambda>_. True"], rule yields_stmt_parts)
      (use store_keeps that in \<open>auto intro: yields_return\<close>)
qed

lemma cached_yields: "yields I (get_cached get del select store) P"
  unfolding get_cached_def
proof (rule yields_then)
  show "yields I (stmt get) (\<lambda>v. \<forall>l. v = Cached l \<longrightarrow> P l)"
    by (rule yields_stmt_parts) (use get_reads get_sound in auto)
  have "yields I (tx_then (stmt del) (\<lambda>_. load_row select store)) P"
    by (rule yields_then [of _ _ "\<lambda>_. True"], rule yields_stmt_parts) (use del_keeps load_yields in auto)
  then show "yields I (case r of
         Inl e \<Rightarrow> if \<not> err_is e redis_nil then tx_fail e else load_row select store
       | Inr v \<Rightarrow>
           (case v of
              Cached l \<Rightarrow> tx_return l
            | OtherText s \<Rightarrow>
                if s \<noteq> '''' then tx_then (stmt del) (\<lambda>_. load_row select store)
                else load_row select store)) P" if "\<And>x. r = Inr x \<Longrightarrow> \<forall>l. x = Cached l \<longrightarrow> P l" for r
    using that load_yields by (auto intro: yields_return yields_fail split: sum.splits cached.splits)
qed

lemma ensure_yields: "yields I (ensure_exists ne maybe (get_cached get del select store)) P"
  unfolding ensure_exists_def
  by (rule yields_then [of _ _ "\<lambda>_. True"], rule yields_stmt_parts)
    (use maybe_reads cached_yields in
      \<open>auto intro!: yields_if yields_fail yields_then yields_return split: sum.splits\<close>)

text \<open>A row that is present is never reported missing.\<close>

lemma load_present:
  assumes "present t"
  shows "always (load_row select store) t (\<lambda>r t'. present t' \<and> (\<forall>e. r = Inl e \<longrightarrow> (\<exists>d. e = drv d)))"
proof -
  have "\<exists>v. select now t = (Inr v, t)" for now
    using present_select [OF assms, of now] select_reads [of now t] by (cases "select now t") auto
  then obtain v where v: "\<And>now. select now t = (Inr (v now), t)" by metis
  show ?thesis using assms by (auto simp: load_row_def always_stmt_bind always_stmt_parts always_simps v present_store)
qed

lemma cached_present:
  assumes "present t"
  shows "always (get_cached get del select store) t (\<lambda>r t'. present t' \<and> (\<forall>e. r = Inl e \<longrightarrow> (\<exists>d. e = drv d)))"
proof -
  have "always (tx_then (stmt del) (\<lambda>_. load_row select store)) t
      (\<lambda>r t'. present t' \<and> (\<forall>e. r = Inl e \<longrightarrow> (\<exists>d. e = drv d)))"
    using load_present assms present_del by (simp add: always_stmt_parts)
  moreover have "\<not> err_is (drv e) redis_nil" for e by (cases e) auto
  moreover have "err_is e redis_nil" if "fst (get now t) = Inl e" for now e using get_errors [OF that] by simp
  ultimately show ?thesis
    using assms load_present [OF assms]
    by (auto simp: get_cached_def always_stmt_parts get_reads always_simps split: sum.splits cached.splits)
qed

lemma ensure_present:
  assumes "present t"
  shows "always (ensure_exists ne maybe (get_cached get del select store)) t
    (\<lambda>r t'. present t' \<and> (\<forall>e. r = Inl e \<longrightarrow> (\<exists>d. e = drv d)))"
proof -
  have "always (tx_then (get_cached get del select store) (\<lambda>r.
         case r of
           Inl e \<Rightarrow> if err_is e ErrRecordNotFound then tx_fail ne else tx_fail e
         | Inr l \<Rightarrow> tx_return l)) t (\<lambda>r t'. present t' \<and> (\<forall>e. r = Inl e \<longrightarrow> (\<exists>d. e = drv d)))"
    by (rule always_then, rule always_mono [OF cached_present [OF assms]])
      (auto simp: always_simps split: sum.splits)
  then show ?thesis
    by (simp add: ensure_exists_def always_stmt_parts maybe_reads present_maybe [OF assms])
qed

end

subsection \<open>The Bloom filter and its refresh\<close>

text \<open>
  The keys of the filter and of its copy under construction, each with the ids added to it. The
  commands are those of RedisBloom and Redis; whether BF.EXISTS hits is left to the services'
  parameters.
\<close>

datatype bloom_key = BloomKey | TmpKey

type_synonym blooms = "bloom_key \<Rightarrow> int list option"

definition no_blooms :: blooms where
  "no_blooms = (\<lambda>_. None)"

datatype bloom_cmd =
    ExistsKey bloom_key
  | Reserve bloom_key
  | MAdd bloom_key "int list"
  | DelKey bloom_key
  | RenameKey bloom_key bloom_key

definition added :: "blooms \<Rightarrow> bloom_key \<Rightarrow> int list" where
  "added b k = (case b k of None \<Rightarrow> [] | Some xs \<Rightarrow> xs)"

fun bloom_exec :: "bloom_cmd \<Rightarrow> blooms \<Rightarrow> (goerr + nat) \<times> blooms" where
  "bloom_exec (ExistsKey k) b = (Inr (if b k = None then 0 else 1), b)"
| "bloom_exec (Reserve k) b = (if b k \<noteq> None then (Inl (ErrNew ''ERR item exists''), b) else (Inr 1, b(k \<mapsto> [])))"
| "bloom_exec (MAdd k ids) b = (Inr (length ids), b(k \<mapsto> added b k @ ids))"
| "bloom_exec (DelKey k) b = (Inr (if b k = None then 0 else 1), b(k := None))"
| "bloom_exec (RenameKey k k') b =
     (if b k = None then (Inl (ErrNew ''ERR no such key''), b) else (Inr 1, b(k := None, k' := b k)))"

definition bloom_sql :: "('w \<Rightarrow> blooms) \<Rightarrow> (blooms \<Rightarrow> 'w \<Rightarrow> 'w) \<Rightarrow> bloom_cmd \<Rightarrow> ('w, nat) sql" where
  [sql_defs]: "bloom_sql get put c = (\<lambda>now t. case bloom_exec c (get t) of (r, b) \<Rightarrow> (r, put b t))"

definition InitBloom :: "(bloom_cmd \<Rightarrow> ('w, nat) sql) \<Rightarrow> ('w, int list) tx \<Rightarrow> ('w, unit) tx" where
  "InitBloom run getIDs =
     tx_bind (stmt (run (ExistsKey BloomKey))) (\<lambda>ex.
     tx_bind (if ex = 0 then stmt (run (Reserve BloomKey)) else tx_return 0) (\<lambda>_.
     tx_bind getIDs (\<lambda>ids.
       if length ids = 0 then tx_return ()
       else tx_bind (stmt (run (MAdd BloomKey ids))) (\<lambda>_. tx_return ()))))"

fun chunks :: "nat \<Rightarrow> 'a list \<Rightarrow> 'a list list" where
  "chunks n [] = []"
| "chunks n (x # xs) = (x # take (n - 1) xs) # chunks n (drop (n - 1) xs)"

fun add_chunks :: "(bloom_cmd \<Rightarrow> ('w, nat) sql) \<Rightarrow> int list list \<Rightarrow> ('w, unit) tx" where
  "add_chunks run [] = tx_return ()"
| "add_chunks run (c # cs) = tx_bind (stmt (run (MAdd TmpKey c))) (\<lambda>_. add_chunks run cs)"

text \<open>What the refresh does with the ids it has read; its failures are only logged.\<close>

definition refresh_write :: "(bloom_cmd \<Rightarrow> ('w, nat) sql) \<Rightarrow> int list \<Rightarrow> ('w, unit) tx" where
  "refresh_write run ids =
     tx_then (stmt (run (DelKey TmpKey))) (\<lambda>_.
     tx_then (stmt (run (Reserve TmpKey))) (\<lambda>r.
       case r of
         Inl _ \<Rightarrow> tx_return ()
       | Inr _ \<Rightarrow>
           tx_then (add_chunks run (chunks 2000 ids)) (\<lambda>r.
             case r of
               Inl _ \<Rightarrow> tx_return ()
             | Inr _ \<Rightarrow> tx_then (stmt (run (RenameKey TmpKey BloomKey))) (\<lambda>_. tx_return ()))))"

definition refreshBloom :: "(bloom_cmd \<Rightarrow> ('w, nat) sql) \<Rightarrow> ('w, int list) tx \<Rightarrow> ('w, unit) tx" where
  "refreshBloom run getIDs =
     tx_then getIDs (\<lambda>r. case r of Inl _ \<Rightarrow> tx_return () | Inr ids \<Rightarrow> refresh_write run ids)"

lemma add_chunks_keeps: "(\<And>c. keeps I (stmt (run c))) \<Longrightarrow> keeps I (add_chunks run cs)"
  by (induction cs) (auto intro!: keeps_rules)

lemma refresh_keeps: "(\<And>c. keeps I (stmt (run c))) \<Longrightarrow> keeps I ids \<Longrightarrow> keeps I (refreshBloom run ids)"
  unfolding refreshBloom_def refresh_write_def by (auto intro!: keeps_rules add_chunks_keeps)

lemma concat_chunks [simp]: "concat (chunks n xs) = xs"
  by (induction n xs rule: chunks.induct) auto

text \<open>A service's state that holds the filter.\<close>

locale bloom_state =
  fixes get :: "'w \<Rightarrow> blooms" and put :: "blooms \<Rightarrow> 'w \<Rightarrow> 'w"
  assumes get_put: "get (put b t) = b" and put_get: "put (get t) t = t" and put_put: "put b (put c t) = put b t"
begin

abbreviation (input) run :: "bloom_cmd \<Rightarrow> ('w, nat) sql" where
  "run \<equiv> bloom_sql get put"

lemma always_run:
  "always (tx_bind (stmt (run c)) k) t Q \<longleftrightarrow> (\<forall>e. Q (Inl (drv e)) t) \<and>
     (case bloom_exec c (get t) of (Inl e, b) \<Rightarrow> Q (Inl e) (put b t) | (Inr x, b) \<Rightarrow> always (k x) (put b t) Q)"
  "always (tx_then (stmt (run c)) l) t Q \<longleftrightarrow> (\<forall>e. always (l (Inl (drv e))) t Q) \<and>
     (case bloom_exec c (get t) of (r, b) \<Rightarrow> always (l r) (put b t) Q)"
  by (auto simp: always_stmt_bind always_stmt_then bloom_sql_def split: prod.splits sum.splits)

lemma add_chunks_effect:
  "always (add_chunks run cs) t (\<lambda>r t'. (\<exists>b. t' = put b t \<and> b BloomKey = get t BloomKey \<and>
     (\<forall>x. r = Inr x \<longrightarrow> get t TmpKey \<noteq> None \<longrightarrow> b TmpKey = Some (added (get t) TmpKey @ concat cs))))"
proof (induction cs arbitrary: t)
  case Nil
  then show ?case
    by (auto simp: always_return added_def put_get intro!: exI [of _ "get t"] split: option.splits)
next
  case (Cons c cs)
  let ?b = "(get t)(TmpKey \<mapsto> added (get t) TmpKey @ c)"
  have "always (add_chunks run cs) (put ?b t) (\<lambda>r t'. (\<exists>b. t' = put b t \<and> b BloomKey = get t BloomKey \<and>
     (\<forall>x. r = Inr x \<longrightarrow> get t TmpKey \<noteq> None \<longrightarrow> b TmpKey = Some (added (get t) TmpKey @ concat (c # cs)))))"
    by (rule always_mono [OF Cons.IH]) (auto simp: get_put put_put added_def)
  then show ?case
    by (auto simp: always_run always_return always_fail put_get intro!: exI [of _ "get t"])
qed

lemma refresh_write_effect:
  "always (refresh_write run ids) t (\<lambda>r t'. \<exists>b. t' = put b t \<and>
     (b BloomKey = get t BloomKey \<or> b BloomKey = Some ids))"
proof -
  let ?Q = "\<lambda>t'. \<exists>b. t' = put b t \<and> (b BloomKey = get t BloomKey \<or> b BloomKey = Some ids)"
  have wr: "always (tx_then (add_chunks run (chunks 2000 ids)) (\<lambda>r.
             case r of
               Inl _ \<Rightarrow> tx_return ()
             | Inr _ \<Rightarrow> tx_then (stmt (run (RenameKey TmpKey BloomKey))) (\<lambda>_. tx_return ()))) (put b t)
      (\<lambda>_ t'. ?Q t')"
    if "b BloomKey = get t BloomKey" "b TmpKey = Some []" for b
    by (rule always_then, rule always_mono [OF add_chunks_effect])
      (use that in \<open>auto simp: always_run always_return always_fail get_put put_put added_def split: sum.splits\<close>)
  have self: "?Q (put b t)" if "b BloomKey = get t BloomKey" for b using that by blast
  have "?Q t" by (rule exI [of _ "get t"]) (simp add: put_get)
  with wr self show ?thesis
    by (auto simp: refresh_write_def always_run always_return always_fail get_put put_put)
qed

lemma add_chunks_quiet:
  "b TmpKey = Some xs \<Longrightarrow>
     add_chunks run cs (quiet now (put b t)) = (Inr (), quiet now (put (b(TmpKey \<mapsto> xs @ concat cs)) t))"
  by (induction cs arbitrary: b xs) (auto simp: tx_run bloom_sql_def get_put put_put added_def fun_upd_idem)

lemma refresh_write_quiet:
  "refresh_write run ids (quiet now t) = (Inr (), quiet now (put ((get t)(TmpKey := None, BloomKey \<mapsto> ids)) t))"
  by (simp add: refresh_write_def tx_run bloom_sql_def get_put put_put add_chunks_quiet [of _ "[]"] fun_upd_twist)

end

end
