(* ===== verification/Lesson_Store.thy ===== *)
theory Lesson_Store
  imports Cached_Rows
begin

text \<open>
  The tables of the lesson service and the operations on them
  (src/internal/rpc/webrtc_live/dao/mysql.go over the rows of webrtc_live/model): lessons and their
  members, sign-ins, whiteboards and the lists read batch by batch. The service's state also holds
  its Redis keys (dao/redis.go and the Lua scripts), which Lesson_Service works on; every SQL
  statement and every Redis command is a statement of Sql_Tx, so each of them may fail, and the
  clock of each is arbitrary.
\<close>

subsection \<open>Rows and keys\<close>

record webrtc_lesson =
  LessonId :: int
  LessonName :: string
  LessonDescription :: string
  TeacherName :: string
  TeacherUID :: int

record lesson_student =
  LsID :: int
  LsLesson :: int
  LsUser :: int
  LsRole :: string
  LsStatus :: int

text \<open>The two JSON columns of a sign-in are the lists they hold. A zero CloseTime is None.\<close>

record sign_in =
  SiID :: int
  SiLesson :: int
  AllUserId :: "int list"
  AlreadyUserId :: "int list"
  CloseTime :: "int option"

text \<open>elements, appState and files are the JSON texts that their columns hold.\<close>

record excalidraw_doc =
  DocID :: int
  DocLesson :: int
  DocType :: string
  DocVersion :: int
  DocSource :: string
  DocElements :: string
  DocAppState :: string
  DocFiles :: string

record outbox_event =
  AggregateType :: string
  AggregateID :: string
  EventType :: string
  Payload :: string

text \<open>
  MySQL tables in the order of their ids with their auto-increment counters, and Redis keys. A key
  that expires has its deadline; the members of a live room and the raised hands are those of the
  hash and of the sorted set (member and score).
\<close>

record lesson_world =
  lessons :: "webrtc_lesson list"
  lesson_students :: "lesson_student list"
  sign_ins :: "sign_in list"
  whiteboards :: "excalidraw_doc list"
  outbox :: "outbox_event list"
  next_student :: int
  next_sign_in :: int
  next_doc :: int
  lesson_cache :: "int \<Rightarrow> (webrtc_lesson cached \<times> int) option"   \<comment> \<open>lesson:info:<lesson>\<close>
  perm_cache :: "int \<times> int \<Rightarrow> int option"                  \<comment> \<open>perm:teacher:<lesson>:<user>, value 1\<close>
  bloom :: blooms
  live_count :: "int \<Rightarrow> int option"
  live_members :: "int \<Rightarrow> (string \<times> string) list"
  hands :: "int \<Rightarrow> (string \<times> int) list"
  hands_until :: "int \<Rightarrow> int option"

type_synonym 'a lesson_tx = "(lesson_world, 'a) tx"

subsection \<open>Statements\<close>

definition is_lesson :: "int \<Rightarrow> webrtc_lesson \<Rightarrow> bool" where
  "is_lesson lid l \<longleftrightarrow> LessonId l = lid"

definition member_row :: "int \<Rightarrow> int \<Rightarrow> lesson_student \<Rightarrow> bool" where
  "member_row lid uid s \<longleftrightarrow> LsLesson s = lid \<and> LsUser s = uid"

definition active_row :: "int \<Rightarrow> lesson_student \<Rightarrow> bool" where
  "active_row lid s \<longleftrightarrow> LsLesson s = lid \<and> LsStatus s = 1"

definition duplicate_entry :: goerr where
  "duplicate_entry = MySQLError 1062 ''Duplicate entry''"

definition insertLesson :: "webrtc_lesson \<Rightarrow> (lesson_world, unit) sql" where
  [sql_defs]: "insertLesson l = (\<lambda>now t.
     if find (is_lesson (LessonId l)) (lessons t) \<noteq> None then (Inl duplicate_entry, t)
     else (Inr (), t\<lparr>lessons := lessons t @ [l]\<rparr>))"

text \<open>The unique index uk_lesson_user; an empty role is stored as the column's default.\<close>

definition insertStudent :: "int \<Rightarrow> int \<Rightarrow> string \<Rightarrow> (lesson_world, unit) sql" where
  [sql_defs]: "insertStudent lid uid role = (\<lambda>now t.
     if find (member_row lid uid) (lesson_students t) \<noteq> None then (Inl duplicate_entry, t)
     else (Inr (), t\<lparr>lesson_students := lesson_students t @
             [\<lparr>LsID = next_student t, LsLesson = lid, LsUser = uid,
               LsRole = (if role = '''' then ''student'' else role), LsStatus = 1\<rparr>],
           next_student := next_student t + 1\<rparr>))"

definition insertOutbox :: "outbox_event \<Rightarrow> (lesson_world, unit) sql" where
  [sql_defs]: "insertOutbox e = (\<lambda>now t. (Inr (), t\<lparr>outbox := outbox t @ [e]\<rparr>))"

definition deleteLesson :: "int \<Rightarrow> (lesson_world, unit) sql" where
  [sql_defs]: "deleteLesson lid = (\<lambda>now t. (Inr (), t\<lparr>lessons := filter (\<lambda>l. \<not> is_lesson lid l) (lessons t)\<rparr>))"

definition deleteStudents :: "int \<Rightarrow> (lesson_world, unit) sql" where
  [sql_defs]: "deleteStudents lid = (\<lambda>now t.
     (Inr (), t\<lparr>lesson_students := filter (\<lambda>s. LsLesson s \<noteq> lid) (lesson_students t)\<rparr>))"

definition firstLesson :: "(webrtc_lesson \<Rightarrow> bool) \<Rightarrow> (lesson_world, webrtc_lesson) sql" where
  [sql_defs]: "firstLesson P = (\<lambda>now t.
     (case find P (sort_key LessonId (lessons t)) of None \<Rightarrow> Inl ErrRecordNotFound | Some l \<Rightarrow> Inr l, t))"

definition firstStudent :: "int \<Rightarrow> int \<Rightarrow> (lesson_world, lesson_student) sql" where
  [sql_defs]: "firstStudent lid uid = (\<lambda>now t.
     (case find (member_row lid uid) (lesson_students t) of None \<Rightarrow> Inl ErrRecordNotFound | Some s \<Rightarrow> Inr s, t))"

definition setStatus :: "int \<Rightarrow> int \<Rightarrow> int \<Rightarrow> (lesson_world, unit) sql" where
  [sql_defs]: "setStatus lid uid st = (\<lambda>now t.
     (Inr (), t\<lparr>lesson_students :=
        map (\<lambda>s. if member_row lid uid s then s\<lparr>LsStatus := st\<rparr> else s) (lesson_students t)\<rparr>))"

definition countActive :: "int \<Rightarrow> int \<Rightarrow> (lesson_world, nat) sql" where
  [sql_defs]: "countActive lid uid = (\<lambda>now t.
     (Inr (length (filter (\<lambda>s. member_row lid uid s \<and> LsStatus s = 1) (lesson_students t))), t))"

definition firstSignIn :: "int \<Rightarrow> (lesson_world, sign_in) sql" where
  [sql_defs]: "firstSignIn lid = (\<lambda>now t.
     (case find (\<lambda>s. SiLesson s = lid) (sign_ins t) of None \<Rightarrow> Inl ErrRecordNotFound | Some s \<Rightarrow> Inr s, t))"

definition insertSignIn :: "int \<Rightarrow> int list \<Rightarrow> int \<Rightarrow> (lesson_world, unit) sql" where
  [sql_defs]: "insertSignIn lid users close = (\<lambda>now t.
     (Inr (), t\<lparr>sign_ins := sign_ins t @ [\<lparr>SiID = next_sign_in t, SiLesson = lid, AllUserId = users,
                  AlreadyUserId = [], CloseTime = Some close\<rparr>],
        next_sign_in := next_sign_in t + 1\<rparr>))"

definition saveSignIn :: "sign_in \<Rightarrow> (lesson_world, unit) sql" where
  [sql_defs]: "saveSignIn s = (\<lambda>now t.
     (Inr (), t\<lparr>sign_ins := map (\<lambda>r. if SiID r = SiID s then s else r) (sign_ins t)\<rparr>))"

definition deleteSignIns :: "int \<Rightarrow> (lesson_world, unit) sql" where
  [sql_defs]: "deleteSignIns lid = (\<lambda>now t. (Inr (), t\<lparr>sign_ins := filter (\<lambda>s. SiLesson s \<noteq> lid) (sign_ins t)\<rparr>))"

text \<open>INSERT with the id of the row, or with the next one when it is 0.\<close>

definition insertDoc :: "excalidraw_doc \<Rightarrow> (lesson_world, unit) sql" where
  [sql_defs]: "insertDoc d = (\<lambda>now t.
     if DocID d = 0 then (Inr (), t\<lparr>whiteboards := whiteboards t @ [d\<lparr>DocID := next_doc t\<rparr>], next_doc := next_doc t + 1\<rparr>)
     else if find (\<lambda>r. DocID r = DocID d) (whiteboards t) \<noteq> None then (Inl duplicate_entry, t)
     else (Inr (), t\<lparr>whiteboards := whiteboards t @ [d], next_doc := max (next_doc t) (DocID d + 1)\<rparr>))"

definition firstDoc :: "int \<Rightarrow> (lesson_world, excalidraw_doc) sql" where
  [sql_defs]: "firstDoc lid = (\<lambda>now t.
     (case find (\<lambda>d. DocLesson d = lid) (sort_key DocID (whiteboards t)) of
        None \<Rightarrow> Inl ErrRecordNotFound | Some d \<Rightarrow> Inr d, t))"

text \<open>The batches of active members and of lessons behind a cursor.\<close>

definition students_after :: "int \<Rightarrow> int \<Rightarrow> nat \<Rightarrow> (lesson_world, lesson_student list) sql" where
  [sql_defs]: "students_after lid cursor n = (\<lambda>now t.
     (Inr (take n (sort_key LsID (filter (\<lambda>s. active_row lid s \<and> cursor < LsID s) (lesson_students t)))), t))"

definition lessons_after :: "int \<Rightarrow> nat \<Rightarrow> (lesson_world, webrtc_lesson list) sql" where
  [sql_defs]: "lessons_after cursor n = (\<lambda>now t.
     (Inr (take n (sort_key LessonId (filter (\<lambda>l. cursor < LessonId l) (lessons t)))), t))"

subsection \<open>Lessons and members\<close>

definition add_bloom_payload :: "int \<Rightarrow> string" where
  "add_bloom_payload lid = ''{'' @ [CHR 0x22] @ ''lessonId'' @ [CHR 0x22] @ '':'' @ show_int lid @ ''}''"

text \<open>CreateLesson with the id of the snowflake node.\<close>

definition CreateLesson :: "int \<Rightarrow> string \<Rightarrow> string \<Rightarrow> string \<Rightarrow> string \<Rightarrow> int \<Rightarrow> int lesson_tx" where
  "CreateLesson lid name desc teacherName role teacherUID =
     Transaction
       (tx_bind (stmt (insertLesson \<lparr>LessonId = lid, LessonName = name, LessonDescription = desc,
                         TeacherName = teacherName, TeacherUID = teacherUID\<rparr>)) (\<lambda>_.
        tx_bind (stmt (insertStudent lid teacherUID role)) (\<lambda>_.
        tx_bind (stmt (insertOutbox \<lparr>AggregateType = ''Lesson'', AggregateID = show_int lid,
                         EventType = ''ADD_BLOOM'', Payload = add_bloom_payload lid\<rparr>)) (\<lambda>_.
        tx_return lid))))"

definition DelLesson :: "int \<Rightarrow> unit lesson_tx" where
  "DelLesson lid = Transaction (tx_bind (stmt (deleteLesson lid)) (\<lambda>_. stmt (deleteStudents lid)))"

definition SelectLesson :: "int \<Rightarrow> webrtc_lesson lesson_tx" where
  "SelectLesson lid = stmt (firstLesson (is_lesson lid))"

definition SelectLessonByNandT :: "string \<Rightarrow> string \<Rightarrow> webrtc_lesson lesson_tx" where
  "SelectLessonByNandT name teacherName = stmt (firstLesson (\<lambda>l. LessonName l = name \<and> TeacherName l = teacherName))"

definition ChangeUserToLesson :: "int \<Rightarrow> int \<Rightarrow> string \<Rightarrow> unit lesson_tx" where
  "ChangeUserToLesson lid stuid options =
     (if options \<noteq> ''add'' \<and> options \<noteq> ''del'' then tx_fail (ErrNew ''invalid options'')
      else Transaction
        (tx_bind (stmt (firstLesson (is_lesson lid))) (\<lambda>_.
         tx_then (stmt (firstStudent lid stuid)) (\<lambda>r.
           if options = ''add'' then
             (case r of
                Inr _ \<Rightarrow> stmt (setStatus lid stuid 1)
              | Inl e \<Rightarrow> if \<not> err_is e ErrRecordNotFound then tx_fail e else stmt (insertStudent lid stuid ''''))
           else
             (case r of
                Inl e \<Rightarrow> if err_is e ErrRecordNotFound then tx_return () else tx_fail e
              | Inr _ \<Rightarrow> stmt (setStatus lid stuid 0))))))"

definition IsStudentInLesson :: "int \<Rightarrow> int \<Rightarrow> bool lesson_tx" where
  "IsStudentInLesson lid uid = tx_bind (stmt (countActive lid uid)) (\<lambda>cnt. tx_return (0 < cnt))"

subsection \<open>Sign-ins\<close>

abbreviation signin_exists :: goerr where
  "signin_exists \<equiv> Sentinel ''sign-in already created''"

abbreviation signed_already :: goerr where
  "signed_already \<equiv> Sentinel ''already signed in''"

definition CreateSignIn :: "int \<Rightarrow> int list \<Rightarrow> int \<Rightarrow> unit lesson_tx" where
  "CreateSignIn lid users close =
     Transaction
       (tx_then (stmt (firstSignIn lid)) (\<lambda>r.
          case r of
            Inr _ \<Rightarrow> tx_fail signin_exists
          | Inl e \<Rightarrow> if \<not> err_is e ErrRecordNotFound then tx_fail e else stmt (insertSignIn lid users close)))"

definition StuSignIn :: "int \<Rightarrow> int \<Rightarrow> int \<Rightarrow> string lesson_tx" where
  "StuSignIn lid uid timeNow =
     tx_bind
       (Transaction
         (tx_bind (stmt (firstSignIn lid)) (\<lambda>s.
            if \<exists>c. CloseTime s = Some c \<and> \<not> timeNow < c then
              tx_bind (stmt (deleteSignIns lid)) (\<lambda>_. tx_fail (ErrNew ''close''))
            else if uid \<in> set (AlreadyUserId s) then tx_fail signed_already
            else stmt (saveSignIn (s\<lparr>AlreadyUserId := AlreadyUserId s @ [uid]\<rparr>)))))
       (\<lambda>_. tx_return ''success'')"

definition slash_list :: "int list \<Rightarrow> string" where
  "slash_list ids = concat (map (\<lambda>(i, uid). (if 0 < i then ''/'' else '''') @ show_int uid) (enumerate 0 ids))"

text \<open>The two halves of the answer; the sources put them into a sentence.\<close>

definition SelectSignIn :: "int \<Rightarrow> (string \<times> string) lesson_tx" where
  "SelectSignIn lid =
     tx_bind (stmt (firstSignIn lid)) (\<lambda>s.
       let notSigned = filter (\<lambda>uid. uid \<notin> set (AlreadyUserId s)) (AllUserId s) in
       tx_return (slash_list (AlreadyUserId s), slash_list notSigned))"

definition RemoveSignIn :: "int \<Rightarrow> unit lesson_tx" where
  "RemoveSignIn lid = stmt (deleteSignIns lid)"

subsection \<open>Whiteboards\<close>

text \<open>unmarshal is encoding/json on the document's text.\<close>

definition SaveWhiteBoard :: "(string \<Rightarrow> goerr + excalidraw_doc) \<Rightarrow> int \<Rightarrow> string \<Rightarrow> unit lesson_tx" where
  "SaveWhiteBoard unmarshal lid file =
     (case unmarshal file of
        Inl e \<Rightarrow> tx_fail e
      | Inr doc \<Rightarrow> stmt (insertDoc (doc\<lparr>DocLesson := lid\<rparr>)))"

definition GetWhiteBoardNew :: "int \<Rightarrow> excalidraw_doc option lesson_tx" where
  "GetWhiteBoardNew lid =
     tx_then (stmt (firstDoc lid)) (\<lambda>r.
       case r of
         Inl e \<Rightarrow> if err_is e ErrRecordNotFound then tx_return None else tx_fail e
       | Inr d \<Rightarrow> tx_return (Some d))"

subsection \<open>Lists read in batches\<close>

definition ListLessonStudentIDs :: "int \<Rightarrow> int list lesson_tx" where
  "ListLessonStudentIDs lid s =
     tx_bind (read_batches (students_after lid) LsID 300 (Suc (length (lesson_students (tables s)))) 0 [])
       (\<lambda>rows. tx_return (map LsUser rows)) s"

definition GetAllLessonIDs :: "int list lesson_tx" where
  "GetAllLessonIDs s =
     tx_bind (read_batches lessons_after LessonId 300 (Suc (length (lessons (tables s)))) 0 [])
       (\<lambda>rows. tx_return (map LessonId rows)) s"

definition LessonStudentCursorPage :: "int \<Rightarrow> int \<Rightarrow> int \<Rightarrow> (int list \<times> int \<times> bool) lesson_tx" where
  "LessonStudentCursorPage lid cursorID limit =
     (let limit = (if limit \<le> 0 then 50 else limit); limit = nat (if 200 < limit then 200 else limit) in
      tx_bind (stmt (students_after lid cursorID (limit + 1))) (\<lambda>rows.
        if rows = [] then tx_return ([], 0, False)
        else
          (let hasMore = limit < length rows; rows = (if hasMore then take limit rows else rows) in
           tx_return (map LsUser rows, LsID (last rows), hasMore))))"

subsection \<open>The invariant of the tables\<close>

definition students_ok :: "lesson_student list \<Rightarrow> int \<Rightarrow> bool" where
  "students_ok rows nx \<longleftrightarrow>
     sorted_wrt (<) (map LsID rows) \<and> (\<forall>s \<in> set rows. 0 < LsID s \<and> LsID s < nx) \<and> 0 < nx \<and>
     distinct (map (\<lambda>s. (LsLesson s, LsUser s)) rows)"

definition sign_ins_ok :: "sign_in list \<Rightarrow> int \<Rightarrow> bool" where
  "sign_ins_ok rows nx \<longleftrightarrow>
     distinct (map SiID rows) \<and> distinct (map SiLesson rows) \<and>
     (\<forall>s \<in> set rows. SiID s < nx \<and> distinct (AlreadyUserId s))"

definition lessons_ok :: "lesson_world \<Rightarrow> bool" where
  "lessons_ok t \<longleftrightarrow> distinct (map LessonId (lessons t)) \<and>
     students_ok (lesson_students t) (next_student t) \<and> sign_ins_ok (sign_ins t) (next_sign_in t)"

lemma students_ok_insert:
  assumes "students_ok rows nx" and "find (member_row lid uid) rows = None"
  shows "students_ok (rows @ [\<lparr>LsID = nx, LsLesson = lid, LsUser = uid, LsRole = role, LsStatus = st\<rparr>]) (nx + 1)"
  using assms by (auto simp: students_ok_def find_None_iff member_row_def sorted_wrt_append)

lemma students_ok_filter: "students_ok rows nx \<Longrightarrow> students_ok (filter P rows) nx"
  by (auto simp: students_ok_def sorted_wrt_map sorted_wrt_filter distinct_map inj_on_def)

lemma students_ok_status:
  "students_ok rows nx \<Longrightarrow>
     students_ok (map (\<lambda>s. if member_row lid uid s then s\<lparr>LsStatus := st\<rparr> else s) rows) nx"
proof -
  let ?g = "\<lambda>s. if member_row lid uid s then s\<lparr>LsStatus := st\<rparr> else s"
  have "LsID \<circ> ?g = LsID" "(\<lambda>s. (LsLesson s, LsUser s)) \<circ> ?g = (\<lambda>s. (LsLesson s, LsUser s))"
    by (intro ext; simp)+
  then show "students_ok rows nx \<Longrightarrow> ?thesis" by (auto simp: students_ok_def)
qed

lemma sign_ins_ok_insert:
  assumes "sign_ins_ok rows nx" and "find (\<lambda>s. SiLesson s = lid) rows = None"
  shows "sign_ins_ok (rows @ [\<lparr>SiID = nx, SiLesson = lid, AllUserId = users, AlreadyUserId = [], CloseTime = c\<rparr>]) (nx + 1)"
  using assms by (auto simp: sign_ins_ok_def find_None_iff)

lemma sign_ins_ok_filter: "sign_ins_ok rows nx \<Longrightarrow> sign_ins_ok (filter P rows) nx"
  by (auto simp: sign_ins_ok_def distinct_map inj_on_def)

lemma sign_ins_ok_save:
  assumes "sign_ins_ok rows nx" and "find P rows = Some s" and "uid \<notin> set (AlreadyUserId s)"
  shows "sign_ins_ok (map (\<lambda>r. if SiID r = SiID s then s\<lparr>AlreadyUserId := AlreadyUserId s @ [uid]\<rparr> else r) rows) nx"
proof -
  have s: "s \<in> set rows" using assms(2) by (auto simp: find_Some_iff)
  have same: "r = s" if "r \<in> set rows" "SiID r = SiID s" for r
    using assms(1) s that by (auto simp: sign_ins_ok_def distinct_map inj_on_def)
  let ?g = "\<lambda>r. if SiID r = SiID s then s\<lparr>AlreadyUserId := AlreadyUserId s @ [uid]\<rparr> else r"
  have "map (SiID \<circ> ?g) rows = map SiID rows" "map (SiLesson \<circ> ?g) rows = map SiLesson rows"
    by (rule map_cong; use same in auto)+
  then have "distinct (map SiID (map ?g rows))" "distinct (map SiLesson (map ?g rows))"
    using assms(1) by (simp_all only: sign_ins_ok_def map_map)
  then show ?thesis using assms s same by (auto simp: sign_ins_ok_def split: if_splits)
qed

lemmas rows_ok_intros = students_ok_insert students_ok_filter students_ok_status
  sign_ins_ok_insert sign_ins_ok_filter sign_ins_ok_save

subsection \<open>Sequences of calls\<close>

datatype lesson_call =
    DoCreate int string string string string int
  | DoDelete int
  | DoChange int int string
  | DoCreateSignIn int "int list" int
  | DoSignIn int int int
  | DoRemoveSignIn int
  | DoSaveBoard int string

text \<open>Their results ignored; unmarshal is the JSON decoder of the boards.\<close>

fun lesson_call_run ::
    "(string \<Rightarrow> goerr + excalidraw_doc) \<Rightarrow> lesson_call \<Rightarrow> lesson_world tx_state \<Rightarrow> lesson_world tx_state" where
  "lesson_call_run u (DoCreate lid name desc tn role uid) s = snd (CreateLesson lid name desc tn role uid s)"
| "lesson_call_run u (DoDelete lid) s = snd (DelLesson lid s)"
| "lesson_call_run u (DoChange lid uid opt) s = snd (ChangeUserToLesson lid uid opt s)"
| "lesson_call_run u (DoCreateSignIn lid users close) s = snd (CreateSignIn lid users close s)"
| "lesson_call_run u (DoSignIn lid uid now) s = snd (StuSignIn lid uid now s)"
| "lesson_call_run u (DoRemoveSignIn lid) s = snd (RemoveSignIn lid s)"
| "lesson_call_run u (DoSaveBoard lid file) s = snd (SaveWhiteBoard u lid file s)"

definition lesson_calls ::
    "(string \<Rightarrow> goerr + excalidraw_doc) \<Rightarrow> lesson_call list \<Rightarrow> lesson_world tx_state \<Rightarrow> lesson_world tx_state" where
  "lesson_calls u cs s = fold (lesson_call_run u) cs s"

definition no_lessons :: lesson_world where
  "no_lessons =
     \<lparr>lessons = [], lesson_students = [], sign_ins = [], whiteboards = [], outbox = [],
      next_student = 1, next_sign_in = 1, next_doc = 1, lesson_cache = Map.empty, perm_cache = Map.empty,
      bloom = no_blooms, live_count = Map.empty, live_members = (\<lambda>_. []), hands = (\<lambda>_. []), hands_until = Map.empty\<rparr>"

lemma lesson_ids_ok:
  "distinct (map LessonId ls) \<Longrightarrow> distinct (map LessonId (filter P ls))"
  "find (is_lesson lid) ls = None \<Longrightarrow> lid \<notin> LessonId ` set ls"
  by (auto simp: distinct_map inj_on_def find_None_iff is_lesson_def)

lemma CreateLesson_keeps: "lessons_ok t \<Longrightarrow> always (CreateLesson lid name desc tn role uid) t (\<lambda>_. lessons_ok)"
  unfolding CreateLesson_def
  by (rule always_Transaction_keeps)
    (auto simp: always_simps sql_defs lessons_ok_def dest: lesson_ids_ok(2) intro: rows_ok_intros)

lemma DelLesson_keeps: "lessons_ok t \<Longrightarrow> always (DelLesson lid) t (\<lambda>_. lessons_ok)"
  unfolding DelLesson_def
  by (rule always_Transaction_keeps)
    (auto simp: always_simps sql_defs lessons_ok_def intro: rows_ok_intros lesson_ids_ok(1))

lemma ChangeUserToLesson_keeps: "lessons_ok t \<Longrightarrow> always (ChangeUserToLesson lid uid opt) t (\<lambda>_. lessons_ok)"
  unfolding ChangeUserToLesson_def
  by (auto simp: always_simps sql_defs lessons_ok_def split: option.splits
      intro!: always_Transaction_keeps intro: rows_ok_intros)

lemma CreateSignIn_keeps: "lessons_ok t \<Longrightarrow> always (CreateSignIn lid users close) t (\<lambda>_. lessons_ok)"
  unfolding CreateSignIn_def
  by (rule always_Transaction_keeps)
    (auto simp: always_simps sql_defs lessons_ok_def split: option.splits intro: rows_ok_intros)

text \<open>What a sign-in of a student does: it appends the student to a sign-in that is still open.\<close>

definition signed_in :: "int \<Rightarrow> int \<Rightarrow> int \<Rightarrow> lesson_world \<Rightarrow> lesson_world \<Rightarrow> bool" where
  "signed_in lid uid now t t' \<longleftrightarrow>
     (\<exists>s. find (\<lambda>s. SiLesson s = lid) (sign_ins t) = Some s \<and> uid \<notin> set (AlreadyUserId s) \<and>
        (\<forall>c. CloseTime s = Some c \<longrightarrow> now < c) \<and>
        t' = t\<lparr>sign_ins := map (\<lambda>r. if SiID r = SiID s then s\<lparr>AlreadyUserId := AlreadyUserId s @ [uid]\<rparr> else r) (sign_ins t)\<rparr>)"

lemma StuSignIn_effect:
  "always (StuSignIn lid uid now) t (\<lambda>r t'. (\<exists>e. r = Inl e) \<and> t' = t \<or> signed_in lid uid now t t')"
proof -
  let ?body = "tx_bind (stmt (firstSignIn lid)) (\<lambda>s.
            if \<exists>c. CloseTime s = Some c \<and> \<not> now < c then
              tx_bind (stmt (deleteSignIns lid)) (\<lambda>_. tx_fail (ErrNew ''close''))
            else if uid \<in> set (AlreadyUserId s) then tx_fail signed_already
            else stmt (saveSignIn (s\<lparr>AlreadyUserId := AlreadyUserId s @ [uid]\<rparr>)))"
  have "always ?body t (\<lambda>r t'. case r of Inl e \<Rightarrow> True | Inr x \<Rightarrow> signed_in lid uid now t t')"
    by (auto simp: always_simps sql_defs signed_in_def split: option.splits)
  then have "always (Transaction ?body) t (\<lambda>r t'. (\<exists>e. r = Inl e) \<and> t' = t \<or> signed_in lid uid now t t')"
    by (intro always_Transaction) (auto elim!: always_mono split: sum.splits)
  then show ?thesis
    unfolding StuSignIn_def by (rule always_bind) (auto simp: always_simps)
qed

lemma StuSignIn_keeps: "lessons_ok t \<Longrightarrow> always (StuSignIn lid uid now) t (\<lambda>_. lessons_ok)"
  by (rule always_mono [OF StuSignIn_effect]) (auto simp: signed_in_def lessons_ok_def intro: rows_ok_intros)

lemma RemoveSignIn_keeps: "lessons_ok t \<Longrightarrow> always (RemoveSignIn lid) t (\<lambda>_. lessons_ok)"
  by (auto simp: RemoveSignIn_def always_simps sql_defs lessons_ok_def intro: rows_ok_intros)

lemma SaveWhiteBoard_keeps: "lessons_ok t \<Longrightarrow> always (SaveWhiteBoard u lid file) t (\<lambda>_. lessons_ok)"
  by (cases "u file") (auto simp: SaveWhiteBoard_def always_simps sql_defs lessons_ok_def)

lemma lesson_call_keeps:
  assumes "lessons_ok (tables s)"
  shows "lessons_ok (tables (lesson_call_run u c s))"
proof -
  have run: "lessons_ok (tables (snd (m s)))" if "always m (tables s) (\<lambda>_. lessons_ok)" for m :: "'a lesson_tx"
    using alwaysD [OF that, of "fst (m s)" "snd (m s)"] by simp
  show ?thesis
    by (cases c)
      (simp_all add: run CreateLesson_keeps DelLesson_keeps ChangeUserToLesson_keeps CreateSignIn_keeps
        StuSignIn_keeps RemoveSignIn_keeps SaveWhiteBoard_keeps assms)
qed

text \<open>
  (invariant). Whatever calls are made on the lesson tables, in whatever order, and wherever the
  database fails: lesson ids are unique, a user has at most one membership row per lesson, a lesson
  has at most one sign-in, and nobody is listed twice among those who signed in.
\<close>

theorem lesson_tables_stay_consistent:
  "lessons_ok (tables (lesson_calls u cs \<lparr>tables = no_lessons, plan = p\<rparr>))"
proof -
  have "lessons_ok (tables s) \<Longrightarrow> lessons_ok (tables (lesson_calls u cs s))" for s
    unfolding lesson_calls_def by (induction cs arbitrary: s) (simp_all add: lesson_call_keeps)
  moreover have "lessons_ok no_lessons" by (simp add: no_lessons_def lessons_ok_def students_ok_def sign_ins_ok_def)
  ultimately show ?thesis by simp
qed

text \<open>
  (error). Once the close time of a sign-in has passed, a student's sign-in fails in every run, and
  the expired row stays: the deletion it makes is undone, since the transaction then returns the
  error that says the sign-in is closed. While the row is there no new sign-in can be created for
  the lesson.
\<close>

theorem expired_sign_in_stays:
  assumes "find (\<lambda>s. SiLesson s = lid) (sign_ins t) = Some s" and "CloseTime s = Some c" and "c \<le> now"
  shows "always (StuSignIn lid uid now) t (\<lambda>r t'. (\<exists>e. r = Inl e) \<and> t' = t) \<and>
    always (CreateSignIn lid users close) t (\<lambda>r t'. (\<exists>e. r = Inl e) \<and> t' = t)"
proof
  show "always (StuSignIn lid uid now) t (\<lambda>r t'. (\<exists>e. r = Inl e) \<and> t' = t)"
    by (rule always_mono [OF StuSignIn_effect]) (use assms in \<open>auto simp: signed_in_def\<close>)
  show "always (CreateSignIn lid users close) t (\<lambda>r t'. (\<exists>e. r = Inl e) \<and> t' = t)"
    unfolding CreateSignIn_def
    by (rule always_Transaction) (use assms(1) in \<open>simp_all add: always_simps sql_defs\<close>)
qed

definition expired_world :: lesson_world where
  "expired_world = no_lessons\<lparr>sign_ins :=
     [\<lparr>SiID = 1, SiLesson = 5, AllUserId = [7], AlreadyUserId = [], CloseTime = Some 100\<rparr>]\<rparr>"

theorem expired_sign_in_stays_witness:
  "always (StuSignIn 5 7 100) expired_world (\<lambda>r t'. (\<exists>e. r = Inl e) \<and> t' = expired_world) \<and>
    always (CreateSignIn 5 [7] 200) expired_world (\<lambda>r t'. (\<exists>e. r = Inl e) \<and> t' = expired_world)"
  by (rule expired_sign_in_stays [where s = "sign_ins expired_world ! 0" and c = 100])
    (simp_all add: expired_world_def)

subsection \<open>Batches\<close>

lemma active_rows:
  assumes "lessons_ok t"
  shows "sort_key LsID (filter (active_row lid) (lesson_students t)) = filter (active_row lid) (lesson_students t)"
    and "distinct (map LsID (filter (active_row lid) (lesson_students t)))"
proof -
  have s: "sorted_wrt (<) (map LsID (filter (active_row lid) (lesson_students t)))"
    using assms by (auto simp: lessons_ok_def students_ok_def sorted_wrt_map sorted_wrt_filter)
  then show "sort_key LsID (filter (active_row lid) (lesson_students t)) = filter (active_row lid) (lesson_students t)"
    by (simp add: sort_key_id_if_sorted strict_sorted_imp_sorted)
  show "distinct (map LsID (filter (active_row lid) (lesson_students t)))"
    using s by (simp add: strict_sorted_iff)
qed

text \<open>
  C30 (equivalence). The list of a lesson's students, read in batches of 300 behind a cursor, is the
  list of all its active members in the order they joined, each once: a run either fails with an
  error of the database or returns exactly this list, and the loop always ends.
\<close>

theorem student_list_is_complete:
  assumes "lessons_ok t"
  shows "always (ListLessonStudentIDs lid) t (\<lambda>r t'. t' = t \<and> r \<noteq> Inl out_of_fuel \<and>
    (\<forall>ids. r = Inr ids \<longrightarrow> ids = map LsUser (filter (active_row lid) (lesson_students t))))"
proof -
  let ?xs = "filter (active_row lid) (lesson_students t)"
  have "always (read_batches (students_after lid) LsID 300 (Suc (length (lesson_students t))) 0 []) t
      (\<lambda>r t'. t' = t \<and> r \<noteq> Inl out_of_fuel \<and> (\<forall>ys. r = Inr ys \<longrightarrow> ys = sort_key LsID ?xs))"
    by (rule read_all_batches)
      (use assms active_rows(2) [OF assms, of lid] in
        \<open>auto simp: students_after_def filter_sort conj_commute lessons_ok_def students_ok_def\<close>)
  then have "always (tx_bind (read_batches (students_after lid) LsID 300 (Suc (length (lesson_students t))) 0 [])
      (\<lambda>rows. tx_return (map LsUser rows))) t (\<lambda>r t'. t' = t \<and> r \<noteq> Inl out_of_fuel \<and>
        (\<forall>ids. r = Inr ids \<longrightarrow> ids = map LsUser ?xs))"
    by (rule always_bind) (auto simp: always_simps active_rows(1) [OF assms])
  then show ?thesis by (simp add: always_def ListLessonStudentIDs_def)
qed

definition small_lesson :: lesson_world where
  "small_lesson = no_lessons\<lparr>lesson_students :=
     [\<lparr>LsID = 1, LsLesson = 5, LsUser = 7, LsRole = ''Teacher'', LsStatus = 1\<rparr>,
      \<lparr>LsID = 2, LsLesson = 5, LsUser = 8, LsRole = ''student'', LsStatus = 0\<rparr>,
      \<lparr>LsID = 3, LsLesson = 5, LsUser = 9, LsRole = ''student'', LsStatus = 1\<rparr>], next_student := 4\<rparr>"

lemma small_lesson_ok [simp]: "lessons_ok small_lesson"
  by (simp add: small_lesson_def no_lessons_def lessons_ok_def students_ok_def sign_ins_ok_def)

theorem student_list_is_complete_witness:
  "always (ListLessonStudentIDs 5) small_lesson (\<lambda>r t'. \<forall>ids. r = Inr ids \<longrightarrow> ids = [7, 9])"
  by (rule always_mono [OF student_list_is_complete [OF small_lesson_ok]])
    (simp add: small_lesson_def active_row_def)

lemma all_ids_read:
  assumes "distinct (map LessonId (lessons t))" and "\<forall>l \<in> set (lessons t). 0 < LessonId l"
  shows "always GetAllLessonIDs t (\<lambda>r t'. t' = t \<and> r \<noteq> Inl out_of_fuel \<and>
    (\<forall>ids. r = Inr ids \<longrightarrow> ids = map LessonId (sort_key LessonId (lessons t))))"
proof -
  let ?xs = "lessons t"
  have "always (read_batches lessons_after LessonId 300 (Suc (length ?xs)) 0 []) t
      (\<lambda>r t'. t' = t \<and> r \<noteq> Inl out_of_fuel \<and> (\<forall>ys. r = Inr ys \<longrightarrow> ys = sort_key LessonId ?xs))"
    by (rule read_all_batches) (use assms in \<open>auto simp: lessons_after_def filter_sort lessons_ok_def\<close>)
  then have "always (tx_bind (read_batches lessons_after LessonId 300 (Suc (length ?xs)) 0 [])
      (\<lambda>rows. tx_return (map LessonId rows))) t (\<lambda>r t'. t' = t \<and> r \<noteq> Inl out_of_fuel \<and>
        (\<forall>ids. r = Inr ids \<longrightarrow> ids = map LessonId (sort_key LessonId ?xs)))"
    by (rule always_bind) (auto simp: always_simps)
  then show ?thesis by (simp add: always_def GetAllLessonIDs_def)
qed

text \<open>
  (termination). The scan of all lesson ids that fills the Bloom filter ends and, unless a
  statement fails, reads every lesson once in the order of the ids.
\<close>

theorem all_lesson_ids_complete:
  assumes "lessons_ok t" and "\<forall>l \<in> set (lessons t). 0 < LessonId l"
  shows "always GetAllLessonIDs t (\<lambda>r t'. t' = t \<and> r \<noteq> Inl out_of_fuel \<and>
    (\<forall>ids. r = Inr ids \<longrightarrow> ids = map LessonId (sort_key LessonId (lessons t))))"
  using all_ids_read assms by (simp add: lessons_ok_def)

subsection \<open>Pages of the roster\<close>

definition page_limit :: "int \<Rightarrow> nat" where
  "page_limit limit = (if limit \<le> 0 then 50 else if 200 < limit then 200 else nat limit)"

text \<open>One page as a client asks for it: from the start, or behind the cursor of the page before.\<close>

definition roster_fetch :: "int \<Rightarrow> int \<Rightarrow> lesson_world \<Rightarrow> int option \<Rightarrow> int list \<times> int option" where
  "roster_fetch lid limit t from =
     (case fst (LessonStudentCursorPage lid (case from of None \<Rightarrow> 0 | Some c \<Rightarrow> c) limit (quiet 0 t)) of
        Inl e \<Rightarrow> ([], None)
      | Inr (ids, nx, hasMore) \<Rightarrow> (ids, if hasMore then Some nx else None))"

definition roster_rows :: "(lesson_student list \<Rightarrow> nat \<Rightarrow> int option \<Rightarrow> lesson_student list \<times> int option)" where
  "roster_rows rows n from =
     (let rs = rows_after (<) LsID rows from in
      (take n rs, if n < length rs then Some (LsID (last (take n rs))) else None))"

lemma roster_paged: "0 < n \<Longrightarrow> paged (roster_rows rows n) rows LsID (<) n"
  by unfold_locales (auto simp: roster_rows_def Let_def split: if_splits)

lemma page_limit_pos [simp]: "0 < page_limit limit"
  by (simp add: page_limit_def)

interpretation roster: paged "roster_rows rows (page_limit limit)" rows LsID "(<)" "page_limit limit"
  for rows limit
  by (rule roster_paged) simp

lemma roster_fetch_rows:
  assumes "lessons_ok t"
  shows "roster_fetch lid limit t from =
    (map LsUser (fst (roster_rows (filter (active_row lid) (lesson_students t)) (page_limit limit) from)),
     snd (roster_rows (filter (active_row lid) (lesson_students t)) (page_limit limit) from))"
proof -
  let ?rows = "filter (active_row lid) (lesson_students t)"
  let ?c = "case from of None \<Rightarrow> 0 | Some c \<Rightarrow> c"
  let ?n = "page_limit limit"
  have c: "sort_key LsID (filter (\<lambda>s. active_row lid s \<and> ?c < LsID s) (lesson_students t)) = rows_after (<) LsID ?rows from"
  proof -
    have "filter (\<lambda>s. active_row lid s \<and> ?c < LsID s) (lesson_students t) = filter (\<lambda>s. ?c < LsID s) ?rows"
      by (simp add: conj_commute)
    then have "sort_key LsID (filter (\<lambda>s. active_row lid s \<and> ?c < LsID s) (lesson_students t)) = filter (\<lambda>s. ?c < LsID s) ?rows"
      using active_rows(1) [OF assms, of lid] by (metis filter_sort)
    also have "\<dots> = rows_after (<) LsID ?rows from"
      using assms by (cases "from") (auto simp: rows_after_def lessons_ok_def students_ok_def intro!: filter_cong)
    finally show ?thesis .
  qed
  have l: "nat (if 200 < (if limit \<le> 0 then 50 else limit) then 200 else (if limit \<le> 0 then 50 else limit)) = ?n"
    by (simp add: page_limit_def)
  show ?thesis
    unfolding roster_fetch_def LessonStudentCursorPage_def Let_def l
    by (auto simp: tx_run students_after_def c roster_rows_def Let_def min_def)
qed

text \<open>
  (functional). Reading the roster of a lesson page by page, each time behind the cursor of the page
  before, with whatever page size the client asks for, lists every active member exactly once, in
  order, and ends.
\<close>

theorem roster_pages_cover_lesson:
  assumes "lessons_ok t"
  shows "scan (roster_fetch lid limit t) (Suc (length (lesson_students t))) None =
    Some (map LsUser (filter (active_row lid) (lesson_students t)))"
proof -
  let ?rows = "filter (active_row lid) (lesson_students t)"
  have "roster_fetch lid limit t = (\<lambda>from. (map LsUser (fst (roster_rows ?rows (page_limit limit) from)),
      snd (roster_rows ?rows (page_limit limit) from)))"
    using roster_fetch_rows [OF assms] by (rule ext)
  moreover have "scan (roster_rows ?rows (page_limit limit)) (Suc (length (lesson_students t))) None = Some ?rows"
    using sorted_rows_ordered [OF active_rows(2) [OF assms, of lid]]
    by (intro roster.scan_all) (simp_all add: active_rows(1) [OF assms] le_imp_less_Suc)
  ultimately show ?thesis by (simp only: scan_map) simp
qed

theorem roster_pages_cover_lesson_witness:
  "scan (roster_fetch 5 1 small_lesson) (Suc (length (lesson_students small_lesson))) None = Some [7, 9]"
  unfolding roster_pages_cover_lesson [OF small_lesson_ok]
  by (simp add: small_lesson_def active_row_def)

definition two_lessons :: lesson_world where
  "two_lessons = no_lessons\<lparr>lessons :=
     [\<lparr>LessonId = 9, LessonName = ''a'', LessonDescription = '''', TeacherName = ''t'', TeacherUID = 7\<rparr>,
      \<lparr>LessonId = 5, LessonName = ''b'', LessonDescription = '''', TeacherName = ''t'', TeacherUID = 7\<rparr>]\<rparr>"

theorem all_lesson_ids_complete_witness:
  "always GetAllLessonIDs two_lessons (\<lambda>r t'. \<forall>ids. r = Inr ids \<longrightarrow> ids = [5, 9])"
  by (rule always_mono [OF all_lesson_ids_complete])
    (simp_all add: two_lessons_def no_lessons_def lessons_ok_def students_ok_def sign_ins_ok_def)

subsection \<open>Membership\<close>

definition enrolled :: "int \<Rightarrow> int \<Rightarrow> lesson_world \<Rightarrow> bool" where
  "enrolled lid uid t \<longleftrightarrow> (\<exists>s \<in> set (lesson_students t). member_row lid uid s \<and> LsStatus s = 1)"

lemma IsStudentInLesson_effect:
  "always (IsStudentInLesson lid uid) t (\<lambda>r t'. t' = t \<and> (\<forall>b. r = Inr b \<longrightarrow> b = enrolled lid uid t))"
  by (auto simp: IsStudentInLesson_def always_simps sql_defs enrolled_def length_greater_0_conv filter_empty_conv)

lemma enrolled_status:
  assumes "find (member_row lid uid) (lesson_students t) = Some s"
  shows "enrolled l u (t\<lparr>lesson_students :=
      map (\<lambda>s. if member_row lid uid s then s\<lparr>LsStatus := st\<rparr> else s) (lesson_students t)\<rparr>)
    = (if l = lid \<and> u = uid then st = 1 else enrolled l u t)"
proof -
  have s: "s \<in> set (lesson_students t)" "member_row lid uid s" using assms by (auto simp: find_Some_iff)
  have e: "enrolled l u (t\<lparr>lesson_students :=
      map (\<lambda>s. if member_row lid uid s then s\<lparr>LsStatus := st\<rparr> else s) (lesson_students t)\<rparr>)
    = (\<exists>x \<in> set (lesson_students t). member_row l u x \<and> (if member_row lid uid x then st = 1 else LsStatus x = 1))"
  proof -
    have "(\<exists>x \<in> set (map (\<lambda>s. if member_row lid uid s then s\<lparr>LsStatus := st\<rparr> else s) rows). member_row l u x \<and> LsStatus x = 1)
      = (\<exists>x \<in> set rows. member_row l u x \<and> (if member_row lid uid x then st = 1 else LsStatus x = 1))" for rows
      by (induction rows) (auto simp: member_row_def)
    then show ?thesis by (simp add: enrolled_def del: set_map)
  qed
  show ?thesis
  proof (cases "l = lid \<and> u = uid")
    case True
    with s show ?thesis by (subst e) auto
  next
    case False
    then have "member_row l u x \<Longrightarrow> \<not> member_row lid uid x" for x by (auto simp: member_row_def)
    with False show ?thesis by (subst e) (auto simp: enrolled_def)
  qed
qed

lemma enrolled_insert:
  assumes "find (member_row lid uid) (lesson_students t) = None"
  shows "enrolled l u (t\<lparr>lesson_students := lesson_students t @
      [\<lparr>LsID = i, LsLesson = lid, LsUser = uid, LsRole = role, LsStatus = 1\<rparr>], next_student := n\<rparr>)
    = (if l = lid \<and> u = uid then True else enrolled l u t)"
  using assms by (auto simp: enrolled_def member_row_def find_None_iff)

lemma enrolled_absent: "find (member_row lid uid) (lesson_students t) = None \<Longrightarrow> \<not> enrolled lid uid t"
  by (auto simp: enrolled_def find_None_iff)

text \<open>
  (functional). Adding or removing a member does just that: a run of ChangeUserToLesson that
  reports no error has made the user an active member (add) or no active one (del) and changed the
  membership of nobody else; one that reports an error changed nothing, or did the whole change (a
  commit whose reply was lost).
\<close>

theorem change_membership_effect:
  assumes "opt = ''add'' \<or> opt = ''del''"
  shows "always (ChangeUserToLesson lid uid opt) t (\<lambda>r t'.
    (\<exists>e. r = Inl e) \<and> t' = t \<or>
    (\<forall>l u. enrolled l u t' = (if l = lid \<and> u = uid then opt = ''add'' else enrolled l u t)))"
proof -
  let ?Q = "\<lambda>t'. \<forall>l u. enrolled l u t' = (if l = lid \<and> u = uid then opt = ''add'' else enrolled l u t)"
  let ?body = "tx_bind (stmt (firstLesson (is_lesson lid))) (\<lambda>_.
         tx_then (stmt (firstStudent lid uid)) (\<lambda>r.
           if opt = ''add'' then
             (case r of
                Inr _ \<Rightarrow> stmt (setStatus lid uid 1)
              | Inl e \<Rightarrow> if \<not> err_is e ErrRecordNotFound then tx_fail e else stmt (insertStudent lid uid ''''))
           else
             (case r of
                Inl e \<Rightarrow> if err_is e ErrRecordNotFound then tx_return () else tx_fail e
              | Inr _ \<Rightarrow> stmt (setStatus lid uid 0))))"
  have "always ?body t (\<lambda>r t'. case r of Inl e \<Rightarrow> True | Inr x \<Rightarrow> ?Q t')"
    using assms
    by (auto simp: always_simps sql_defs enrolled_status enrolled_insert enrolled_absent split: option.splits)
  then have "always (Transaction ?body) t (\<lambda>r t'. (\<exists>e. r = Inl e) \<and> t' = t \<or> ?Q t')"
    by (intro always_Transaction) (auto elim!: always_mono split: sum.splits)
  with assms show ?thesis by (auto simp: ChangeUserToLesson_def)
qed

theorem change_membership_effect_witness:
  "always (ChangeUserToLesson 5 8 ''add'') small_lesson (\<lambda>r t'. (\<exists>e. r = Inl e) \<and> t' = small_lesson \<or> enrolled 5 8 t')"
  by (rule always_mono [OF change_membership_effect]) auto

subsection \<open>Whiteboards\<close>

text \<open>
  (error). A whiteboard that was read cannot be saved again as it was read: the text holds the id
  of the row, and every run of SaveWhiteBoard on it fails with the duplicate key and stores nothing.
\<close>

theorem whiteboard_resave_fails:
  assumes "fst (GetWhiteBoardNew lid (quiet now t)) = Inr (Some d)" and "unmarshal file = Inr d" and "DocID d \<noteq> 0"
  shows "always (SaveWhiteBoard unmarshal lid file) t (\<lambda>r t'. (\<exists>e. r = Inl e) \<and> t' = t)"
proof -
  have "find (\<lambda>d. DocLesson d = lid) (sort_key DocID (whiteboards t)) = Some d"
    using assms(1) by (auto simp: GetWhiteBoardNew_def tx_run sql_defs split: option.splits if_splits)
  then have "d \<in> set (whiteboards t)" by (metis find_Some_iff nth_mem set_sort)
  then have "find (\<lambda>r. DocID r = DocID d) (whiteboards t) \<noteq> None" by (auto simp: find_None_iff)
  with assms(2,3) show ?thesis by (auto simp: SaveWhiteBoard_def always_simps sql_defs)
qed

definition old_board :: excalidraw_doc where
  "old_board = \<lparr>DocID = 1, DocLesson = 5, DocType = ''excalidraw'', DocVersion = 2, DocSource = '''',
     DocElements = ''[1]'', DocAppState = ''{}'', DocFiles = ''[]''\<rparr>"

theorem whiteboard_resave_fails_witness:
  "always (SaveWhiteBoard (\<lambda>_. Inr old_board) 5 ''{}'') (no_lessons\<lparr>whiteboards := [old_board]\<rparr>)
     (\<lambda>r t'. (\<exists>e. r = Inl e) \<and> t' = no_lessons\<lparr>whiteboards := [old_board]\<rparr>)"
  by (rule whiteboard_resave_fails [where d = old_board])
    (simp_all add: GetWhiteBoardNew_def tx_run sql_defs old_board_def)

text \<open>
  (functional). GetWhiteBoardNew answers the oldest whiteboard of the lesson, not the newest: once
  a lesson has one, a newly saved one (a text without an id) never changes the answer.
\<close>

theorem new_whiteboard_is_not_read:
  assumes "find (\<lambda>d. DocLesson d = lid) (sort_key DocID (whiteboards t)) = Some old"
    and "\<forall>d \<in> set (whiteboards t). DocID d < next_doc t" and "unmarshal file = Inr d" and "DocID d = 0"
  shows "\<exists>t'. SaveWhiteBoard unmarshal lid file (quiet now t) = (Inr (), quiet now t') \<and>
    fst (GetWhiteBoardNew lid (quiet now t')) = Inr (Some old)"
proof -
  let ?d = "d\<lparr>DocLesson := lid, DocID := next_doc t\<rparr>"
  have "sort_key DocID (whiteboards t @ [?d]) = sort_key DocID (whiteboards t) @ [?d]"
    using assms(2) by (intro sort_key_snoc) auto
  then have "find (\<lambda>d. DocLesson d = lid) (sort_key DocID (whiteboards t @ [?d])) = Some old"
    using assms(1) by (simp add: find_append_Some)
  then have "fst (GetWhiteBoardNew lid (quiet now (t\<lparr>whiteboards := whiteboards t @ [?d], next_doc := next_doc t + 1\<rparr>))) =
      Inr (Some old)"
    by (simp add: GetWhiteBoardNew_def tx_run sql_defs)
  moreover have "SaveWhiteBoard unmarshal lid file (quiet now t) =
      (Inr (), quiet now (t\<lparr>whiteboards := whiteboards t @ [?d], next_doc := next_doc t + 1\<rparr>))"
    using assms(3,4) by (simp add: SaveWhiteBoard_def tx_run sql_defs)
  ultimately show ?thesis by blast
qed

theorem new_whiteboard_is_not_read_witness:
  "\<exists>t'. SaveWhiteBoard (\<lambda>_. Inr (old_board\<lparr>DocID := 0\<rparr>)) 5 ''{}''
      (quiet 0 (no_lessons\<lparr>whiteboards := [old_board], next_doc := 2\<rparr>)) = (Inr (), quiet 0 t') \<and>
    fst (GetWhiteBoardNew 5 (quiet 0 t')) = Inr (Some old_board)"
  by (rule new_whiteboard_is_not_read [where d = "old_board\<lparr>DocID := 0\<rparr>"]) (simp_all add: old_board_def)

end
