(* ===== verification/Lesson_Service.thy ===== *)
theory Lesson_Service
  imports Lesson_Store "HOL-Library.AList" "HOL-Library.List_Lexorder" "HOL-Library.Char_ord"
begin

text \<open>
  The lesson service (src/internal/rpc/webrtc_live/handler.go, dao/redis.go and the Lua scripts):
  who counts as the teacher of a lesson, with the caches of lessons and permissions and the Bloom
  filter in front of them; lessons, membership, sign-ins, roll call and whiteboards; and the live
  room with its member count and raised hands. The user service, the Bloom filter of Redis, the
  random numbers and encoding/json are parameters.

  Errors whose texts are not ASCII have a sentinel of their own. A panic in a handler, which the
  RPC server turns into an error reply, is the error panicked.
\<close>

subsection \<open>Parameters and errors\<close>

record user_info =
  UserID :: int
  UserName :: string
  Auth :: string

text \<open>
  GetUserInfo answers an error, an empty reply (None) or the UserInfo pointer of the reply.
  bf_exists says whether BF.EXISTS hits after the additions; hash_order is the order in which
  HGETALL lists a hash.
\<close>

record lesson_env =
  GetUserInfo :: "int \<Rightarrow> goerr + user_info option option"
  bf_exists :: "int list \<Rightarrow> int \<Rightarrow> bool"
  hash_order :: "(string \<times> string) list \<Rightarrow> (string \<times> string) list"
  Intn :: "int \<Rightarrow> int"
  unmarshal_board :: "string \<Rightarrow> goerr + excalidraw_doc"
  marshal_board :: "excalidraw_doc \<Rightarrow> goerr + string"

abbreviation ErrLessonNotExist :: goerr where
  "ErrLessonNotExist \<equiv> Sentinel ''lesson not exist''"

abbreviation not_teacher :: goerr where
  "not_teacher \<equiv> Sentinel ''no permission: not the teacher of this lesson''"

abbreviation only_teachers :: goerr where
  "only_teachers \<equiv> Sentinel ''no permission: only a teacher creates a lesson''"

abbreviation not_student :: goerr where
  "not_student \<equiv> Sentinel ''not a student of this lesson''"

definition panicked :: "string \<Rightarrow> goerr" where
  "panicked s = Sentinel (''panic: '' @ s)"

subsection \<open>Redis commands\<close>

definition redisGetLesson :: "int \<Rightarrow> (lesson_world, webrtc_lesson cached) sql" where
  [sql_defs]: "redisGetLesson lid = (\<lambda>now t.
     (case lesson_cache t lid of Some (v, until) \<Rightarrow> if now < until then Inr v else Inl redis_nil | None \<Rightarrow> Inl redis_nil, t))"

definition redisSetLesson :: "webrtc_lesson \<Rightarrow> int \<Rightarrow> int \<Rightarrow> (lesson_world, unit) sql" where
  [sql_defs]: "redisSetLesson l lid ttl = (\<lambda>now t.
     (Inr (), t\<lparr>lesson_cache := (lesson_cache t)(lid \<mapsto> (Cached l, now + ttl))\<rparr>))"

definition redisDelLesson :: "int \<Rightarrow> (lesson_world, unit) sql" where
  [sql_defs]: "redisDelLesson lid = (\<lambda>now t. (Inr (), t\<lparr>lesson_cache := (lesson_cache t)(lid := None)\<rparr>))"

text \<open>The value of a permission key is 1 or the key is missing.\<close>

definition redisGetPerm :: "int \<Rightarrow> int \<Rightarrow> (lesson_world, string) sql" where
  [sql_defs]: "redisGetPerm lid uid = (\<lambda>now t.
     (case perm_cache t (lid, uid) of Some until \<Rightarrow> if now < until then Inr ''1'' else Inl redis_nil | None \<Rightarrow> Inl redis_nil, t))"

definition redisSetPerm :: "int \<Rightarrow> int \<Rightarrow> int \<Rightarrow> (lesson_world, unit) sql" where
  [sql_defs]: "redisSetPerm lid uid ttl = (\<lambda>now t.
     (Inr (), t\<lparr>perm_cache := (perm_cache t)((lid, uid) \<mapsto> now + ttl)\<rparr>))"

definition put_bloom :: "blooms \<Rightarrow> lesson_world \<Rightarrow> lesson_world" where
  "put_bloom b t = t\<lparr>bloom := b\<rparr>"

abbreviation lesson_bloom :: "bloom_cmd \<Rightarrow> (lesson_world, nat) sql" where
  "lesson_bloom \<equiv> bloom_sql bloom put_bloom"

definition bfExists :: "lesson_env \<Rightarrow> int \<Rightarrow> (lesson_world, bool) sql" where
  [sql_defs]: "bfExists env lid = (\<lambda>now t.
     (Inr (case bloom t BloomKey of None \<Rightarrow> False | Some ids \<Rightarrow> bf_exists env ids lid), t))"

definition clamp_nonneg :: "int \<Rightarrow> int" where
  "clamp_nonneg n = (if n < 0 then 0 else n)"

definition count_of :: "lesson_world \<Rightarrow> int \<Rightarrow> int" where
  "count_of t lid = (case live_count t lid of None \<Rightarrow> 0 | Some n \<Rightarrow> n)"

definition set_room :: "int \<Rightarrow> int option \<Rightarrow> (string \<times> string) list \<Rightarrow> lesson_world \<Rightarrow> lesson_world" where
  "set_room lid n ms t = t\<lparr>live_count := (live_count t)(lid := n), live_members := (live_members t)(lid := ms)\<rparr>"

text \<open>The scripts live_room_change, del_room_allkey and select_room_info, each atomic.\<close>

definition live_room_change :: "int \<Rightarrow> string \<Rightarrow> string \<Rightarrow> string \<Rightarrow> (lesson_world, int) sql" where
  [sql_defs]: "live_room_change lid action user auth = (\<lambda>now t.
     let existed = map_of (live_members t lid) user \<noteq> None in
     if action = ''add'' then
       (let ms = AList.update user auth (live_members t lid) in
        if \<not> existed then
          (let newCount = clamp_nonneg (count_of t lid + 1) in (Inr newCount, set_room lid (Some newCount) ms t))
        else (Inr (clamp_nonneg (count_of t lid)), set_room lid (live_count t lid) ms t))
     else if action = ''del'' then
       (let ms = AList.delete user (live_members t lid) in
        if existed then
          (let newCount = clamp_nonneg (count_of t lid - 1) in (Inr newCount, set_room lid (Some newCount) ms t))
        else (Inr (clamp_nonneg (count_of t lid)), set_room lid (live_count t lid) ms t))
     else (Inl (ErrNew (''invalid action: '' @ action)), t))"

definition del_room_allkey :: "int \<Rightarrow> (lesson_world, unit) sql" where
  [sql_defs]: "del_room_allkey lid = (\<lambda>now t. (Inr (), set_room lid None [] t))"

definition select_room_info :: "lesson_env \<Rightarrow> int \<Rightarrow> (lesson_world, string list) sql" where
  [sql_defs]: "select_room_info env lid = (\<lambda>now t.
     (Inr ((case live_count t lid of None \<Rightarrow> ''0'' | Some n \<Rightarrow> show_int n) #
           concat (map (\<lambda>(k, v). [k, v]) (hash_order env (live_members t lid)))), t))"

text \<open>The raised hands: a sorted set that expires as a whole.\<close>

definition hands_at :: "lesson_world \<Rightarrow> int \<Rightarrow> int \<Rightarrow> (string \<times> int) list" where
  "hands_at t lid now =
     (case hands_until t lid of Some until \<Rightarrow> if now < until then hands t lid else [] | None \<Rightarrow> hands t lid)"

definition set_hands :: "int \<Rightarrow> int \<Rightarrow> (string \<times> int) list \<Rightarrow> lesson_world \<Rightarrow> lesson_world" where
  "set_hands lid now hs t =
     t\<lparr>hands := (hands t)(lid := hs),
       hands_until := (hands_until t)(lid := if hs = [] \<or> hands_at t lid now = [] then None else hands_until t lid)\<rparr>"

definition zadd :: "int \<Rightarrow> string \<Rightarrow> int \<Rightarrow> (lesson_world, unit) sql" where
  [sql_defs]: "zadd lid member score = (\<lambda>now t.
     (Inr (), set_hands lid now (AList.update member score (hands_at t lid now)) t))"

definition expire_hands :: "int \<Rightarrow> int \<Rightarrow> (lesson_world, unit) sql" where
  [sql_defs]: "expire_hands lid ttl = (\<lambda>now t.
     (Inr (), if hands_at t lid now = [] then t else t\<lparr>hands_until := (hands_until t)(lid \<mapsto> now + ttl)\<rparr>))"

definition zrem :: "int \<Rightarrow> string \<Rightarrow> (lesson_world, nat) sql" where
  [sql_defs]: "zrem lid member = (\<lambda>now t.
     let hs = hands_at t lid now in
     (Inr (if map_of hs member = None then 0 else 1), set_hands lid now (AList.delete member hs) t))"

text \<open>ZRANGE: by score, equal scores by member.\<close>

definition zrange :: "int \<Rightarrow> nat \<Rightarrow> (lesson_world, string list) sql" where
  [sql_defs]: "zrange lid n = (\<lambda>now t.
     (Inr (take n (map fst (sort_key snd (sort_key fst (hands_at t lid now))))), t))"

subsection \<open>Users, lessons and the teacher of a lesson\<close>

definition getUserInfo :: "lesson_env \<Rightarrow> int \<Rightarrow> user_info option lesson_tx" where
  "getUserInfo env uid =
     (case GetUserInfo env uid of
        Inl e \<Rightarrow> tx_fail e
      | Inr None \<Rightarrow> tx_fail (ErrNew ''user service: empty userinfo'')
      | Inr (Some u) \<Rightarrow> tx_return u)"

text \<open>A field of a user that may be the nil pointer.\<close>

definition with_user :: "user_info option \<Rightarrow> (user_info \<Rightarrow> 'a lesson_tx) \<Rightarrow> 'a lesson_tx" where
  "with_user u k = (case u of None \<Rightarrow> tx_fail (panicked ''nil pointer dereference'') | Some x \<Rightarrow> k x)"

definition getLessonCached :: "lesson_env \<Rightarrow> int \<Rightarrow> webrtc_lesson lesson_tx" where
  "getLessonCached env lid =
     get_cached (redisGetLesson lid) (redisDelLesson lid) (firstLesson (is_lesson lid))
       (\<lambda>l. redisSetLesson l lid (300 + Intn env 30))"

definition ensureLessonExists :: "lesson_env \<Rightarrow> int \<Rightarrow> webrtc_lesson lesson_tx" where
  "ensureLessonExists env lid = ensure_exists ErrLessonNotExist (bfExists env lid) (getLessonCached env lid)"

definition mustLesson :: "lesson_env \<Rightarrow> int \<Rightarrow> webrtc_lesson lesson_tx" where
  "mustLesson env lid = ensureLessonExists env lid"

definition requireTeacherOfLesson :: "lesson_env \<Rightarrow> int \<Rightarrow> int \<Rightarrow> (webrtc_lesson \<times> user_info option) lesson_tx" where
  "requireTeacherOfLesson env lid uid =
     tx_then (stmt (redisGetPerm lid uid)) (\<lambda>val.
       if val = Inr ''1'' then
         tx_bind (getUserInfo env uid) (\<lambda>u.
         tx_bind (mustLesson env lid) (\<lambda>l.
         tx_return (l, u)))
       else
         tx_bind (getUserInfo env uid) (\<lambda>u.
         tx_bind (mustLesson env lid) (\<lambda>l.
         with_user u (\<lambda>x.
           if TeacherUID l \<noteq> UserID x then tx_fail not_teacher
           else tx_then (stmt (redisSetPerm lid uid 300)) (\<lambda>_. tx_return (l, u))))))"

text \<open>The two ways a handler reacts to a lesson that is not there: a reply, or the error.\<close>

definition if_exists :: "lesson_env \<Rightarrow> int \<Rightarrow> 'a \<Rightarrow> 'a lesson_tx \<Rightarrow> 'a lesson_tx" where
  "if_exists env lid reply k =
     tx_then (ensureLessonExists env lid) (\<lambda>r.
       case r of
         Inl e \<Rightarrow> if err_is e ErrLessonNotExist then tx_return reply else tx_fail e
       | Inr _ \<Rightarrow> k)"

subsection \<open>Handlers: lessons and members\<close>

definition ChangeUserToLesson_rpc :: "lesson_env \<Rightarrow> int \<Rightarrow> int \<Rightarrow> int \<Rightarrow> string \<Rightarrow> string lesson_tx" where
  "ChangeUserToLesson_rpc env lid uid stuid options =
     tx_bind (requireTeacherOfLesson env lid uid) (\<lambda>_.
       if options \<noteq> ''add'' \<and> options \<noteq> ''del'' then tx_fail (ErrNew ''invalid options'')
       else tx_bind (ChangeUserToLesson lid stuid options) (\<lambda>_. tx_return ''success''))"

definition GetLessonInfoById_rpc :: "int \<Rightarrow> (webrtc_lesson \<times> int list) lesson_tx" where
  "GetLessonInfoById_rpc lid =
     tx_bind (SelectLesson lid) (\<lambda>l.
     tx_bind (ListLessonStudentIDs (LessonId l)) (\<lambda>ids.
     tx_return (l, ids)))"

definition GetLessonInfo_rpc :: "string \<Rightarrow> string \<Rightarrow> (webrtc_lesson \<times> int list) lesson_tx" where
  "GetLessonInfo_rpc name teacher =
     tx_bind (SelectLessonByNandT name teacher) (\<lambda>l.
     tx_bind (ListLessonStudentIDs (LessonId l)) (\<lambda>ids.
     tx_return (l, ids)))"

text \<open>lid is the id that the snowflake node generates.\<close>

definition CreateLesson_rpc :: "lesson_env \<Rightarrow> int \<Rightarrow> int \<Rightarrow> string \<Rightarrow> string \<Rightarrow> int lesson_tx" where
  "CreateLesson_rpc env lid uid name desc =
     tx_bind (getUserInfo env uid) (\<lambda>u.
     with_user u (\<lambda>x.
       if Auth x \<noteq> ''Teacher'' then tx_fail only_teachers
       else
         tx_bind (CreateLesson lid name desc (UserName x) (Auth x) uid) (\<lambda>lid.
         tx_then (stmt (redisDelLesson lid)) (\<lambda>_.
         tx_bind (stmt (lesson_bloom (MAdd BloomKey [lid]))) (\<lambda>_.
         tx_return lid)))))"

definition DelLesson_rpc :: "lesson_env \<Rightarrow> int \<Rightarrow> int \<Rightarrow> string lesson_tx" where
  "DelLesson_rpc env lid uid =
     tx_bind (requireTeacherOfLesson env lid uid) (\<lambda>_.
     tx_bind (stmt (del_room_allkey lid)) (\<lambda>_.
     tx_bind (DelLesson lid) (\<lambda>_.
     tx_then (stmt (redisDelLesson lid)) (\<lambda>_.
     tx_return ''success''))))"

definition IsStudentInLesson_rpc :: "lesson_env \<Rightarrow> int \<Rightarrow> int \<Rightarrow> string lesson_tx" where
  "IsStudentInLesson_rpc env lid stuid =
     if_exists env lid ''not_exist''
       (tx_bind (IsStudentInLesson lid stuid) (\<lambda>ok. tx_return (if \<not> ok then ''not_exist'' else ''exist'')))"

subsection \<open>Handlers: sign-ins and roll call\<close>

text \<open>Times are nanoseconds; the duration is multiplied in 64 bits.\<close>

definition CreateSignIn_rpc :: "lesson_env \<Rightarrow> int \<Rightarrow> int \<Rightarrow> int \<Rightarrow> int \<Rightarrow> string lesson_tx" where
  "CreateSignIn_rpc env lid uid duration now =
     if_exists env lid ''not exist''
       (tx_bind (SelectLesson lid) (\<lambda>l.
        tx_bind (requireTeacherOfLesson env lid uid) (\<lambda>_.
        tx_bind (ListLessonStudentIDs (LessonId l)) (\<lambda>ids.
        tx_bind (CreateSignIn lid ids (now + wrap64 (duration * 1000000000))) (\<lambda>_.
        tx_return ''success'')))))"

definition SignIn_rpc :: "lesson_env \<Rightarrow> int \<Rightarrow> int \<Rightarrow> int \<Rightarrow> string lesson_tx" where
  "SignIn_rpc env lid uid now =
     if_exists env lid ''not exist''
       (tx_bind (IsStudentInLesson lid uid) (\<lambda>ok.
          if \<not> ok then tx_fail not_student
          else tx_then (StuSignIn lid uid now) (\<lambda>r.
            case r of
              Inl e \<Rightarrow> if err_text e = ''close'' then tx_return ''sign-in closed'' else tx_fail e
            | Inr _ \<Rightarrow> tx_return ''success'')))"

definition SelectSignIn_rpc :: "lesson_env \<Rightarrow> int \<Rightarrow> int \<Rightarrow> (string \<times> string) lesson_tx" where
  "SelectSignIn_rpc env lid uid =
     tx_bind (requireTeacherOfLesson env lid uid) (\<lambda>_. SelectSignIn lid)"

definition DelSign_rpc :: "lesson_env \<Rightarrow> int \<Rightarrow> int \<Rightarrow> string lesson_tx" where
  "DelSign_rpc env lid uid =
     tx_bind (requireTeacherOfLesson env lid uid) (\<lambda>_.
     tx_bind (RemoveSignIn lid) (\<lambda>_. tx_return ''success''))"

text \<open>rand.Intn panics when its bound is not positive.\<close>

definition RollCallInRandom_rpc :: "lesson_env \<Rightarrow> int \<Rightarrow> int \<Rightarrow> string lesson_tx" where
  "RollCallInRandom_rpc env lid uid =
     tx_bind (requireTeacherOfLesson env lid uid) (\<lambda>_.
     tx_bind (ListLessonStudentIDs lid) (\<lambda>stuid.
       if length stuid = 0 then tx_fail (panicked ''invalid argument to Intn'')
       else tx_bind (getUserInfo env (stuid ! nat (Intn env (int (length stuid))))) (\<lambda>u.
         with_user u (\<lambda>x. tx_return (UserName x)))))"

subsection \<open>Handlers: whiteboards\<close>

definition SaveWhiteBoardJson_rpc :: "lesson_env \<Rightarrow> int \<Rightarrow> int \<Rightarrow> string \<Rightarrow> string lesson_tx" where
  "SaveWhiteBoardJson_rpc env lid uid file =
     tx_bind (requireTeacherOfLesson env lid uid) (\<lambda>_.
     tx_bind (SaveWhiteBoard (unmarshal_board env) lid file) (\<lambda>_. tx_return ''success''))"

text \<open>None is the reply not_found.\<close>

definition GetWhiteBoardJson_rpc :: "lesson_env \<Rightarrow> int \<Rightarrow> int \<Rightarrow> string option lesson_tx" where
  "GetWhiteBoardJson_rpc env lid uid =
     tx_bind (requireTeacherOfLesson env lid uid) (\<lambda>_.
     tx_bind (GetWhiteBoardNew lid) (\<lambda>docs.
       case docs of
         None \<Rightarrow> tx_return None
       | Some d \<Rightarrow> (case marshal_board env d of Inl e \<Rightarrow> tx_fail e | Inr b \<Rightarrow> tx_return (Some b))))"

subsection \<open>Handlers: the live room\<close>

definition ChangeUserInLive_rpc :: "lesson_env \<Rightarrow> int \<Rightarrow> int \<Rightarrow> string \<Rightarrow> string lesson_tx" where
  "ChangeUserInLive_rpc env lid uid options =
     if_exists env lid ''not exist''
       (tx_bind (getUserInfo env uid) (\<lambda>u.
        with_user u (\<lambda>x.
        tx_bind (stmt (live_room_change lid options (show_int uid) (Auth x))) (\<lambda>_.
        tx_return ''success''))))"

text \<open>The members after the count: $ behind a name, two blanks behind its role.\<close>

fun member_text :: "nat \<Rightarrow> string list \<Rightarrow> string" where
  "member_text i [] = ''''"
| "member_text i (s # ss) = s @ (if i mod 2 = 0 then ''  '' else ''$'') @ member_text (Suc i) ss"

definition SelectLessonInfo_rpc :: "lesson_env \<Rightarrow> int \<Rightarrow> string lesson_tx" where
  "SelectLessonInfo_rpc env lid =
     if_exists env lid ''not exist''
       (tx_bind (stmt (select_room_info env lid)) (\<lambda>ar.
          tx_return (''count:'' @ hd ar @ ''///'' @ ''live member:'' @ member_text 1 (tl ar))))"

text \<open>now is time.Now in milliseconds; 24 hours are 86400 s of the server's clock.\<close>

definition RaiseHand_rpc :: "lesson_env \<Rightarrow> int \<Rightarrow> int \<Rightarrow> int \<Rightarrow> string lesson_tx" where
  "RaiseHand_rpc env lid uid now =
     if_exists env lid ''not exist''
       (tx_bind (IsStudentInLesson lid uid) (\<lambda>ok.
          if \<not> ok then tx_return ''not a student of this lesson''
          else tx_bind (stmt (zadd lid (show_int uid) now)) (\<lambda>_.
            tx_then (stmt (expire_hands lid 86400)) (\<lambda>_. tx_return ''success''))))"

fun join_slash :: "string list \<Rightarrow> string" where
  "join_slash [] = ''''"
| "join_slash [s] = s"
| "join_slash (s # ss) = s @ ''/'' @ join_slash ss"

definition GetRaiseHand_rpc :: "lesson_env \<Rightarrow> int \<Rightarrow> int \<Rightarrow> string lesson_tx" where
  "GetRaiseHand_rpc env lid uid =
     tx_bind (requireTeacherOfLesson env lid uid) (\<lambda>_.
     tx_bind (stmt (zrange lid 100)) (\<lambda>ids.
       tx_return (if length ids = 0 then ''no raised hands'' else join_slash ids)))"

definition ApproveHand_rpc :: "lesson_env \<Rightarrow> int \<Rightarrow> int \<Rightarrow> int \<Rightarrow> string lesson_tx" where
  "ApproveHand_rpc env lid uid stuid =
     tx_bind (requireTeacherOfLesson env lid uid) (\<lambda>_.
     tx_bind (stmt (zrem lid (show_int stuid))) (\<lambda>removed.
       tx_return (if removed = 0 then ''the hand is not raised'' else ''success'')))"

subsection \<open>Who is the teacher\<close>

text \<open>
  T says which user a lesson id was created for. Ids come from the snowflake node, which never
  gives the same one twice. Every stored or cached lesson and every cached permission agree with T.
\<close>

definition auth_ok :: "(int \<Rightarrow> int option) \<Rightarrow> lesson_world \<Rightarrow> bool" where
  "auth_ok T t \<longleftrightarrow>
     (\<forall>l \<in> set (lessons t). T (LessonId l) = Some (TeacherUID l)) \<and>
     (\<forall>lid l d. lesson_cache t lid = Some (Cached l, d) \<longrightarrow> LessonId l = lid \<and> T lid = Some (TeacherUID l)) \<and>
     (\<forall>lid uid d. perm_cache t (lid, uid) = Some d \<longrightarrow> T lid = Some uid)"

definition lesson_present :: "lesson_env \<Rightarrow> int \<Rightarrow> lesson_world \<Rightarrow> bool" where
  "lesson_present env lid t \<longleftrightarrow> lid \<in> LessonId ` set (lessons t) \<and>
     (case bloom t BloomKey of None \<Rightarrow> False | Some ids \<Rightarrow> bf_exists env ids lid)"

definition users_ok :: "lesson_env \<Rightarrow> bool" where
  "users_ok env \<longleftrightarrow> (\<forall>uid u. GetUserInfo env uid = Inr (Some (Some u)) \<longrightarrow> UserID u = uid)"

lemma first_lesson: "find (is_lesson lid) (sort_key LessonId ls) = Some l \<Longrightarrow> l \<in> set ls \<and> LessonId l = lid"
  by (metis find_Some_iff is_lesson_def nth_mem set_sort)

lemma first_lesson_exists: "lid \<in> LessonId ` set ls \<Longrightarrow> \<exists>l. find (is_lesson lid) (sort_key LessonId ls) = Some l"
  by (cases "find (is_lesson lid) (sort_key LessonId ls)") (auto simp: find_None_iff is_lesson_def)

interpretation lesson_row: cached_row "auth_ok T" "\<lambda>l. LessonId l = lid \<and> T lid = Some (TeacherUID l)"
    "lesson_present env lid" "bfExists env lid" "redisGetLesson lid" "redisDelLesson lid"
    "firstLesson (is_lesson lid)" "\<lambda>l. redisSetLesson l lid (300 + Intn env 30)"
  for T lid env
proof (unfold_locales, goal_cases)
  case (5 t now v)
  then show ?case by (auto simp: sql_defs auth_ok_def split: option.splits dest!: first_lesson)
next
  case (9 t now)
  then obtain l where "find (is_lesson lid) (sort_key LessonId (lessons t)) = Some l"
    using first_lesson_exists [of lid "lessons t"] by (auto simp: lesson_present_def)
  then show ?case by (simp add: sql_defs)
qed (auto simp: sql_defs auth_ok_def lesson_present_def split: option.splits if_splits)

lemmas lesson_keeps_defs = sql_defs auth_ok_def

lemma getUserInfo_yields: "users_ok env \<Longrightarrow> yields I (getUserInfo env uid) (\<lambda>u. \<forall>x. u = Some x \<longrightarrow> UserID x = uid)"
  by (auto simp: getUserInfo_def users_ok_def intro: yields_fail yields_return split: sum.splits option.splits)

lemma getUserInfo_keeps: "keeps I (getUserInfo env uid)"
  by (auto simp: getUserInfo_def intro!: keeps_rules)

lemma lesson_ensure_yields: "yields (auth_ok T) (ensureLessonExists env lid) (\<lambda>l. LessonId l = lid \<and> T lid = Some (TeacherUID l))"
  unfolding ensureLessonExists_def getLessonCached_def by (rule lesson_row.ensure_yields)

lemma requireTeacher_yields:
  assumes "users_ok env"
  shows "yields (auth_ok T) (requireTeacherOfLesson env lid uid) (\<lambda>_. T lid = Some uid)"
  unfolding requireTeacherOfLesson_def mustLesson_def
proof (rule yields_then)
  show "yields (auth_ok T) (stmt (redisGetPerm lid uid)) (\<lambda>_. T lid = Some uid)"
    by (rule yields_stmt_parts) (auto simp: lesson_keeps_defs split: option.splits if_splits)
  fix val :: "goerr + string" assume v: "\<And>x. val = Inr x \<Longrightarrow> T lid = Some uid"
  have "yields (auth_ok T) (with_user u (\<lambda>x.
           if TeacherUID l \<noteq> UserID x then tx_fail not_teacher
           else tx_then (stmt (redisSetPerm lid uid 300)) (\<lambda>_. tx_return (l, u)))) (\<lambda>_. T lid = Some uid)"
    if "T lid = Some (TeacherUID l)" "\<forall>x. u = Some x \<longrightarrow> UserID x = uid" for l u
    unfolding with_user_def
    by (intro yields_option yields_if yields_fail yields_then [of _ _ "\<lambda>_. True"] yields_stmt_parts yields_return)
      (use that in \<open>auto simp: lesson_keeps_defs\<close>)
  with v show "yields (auth_ok T) (if val = Inr ''1'' then
         tx_bind (getUserInfo env uid) (\<lambda>u. tx_bind (ensureLessonExists env lid) (\<lambda>l. tx_return (l, u)))
       else
         tx_bind (getUserInfo env uid) (\<lambda>u. tx_bind (ensureLessonExists env lid) (\<lambda>l.
         with_user u (\<lambda>x.
           if TeacherUID l \<noteq> UserID x then tx_fail not_teacher
           else tx_then (stmt (redisSetPerm lid uid 300)) (\<lambda>_. tx_return (l, u))))))
     (\<lambda>_. T lid = Some uid)"
    by (intro yields_if yields_bind [OF getUserInfo_yields [OF assms]] yields_bind [OF lesson_ensure_yields] yields_return) auto
qed

subsection \<open>Requests\<close>

text \<open>
  What clients and other services ask for. The id of a new lesson and the time of a call are those
  the node and the clock give; a refresh of the Bloom filter runs by itself.
\<close>

datatype lesson_req =
    ReqCreateLesson int int string string
  | ReqDelLesson int int
  | ReqChangeUserToLesson int int int string
  | ReqIsStudent int int
  | ReqLessonInfoById int
  | ReqLessonInfo string string
  | ReqCreateSignIn int int int int
  | ReqSignIn int int int
  | ReqSelectSignIn int int
  | ReqDelSign int int
  | ReqRollCall int int
  | ReqSaveBoard int int string
  | ReqGetBoard int int
  | ReqChangeInLive int int string
  | ReqSelectLive int
  | ReqRaiseHand int int int
  | ReqGetHands int int
  | ReqApproveHand int int int
  | ReqRefresh

fun lesson_serve :: "lesson_env \<Rightarrow> lesson_req \<Rightarrow> unit lesson_tx" where
  "lesson_serve env (ReqCreateLesson lid uid name desc) = tx_bind (CreateLesson_rpc env lid uid name desc) (\<lambda>_. tx_return ())"
| "lesson_serve env (ReqDelLesson lid uid) = tx_bind (DelLesson_rpc env lid uid) (\<lambda>_. tx_return ())"
| "lesson_serve env (ReqChangeUserToLesson lid uid stuid opt) =
     tx_bind (ChangeUserToLesson_rpc env lid uid stuid opt) (\<lambda>_. tx_return ())"
| "lesson_serve env (ReqIsStudent lid stuid) = tx_bind (IsStudentInLesson_rpc env lid stuid) (\<lambda>_. tx_return ())"
| "lesson_serve env (ReqLessonInfoById lid) = tx_bind (GetLessonInfoById_rpc lid) (\<lambda>_. tx_return ())"
| "lesson_serve env (ReqLessonInfo name teacher) = tx_bind (GetLessonInfo_rpc name teacher) (\<lambda>_. tx_return ())"
| "lesson_serve env (ReqCreateSignIn lid uid dur now) = tx_bind (CreateSignIn_rpc env lid uid dur now) (\<lambda>_. tx_return ())"
| "lesson_serve env (ReqSignIn lid uid now) = tx_bind (SignIn_rpc env lid uid now) (\<lambda>_. tx_return ())"
| "lesson_serve env (ReqSelectSignIn lid uid) = tx_bind (SelectSignIn_rpc env lid uid) (\<lambda>_. tx_return ())"
| "lesson_serve env (ReqDelSign lid uid) = tx_bind (DelSign_rpc env lid uid) (\<lambda>_. tx_return ())"
| "lesson_serve env (ReqRollCall lid uid) = tx_bind (RollCallInRandom_rpc env lid uid) (\<lambda>_. tx_return ())"
| "lesson_serve env (ReqSaveBoard lid uid file) = tx_bind (SaveWhiteBoardJson_rpc env lid uid file) (\<lambda>_. tx_return ())"
| "lesson_serve env (ReqGetBoard lid uid) = tx_bind (GetWhiteBoardJson_rpc env lid uid) (\<lambda>_. tx_return ())"
| "lesson_serve env (ReqChangeInLive lid uid opt) = tx_bind (ChangeUserInLive_rpc env lid uid opt) (\<lambda>_. tx_return ())"
| "lesson_serve env (ReqSelectLive lid) = tx_bind (SelectLessonInfo_rpc env lid) (\<lambda>_. tx_return ())"
| "lesson_serve env (ReqRaiseHand lid uid now) = tx_bind (RaiseHand_rpc env lid uid now) (\<lambda>_. tx_return ())"
| "lesson_serve env (ReqGetHands lid uid) = tx_bind (GetRaiseHand_rpc env lid uid) (\<lambda>_. tx_return ())"
| "lesson_serve env (ReqApproveHand lid uid stuid) = tx_bind (ApproveHand_rpc env lid uid stuid) (\<lambda>_. tx_return ())"
| "lesson_serve env ReqRefresh = refreshBloom lesson_bloom GetAllLessonIDs"

definition lesson_serves :: "lesson_env \<Rightarrow> lesson_req list \<Rightarrow> lesson_world tx_state \<Rightarrow> lesson_world tx_state" where
  "lesson_serves env qs s = fold (\<lambda>q s. snd (lesson_serve env q s)) qs s"

lemma serves_keeps:
  "(\<And>q. q \<in> set qs \<Longrightarrow> keeps I (lesson_serve env q)) \<Longrightarrow> I (tables s) \<Longrightarrow> I (tables (lesson_serves env qs s))"
  unfolding lesson_serves_def by (rule keeps_fold)

lemmas handler_defs = CreateLesson_rpc_def DelLesson_rpc_def ChangeUserToLesson_rpc_def IsStudentInLesson_rpc_def
  GetLessonInfoById_rpc_def GetLessonInfo_rpc_def CreateSignIn_rpc_def SignIn_rpc_def SelectSignIn_rpc_def
  DelSign_rpc_def RollCallInRandom_rpc_def SaveWhiteBoardJson_rpc_def GetWhiteBoardJson_rpc_def
  ChangeUserInLive_rpc_def SelectLessonInfo_rpc_def RaiseHand_rpc_def GetRaiseHand_rpc_def ApproveHand_rpc_def

lemmas store_defs = CreateLesson_def DelLesson_def ChangeUserToLesson_def IsStudentInLesson_def SelectLesson_def
  SelectLessonByNandT_def CreateSignIn_def StuSignIn_def SelectSignIn_def RemoveSignIn_def SaveWhiteBoard_def
  GetWhiteBoardNew_def

lemma ListLessonStudentIDs_keeps: "(\<And>c. keeps I (stmt (students_after lid c 300))) \<Longrightarrow> keeps I (ListLessonStudentIDs lid)"
  unfolding ListLessonStudentIDs_def by (rule keeps_state_fun) (auto intro!: keeps_rules keeps_read_batches)

lemma GetAllLessonIDs_keeps: "(\<And>c. keeps I (stmt (lessons_after c 300))) \<Longrightarrow> keeps I GetAllLessonIDs"
  unfolding GetAllLessonIDs_def by (rule keeps_state_fun) (auto intro!: keeps_rules keeps_read_batches)

subsection \<open>Invariants of the service\<close>

text \<open>
  An invariant that every single write keeps is kept by every request; may_create and may_delete
  limit the requests for which the write of a lesson row has to keep it.
\<close>

locale lesson_invariant =
  fixes env :: lesson_env and I :: "lesson_world \<Rightarrow> bool"
    and may_create :: "int \<Rightarrow> int \<Rightarrow> bool" and may_delete :: "int \<Rightarrow> bool"
  assumes teacher: "keeps I (requireTeacherOfLesson env lid uid)"
    and ensure: "keeps I (ensureLessonExists env lid)"
    and create: "may_create (LessonId l) (TeacherUID l) \<Longrightarrow> keeps I (stmt (insertLesson l))"
    and delete: "may_delete lid \<Longrightarrow> keeps I (stmt (deleteLesson lid))"
    and refresh: "keeps I (refreshBloom lesson_bloom GetAllLessonIDs)"
    and insert_student: "keeps I (stmt (insertStudent lid uid role))"
    and insert_outbox: "keeps I (stmt (insertOutbox e))"
    and delete_students: "keeps I (stmt (deleteStudents lid))"
    and set_status: "keeps I (stmt (setStatus lid uid st))"
    and insert_sign_in: "keeps I (stmt (insertSignIn lid users close))"
    and save_sign_in: "keeps I (stmt (saveSignIn s))"
    and delete_sign_ins: "keeps I (stmt (deleteSignIns lid))"
    and insert_doc: "keeps I (stmt (insertDoc d))"
    and del_lesson: "keeps I (stmt (redisDelLesson lid))"
    and bloom_add: "keeps I (stmt (lesson_bloom (MAdd BloomKey ids)))"
    and room_change: "keeps I (stmt (live_room_change lid opt user auth))"
    and room_delete: "keeps I (stmt (del_room_allkey lid))"
    and hand_add: "keeps I (stmt (zadd lid member score))"
    and hand_expire: "keeps I (stmt (expire_hands lid ttl))"
    and hand_remove: "keeps I (stmt (zrem lid member))"
begin

lemma read_keeps: "(\<And>now t. snd (f now t) = t) \<Longrightarrow> keeps I (stmt f)"
  by (rule keeps_stmt) simp

lemma reads_keep:
  "keeps I (stmt (firstLesson L))" "keeps I (stmt (firstStudent lid uid))" "keeps I (stmt (countActive lid uid))"
  "keeps I (stmt (firstSignIn lid))" "keeps I (stmt (firstDoc lid))" "keeps I (stmt (students_after lid c n))"
  "keeps I (stmt (select_room_info env lid))" "keeps I (stmt (zrange lid n))"
  by (rule read_keeps; simp add: sql_defs)+

lemmas writes_keep = teacher ensure refresh insert_student insert_outbox delete_students set_status insert_sign_in
  save_sign_in delete_sign_ins insert_doc del_lesson bloom_add room_change room_delete hand_add hand_expire hand_remove

lemma list_keeps: "keeps I (ListLessonStudentIDs lid)"
  by (rule ListLessonStudentIDs_keeps) (rule reads_keep)

lemma create_keeps: "may_create lid uid \<Longrightarrow> keeps I (CreateLesson_rpc env lid uid name desc)"
  unfolding CreateLesson_rpc_def CreateLesson_def with_user_def
  by (intro keeps_rules getUserInfo_keeps create writes_keep) auto

lemma delete_keeps: "may_delete lid \<Longrightarrow> keeps I (DelLesson_rpc env lid uid)"
  unfolding DelLesson_rpc_def DelLesson_def by (intro keeps_rules delete writes_keep) auto

lemma serve_keeps:
  assumes "\<And>lid uid name desc. q = ReqCreateLesson lid uid name desc \<Longrightarrow> may_create lid uid"
    and "\<And>lid uid. q = ReqDelLesson lid uid \<Longrightarrow> may_delete lid"
  shows "keeps I (lesson_serve env q)"
  using assms
  by (cases q)
    (simp_all add: keeps_bind [OF create_keeps keeps_return] keeps_bind [OF delete_keeps keeps_return] refresh,
      (simp only: handler_defs store_defs if_exists_def with_user_def;
        intro keeps_rules getUserInfo_keeps list_keeps reads_keep writes_keep)+)

end

lemma refresh_by_statements:
  assumes "\<And>c. keeps I (stmt (lesson_bloom c))"
  shows "keeps I (refreshBloom lesson_bloom GetAllLessonIDs)"
  by (rule refresh_keeps [OF assms GetAllLessonIDs_keeps]) (rule keeps_stmt, simp add: lessons_after_def)

lemma auth_invariant:
  assumes "users_ok env"
  shows "lesson_invariant env (auth_ok T) (\<lambda>lid uid. T lid = Some uid) (\<lambda>_. True)"
proof -
  have bl: "keeps (auth_ok T) (stmt (lesson_bloom c))" for c
    by (rule keeps_stmt) (cases c; auto simp: bloom_sql_def put_bloom_def auth_ok_def split: prod.splits)
  show ?thesis
  proof (unfold_locales, goal_cases)
    case 1 then show ?case by (rule keeps_yields [OF requireTeacher_yields [OF assms]])
  next
    case 2 then show ?case by (rule keeps_yields [OF lesson_ensure_yields])
  next
    case 5 then show ?case by (rule refresh_by_statements) (rule bl)
  next
    case 15 then show ?case by (rule bl)
  qed (rule keeps_stmt; auto simp: lesson_keeps_defs set_room_def set_hands_def Let_def split: option.splits)+
qed

text \<open>The user service is asked to answer for the user it was asked about.\<close>

interpretation auth: lesson_invariant env "\<lambda>t. users_ok env \<longrightarrow> auth_ok T t" "\<lambda>lid uid. T lid = Some uid" "\<lambda>_. True"
  for env T
proof (cases "users_ok env")
  case True
  then show "lesson_invariant env (\<lambda>t. users_ok env \<longrightarrow> auth_ok T t) (\<lambda>lid uid. T lid = Some uid) (\<lambda>_. True)"
    using auth_invariant by simp
next
  case False
  then show "lesson_invariant env (\<lambda>t. users_ok env \<longrightarrow> auth_ok T t) (\<lambda>lid uid. T lid = Some uid) (\<lambda>_. True)"
    by (simp add: lesson_invariant_def yields_def always_def)
qed

text \<open>
  C23 (safety). Only the teacher a lesson was created for ever passes the check of its teacher: after any
  requests of any users, whatever commands of MySQL or Redis failed and whenever cached lessons and
  permissions expired, if requireTeacherOfLesson lets a user through, the lesson's creation named
  this user. So nobody else can delete the lesson, change its members, run its sign-ins or approve
  hands.
\<close>

theorem only_the_teacher_passes:
  assumes "users_ok env"
    and "\<forall>q \<in> set qs. \<forall>lid uid name desc. q = ReqCreateLesson lid uid name desc \<longrightarrow> T lid = Some uid"
    and "requireTeacherOfLesson env lid uid (lesson_serves env qs \<lparr>tables = no_lessons, plan = p\<rparr>) = (Inr x, s')"
  shows "T lid = Some uid"
proof -
  have "users_ok env \<longrightarrow> auth_ok T (tables (lesson_serves env qs \<lparr>tables = no_lessons, plan = p\<rparr>))"
    by (rule serves_keeps, rule auth.serve_keeps) (use assms(2) in \<open>auto simp: auth_ok_def no_lessons_def\<close>)
  then have "auth_ok T (tables (lesson_serves env qs \<lparr>tables = no_lessons, plan = p\<rparr>))" using assms(1) by simp
  from yieldsD [OF requireTeacher_yields [OF assms(1)] this assms(3)] show ?thesis by simp
qed

definition plain_env :: lesson_env where
  "plain_env = \<lparr>GetUserInfo = \<lambda>u. Inr (Some (Some \<lparr>UserID = u, UserName = ''n'', Auth = ''Teacher''\<rparr>)),
     bf_exists = \<lambda>ids i. i \<in> set ids, hash_order = \<lambda>h. h, Intn = \<lambda>n. 0,
     unmarshal_board = \<lambda>s. Inl (ErrNew s), marshal_board = \<lambda>d. Inr ''''\<rparr>"

lemma plain_env_simps [simp]:
  "GetUserInfo plain_env u = Inr (Some (Some \<lparr>UserID = u, UserName = ''n'', Auth = ''Teacher''\<rparr>))"
  "bf_exists plain_env ids i = (i \<in> set ids)" "Intn plain_env n = 0" "hash_order plain_env h = h"
  by (simp_all add: plain_env_def)

lemma users_ok_plain [simp]: "users_ok plain_env"
  by (simp add: users_ok_def)

definition created_world :: lesson_world where
  "created_world = no_lessons\<lparr>
     lessons := [\<lparr>LessonId = 5, LessonName = ''l'', LessonDescription = ''d'', TeacherName = ''n'', TeacherUID = 7\<rparr>],
     lesson_students := [\<lparr>LsID = 1, LsLesson = 5, LsUser = 7, LsRole = ''Teacher'', LsStatus = 1\<rparr>],
     next_student := 2,
     outbox := [\<lparr>AggregateType = ''Lesson'', AggregateID = show_int 5, EventType = ''ADD_BLOOM'', Payload = add_bloom_payload 5\<rparr>],
     bloom := no_blooms(BloomKey \<mapsto> [5])\<rparr>"

lemma create_run:
  "lesson_serves plain_env [ReqCreateLesson 5 7 ''l'' ''d''] (quiet 0 no_lessons) = quiet 0 created_world"
  by (simp add: lesson_serves_def CreateLesson_rpc_def CreateLesson_def getUserInfo_def with_user_def tx_run sql_defs
      no_lessons_def created_world_def put_bloom_def no_blooms_def added_def fun_eq_iff)

theorem only_the_teacher_passes_witness:
  "fst (requireTeacherOfLesson plain_env 5 7 (quiet 0 created_world)) =
      Inr (hd (lessons created_world), Some \<lparr>UserID = 7, UserName = ''n'', Auth = ''Teacher''\<rparr>) \<and>
    [5 \<mapsto> 7] (5 :: int) = Some (7 :: int)"
proof
  show r: "fst (requireTeacherOfLesson plain_env 5 7 (quiet 0 created_world)) =
      Inr (hd (lessons created_world), Some \<lparr>UserID = 7, UserName = ''n'', Auth = ''Teacher''\<rparr>)"
    by (simp add: requireTeacherOfLesson_def mustLesson_def ensureLessonExists_def ensure_exists_def getLessonCached_def
        get_cached_def load_row_def getUserInfo_def with_user_def tx_run sql_defs is_lesson_def created_world_def no_lessons_def)
  show "[5 \<mapsto> 7] (5 :: int) = Some (7 :: int)"
    by (rule only_the_teacher_passes [where env = plain_env and qs = "[ReqCreateLesson 5 7 ''l'' ''d'']" and p = "no_fault 0"])
      (use r in \<open>simp_all add: create_run [unfolded quiet_def] quiet_def prod_eq_iff\<close>)
qed

subsection \<open>The live room\<close>

text \<open>The members of a room are a hash, and its count is their number.\<close>

definition rooms_ok :: "lesson_world \<Rightarrow> bool" where
  "rooms_ok t \<longleftrightarrow> (\<forall>lid. distinct (map fst (live_members t lid)) \<and> count_of t lid = int (length (live_members t lid)))"

lemma length_update_new: "map_of xs k = None \<Longrightarrow> length (AList.update k v xs) = Suc (length xs)"
  by (induction xs) (auto split: if_splits)

lemma length_update_old: "map_of xs k \<noteq> None \<Longrightarrow> length (AList.update k v xs) = length xs"
  by (induction xs) (auto split: if_splits)

lemma length_delete: "distinct (map fst xs) \<Longrightarrow>
    length (AList.delete k xs) = (if map_of xs k = None then length xs else length xs - 1)"
proof (induction xs)
  case (Cons x xs)
  have ne: "map_of xs k \<noteq> None \<Longrightarrow> 0 < length xs" by auto
  have "fst x = k \<Longrightarrow> map_of xs k = None" using Cons.prems by (auto simp: map_of_eq_None_iff)
  with Cons ne show ?case by (cases x) auto
qed simp

lemma rooms_set: "rooms_ok t \<Longrightarrow> distinct (map fst ms) \<Longrightarrow> (case n of None \<Rightarrow> 0 | Some m \<Rightarrow> m) = int (length ms) \<Longrightarrow>
    rooms_ok (set_room lid n ms t)"
  by (simp add: rooms_ok_def set_room_def count_of_def)

lemma room_change_ok: "rooms_ok t \<Longrightarrow> rooms_ok (snd (live_room_change lid opt user auth now t))"
proof -
  assume ok: "rooms_ok t"
  let ?ms = "live_members t lid"
  have d: "distinct (map fst ?ms)" and c: "count_of t lid = int (length ?ms)" using ok by (simp_all add: rooms_ok_def)
  have dd: "distinct (map fst (AList.update user auth ?ms))" "distinct (map fst (AList.delete user ?ms))"
    using d by (simp_all add: distinct_update distinct_delete)
  show ?thesis
  proof (cases "map_of ?ms user")
    case None
    then have "int (length (AList.update user auth ?ms)) = int (length ?ms) + 1"
      "int (length (AList.delete user ?ms)) = int (length ?ms)"
      by (simp_all only: length_update_new length_delete [OF d]) simp_all
    with None ok dd c show ?thesis
      by (auto simp: live_room_change_def Let_def clamp_nonneg_def count_of_def [symmetric] intro!: rooms_set)
  next
    case (Some v)
    then obtain x xs where "?ms = x # xs" by (cases ?ms) auto
    with Some have "int (length (AList.update user auth ?ms)) = int (length ?ms)"
      "int (length (AList.delete user ?ms)) = int (length ?ms) - 1" "1 \<le> int (length ?ms)"
      using length_update_old [of ?ms user auth] length_delete [OF d, of user] by simp_all
    with Some ok dd c show ?thesis
      by (auto simp: live_room_change_def Let_def clamp_nonneg_def count_of_def [symmetric] intro!: rooms_set)
  qed
qed

lemma rooms_frame: "live_count t' = live_count t \<Longrightarrow> live_members t' = live_members t \<Longrightarrow> rooms_ok t' = rooms_ok t"
  by (simp add: rooms_ok_def count_of_def)

text \<open>The checks write only the caches.\<close>

lemma checks_keep:
  assumes "\<And>l lid ttl. keeps I (stmt (redisSetLesson l lid ttl))" and "\<And>lid. keeps I (stmt (redisDelLesson lid))"
    and "\<And>lid uid ttl. keeps I (stmt (redisSetPerm lid uid ttl))"
  shows "keeps I (ensureLessonExists env lid)" and "keeps I (requireTeacherOfLesson env lid uid)"
proof -
  have reads: "keeps I (stmt (redisGetLesson lid))" "keeps I (stmt (redisGetPerm lid uid))" "keeps I (stmt (bfExists env lid))"
    "keeps I (stmt (firstLesson L))" for lid uid L
    by (rule keeps_stmt; simp add: sql_defs)+
  show e: "keeps I (ensureLessonExists env lid)" for lid
    unfolding ensureLessonExists_def ensure_exists_def getLessonCached_def get_cached_def load_row_def
    by (auto intro!: keeps_rules reads assms split: cached.splits)
  show "keeps I (requireTeacherOfLesson env lid uid)"
    unfolding requireTeacherOfLesson_def mustLesson_def with_user_def
    by (intro keeps_rules reads assms e getUserInfo_keeps)
qed

lemma rooms_frames:
  "rooms_ok (t\<lparr>lesson_cache := a\<rparr>) = rooms_ok t" "rooms_ok (t\<lparr>perm_cache := b\<rparr>) = rooms_ok t"
  "rooms_ok (t\<lparr>lessons := c\<rparr>) = rooms_ok t" "rooms_ok (t\<lparr>lesson_students := d\<rparr>) = rooms_ok t"
  "rooms_ok (t\<lparr>lesson_students := d, next_student := i\<rparr>) = rooms_ok t" "rooms_ok (t\<lparr>outbox := e\<rparr>) = rooms_ok t"
  "rooms_ok (t\<lparr>sign_ins := f\<rparr>) = rooms_ok t" "rooms_ok (t\<lparr>sign_ins := f, next_sign_in := i\<rparr>) = rooms_ok t"
  "rooms_ok (t\<lparr>whiteboards := g, next_doc := i\<rparr>) = rooms_ok t" "rooms_ok (t\<lparr>bloom := h\<rparr>) = rooms_ok t"
  "rooms_ok (t\<lparr>hands := j, hands_until := k\<rparr>) = rooms_ok t" "rooms_ok (t\<lparr>hands := j\<rparr>) = rooms_ok t" "rooms_ok (t\<lparr>hands_until := k\<rparr>) = rooms_ok t"
  by (rule rooms_frame; simp)+

interpretation rooms: lesson_invariant env rooms_ok "\<lambda>_ _. True" "\<lambda>_. True" for env
proof (unfold_locales, goal_cases)
  case 1 then show ?case by (intro checks_keep keeps_stmt) (simp_all add: sql_defs rooms_frames)
next
  case 2 then show ?case by (intro checks_keep keeps_stmt) (simp_all add: sql_defs rooms_frames)
next
  case 5 then show ?case
    by (intro refresh_by_statements keeps_stmt) (simp add: bloom_sql_def put_bloom_def rooms_frames split: prod.splits)
next
  case 15 then show ?case
    by (intro keeps_stmt) (simp add: bloom_sql_def put_bloom_def rooms_frames split: prod.splits)
next
  case 16 then show ?case by (intro keeps_stmt room_change_ok)
next
  case 17 then show ?case by (intro keeps_stmt) (simp add: sql_defs rooms_set)
qed (rule keeps_stmt; simp add: sql_defs rooms_frames set_hands_def Let_def)+

text \<open>
  (invariant). The number of people in a live room is always the number of its members: after any
  requests, with any failures of MySQL and Redis in between, the count key of every lesson agrees
  with its member hash, in which nobody is listed twice; entering twice or leaving twice does not
  count.
\<close>

theorem live_count_is_members:
  "count_of (tables (lesson_serves env qs \<lparr>tables = no_lessons, plan = p\<rparr>)) lid =
     int (length (live_members (tables (lesson_serves env qs \<lparr>tables = no_lessons, plan = p\<rparr>)) lid)) \<and>
   distinct (map fst (live_members (tables (lesson_serves env qs \<lparr>tables = no_lessons, plan = p\<rparr>)) lid))"
proof -
  have "rooms_ok (tables (lesson_serves env qs \<lparr>tables = no_lessons, plan = p\<rparr>))"
    by (rule serves_keeps, rule rooms.serve_keeps) (auto simp: rooms_ok_def no_lessons_def count_of_def)
  then show ?thesis by (simp add: rooms_ok_def)
qed

subsection \<open>A created lesson stays known\<close>

definition indexed :: "int \<Rightarrow> lesson_world \<Rightarrow> bool" where
  "indexed lid t \<longleftrightarrow> distinct (map LessonId (lessons t)) \<and> (\<forall>l \<in> set (lessons t). 0 < LessonId l) \<and>
     lid \<in> LessonId ` set (lessons t) \<and> (\<exists>ids. bloom t BloomKey = Some ids \<and> lid \<in> set ids)"

definition no_false_negatives :: "lesson_env \<Rightarrow> bool" where
  "no_false_negatives env \<longleftrightarrow> (\<forall>ids. \<forall>i \<in> set ids. bf_exists env ids i)"

lemma indexed_present: "no_false_negatives env \<Longrightarrow> indexed lid t \<Longrightarrow> lesson_present env lid t"
  by (auto simp: indexed_def lesson_present_def no_false_negatives_def)

lemma indexed_frame: "lessons t' = lessons t \<Longrightarrow> bloom t' = bloom t \<Longrightarrow> indexed lid t' = indexed lid t"
  by (simp add: indexed_def)

interpretation lesson_filter: bloom_state bloom put_bloom
  by unfold_locales (simp_all add: put_bloom_def)

lemma indexed_refresh: "keeps (indexed lid) (refreshBloom lesson_bloom GetAllLessonIDs)"
  unfolding yields_def refreshBloom_def
proof (intro allI impI always_then)
  fix t assume i: "indexed lid t"
  have wr: "always (refresh_write lesson_bloom (map LessonId (sort_key LessonId (lessons t)))) t
      (\<lambda>r t'. indexed lid t' \<and> (\<forall>x. r = Inr x \<longrightarrow> True))"
    by (rule always_mono [OF lesson_filter.refresh_write_effect]) (use i in \<open>auto simp: indexed_def put_bloom_def\<close>)
  have "always GetAllLessonIDs t (\<lambda>r t'. t' = t \<and> (\<forall>ids. r = Inr ids \<longrightarrow> ids = map LessonId (sort_key LessonId (lessons t))))"
    by (rule always_mono [OF all_ids_read]) (use i in \<open>auto simp: indexed_def\<close>)
  then show "always GetAllLessonIDs t (\<lambda>r t'. always (case r of Inl _ \<Rightarrow> tx_return () | Inr ids \<Rightarrow> refresh_write lesson_bloom ids) t'
      (\<lambda>r t'. indexed lid t' \<and> (\<forall>x. r = Inr x \<longrightarrow> True)))"
    by (elim always_mono) (use i wr in \<open>auto simp: always_simps split: sum.splits\<close>)
qed

lemma indexed_delete: "m \<noteq> lid \<Longrightarrow> indexed lid t \<Longrightarrow> indexed lid (t\<lparr>lessons := filter (\<lambda>l. \<not> is_lesson m l) (lessons t)\<rparr>)"
  by (auto simp: indexed_def is_lesson_def distinct_map inj_on_def)

interpretation known: lesson_invariant env "indexed lid" "\<lambda>l _. 0 < l" "\<lambda>l. l \<noteq> lid" for env lid
proof (unfold_locales, goal_cases)
  case 1 then show ?case by (intro checks_keep keeps_stmt) (simp_all add: sql_defs indexed_def)
next
  case 2 then show ?case by (intro checks_keep keeps_stmt) (simp_all add: sql_defs indexed_def)
next
  case (3 l) then show ?case by (intro keeps_stmt) (auto simp: sql_defs indexed_def find_None_iff is_lesson_def)
next
  case (4 l) then show ?case by (intro keeps_stmt) (simp add: sql_defs indexed_delete)
next
  case 5 show ?case by (rule indexed_refresh)
next
  case 15 then show ?case by (intro keeps_stmt) (auto simp: bloom_sql_def put_bloom_def indexed_def added_def)
qed (rule keeps_stmt; simp add: sql_defs indexed_def set_room_def set_hands_def Let_def)+

lemma CreateLesson_indexes:
  assumes "distinct (map LessonId (lessons t))" and "\<forall>l \<in> set (lessons t). 0 < LessonId l" and "0 < lid"
  shows "always (CreateLesson_rpc env lid uid name desc) t (\<lambda>r t'. \<forall>x. r = Inr x \<longrightarrow> x = lid \<and> indexed lid t')"
proof -
  let ?K = "\<lambda>t'. distinct (map LessonId (lessons t')) \<and> (\<forall>l \<in> set (lessons t'). 0 < LessonId l) \<and> lid \<in> LessonId ` set (lessons t')"
  have c: "always (CreateLesson lid name desc tn role uid) t (\<lambda>r t'. \<forall>x. r = Inr x \<longrightarrow> x = lid \<and> ?K t')" for tn role
    unfolding CreateLesson_def
    by (rule always_Transaction) (use assms in \<open>auto simp: always_simps sql_defs find_None_iff is_lesson_def\<close>)
  have "always (tx_bind (CreateLesson lid name desc tn role uid) (\<lambda>lid.
         tx_then (stmt (redisDelLesson lid)) (\<lambda>_.
         tx_bind (stmt (lesson_bloom (MAdd BloomKey [lid]))) (\<lambda>_. tx_return lid)))) t
      (\<lambda>r t'. \<forall>x. r = Inr x \<longrightarrow> x = lid \<and> indexed lid t')" for tn role
    by (rule always_bind [OF c])
      (auto simp: always_simps sql_defs put_bloom_def indexed_def added_def split: option.splits)
  then show ?thesis
    by (auto simp: CreateLesson_rpc_def getUserInfo_def with_user_def always_simps tx_steps
        split: sum.splits option.splits)
qed



text \<open>
  (error). A refresh of the Bloom filter can hide a lesson: when the lesson is created after the
  refresh has read the ids and before it renames the new filter, the lesson is stored and its
  creation succeeded, but every lookup answers that it does not exist, until the next refresh.
\<close>

theorem refresh_hides_new_lesson:
  assumes "fst (GetAllLessonIDs (quiet now t0)) = Inr ids"
    and "CreateLesson_rpc env lid uid name desc (quiet now t0) = (Inr lid, quiet now t)"
    and "\<not> bf_exists env ids lid"
  shows "lid \<in> LessonId ` set (lessons t) \<and>
    fst (ensureLessonExists env lid (snd (refresh_write lesson_bloom ids (quiet now t)))) = Inl ErrLessonNotExist"
proof
  have "always (CreateLesson_rpc env lid uid name desc) t0 (\<lambda>r t'. \<forall>x. r = Inr x \<longrightarrow> lid \<in> LessonId ` set (lessons t'))"
  proof -
    have c: "always (CreateLesson lid name desc tn role uid) t0 (\<lambda>r t'. \<forall>x. r = Inr x \<longrightarrow> x = lid \<and> lid \<in> LessonId ` set (lessons t'))"
      for tn role
      unfolding CreateLesson_def by (rule always_Transaction) (auto simp: always_simps sql_defs)
    have "always (tx_bind (CreateLesson lid name desc tn role uid) (\<lambda>lid.
         tx_then (stmt (redisDelLesson lid)) (\<lambda>_.
         tx_bind (stmt (lesson_bloom (MAdd BloomKey [lid]))) (\<lambda>_. tx_return lid)))) t0
      (\<lambda>r t'. \<forall>x. r = Inr x \<longrightarrow> lid \<in> LessonId ` set (lessons t'))" for tn role
      by (rule always_bind [OF c]) (auto simp: always_simps sql_defs put_bloom_def)
    then show ?thesis
      by (auto simp: CreateLesson_rpc_def getUserInfo_def with_user_def always_simps tx_steps split: sum.splits option.splits)
  qed
  then have "always (CreateLesson_rpc env lid uid name desc) (tables (quiet now t0))
      (\<lambda>r t'. \<forall>x. r = Inr x \<longrightarrow> lid \<in> LessonId ` set (lessons t'))" by simp
  from alwaysD [OF this assms(2)] show "lid \<in> LessonId ` set (lessons t)" by simp
  show "fst (ensureLessonExists env lid (snd (refresh_write lesson_bloom ids (quiet now t)))) = Inl ErrLessonNotExist"
    using assms(3)
    by (simp add: lesson_filter.refresh_write_quiet ensureLessonExists_def ensure_exists_def tx_run sql_defs put_bloom_def)
qed

theorem refresh_hides_new_lesson_witness:
  "5 \<in> LessonId ` set (lessons created_world) \<and>
    fst (ensureLessonExists plain_env 5 (snd (refresh_write lesson_bloom [] (quiet 0 created_world)))) = Inl ErrLessonNotExist"
  by (rule refresh_hides_new_lesson [of 0 no_lessons "[]" plain_env 5 7 "''l''" "''d''" created_world])
    (simp_all add: GetAllLessonIDs_def CreateLesson_rpc_def CreateLesson_def getUserInfo_def with_user_def tx_run
      sql_defs no_lessons_def created_world_def put_bloom_def no_blooms_def added_def fun_eq_iff)

subsection \<open>Signing in and roll call\<close>

lemma ensure_frame:
  "always (ensureLessonExists env lid) t (\<lambda>r t'. lesson_students t' = lesson_students t \<and> sign_ins t' = sign_ins t)"
proof -
  have "keeps (\<lambda>t'. lesson_students t' = lesson_students t \<and> sign_ins t' = sign_ins t) (ensureLessonExists env lid)"
    by (intro checks_keep keeps_stmt) (simp_all add: sql_defs)
  then show ?thesis by (auto simp: yields_def)
qed

definition sign_recorded :: "int \<Rightarrow> int \<Rightarrow> int \<Rightarrow> lesson_world \<Rightarrow> lesson_world \<Rightarrow> bool" where
  "sign_recorded lid uid now t t' \<longleftrightarrow> enrolled lid uid t \<and>
     (\<exists>s. find (\<lambda>s. SiLesson s = lid) (sign_ins t) = Some s \<and> uid \<notin> set (AlreadyUserId s) \<and>
        (case CloseTime s of None \<Rightarrow> True | Some c \<Rightarrow> now < c) \<and>
        sign_ins t' = map (\<lambda>r. if SiID r = SiID s then s\<lparr>AlreadyUserId := AlreadyUserId s @ [uid]\<rparr> else r) (sign_ins t))"

text \<open>
  (safety). A student whose sign-in is answered with success was an active member of the lesson, was
  not signed in before, signed in before the close time, and is now recorded in the lesson's
  sign-in. Any other run, with whatever failures, leaves all sign-ins as they were or records
  exactly such a student.
\<close>

theorem sign_in_records_members:
  "always (SignIn_rpc env lid uid now) t (\<lambda>r t'.
     if r = Inr ''success'' then sign_recorded lid uid now t t'
     else sign_ins t' = sign_ins t \<or> sign_recorded lid uid now t t')"
    (is "always _ t ?Q")
  unfolding SignIn_rpc_def if_exists_def
proof (rule always_then, rule always_mono [OF ensure_frame])
  fix r :: "goerr + webrtc_lesson" and t1 :: lesson_world
  assume f: "lesson_students t1 = lesson_students t \<and> sign_ins t1 = sign_ins t"
  have e: "enrolled lid uid t1 = enrolled lid uid t" using f by (simp add: enrolled_def)
  have sign: "always (tx_then (StuSignIn lid uid now) (\<lambda>r.
            case r of
              Inl e \<Rightarrow> if err_text e = ''close'' then tx_return ''sign-in closed'' else tx_fail e
            | Inr _ \<Rightarrow> tx_return ''success'')) t1 ?Q" if "enrolled lid uid t"
    by (rule always_then, rule always_mono [OF StuSignIn_effect])
      (use that f in \<open>auto simp: signed_in_def sign_recorded_def always_simps split: sum.splits option.splits\<close>)
  have "always (tx_bind (IsStudentInLesson lid uid) (\<lambda>ok.
          if \<not> ok then tx_fail not_student
          else tx_then (StuSignIn lid uid now) (\<lambda>r.
            case r of
              Inl e \<Rightarrow> if err_text e = ''close'' then tx_return ''sign-in closed'' else tx_fail e
            | Inr _ \<Rightarrow> tx_return ''success''))) t1 ?Q"
    by (rule always_bind [OF IsStudentInLesson_effect]) (use sign e f in \<open>auto simp: always_simps\<close>)
  then show "always (case r of
         Inl e \<Rightarrow> if err_is e ErrLessonNotExist then tx_return ''not exist'' else tx_fail e
       | Inr _ \<Rightarrow> tx_bind (IsStudentInLesson lid uid) (\<lambda>ok.
          if \<not> ok then tx_fail not_student
          else tx_then (StuSignIn lid uid now) (\<lambda>r.
            case r of
              Inl e \<Rightarrow> if err_text e = ''close'' then tx_return ''sign-in closed'' else tx_fail e
            | Inr _ \<Rightarrow> tx_return ''success''))) t1 ?Q"
    using f by (cases r) (simp_all add: always_fail always_return always_if)
qed

text \<open>
  (error). A roll call in a lesson without active members panics: the random index is drawn from an
  empty list. The teacher's own row counts as a member, so this takes removing the teacher too.
\<close>

theorem empty_roll_call_panics:
  assumes "requireTeacherOfLesson env lid uid (quiet now t) = (Inr x, quiet now t')"
    and "filter (active_row lid) (lesson_students t') = []"
  shows "fst (RollCallInRandom_rpc env lid uid (quiet now t)) = Inl (panicked ''invalid argument to Intn'')"
proof -
  have "filter (\<lambda>s. active_row lid s \<and> 0 < LsID s) (lesson_students t') = []"
    using assms(2) by (auto simp: filter_empty_conv)
  with assms(1) show ?thesis
    by (simp add: RollCallInRandom_rpc_def ListLessonStudentIDs_def tx_run sql_defs)
qed

theorem empty_roll_call_panics_witness:
  "fst (RollCallInRandom_rpc plain_env 5 7 (quiet 0 (created_world\<lparr>lesson_students := []\<rparr>)))
     = Inl (panicked ''invalid argument to Intn'')"
  by (rule empty_roll_call_panics
      [where x = "(hd (lessons created_world), Some \<lparr>UserID = 7, UserName = ''n'', Auth = ''Teacher''\<rparr>)"
        and t' = "created_world\<lparr>lesson_students := [], lesson_cache := [5 \<mapsto> (Cached (hd (lessons created_world)), 300)],
          perm_cache := [(5, 7) \<mapsto> 300]\<rparr>"])
    (simp_all add: requireTeacherOfLesson_def mustLesson_def ensureLessonExists_def ensure_exists_def getLessonCached_def
        get_cached_def load_row_def getUserInfo_def with_user_def tx_run sql_defs is_lesson_def created_world_def no_lessons_def)

end
