(* ===== verification/User_Service.thy ===== *)
theory User_Service
  imports Cached_Rows
begin

text \<open>
  The user service (src/internal/rpc/user/handler.go and dao/): accounts, passwords, and the lookup
  of a user by id behind a cache and a Bloom filter. Every SQL statement and Redis command is a
  statement of Sql_Tx. bcrypt is a parameter; VerifyPassword and HashPassword of
  src/internal/api/utils/password are the code around it.
\<close>

subsection \<open>State\<close>

record user =
  UserID :: int
  Username :: string
  PasswordHash :: string
  Auth :: string
  Status :: int

record user_world =
  users :: "user list"
  user_cache :: "int \<Rightarrow> (user cached \<times> int) option"     \<comment> \<open>user:info:<user>, with its deadline\<close>
  user_bloom :: blooms

text \<open>
  bcrypt hashes differently every time (the salt is the argument); compare says whether a hash is
  one of the password, or the error. translate_error is the option TranslateError of gorm, which
  turns a duplicate key into ErrDuplicatedKey.
\<close>

record user_env =
  bcrypt :: "int \<Rightarrow> string \<Rightarrow> goerr + string"
  bcrypt_compare :: "string \<Rightarrow> string \<Rightarrow> goerr option"
  bf_hit :: "int list \<Rightarrow> int \<Rightarrow> bool"
  Intn :: "int \<Rightarrow> int"
  translate_error :: bool

type_synonym 'a user_tx = "(user_world, 'a) tx"

abbreviation ErrUserNotExist :: goerr where
  "ErrUserNotExist \<equiv> Sentinel ''user not exist''"

abbreviation ErrDuplicatedKey :: goerr where
  "ErrDuplicatedKey \<equiv> Sentinel ''duplicated key not allowed''"

subsection \<open>Statements\<close>

definition is_user :: "int \<Rightarrow> user \<Rightarrow> bool" where
  "is_user uid u \<longleftrightarrow> UserID u = uid"

definition insertUser :: "user_env \<Rightarrow> user \<Rightarrow> (user_world, unit) sql" where
  [sql_defs]: "insertUser env u = (\<lambda>now t.
     if find (\<lambda>r. UserID r = UserID u \<or> Username r = Username u) (users t) \<noteq> None
     then (Inl (if translate_error env then ErrDuplicatedKey else MySQLError 1062 ''Duplicate entry''), t)
     else (Inr (), t\<lparr>users := users t @ [u]\<rparr>))"

definition firstUser :: "(user \<Rightarrow> bool) \<Rightarrow> (user_world, user) sql" where
  [sql_defs]: "firstUser P = (\<lambda>now t.
     (case find P (sort_key UserID (users t)) of None \<Rightarrow> Inl ErrRecordNotFound | Some u \<Rightarrow> Inr u, t))"

definition users_after :: "int \<Rightarrow> nat \<Rightarrow> (user_world, user list) sql" where
  [sql_defs]: "users_after cursor n = (\<lambda>now t.
     (Inr (take n (sort_key UserID (filter (\<lambda>u. cursor < UserID u) (users t)))), t))"

text \<open>The JSON of a user has no password hash.\<close>

definition redisGetUser :: "int \<Rightarrow> (user_world, user cached) sql" where
  [sql_defs]: "redisGetUser uid = (\<lambda>now t.
     (case user_cache t uid of Some (v, until) \<Rightarrow> if now < until then Inr v else Inl redis_nil | None \<Rightarrow> Inl redis_nil, t))"

definition redisSetUser :: "user \<Rightarrow> int \<Rightarrow> int \<Rightarrow> (user_world, unit) sql" where
  [sql_defs]: "redisSetUser u uid ttl = (\<lambda>now t.
     (Inr (), t\<lparr>user_cache := (user_cache t)(uid \<mapsto> (Cached (u\<lparr>PasswordHash := ''''\<rparr>), now + ttl))\<rparr>))"

definition redisDelUser :: "int \<Rightarrow> (user_world, unit) sql" where
  [sql_defs]: "redisDelUser uid = (\<lambda>now t. (Inr (), t\<lparr>user_cache := (user_cache t)(uid := None)\<rparr>))"

definition put_bloom :: "blooms \<Rightarrow> user_world \<Rightarrow> user_world" where
  "put_bloom b t = t\<lparr>user_bloom := b\<rparr>"

abbreviation run_bloom :: "bloom_cmd \<Rightarrow> (user_world, nat) sql" where
  "run_bloom \<equiv> bloom_sql user_bloom put_bloom"

definition bfExists :: "user_env \<Rightarrow> int \<Rightarrow> (user_world, bool) sql" where
  [sql_defs]: "bfExists env uid = (\<lambda>now t.
     (Inr (case user_bloom t BloomKey of None \<Rightarrow> False | Some ids \<Rightarrow> bf_hit env ids uid), t))"

subsection \<open>Passwords\<close>

definition HashPassword :: "user_env \<Rightarrow> int \<Rightarrow> string \<Rightarrow> goerr + string" where
  "HashPassword env salt plain =
     (if plain = '''' then Inl (ErrNew ''password is empty'')
      else case bcrypt env salt plain of Inl e \<Rightarrow> Inl e | Inr h \<Rightarrow> Inr h)"

definition VerifyPassword :: "user_env \<Rightarrow> string \<Rightarrow> string \<Rightarrow> goerr + bool" where
  "VerifyPassword env input hash =
     (if input = '''' \<or> hash = '''' then Inl (ErrNew ''input or hash is empty'')
      else case bcrypt_compare env hash input of Some e \<Rightarrow> Inl e | None \<Rightarrow> Inr True)"

subsection \<open>Data access\<close>

text \<open>CreateUser with the id of the snowflake node.\<close>

definition CreateUser :: "user_env \<Rightarrow> int \<Rightarrow> string \<Rightarrow> string \<Rightarrow> string \<Rightarrow> int \<Rightarrow> int user_tx" where
  "CreateUser env uid name hash auth status =
     tx_then (Transaction (stmt (insertUser env \<lparr>UserID = uid, Username = name, PasswordHash = hash, Auth = auth, Status = status\<rparr>)))
       (\<lambda>r. case r of
          Inl e \<Rightarrow> if err_is e ErrDuplicatedKey then tx_fail (ErrNew ''user already exists'') else tx_fail e
        | Inr _ \<Rightarrow> tx_return uid)"

definition SelectUser :: "int \<Rightarrow> user user_tx" where
  "SelectUser uid = stmt (firstUser (is_user uid))"

definition SelectUserByUsername :: "string \<Rightarrow> user user_tx" where
  "SelectUserByUsername name = stmt (firstUser (\<lambda>u. Username u = name))"

definition GetAllUserIDs :: "int list user_tx" where
  "GetAllUserIDs s =
     tx_bind (read_batches users_after UserID 300 (Suc (length (users (tables s)))) 0 [])
       (\<lambda>rows. tx_return (map UserID rows)) s"

subsection \<open>Handlers\<close>

definition getUserCached :: "user_env \<Rightarrow> int \<Rightarrow> user user_tx" where
  "getUserCached env uid =
     get_cached (redisGetUser uid) (redisDelUser uid) (firstUser (is_user uid)) (\<lambda>u. redisSetUser u uid (300 + Intn env 30))"

definition ensureUserExists :: "user_env \<Rightarrow> int \<Rightarrow> user user_tx" where
  "ensureUserExists env uid = ensure_exists ErrUserNotExist (bfExists env uid) (getUserCached env uid)"

text \<open>The user a reply carries.\<close>

record user_reply =
  ReUserID :: int
  ReUserName :: string
  ReAuth :: string
  ReStatus :: int

definition user_reply_of :: "user \<Rightarrow> user_reply" where
  "user_reply_of u = \<lparr>ReUserID = UserID u, ReUserName = Username u, ReAuth = Auth u, ReStatus = Status u\<rparr>"

definition Register :: "user_env \<Rightarrow> int \<Rightarrow> int \<Rightarrow> string \<Rightarrow> string \<Rightarrow> string \<Rightarrow> user_reply user_tx" where
  "Register env salt uid name plain auth =
     (if auth \<noteq> ''Teacher'' \<and> auth \<noteq> ''Student'' then tx_fail (ErrNew ''unknown auth'')
      else case HashPassword env salt plain of
        Inl e \<Rightarrow> tx_fail e
      | Inr hash \<Rightarrow>
          tx_bind (CreateUser env uid name hash auth 1) (\<lambda>sid.
          tx_then (stmt (redisDelUser sid)) (\<lambda>_.
          tx_bind (stmt (run_bloom (MAdd BloomKey [sid]))) (\<lambda>_.
          tx_return \<lparr>ReUserID = sid, ReUserName = name, ReAuth = auth, ReStatus = 1\<rparr>))))"

definition Login :: "user_env \<Rightarrow> string \<Rightarrow> string \<Rightarrow> user_reply user_tx" where
  "Login env name plain =
     tx_bind (SelectUserByUsername name) (\<lambda>u.
       case VerifyPassword env plain (PasswordHash u) of
         Inl e \<Rightarrow> tx_fail e
       | Inr ok \<Rightarrow> if \<not> ok then tx_fail (ErrNew ''wrong password'') else tx_return (user_reply_of u))"

definition GetUserInfo :: "user_env \<Rightarrow> int \<Rightarrow> user_reply user_tx" where
  "GetUserInfo env uid = tx_bind (ensureUserExists env uid) (\<lambda>u. tx_return (user_reply_of u))"

definition GetUserInfoByname :: "string \<Rightarrow> user_reply user_tx" where
  "GetUserInfoByname name = tx_bind (SelectUserByUsername name) (\<lambda>u. tx_return (user_reply_of u))"

subsection \<open>Accounts\<close>

text \<open>
  T says which account an id was given to; the ids come from the snowflake node, which never gives
  one twice. Stored and cached users agree with T, and ids and names are unique.
\<close>

definition accounts_ok :: "(int \<Rightarrow> user_reply option) \<Rightarrow> user_world \<Rightarrow> bool" where
  "accounts_ok T t \<longleftrightarrow> distinct (map UserID (users t)) \<and> distinct (map Username (users t)) \<and>
     (\<forall>u \<in> set (users t). 0 < UserID u \<and> T (UserID u) = Some (user_reply_of u)) \<and>
     (\<forall>uid u d. user_cache t uid = Some (Cached u, d) \<longrightarrow> T uid = Some (user_reply_of u))"

definition account_indexed :: "user \<Rightarrow> user_world \<Rightarrow> bool" where
  "account_indexed u t \<longleftrightarrow> u \<in> set (users t) \<and> (\<exists>ids. user_bloom t BloomKey = Some ids \<and> UserID u \<in> set ids)"

datatype user_req =
    ReqRegister int int string string string
  | ReqLogin string string
  | ReqInfo int
  | ReqInfoByName string
  | ReqRefresh

fun user_serve :: "user_env \<Rightarrow> user_req \<Rightarrow> unit user_tx" where
  "user_serve env (ReqRegister salt uid name plain auth) = tx_bind (Register env salt uid name plain auth) (\<lambda>_. tx_return ())"
| "user_serve env (ReqLogin name plain) = tx_bind (Login env name plain) (\<lambda>_. tx_return ())"
| "user_serve env (ReqInfo uid) = tx_bind (GetUserInfo env uid) (\<lambda>_. tx_return ())"
| "user_serve env (ReqInfoByName name) = tx_bind (GetUserInfoByname name) (\<lambda>_. tx_return ())"
| "user_serve env ReqRefresh = refreshBloom run_bloom GetAllUserIDs"

definition user_serves :: "user_env \<Rightarrow> user_req list \<Rightarrow> user_world tx_state \<Rightarrow> user_world tx_state" where
  "user_serves env qs s = fold (\<lambda>q s. snd (user_serve env q s)) qs s"

definition no_users :: user_world where
  "no_users = \<lparr>users = [], user_cache = Map.empty, user_bloom = no_blooms\<rparr>"

text \<open>What is kept: the accounts, and, once u is registered, u.\<close>

definition known_user :: "(int \<Rightarrow> user_reply option) \<Rightarrow> user option \<Rightarrow> user_world \<Rightarrow> bool" where
  "known_user T u t \<longleftrightarrow> accounts_ok T t \<and> (\<forall>x. u = Some x \<longrightarrow> account_indexed x t)"

lemma first_user: "find P (sort_key UserID us) = Some u \<Longrightarrow> u \<in> set us \<and> P u"
  by (metis find_Some_iff nth_mem set_sort)

lemma first_user_exists: "u \<in> set us \<Longrightarrow> P u \<Longrightarrow> \<exists>v. find P (sort_key UserID us) = Some v"
  by (cases "find P (sort_key UserID us)") (auto simp: find_None_iff)

definition user_present :: "user_env \<Rightarrow> int \<Rightarrow> user_world \<Rightarrow> bool" where
  "user_present env uid t \<longleftrightarrow> uid \<in> UserID ` set (users t) \<and>
     (case user_bloom t BloomKey of None \<Rightarrow> False | Some ids \<Rightarrow> bf_hit env ids uid)"

lemma reply_hash [simp]: "user_reply_of (u\<lparr>PasswordHash := h\<rparr>) = user_reply_of u"
  by (simp add: user_reply_of_def)

lemmas known_defs = known_user_def accounts_ok_def account_indexed_def

interpretation user_row: cached_row "known_user T u" "\<lambda>v. T uid = Some (user_reply_of v)"
    "user_present env uid" "bfExists env uid" "redisGetUser uid" "redisDelUser uid"
    "firstUser (is_user uid)" "\<lambda>v. redisSetUser v uid (300 + Intn env 30)"
  for T u uid env
proof (unfold_locales, goal_cases)
  case (5 t now v)
  then show ?case
    by (auto simp: sql_defs known_defs is_user_def split: option.splits dest!: first_user)
next
  case (9 t now)
  then obtain v where "find (is_user uid) (sort_key UserID (users t)) = Some v"
    using first_user_exists [of _ "users t" "is_user uid"] by (auto simp: user_present_def is_user_def)
  then show ?case by (simp add: sql_defs)
qed (auto simp: sql_defs known_defs user_present_def split: option.splits if_splits)

interpretation user_filter: bloom_state user_bloom put_bloom
  by unfold_locales (simp_all add: put_bloom_def)

lemma all_users_read:
  assumes "accounts_ok T t"
  shows "always GetAllUserIDs t (\<lambda>r t'. t' = t \<and> (\<forall>ids. r = Inr ids \<longrightarrow> ids = map UserID (sort_key UserID (users t))))"
proof -
  have "always (read_batches users_after UserID 300 (Suc (length (users t))) 0 []) t
      (\<lambda>r t'. t' = t \<and> r \<noteq> Inl out_of_fuel \<and> (\<forall>ys. r = Inr ys \<longrightarrow> ys = sort_key UserID (users t)))"
    by (rule read_all_batches) (use assms in \<open>auto simp: users_after_def filter_sort accounts_ok_def\<close>)
  then have "always (tx_bind (read_batches users_after UserID 300 (Suc (length (users t))) 0 [])
      (\<lambda>rows. tx_return (map UserID rows))) t (\<lambda>r t'. t' = t \<and>
        (\<forall>ids. r = Inr ids \<longrightarrow> ids = map UserID (sort_key UserID (users t))))"
    by (rule always_bind) (auto simp: always_simps)
  then show ?thesis by (simp add: always_def GetAllUserIDs_def)
qed

lemma refresh_known: "keeps (known_user T u) (refreshBloom run_bloom GetAllUserIDs)"
  unfolding yields_def refreshBloom_def
proof (intro allI impI always_then)
  fix t assume i: "known_user T u t"
  have wr: "always (refresh_write run_bloom (map UserID (sort_key UserID (users t)))) t
      (\<lambda>r t'. known_user T u t' \<and> (\<forall>x. r = Inr x \<longrightarrow> True))"
    by (rule always_mono [OF user_filter.refresh_write_effect]) (use i in \<open>auto simp: known_defs put_bloom_def\<close>)
  have "always GetAllUserIDs t (\<lambda>r t'. t' = t \<and> (\<forall>ids. r = Inr ids \<longrightarrow> ids = map UserID (sort_key UserID (users t))))"
    using i by (auto simp: known_user_def intro: all_users_read)
  then show "always GetAllUserIDs t (\<lambda>r t'. always (case r of Inl _ \<Rightarrow> tx_return () | Inr ids \<Rightarrow> refresh_write run_bloom ids) t'
      (\<lambda>r t'. known_user T u t' \<and> (\<forall>x. r = Inr x \<longrightarrow> True)))"
    by (elim always_mono) (use i wr in \<open>auto simp: always_simps split: sum.splits\<close>)
qed

lemma Register_keeps:
  assumes "0 < uid" and "T uid = Some \<lparr>ReUserID = uid, ReUserName = name, ReAuth = auth, ReStatus = 1\<rparr>"
  shows "keeps (known_user T u) (Register env salt uid name plain auth)"
proof -
  have "keeps (known_user T u) (stmt (insertUser env \<lparr>UserID = uid, Username = name, PasswordHash = hash, Auth = auth, Status = 1\<rparr>))" for hash
    by (rule keeps_stmt) (use assms in \<open>auto simp: sql_defs known_defs user_reply_of_def find_None_iff\<close>)
  moreover have "keeps (known_user T u) (stmt (redisDelUser uid))" for uid
    by (rule keeps_stmt) (auto simp: sql_defs known_defs)
  moreover have "keeps (known_user T u) (stmt (run_bloom (MAdd BloomKey ids)))" for ids
    by (rule keeps_stmt) (auto simp: bloom_sql_def put_bloom_def known_defs added_def)
  ultimately show ?thesis
    unfolding Register_def CreateUser_def by (intro keeps_rules)
qed

lemma user_serve_keeps:
  assumes "\<And>salt uid name plain auth. q = ReqRegister salt uid name plain auth \<Longrightarrow>
      0 < uid \<and> T uid = Some \<lparr>ReUserID = uid, ReUserName = name, ReAuth = auth, ReStatus = 1\<rparr>"
  shows "keeps (known_user T u) (user_serve env q)"
proof (cases q)
  case (ReqRegister salt uid name plain auth)
  with assms show ?thesis by (auto intro!: keeps_bind Register_keeps keeps_return)
next
  case (ReqInfo uid)
  then show ?thesis
    by (auto simp: GetUserInfo_def ensureUserExists_def getUserCached_def
        intro!: keeps_bind keeps_return keeps_yields [OF user_row.ensure_yields])
next
  case ReqRefresh
  then show ?thesis using refresh_known by simp
next
  case (ReqLogin name plain)
  have "keeps (known_user T u) (stmt (firstUser P))" for P by (rule keeps_stmt) (simp add: sql_defs)
  with ReqLogin show ?thesis unfolding ReqLogin user_serve.simps Login_def SelectUserByUsername_def
    by (intro keeps_rules)
next
  case (ReqInfoByName name)
  have "keeps (known_user T u) (stmt (firstUser P))" for P by (rule keeps_stmt) (simp add: sql_defs)
  then show ?thesis unfolding ReqInfoByName user_serve.simps GetUserInfoByname_def SelectUserByUsername_def
    by (intro keeps_rules)
qed

definition registered :: "int \<Rightarrow> string \<Rightarrow> string \<Rightarrow> string \<Rightarrow> user" where
  "registered uid name hash auth = \<lparr>UserID = uid, Username = name, PasswordHash = hash, Auth = auth, Status = 1\<rparr>"

lemma Register_effect:
  assumes "accounts_ok T t" and "0 < uid"
    and "T uid = Some \<lparr>ReUserID = uid, ReUserName = name, ReAuth = auth, ReStatus = 1\<rparr>"
  shows "always (Register env salt uid name plain auth) t (\<lambda>r t'. \<forall>x. r = Inr x \<longrightarrow>
    (\<exists>h. HashPassword env salt plain = Inr h \<and> x = user_reply_of (registered uid name h auth) \<and>
       known_user T (Some (registered uid name h auth)) t'))"
proof -
  have c: "always (CreateUser env uid name h auth 1) t (\<lambda>r t'. \<forall>x. r = Inr x \<longrightarrow> x = uid \<and>
      accounts_ok T t' \<and> registered uid name h auth \<in> set (users t'))" for h
  proof -
    let ?u = "\<lparr>UserID = uid, Username = name, PasswordHash = h, Auth = auth, Status = 1\<rparr>"
    have "always (Transaction (stmt (insertUser env ?u))) t
        (\<lambda>r t'. \<forall>x. r = Inr x \<longrightarrow> accounts_ok T t' \<and> registered uid name h auth \<in> set (users t'))"
      by (rule always_Transaction)
        (use assms in \<open>auto simp: always_simps sql_defs accounts_ok_def registered_def user_reply_of_def find_None_iff\<close>)
    then show ?thesis
      unfolding CreateUser_def
      by (rule always_then [OF always_mono]) (auto simp: always_simps split: sum.splits)
  qed
  have "always (tx_bind (CreateUser env uid name h auth 1) (\<lambda>sid.
          tx_then (stmt (redisDelUser sid)) (\<lambda>_.
          tx_bind (stmt (run_bloom (MAdd BloomKey [sid]))) (\<lambda>_.
          tx_return \<lparr>ReUserID = sid, ReUserName = name, ReAuth = auth, ReStatus = 1\<rparr>)))) t
      (\<lambda>r t'. \<forall>x. r = Inr x \<longrightarrow> x = user_reply_of (registered uid name h auth) \<and>
         known_user T (Some (registered uid name h auth)) t')" for h
    by (rule always_bind [OF c])
      (auto simp: always_simps sql_defs put_bloom_def known_defs added_def registered_def user_reply_of_def split: option.splits)
  then show ?thesis
    by (auto simp: Register_def always_simps split: sum.splits elim!: always_mono)
qed

subsection \<open>Logging in and looking up\<close>

text \<open>
  bcrypt, for passwords up to its 72 bytes: a hash of a password matches this password and no
  other, and is not empty.
\<close>

definition bcrypt_ok :: "user_env \<Rightarrow> bool" where
  "bcrypt_ok env \<longleftrightarrow> (\<forall>salt p h. bcrypt env salt p = Inr h \<longrightarrow>
     h \<noteq> '''' \<and> (\<forall>q. length q \<le> 72 \<longrightarrow> (bcrypt_compare env h q = None) = (q = p)))"

definition created_for :: "(int \<Rightarrow> user_reply option) \<Rightarrow> user_req list \<Rightarrow> bool" where
  "created_for T qs \<longleftrightarrow> (\<forall>salt uid name plain auth. ReqRegister salt uid name plain auth \<in> set qs \<longrightarrow>
     0 < uid \<and> T uid = Some \<lparr>ReUserID = uid, ReUserName = name, ReAuth = auth, ReStatus = 1\<rparr>)"

lemma user_serves_keeps:
  assumes "created_for T qs" and "known_user T u (tables s)"
  shows "known_user T u (tables (user_serves env qs s))"
  unfolding user_serves_def
proof (rule keeps_fold)
  fix q assume "q \<in> set qs"
  then show "keeps (known_user T u) (user_serve env q)"
    using assms(1) unfolding created_for_def by (intro user_serve_keeps) blast
qed (rule assms(2))

lemma select_by_name:
  assumes "known_user T (Some u) t"
  shows "always (SelectUserByUsername (Username u)) t (\<lambda>r t'. r = Inr u \<or> (\<exists>d. r = Inl (drv d)))"
proof -
  have u: "u \<in> set (users t)" using assms by (simp add: known_defs)
  obtain v where v: "find (\<lambda>x. Username x = Username u) (sort_key UserID (users t)) = Some v"
    using first_user_exists [OF u, of "\<lambda>x. Username x = Username u"] by blast
  then have "v \<in> set (users t)" "Username v = Username u" using first_user by blast+
  then have "v = u" using assms u by (auto simp: known_defs distinct_map inj_on_def)
  with v show ?thesis by (auto simp: SelectUserByUsername_def always_simps sql_defs)
qed


text \<open>
  (functional). Looking up a registered user by id answers this user: after a successful
  registration and any further requests and refreshes of the Bloom filter, GetUserInfo answers the
  registered account, or fails with an error of MySQL or Redis; it never says that the user does not
  exist, and never answers another account.
\<close>

theorem registered_user_is_found:
  assumes "\<forall>ids. \<forall>i \<in> set ids. bf_hit env ids i" and "accounts_ok T (tables s)"
    and "created_for T (ReqRegister salt uid name plain auth # qs)"
    and "Register env salt uid name plain auth s = (Inr r, s')"
  shows "case fst (GetUserInfo env uid (user_serves env qs s')) of Inr x \<Rightarrow> x = r | Inl e \<Rightarrow> (\<exists>d. e = drv d)"
proof -
  have T: "0 < uid" "T uid = Some \<lparr>ReUserID = uid, ReUserName = name, ReAuth = auth, ReStatus = 1\<rparr>" "created_for T qs"
    using assms(3) by (auto simp: created_for_def)
  obtain h where h: "r = user_reply_of (registered uid name h auth)"
    "known_user T (Some (registered uid name h auth)) (tables s')"
    using alwaysD [OF Register_effect [OF assms(2) T(1,2)] assms(4)] by auto
  let ?t = "tables (user_serves env qs s')"
  have k: "known_user T (Some (registered uid name h auth)) ?t" by (rule user_serves_keeps [OF T(3) h(2)])
  then have p: "user_present env uid ?t"
    using assms(1) by (force simp: known_defs user_present_def registered_def)
  have r: "T uid = Some r" using T(2) h(1) by (simp add: user_reply_of_def registered_def)
  have "always (ensureUserExists env uid) ?t (\<lambda>x t'. \<forall>e. x = Inl e \<longrightarrow> (\<exists>d. e = drv d))"
    unfolding ensureUserExists_def getUserCached_def by (rule always_mono [OF user_row.ensure_present [OF p]]) blast
  note errs = this
  have "always (ensureUserExists env uid) ?t (\<lambda>x t'. \<forall>v. x = Inr v \<longrightarrow> T uid = Some (user_reply_of v))"
  proof -
    have "yields (known_user T (Some (registered uid name h auth))) (ensureUserExists env uid) (\<lambda>v. T uid = Some (user_reply_of v))"
      unfolding ensureUserExists_def getUserCached_def by (rule user_row.ensure_yields)
    from this [unfolded yields_def, rule_format, OF k] show ?thesis by (rule always_mono) blast
  qed
  from always_conj [OF errs this] r have "always (ensureUserExists env uid) ?t (\<lambda>x t'.
      (\<forall>e. x = Inl e \<longrightarrow> (\<exists>d. e = drv d)) \<and> (\<forall>v. x = Inr v \<longrightarrow> user_reply_of v = r))"
    by (elim always_mono) auto
  then have "always (GetUserInfo env uid) ?t (\<lambda>x t'. case x of Inr x \<Rightarrow> x = r | Inl e \<Rightarrow> (\<exists>d. e = drv d))"
    unfolding GetUserInfo_def by (rule always_bind) (auto simp: always_simps)
  from alwaysD [OF this prod.collapse [symmetric]] show ?thesis .
qed

definition tiny_env :: user_env where
  "tiny_env = \<lparr>bcrypt = \<lambda>salt p. Inr (CHR ''h'' # p), bcrypt_compare = \<lambda>h q. if h = CHR ''h'' # q then None else Some (ErrNew ''mismatch''),
     bf_hit = \<lambda>ids i. i \<in> set ids, Intn = \<lambda>n. 0, translate_error = False\<rparr>"

definition one_user :: user_world where
  "one_user = \<lparr>users = [registered 7 ''ann'' ''hpw'' ''Student''], user_cache = Map.empty, user_bloom = no_blooms(BloomKey \<mapsto> [7])\<rparr>"

lemma Register_run:
  "Register tiny_env 0 7 ''ann'' ''pw'' ''Student'' (quiet 0 no_users) =
     (Inr (user_reply_of (registered 7 ''ann'' ''hpw'' ''Student'')), quiet 0 one_user)"
  by (simp add: Register_def CreateUser_def HashPassword_def tiny_env_def tx_run sql_defs no_users_def one_user_def
      put_bloom_def added_def no_blooms_def registered_def user_reply_of_def fun_upd_idem)

definition ann_ids :: "int \<Rightarrow> user_reply option" where
  "ann_ids = [7 \<mapsto> \<lparr>ReUserID = 7, ReUserName = ''ann'', ReAuth = ''Student'', ReStatus = 1\<rparr>]"

lemma ann_ok: "bcrypt_ok tiny_env" "accounts_ok ann_ids (tables (quiet 0 no_users))"
  "created_for ann_ids [ReqRegister 0 7 ''ann'' ''pw'' ''Student'', ReqRefresh]"
  "\<forall>ids. \<forall>i \<in> set ids. bf_hit tiny_env ids i"
  by (simp_all add: bcrypt_ok_def tiny_env_def accounts_ok_def no_users_def created_for_def ann_ids_def)


theorem registered_user_is_found_witness:
  "case fst (GetUserInfo tiny_env 7 (user_serves tiny_env [ReqRefresh] (quiet 0 one_user))) of
      Inr x \<Rightarrow> x = user_reply_of (registered 7 ''ann'' ''hpw'' ''Student'') | Inl e \<Rightarrow> (\<exists>d. e = drv d)"
  by (rule registered_user_is_found [OF ann_ok(4,2,3) Register_run])

end
