(* ===== verification/Quiz_Service.thy ===== *)
theory Quiz_Service
  imports Cached_Rows
begin

text \<open>
  The quiz service (src/internal/rpc/quiz/handler.go and dao/mysql.go): questions of a lesson, the
  answers of its students, and the checks of teacher and student with their permission caches. The
  user service and the lesson service are parameters: what GetUserInfo, GetLessonInfoById and
  IsStudentInLesson answer. Every SQL statement and Redis command is a statement of Sql_Tx. Texts
  that are not ASCII are given by sentinels.
\<close>

subsection \<open>State\<close>

record question =
  QID :: int
  QLesson :: int
  Content :: string
  Options :: "string list"
  Answer :: string
  TeacherID :: int
  CloseTime :: int

record answer =
  AQuestion :: int
  AUser :: int
  AAnswer :: string
  IsCorrect :: bool

record quiz_world =
  questions :: "question list"
  answers :: "answer list"
  next_question :: int
  question_cache :: "int \<Rightarrow> (question cached \<times> int) option"   \<comment> \<open>quiz:question:<id>\<close>
  teacher_perm :: "int \<times> int \<Rightarrow> int option"                    \<comment> \<open>perm:teacher:<lesson>:<user>, value 1\<close>
  student_perm :: "int \<times> int \<Rightarrow> int option"                    \<comment> \<open>perm:stu:<lesson>:<user>, value 1\<close>
  published :: "(int \<times> (string \<times> nat) list) list"              \<comment> \<open>quiz:broadcast\<close>

text \<open>
  GetUserInfo and GetLessonInfoById give the UserID and the TeacherID of their replies (None is an
  empty reply); IsStudentInLesson the message of its reply.
\<close>

record quiz_env =
  GetUserInfo :: "int \<Rightarrow> goerr + int option"
  GetLessonInfo :: "int \<Rightarrow> goerr + int option"
  IsStudent :: "int \<Rightarrow> int \<Rightarrow> goerr + string option"
  Intn :: "int \<Rightarrow> int"

type_synonym 'a quiz_tx = "(quiz_world, 'a) tx"

abbreviation not_teacher :: goerr where
  "not_teacher \<equiv> Sentinel ''no permission: not the teacher of this lesson''"

abbreviation not_student :: goerr where
  "not_student \<equiv> Sentinel ''not a student of this lesson''"

abbreviation answered_already :: goerr where
  "answered_already \<equiv> Sentinel ''question answered already''"

subsection \<open>Data access\<close>

definition is_question :: "int \<Rightarrow> question \<Rightarrow> bool" where
  "is_question qid q \<longleftrightarrow> QID q = qid"

definition is_answer :: "int \<Rightarrow> int \<Rightarrow> answer \<Rightarrow> bool" where
  "is_answer qid uid a \<longleftrightarrow> AQuestion a = qid \<and> AUser a = uid"

definition insertQuestion :: "question \<Rightarrow> (quiz_world, question) sql" where
  [sql_defs]: "insertQuestion q = (\<lambda>now t.
     (Inr (q\<lparr>QID := next_question t\<rparr>),
      t\<lparr>questions := questions t @ [q\<lparr>QID := next_question t\<rparr>], next_question := next_question t + 1\<rparr>))"

definition firstQuestion :: "int \<Rightarrow> (quiz_world, question) sql" where
  [sql_defs]: "firstQuestion qid = (\<lambda>now t.
     (case find (is_question qid) (questions t) of None \<Rightarrow> Inl ErrRecordNotFound | Some q \<Rightarrow> Inr q, t))"

definition countAnswers :: "int \<Rightarrow> int \<Rightarrow> (quiz_world, nat) sql" where
  [sql_defs]: "countAnswers qid uid = (\<lambda>now t. (Inr (length (filter (is_answer qid uid) (answers t))), t))"

text \<open>The unique index idx_question_user.\<close>

definition insertAnswer :: "answer \<Rightarrow> (quiz_world, unit) sql" where
  [sql_defs]: "insertAnswer a = (\<lambda>now t.
     if find (is_answer (AQuestion a) (AUser a)) (answers t) \<noteq> None
     then (Inl (MySQLError 1062 ''Duplicate entry for key idx_question_user''), t)
     else (Inr (), t\<lparr>answers := answers t @ [a]\<rparr>))"

text \<open>SELECT answer, COUNT(*) ... GROUP BY answer, the groups in the order of their first rows.\<close>

definition tally :: "int \<Rightarrow> answer list \<Rightarrow> (string \<times> nat) list" where
  "tally qid as = (let xs = map AAnswer (filter (\<lambda>a. AQuestion a = qid) as) in
     map (\<lambda>x. (x, count_list xs x)) (rev (remdups (rev xs))))"

definition groupAnswers :: "int \<Rightarrow> (quiz_world, (string \<times> nat) list) sql" where
  [sql_defs]: "groupAnswers qid = (\<lambda>now t. (Inr (tally qid (answers t)), t))"

definition deleteAnswers :: "int \<Rightarrow> (quiz_world, unit) sql" where
  [sql_defs]: "deleteAnswers qid = (\<lambda>now t. (Inr (), t\<lparr>answers := filter (\<lambda>a. AQuestion a \<noteq> qid) (answers t)\<rparr>))"

definition deleteQuestion :: "int \<Rightarrow> (quiz_world, unit) sql" where
  [sql_defs]: "deleteQuestion qid = (\<lambda>now t. (Inr (), t\<lparr>questions := filter (\<lambda>q. QID q \<noteq> qid) (questions t)\<rparr>))"

definition questionsOf :: "int \<Rightarrow> (quiz_world, question list) sql" where
  [sql_defs]: "questionsOf lid = (\<lambda>now t.
     (Inr (rev (sort_key QID (filter (\<lambda>q. QLesson q = lid) (questions t)))), t))"

record create_question_req =
  cq_LessonId :: int
  cq_Userid :: int
  cq_Content :: string
  cq_Options :: "string list"
  cq_Answer :: string
  cq_Duration :: int

text \<open>Times are nanoseconds; the duration is multiplied in 64 bits.\<close>

definition CreateQuestion_db :: "create_question_req \<Rightarrow> int \<Rightarrow> question quiz_tx" where
  "CreateQuestion_db req now =
     stmt (insertQuestion \<lparr>QID = 0, QLesson = cq_LessonId req, Content = cq_Content req, Options = cq_Options req,
       Answer = cq_Answer req, TeacherID = cq_Userid req, CloseTime = now + wrap64 (cq_Duration req * 1000000000)\<rparr>)"

definition GetQuestion :: "int \<Rightarrow> question quiz_tx" where
  "GetQuestion qid = stmt (firstQuestion qid)"

definition HasAnswered :: "int \<Rightarrow> int \<Rightarrow> bool quiz_tx" where
  "HasAnswered qid uid = tx_bind (stmt (countAnswers qid uid)) (\<lambda>cnt. tx_return (0 < cnt))"

definition isDuplicateAnswerError :: "goerr option \<Rightarrow> bool" where
  "isDuplicateAnswerError err =
     (case err of
        None \<Rightarrow> False
      | Some e \<Rightarrow> sublist ''Duplicate entry'' (err_text e) \<or> sublist ''idx_question_user'' (err_text e) \<or>
          sublist ''SQLSTATE 23505'' (err_text e))"

definition CreateUserAnswer :: "question \<Rightarrow> int \<Rightarrow> string \<Rightarrow> unit quiz_tx" where
  "CreateUserAnswer q uid ans =
     tx_then (stmt (insertAnswer \<lparr>AQuestion = QID q, AUser = uid, AAnswer = ans, IsCorrect = (ans = Answer q)\<rparr>)) (\<lambda>r.
       if isDuplicateAnswerError (case r of Inl e \<Rightarrow> Some e | Inr _ \<Rightarrow> None) then tx_fail answered_already
       else case r of Inl e \<Rightarrow> tx_fail e | Inr _ \<Rightarrow> tx_return ())"

definition CountAnswersByQuestion :: "int \<Rightarrow> (string \<times> nat) list quiz_tx" where
  "CountAnswersByQuestion qid = stmt (groupAnswers qid)"

definition DelQuestionAndAnswer :: "int \<Rightarrow> unit quiz_tx" where
  "DelQuestionAndAnswer qid =
     Transaction (tx_bind (stmt (deleteAnswers qid)) (\<lambda>_. tx_bind (stmt (deleteQuestion qid)) (\<lambda>_. tx_return ())))"

definition GetQuestionByLesson :: "int \<Rightarrow> question list quiz_tx" where
  "GetQuestionByLesson lid = stmt (questionsOf lid)"

definition CheckCloseTime :: "int \<Rightarrow> int \<Rightarrow> unit quiz_tx" where
  "CheckCloseTime qid now =
     tx_bind (GetQuestion qid) (\<lambda>q. if CloseTime q < now then tx_fail (ErrNew ''close'') else tx_return ())"

subsection \<open>Redis commands\<close>

definition redisGetQuestion :: "int \<Rightarrow> (quiz_world, question cached) sql" where
  [sql_defs]: "redisGetQuestion qid = (\<lambda>now t.
     (case question_cache t qid of Some (v, until) \<Rightarrow> if now < until then Inr v else Inl redis_nil | None \<Rightarrow> Inl redis_nil, t))"

definition redisSetQuestion :: "question \<Rightarrow> int \<Rightarrow> int \<Rightarrow> (quiz_world, unit) sql" where
  [sql_defs]: "redisSetQuestion q qid ttl = (\<lambda>now t.
     (Inr (), t\<lparr>question_cache := (question_cache t)(qid \<mapsto> (Cached q, now + ttl))\<rparr>))"

definition redisDelQuestion :: "int \<Rightarrow> (quiz_world, unit) sql" where
  [sql_defs]: "redisDelQuestion qid = (\<lambda>now t. (Inr (), t\<lparr>question_cache := (question_cache t)(qid := None)\<rparr>))"

definition getPerm :: "(quiz_world \<Rightarrow> int \<times> int \<Rightarrow> int option) \<Rightarrow> int \<Rightarrow> int \<Rightarrow> (quiz_world, string) sql" where
  [sql_defs]: "getPerm perms lid uid = (\<lambda>now t.
     (case perms t (lid, uid) of Some until \<Rightarrow> if now < until then Inr ''1'' else Inl redis_nil | None \<Rightarrow> Inl redis_nil, t))"

definition setTeacherPerm :: "int \<Rightarrow> int \<Rightarrow> int \<Rightarrow> (quiz_world, unit) sql" where
  [sql_defs]: "setTeacherPerm lid uid ttl = (\<lambda>now t.
     (Inr (), t\<lparr>teacher_perm := (teacher_perm t)((lid, uid) \<mapsto> now + ttl)\<rparr>))"

definition setStudentPerm :: "int \<Rightarrow> int \<Rightarrow> int \<Rightarrow> (quiz_world, unit) sql" where
  [sql_defs]: "setStudentPerm lid uid ttl = (\<lambda>now t.
     (Inr (), t\<lparr>student_perm := (student_perm t)((lid, uid) \<mapsto> now + ttl)\<rparr>))"

definition publishStats :: "int \<Rightarrow> (string \<times> nat) list \<Rightarrow> (quiz_world, unit) sql" where
  [sql_defs]: "publishStats qid stats = (\<lambda>now t. (Inr (), t\<lparr>published := published t @ [(qid, stats)]\<rparr>))"

subsection \<open>Handlers\<close>

definition getUserInfo :: "quiz_env \<Rightarrow> int \<Rightarrow> int quiz_tx" where
  "getUserInfo env uid =
     (case GetUserInfo env uid of
        Inl e \<Rightarrow> tx_fail e
      | Inr None \<Rightarrow> tx_fail (ErrNew ''user service: empty userinfo'')
      | Inr (Some u) \<Rightarrow> tx_return u)"

definition getLessonInfo :: "quiz_env \<Rightarrow> int \<Rightarrow> int quiz_tx" where
  "getLessonInfo env lid =
     (case GetLessonInfo env lid of
        Inl e \<Rightarrow> tx_fail e
      | Inr None \<Rightarrow> tx_fail (ErrNew ''webrtc_live service: empty lessoninfo'')
      | Inr (Some l) \<Rightarrow> tx_return l)"

definition requireTeacherOfLesson :: "quiz_env \<Rightarrow> int \<Rightarrow> int \<Rightarrow> unit quiz_tx" where
  "requireTeacherOfLesson env lid uid =
     tx_then (stmt (getPerm teacher_perm lid uid)) (\<lambda>val.
       if val = Inr ''1'' then
         tx_bind (getUserInfo env uid) (\<lambda>u. tx_bind (getLessonInfo env lid) (\<lambda>teacher. tx_return ()))
       else
         tx_bind (getUserInfo env uid) (\<lambda>u.
         tx_bind (getLessonInfo env lid) (\<lambda>teacher.
           if teacher \<noteq> u then tx_fail not_teacher
           else tx_then (stmt (setTeacherPerm lid uid 300)) (\<lambda>_. tx_return ()))))"

definition requireStudentInLesson :: "quiz_env \<Rightarrow> int \<Rightarrow> int \<Rightarrow> unit quiz_tx" where
  "requireStudentInLesson env lid uid =
     tx_then (stmt (getPerm student_perm lid uid)) (\<lambda>val.
       if val = Inr ''1'' then tx_return ()
       else (case IsStudent env lid uid of
          Inl e \<Rightarrow> tx_fail e
        | Inr None \<Rightarrow> tx_fail (ErrNew ''webrtc_live service: empty student check'')
        | Inr (Some msg) \<Rightarrow>
            if msg \<noteq> ''exist'' then tx_fail not_student
            else tx_then (stmt (setStudentPerm lid uid 300)) (\<lambda>_. tx_return ())))"

definition getQuestionCached :: "quiz_env \<Rightarrow> int \<Rightarrow> question quiz_tx" where
  "getQuestionCached env qid =
     get_cached (redisGetQuestion qid) (redisDelQuestion qid) (firstQuestion qid)
       (\<lambda>q. redisSetQuestion q qid (300 + Intn env 30))"

definition CreateQuestion :: "quiz_env \<Rightarrow> create_question_req \<Rightarrow> int \<Rightarrow> int quiz_tx" where
  "CreateQuestion env req now =
     tx_bind (requireTeacherOfLesson env (cq_LessonId req) (cq_Userid req)) (\<lambda>_.
     tx_bind (CreateQuestion_db req now) (\<lambda>q.
     tx_then (stmt (redisDelQuestion (QID q))) (\<lambda>_.
     tx_return (QID q))))"

text \<open>
  The reply of TorFAnswer: the question is closed, or the question with its right answer and the
  counts so far. The counts are also published, in a goroutine whose failure is logged.
\<close>

datatype answer_reply = QuestionClosed | Answered int int string "(string \<times> nat) list"

definition TorFAnswer :: "quiz_env \<Rightarrow> int \<Rightarrow> int \<Rightarrow> string \<Rightarrow> int \<Rightarrow> answer_reply quiz_tx" where
  "TorFAnswer env qid uid ans now =
     tx_bind (getQuestionCached env qid) (\<lambda>q.
     tx_bind (requireStudentInLesson env (QLesson q) uid) (\<lambda>_.
     tx_then (CheckCloseTime qid now) (\<lambda>closed.
       case closed of
         Inl e \<Rightarrow> if err_text e = ''close'' then tx_return QuestionClosed else tx_fail e
       | Inr _ \<Rightarrow>
           tx_bind (HasAnswered qid uid) (\<lambda>ex.
             if ex then tx_fail answered_already
             else
               tx_bind (CreateUserAnswer q uid ans) (\<lambda>_.
               tx_bind (CountAnswersByQuestion qid) (\<lambda>stats.
               tx_then (stmt (publishStats (QID q) stats)) (\<lambda>_.
               tx_return (Answered (QID q) (TeacherID q) (Answer q) stats))))))))"

definition DelQuestion :: "quiz_env \<Rightarrow> int \<Rightarrow> int \<Rightarrow> unit quiz_tx" where
  "DelQuestion env qid uid =
     tx_bind (getQuestionCached env qid) (\<lambda>q.
     tx_bind (requireTeacherOfLesson env (QLesson q) uid) (\<lambda>_.
     tx_bind (DelQuestionAndAnswer qid) (\<lambda>_.
     tx_then (stmt (redisDelQuestion qid)) (\<lambda>_.
     tx_return ()))))"

text \<open>
  The list of a lesson's questions, newest first, each with id, content, options and right answer
  (the sources put them into one text); None for who is not a student of the lesson.
\<close>

definition GetAllLessonQuiz :: "quiz_env \<Rightarrow> int \<Rightarrow> int \<Rightarrow> (int \<times> string \<times> string \<times> string) list option quiz_tx" where
  "GetAllLessonQuiz env lid uid =
     tx_then (requireStudentInLesson env lid uid) (\<lambda>r.
       case r of
         Inl _ \<Rightarrow> tx_return None
       | Inr _ \<Rightarrow>
           tx_bind (GetQuestionByLesson lid) (\<lambda>qs.
             tx_return (Some (map (\<lambda>q. (QID q, Content q, concat (map (\<lambda>opt. opt @ ''|'') (Options q)), Answer q)) qs))))"

subsection \<open>Questions and their answers stay consistent\<close>

text \<open>
  Question ids are unique and were given out; a cached question is the stored one, where it is still
  stored; a user answers a question at most once; every answer belongs to a stored question and is
  marked by this question's right answer.
\<close>

definition cache_fits :: "question list \<Rightarrow> int \<Rightarrow> int \<Rightarrow> question \<Rightarrow> bool" where
  "cache_fits qs n qid v \<longleftrightarrow> QID v = qid \<and> qid < n \<and> (\<forall>q \<in> set qs. QID q = qid \<longrightarrow> q = v)"

definition marked :: "question list \<Rightarrow> answer \<Rightarrow> bool" where
  "marked qs a \<longleftrightarrow> (\<exists>q \<in> set qs. QID q = AQuestion a \<and> IsCorrect a = (AAnswer a = Answer q))"

definition quiz_ok :: "quiz_world \<Rightarrow> bool" where
  "quiz_ok t \<longleftrightarrow>
     distinct (map QID (questions t)) \<and> (\<forall>q \<in> set (questions t). QID q < next_question t) \<and>
     (\<forall>qid v d. question_cache t qid = Some (Cached v, d) \<longrightarrow> cache_fits (questions t) (next_question t) qid v) \<and>
     distinct (map (\<lambda>a. (AQuestion a, AUser a)) (answers t)) \<and>
     (\<forall>a \<in> set (answers t). marked (questions t) a)"

text \<open>
  The invariant while questions and answers stand still, with the students S and the teachers T that
  a cached permission may name.
\<close>

definition quiz_on ::
    "question list \<Rightarrow> int \<Rightarrow> answer list \<Rightarrow> (int \<times> int) set \<Rightarrow> (int \<times> int) set \<Rightarrow> quiz_world \<Rightarrow> bool" where
  "quiz_on qs n as S T t \<longleftrightarrow> quiz_ok t \<and> questions t = qs \<and> next_question t = n \<and> answers t = as \<and>
     dom (student_perm t) \<subseteq> S \<and> dom (teacher_perm t) \<subseteq> T"

text \<open>Who the other services confirm as a student, or as the teacher, of a lesson.\<close>

definition confirmed_student :: "quiz_env \<Rightarrow> int \<Rightarrow> int \<Rightarrow> bool" where
  "confirmed_student env lid uid \<longleftrightarrow> IsStudent env lid uid = Inr (Some ''exist'')"

definition confirmed_teacher :: "quiz_env \<Rightarrow> int \<Rightarrow> int \<Rightarrow> bool" where
  "confirmed_teacher env lid uid \<longleftrightarrow> (\<exists>u. GetUserInfo env uid = Inr (Some u) \<and> GetLessonInfo env lid = Inr (Some u))"

definition student_passes :: "quiz_env \<Rightarrow> quiz_world \<Rightarrow> int \<Rightarrow> int \<Rightarrow> bool" where
  "student_passes env t lid uid \<longleftrightarrow> student_perm t (lid, uid) \<noteq> None \<or> confirmed_student env lid uid"

definition teacher_passes :: "quiz_env \<Rightarrow> quiz_world \<Rightarrow> int \<Rightarrow> int \<Rightarrow> bool" where
  "teacher_passes env t lid uid \<longleftrightarrow> teacher_perm t (lid, uid) \<noteq> None \<or> confirmed_teacher env lid uid"

datatype quiz_req =
    ReqCreate create_question_req int
  | ReqAnswer int int string int
  | ReqDelete int int
  | ReqList int int

fun quiz_serve :: "quiz_env \<Rightarrow> quiz_req \<Rightarrow> unit quiz_tx" where
  "quiz_serve env (ReqCreate req now) = tx_bind (CreateQuestion env req now) (\<lambda>_. tx_return ())"
| "quiz_serve env (ReqAnswer qid uid ans now) = tx_bind (TorFAnswer env qid uid ans now) (\<lambda>_. tx_return ())"
| "quiz_serve env (ReqDelete qid uid) = tx_bind (DelQuestion env qid uid) (\<lambda>_. tx_return ())"
| "quiz_serve env (ReqList lid uid) = tx_bind (GetAllLessonQuiz env lid uid) (\<lambda>_. tx_return ())"

text \<open>Requests, each with what the other services answer while it runs, from the empty tables.\<close>

definition quiz_serves :: "(quiz_env \<times> quiz_req) list \<Rightarrow> quiz_world tx_state \<Rightarrow> quiz_world tx_state" where
  "quiz_serves rs s = fold (\<lambda>r s. snd (quiz_serve (fst r) (snd r) s)) rs s"

definition no_quiz :: quiz_world where
  "no_quiz = \<lparr>questions = [], answers = [], next_question = 1, question_cache = Map.empty, teacher_perm = Map.empty,
     student_perm = Map.empty, published = []\<rparr>"

definition quiz_run :: "(quiz_env \<times> quiz_req) list \<Rightarrow> (nat \<Rightarrow> db_event) \<Rightarrow> quiz_world tx_state" where
  "quiz_run rs p = quiz_serves rs \<lparr>tables = no_quiz, plan = p\<rparr>"

lemma quiz_on_cache: "quiz_on qs n as S T t \<Longrightarrow> question_cache t i = Some (Cached v, d) \<Longrightarrow> cache_fits qs n i v"
  by (auto simp: quiz_on_def quiz_ok_def)

lemma quiz_on_ok: "quiz_on qs n as S T t \<and> P \<Longrightarrow> quiz_ok t"
  by (simp add: quiz_on_def)

lemma quiz_on_stored:
  assumes "quiz_on qs n as S T t" and "find (is_question qid) qs = Some v"
  shows "cache_fits qs n qid v"
proof -
  have "v \<in> set qs" "QID v = qid" using assms(2) by (auto simp: find_Some_iff is_question_def)
  with assms(1) show ?thesis by (auto simp: quiz_on_def quiz_ok_def cache_fits_def distinct_map dest: inj_onD [of QID])
qed

interpretation question_row: cached_row "quiz_on qs n as S T" "cache_fits qs n qid" "\<lambda>t. qid \<in> QID ` set (questions t)"
    "\<lambda>now t. (Inr True, t)" "redisGetQuestion qid" "redisDelQuestion qid" "firstQuestion qid"
    "\<lambda>q. redisSetQuestion q qid (300 + Intn env 30)"
  for qs n as S T qid env
proof (unfold_locales, goal_cases)
  case (4 t now v)
  then show ?case by (auto simp: sql_defs split: option.splits if_splits dest: quiz_on_cache)
next
  case (5 t now v)
  then show ?case by (auto simp: sql_defs quiz_on_def split: option.splits dest: quiz_on_stored [rotated])
next
  case (6 t now)
  then show ?case by (auto simp: sql_defs quiz_on_def quiz_ok_def)
next
  case (7 t v now)
  then show ?case by (auto simp: sql_defs quiz_on_def quiz_ok_def)
next
  case (9 t now)
  then show ?case
    by (auto simp: sql_defs is_question_def find_None_iff split: option.splits)
qed (auto simp: sql_defs split: option.splits if_splits)

lemma question_keeps: "yields (quiz_on qs n as S T) (getQuestionCached env qid) (cache_fits qs n qid)"
  unfolding getQuestionCached_def by (rule question_row.cached_yields)

lemma quiz_on_stmts:
  "keeps (quiz_on qs n as S T) (stmt (getPerm f lid uid))"
  "keeps (quiz_on qs n as S T) (stmt (publishStats qid stats))"
  "keeps (quiz_on qs n as S T) (stmt (redisDelQuestion qid))"
  "keeps (quiz_on qs n as S T) (stmt (groupAnswers qid))"
  "keeps (quiz_on qs n as S T) (stmt (questionsOf lid))"
  "(lid, uid) \<in> S \<Longrightarrow> keeps (quiz_on qs n as S T) (stmt (setStudentPerm lid uid ttl))"
  "(lid, uid) \<in> T \<Longrightarrow> keeps (quiz_on qs n as S T) (stmt (setTeacherPerm lid uid ttl))"
  by (rule keeps_stmt, auto simp: sql_defs quiz_on_def quiz_ok_def Let_def)+

lemmas quiz_keeps = keeps_rules quiz_on_stmts

lemma perm_yields:
  assumes "\<And>t. quiz_on qs n as S T t \<Longrightarrow> dom (f t) \<subseteq> X"
  shows "yields (quiz_on qs n as S T) (stmt (getPerm f lid uid)) (\<lambda>_. (lid, uid) \<in> X)"
  by (rule yields_stmt_parts) (use assms in \<open>auto simp: sql_defs split: option.splits if_splits\<close>)

lemma teacher_check_yields:
  assumes "confirmed_teacher env lid uid \<Longrightarrow> (lid, uid) \<in> T"
  shows "yields (quiz_on qs n as S T) (requireTeacherOfLesson env lid uid) (\<lambda>_. (lid, uid) \<in> T)"
  unfolding requireTeacherOfLesson_def
proof (rule yields_then [OF perm_yields [of _ _ _ _ _ teacher_perm T]])
  fix r :: "goerr + string" assume r: "\<And>x. r = Inr x \<Longrightarrow> (lid, uid) \<in> T"
  have u: "yields (quiz_on qs n as S T) (getUserInfo env uid) (\<lambda>u. GetUserInfo env uid = Inr (Some u))"
    unfolding getUserInfo_def by (auto intro!: yields_rules)
  have l: "yields (quiz_on qs n as S T) (getLessonInfo env lid) (\<lambda>u. GetLessonInfo env lid = Inr (Some u))"
    unfolding getLessonInfo_def by (auto intro!: yields_rules)
  have "yields (quiz_on qs n as S T) (tx_then (stmt (setTeacherPerm lid uid 300)) (\<lambda>_. tx_return ())) (\<lambda>_. (lid, uid) \<in> T)"
    if "(lid, uid) \<in> T" using that by (auto intro!: yields_then [OF quiz_on_stmts(7)] yields_return)
  then show "yields (quiz_on qs n as S T)
      (if r = Inr ''1'' then tx_bind (getUserInfo env uid) (\<lambda>u. tx_bind (getLessonInfo env lid) (\<lambda>teacher. tx_return ()))
       else tx_bind (getUserInfo env uid) (\<lambda>u. tx_bind (getLessonInfo env lid) (\<lambda>teacher.
           if teacher \<noteq> u then tx_fail not_teacher
           else tx_then (stmt (setTeacherPerm lid uid 300)) (\<lambda>_. tx_return ())))) (\<lambda>_. (lid, uid) \<in> T)"
    using assms r
    by (auto simp: confirmed_teacher_def intro!: yields_if yields_bind [OF u] yields_bind [OF l] yields_return yields_fail)
qed (simp add: quiz_on_def)

lemma student_check_yields:
  assumes "confirmed_student env lid uid \<Longrightarrow> (lid, uid) \<in> S"
  shows "yields (quiz_on qs n as S T) (requireStudentInLesson env lid uid) (\<lambda>_. (lid, uid) \<in> S)"
  unfolding requireStudentInLesson_def
proof (rule yields_then [OF perm_yields [of _ _ _ _ _ student_perm S]])
  fix r :: "goerr + string" assume r: "\<And>x. r = Inr x \<Longrightarrow> (lid, uid) \<in> S"
  have "yields (quiz_on qs n as S T) (tx_then (stmt (setStudentPerm lid uid 300)) (\<lambda>_. tx_return ())) (\<lambda>_. (lid, uid) \<in> S)"
    if "(lid, uid) \<in> S" using that by (auto intro!: yields_then [OF quiz_on_stmts(6)] yields_return)
  then show "yields (quiz_on qs n as S T)
      (if r = Inr ''1'' then tx_return ()
       else (case IsStudent env lid uid of
          Inl e \<Rightarrow> tx_fail e
        | Inr None \<Rightarrow> tx_fail (ErrNew ''webrtc_live service: empty student check'')
        | Inr (Some msg) \<Rightarrow>
            if msg \<noteq> ''exist'' then tx_fail not_student
            else tx_then (stmt (setStudentPerm lid uid 300)) (\<lambda>_. tx_return ()))) (\<lambda>_. (lid, uid) \<in> S)"
    using assms r by (auto simp: confirmed_student_def intro!: yields_rules)
qed (simp add: quiz_on_def)

lemma close_check_yields:
  "yields (quiz_on qs n as S T) (CheckCloseTime qid now) (\<lambda>_. \<exists>q \<in> set qs. QID q = qid \<and> now \<le> CloseTime q)"
  unfolding CheckCloseTime_def GetQuestion_def
proof (rule yields_bind)
  show "yields (quiz_on qs n as S T) (stmt (firstQuestion qid)) (\<lambda>q. q \<in> set qs \<and> QID q = qid)"
    by (rule yields_stmt_parts)
      (auto simp: sql_defs quiz_on_def is_question_def find_Some_iff split: option.splits)
qed (auto intro!: yields_rules)

text \<open>What answering does: nothing, or one answer of one who may answer an open question.\<close>

definition recorded :: "question \<Rightarrow> int \<Rightarrow> string \<Rightarrow> answer" where
  "recorded q uid ans = \<lparr>AQuestion = QID q, AUser = uid, AAnswer = ans, IsCorrect = (ans = Answer q)\<rparr>"

definition takes_answer :: "quiz_env \<Rightarrow> quiz_world \<Rightarrow> int \<Rightarrow> int \<Rightarrow> int \<Rightarrow> question \<Rightarrow> bool" where
  "takes_answer env t qid uid now q \<longleftrightarrow> q \<in> set (questions t) \<and> QID q = qid \<and> now \<le> CloseTime q \<and>
     student_passes env t (QLesson q) uid \<and> find (is_answer qid uid) (answers t) = None"

definition answer_outcome ::
    "(question \<Rightarrow> bool) \<Rightarrow> answer list \<Rightarrow> int \<Rightarrow> string \<Rightarrow> goerr + answer_reply \<Rightarrow> answer list \<Rightarrow> bool" where
  "answer_outcome ok as uid ans r as' \<longleftrightarrow>
     (case r of
        Inr (Answered i teacher right stats) \<Rightarrow>
          (\<exists>q. ok q \<and> as' = as @ [recorded q uid ans] \<and> i = QID q \<and> teacher = TeacherID q \<and> right = Answer q \<and>
             stats = tally (QID q) as')
      | Inr QuestionClosed \<Rightarrow> as' = as
      | Inl _ \<Rightarrow> as' = as \<or> (\<exists>q. ok q \<and> as' = as @ [recorded q uid ans]))"

lemma filter_none: "(filter P xs = []) = (find P xs = None)"
  by (auto simp: find_None_iff filter_empty_conv)

lemma has_answered_yields:
  "yields (quiz_on qs n as S T) (HasAnswered qid uid) (\<lambda>ex. ex \<or> find (is_answer qid uid) as = None)"
  unfolding HasAnswered_def
proof (rule yields_bind)
  show "yields (quiz_on qs n as S T) (stmt (countAnswers qid uid)) (\<lambda>k. k = length (filter (is_answer qid uid) as))"
    by (rule yields_stmt_parts) (auto simp: sql_defs quiz_on_def)
qed (auto simp: filter_none intro!: yields_return)

lemma create_answer_effect:
  assumes t: "quiz_on qs n as S T t" and q: "q \<in> set qs" and new: "find (is_answer (QID q) uid) as = None"
  shows "always (CreateUserAnswer q uid ans) t (\<lambda>r t'. quiz_ok t' \<and> (case r of
      Inl _ \<Rightarrow> answers t' = as | Inr _ \<Rightarrow> answers t' = as @ [recorded q uid ans]))"
proof -
  let ?t = "t\<lparr>answers := as @ [recorded q uid ans]\<rparr>"
  have "quiz_ok ?t"
    using t q new by (auto simp: quiz_on_def quiz_ok_def marked_def recorded_def find_None_iff is_answer_def)
  moreover have "quiz_ok t" "answers t = as" using t by (auto simp: quiz_on_def)
  ultimately show ?thesis
    using new
    by (auto simp: CreateUserAnswer_def always_simps sql_defs recorded_def isDuplicateAnswerError_def)
qed

lemma record_effect:
  assumes t: "quiz_on qs n as S T t" and q: "q \<in> set qs" and ok: "find (is_answer (QID q) uid) as = None \<Longrightarrow> ok q"
  shows "always (tx_bind (HasAnswered (QID q) uid) (\<lambda>ex.
             if ex then tx_fail answered_already
             else
               tx_bind (CreateUserAnswer q uid ans) (\<lambda>_.
               tx_bind (CountAnswersByQuestion (QID q)) (\<lambda>stats.
               tx_then (stmt (publishStats (QID q) stats)) (\<lambda>_.
               tx_return (Answered (QID q) (TeacherID q) (Answer q) stats)))))) t
     (\<lambda>r t'. quiz_ok t' \<and> answer_outcome ok as uid ans r (answers t'))"
proof (rule always_bind [OF has_answered_yields [unfolded yields_def, rule_format, OF t]], goal_cases)
  case (1 e t')
  then show ?case by (simp add: answer_outcome_def quiz_on_def)
next
  case (2 ex t')
  show ?case
  proof (cases ex)
    case True
    with 2 show ?thesis by (simp add: answer_outcome_def quiz_on_def always_simps)
  next
    case False
    with 2 have t': "quiz_on qs n as S T t'" and new: "find (is_answer (QID q) uid) as = None" by auto
    have "quiz_ok t'' \<Longrightarrow> quiz_ok (t''\<lparr>published := xs\<rparr>)" for t'' xs by (simp add: quiz_ok_def)
    with False ok [OF new] show ?thesis
      by (auto simp: answer_outcome_def CountAnswersByQuestion_def always_simps sql_defs
          intro!: always_bind [OF create_answer_effect [OF t' q new]])
  qed
qed

lemma answer_effect:
  assumes t: "quiz_on qs n as S T t" and S: "\<And>l. confirmed_student env l uid \<Longrightarrow> (l, uid) \<in> S"
  shows "always (TorFAnswer env qid uid ans now) t (\<lambda>r t'. quiz_ok t' \<and>
     answer_outcome (\<lambda>q. q \<in> set qs \<and> QID q = qid \<and> now \<le> CloseTime q \<and> (QLesson q, uid) \<in> S \<and>
       find (is_answer qid uid) as = None) as uid ans r (answers t'))"
    (is "always _ t ?Q")
  unfolding TorFAnswer_def
proof (rule always_bind [OF question_keeps [unfolded yields_def, rule_format, OF t]], goal_cases)
  case (1 e t')
  then show ?case by (simp add: answer_outcome_def quiz_on_def)
next
  case (2 q t1)
  then have t1: "quiz_on qs n as S T t1" and q: "cache_fits qs n qid q" by auto
  show ?case
  proof (rule always_bind [OF student_check_yields [unfolded yields_def, rule_format, OF _ t1]], goal_cases)
    case 1
    then show ?case using S by blast
  next
    case (2 e t')
    then show ?case by (simp add: answer_outcome_def quiz_on_def)
  next
    case (3 u t2)
    then have t2: "quiz_on qs n as S T t2" and l: "(QLesson q, uid) \<in> S" by auto
    show ?case
    proof (rule always_then, rule always_mono [OF close_check_yields [unfolded yields_def, rule_format, OF t2]], goal_cases)
      case (1 r t3)
      then have t3: "quiz_on qs n as S T t3" by simp
      show ?case
      proof (cases r)
        case (Inl e)
        with t3 show ?thesis by (auto simp: always_simps answer_outcome_def quiz_on_def)
      next
        case (Inr x)
        with 1 q have "q \<in> set qs" "QID q = qid" "now \<le> CloseTime q" by (auto simp: cache_fits_def)
        note qid = this(2) [symmetric]
        from \<open>q \<in> set qs\<close> \<open>now \<le> CloseTime q\<close> record_effect [OF t3 \<open>q \<in> set qs\<close>, of uid "\<lambda>q. q \<in> set qs \<and> QID q = qid \<and> now \<le> CloseTime q \<and>
            (QLesson q, uid) \<in> S \<and> find (is_answer qid uid) as = None"] l Inr
        show ?thesis unfolding qid by simp
      qed
    qed
  qed
qed

text \<open>Deleting and creating.\<close>

definition only_without :: "int \<Rightarrow> quiz_world \<Rightarrow> quiz_world \<Rightarrow> bool" where
  "only_without qid t t' \<longleftrightarrow> questions t' = filter (\<lambda>q. QID q \<noteq> qid) (questions t) \<and>
     answers t' = filter (\<lambda>a. AQuestion a \<noteq> qid) (answers t)"

lemma quiz_ok_without:
  assumes "quiz_ok t"
  shows "quiz_ok (t\<lparr>questions := filter (\<lambda>q. QID q \<noteq> qid) (questions t), answers := filter (\<lambda>a. AQuestion a \<noteq> qid) (answers t)\<rparr>)"
proof -
  have "distinct (map QID (filter P qs))" if "distinct (map QID qs)" for P qs using that by (simp add: distinct_map_filter)
  moreover have "distinct (map f (filter P as))" if "distinct (map f as)" for f :: "answer \<Rightarrow> int \<times> int" and P as
    using that by (simp add: distinct_map_filter)
  ultimately show ?thesis using assms by (auto simp: quiz_ok_def cache_fits_def marked_def) metis
qed

lemma delete_effect:
  assumes t: "quiz_on qs n as S T t" and T: "\<And>l. confirmed_teacher env l uid \<Longrightarrow> (l, uid) \<in> T"
  shows "always (DelQuestion env qid uid) t (\<lambda>r t'. quiz_ok t' \<and>
     (questions t' = qs \<and> answers t' = as \<or> only_without qid t t' \<and>
        (\<exists>l. (l, uid) \<in> T \<and> (\<forall>q \<in> set qs. QID q = qid \<longrightarrow> QLesson q = l))) \<and>
     (r = Inr () \<longrightarrow> only_without qid t t' \<and> (\<exists>l. (l, uid) \<in> T \<and> (\<forall>q \<in> set qs. QID q = qid \<longrightarrow> QLesson q = l))))"
    (is "always _ t ?Q")
  unfolding DelQuestion_def
proof (rule always_bind [OF question_keeps [unfolded yields_def, rule_format, OF t]], goal_cases)
  case (1 e t')
  then show ?case by (simp add: quiz_on_def)
next
  case (2 q t1)
  then have t1: "quiz_on qs n as S T t1" and q: "cache_fits qs n qid q" by auto
  show ?case
  proof (rule always_bind [OF teacher_check_yields [unfolded yields_def, rule_format, OF _ t1]], goal_cases)
    case 1
    then show ?case using T by blast
  next
    case (2 e t')
    then show ?case by (simp add: quiz_on_def)
  next
    case (3 u t2)
    let ?t = "t2\<lparr>questions := filter (\<lambda>q. QID q \<noteq> qid) (questions t2), answers := filter (\<lambda>a. AQuestion a \<noteq> qid) (answers t2)\<rparr>"
    from 3 have t2: "quiz_ok t2" "questions t2 = qs" "answers t2 = as" and l: "(QLesson q, uid) \<in> T"
      by (auto simp: quiz_on_def)
    have ts: "questions t = qs" "answers t = as" using t by (auto simp: quiz_on_def)
    have "always (DelQuestionAndAnswer qid) t2 (\<lambda>r t'. t' = ?t \<or> t' = t2 \<and> (\<exists>e. r = Inl e))"
      unfolding DelQuestionAndAnswer_def
      by (rule always_Transaction) (auto simp: always_simps sql_defs)
    moreover have "quiz_ok ?t" by (rule quiz_ok_without [OF t2(1)])
    moreover have "quiz_ok (?t\<lparr>question_cache := (question_cache t2)(qid := None)\<rparr>)"
      using \<open>quiz_ok ?t\<close> by (auto simp: quiz_ok_def)
    moreover have "only_without qid t ?t" using ts t2 by (simp add: only_without_def)
    moreover have "only_without qid t (?t\<lparr>question_cache := c\<rparr>)" for c using ts t2 by (simp add: only_without_def)
    moreover have "\<exists>l. (l, uid) \<in> T \<and> (\<forall>q \<in> set qs. QID q = qid \<longrightarrow> QLesson q = l)"
      using l q by (auto simp: cache_fits_def)
    ultimately show ?case
      using t2
      by (elim always_bind) (auto simp: always_simps sql_defs)
  qed
qed

lemma create_effect:
  assumes t: "quiz_on qs n as S T t"
    and T: "confirmed_teacher env (cq_LessonId req) (cq_Userid req) \<Longrightarrow> (cq_LessonId req, cq_Userid req) \<in> T"
  shows "always (CreateQuestion env req now) t (\<lambda>r t'. quiz_ok t' \<and> answers t' = as \<and>
     (questions t' = qs \<or> (cq_LessonId req, cq_Userid req) \<in> T \<and> (\<exists>q. questions t' = qs @ [q] \<and> QID q = n \<and>
        QLesson q = cq_LessonId req \<and> TeacherID q = cq_Userid req)))"
  unfolding CreateQuestion_def CreateQuestion_db_def
proof (rule always_bind [OF teacher_check_yields [unfolded yields_def, rule_format, OF T t]], goal_cases)
  case 1
  then show ?case by blast
next
  case (2 e t')
  then show ?case by (simp add: quiz_on_def)
next
  case (3 u t1)
  then have t1: "quiz_ok t1" "questions t1 = qs" "answers t1 = as" "next_question t1 = n" "(cq_LessonId req, cq_Userid req) \<in> T"
    by (auto simp: quiz_on_def)
  have new: "quiz_ok (t1\<lparr>questions := qs @ [q], next_question := n + 1\<rparr>)" if "QID q = n" for q
    using t1 that by (fastforce simp: quiz_ok_def cache_fits_def marked_def)
  have del: "quiz_ok (x\<lparr>question_cache := (question_cache x)(i := None)\<rparr>)" if "quiz_ok x" for x i
    using that by (auto simp: quiz_ok_def)
  show ?case
    using t1 new del [OF new]
    by (auto simp: always_simps sql_defs)
qed

lemma quiz_serve_keeps: "keeps quiz_ok (quiz_serve env q)"
proof -
  let ?S = "\<lambda>t. {(l, u). student_passes env t l u}" and ?T = "\<lambda>t. {(l, u). teacher_passes env t l u}"
  have on: "quiz_on (questions t) (next_question t) (answers t) (?S t) (?T t) t" if "quiz_ok t" for t
    using that by (auto simp: quiz_on_def student_passes_def teacher_passes_def)
  have keep: "keeps quiz_ok (tx_bind m (\<lambda>_. tx_return ()))" if "\<And>t. quiz_ok t \<Longrightarrow> always m t (\<lambda>r t'. quiz_ok t')"
    for m :: "'a quiz_tx"
    unfolding yields_def using that by (auto intro!: always_bind simp: always_simps)
  have any: "always m t (\<lambda>r. quiz_ok)" if "\<And>qs n as S T. keeps (quiz_on qs n as S T) m" "quiz_ok t" for m :: "'a quiz_tx" and t
    using that(1) [unfolded yields_def, rule_format, OF on [OF that(2)]]
    by (rule always_mono) (simp add: quiz_on_def)
  show ?thesis
  proof (cases q)
    case (ReqCreate req now)
    have "always (CreateQuestion env req now) t (\<lambda>r. quiz_ok)" if "quiz_ok t" for t
      by (rule always_mono [OF create_effect [OF on [OF that]]]) (simp_all add: teacher_passes_def)
    then show ?thesis unfolding ReqCreate quiz_serve.simps by (rule keep)
  next
    case (ReqAnswer qid uid ans now)
    have "always (TorFAnswer env qid uid ans now) t (\<lambda>r. quiz_ok)" if "quiz_ok t" for t
      by (rule always_mono [OF answer_effect [OF on [OF that]]]) (simp_all add: student_passes_def)
    then show ?thesis unfolding ReqAnswer quiz_serve.simps by (rule keep)
  next
    case (ReqDelete qid uid)
    have "always (DelQuestion env qid uid) t (\<lambda>r. quiz_ok)" if "quiz_ok t" for t
      by (rule always_mono [OF delete_effect [OF on [OF that]]]) (simp_all add: teacher_passes_def)
    then show ?thesis unfolding ReqDelete quiz_serve.simps by (rule keep)
  next
    case (ReqList lid uid)
    have "keeps (quiz_on qs n as UNIV T) (GetAllLessonQuiz env lid uid)" for qs n as T
      unfolding GetAllLessonQuiz_def GetQuestionByLesson_def
      by (intro keeps_then [OF keeps_yields [OF student_check_yields]] quiz_keeps) simp
    moreover have "quiz_on (questions t) (next_question t) (answers t) UNIV (?T t) t" if "quiz_ok t" for t
      using that by (auto simp: quiz_on_def teacher_passes_def)
    ultimately have "always (GetAllLessonQuiz env lid uid) t (\<lambda>r t'. quiz_on (questions t) (next_question t) (answers t) UNIV (?T t) t' \<and>
        (\<forall>x. r = Inr x \<longrightarrow> True))" if "quiz_ok t" for t
      using that unfolding yields_def by blast
    then have "always (GetAllLessonQuiz env lid uid) t (\<lambda>r. quiz_ok)" if "quiz_ok t" for t
      by (rule always_mono [OF _ quiz_on_ok]) (use that in auto)
    then show ?thesis unfolding ReqList quiz_serve.simps by (rule keep)
  qed
qed

lemma quiz_run_ok: "quiz_ok (tables (quiz_run rs p))"
  unfolding quiz_run_def quiz_serves_def
proof (rule keeps_fold [where serve = "\<lambda>r. quiz_serve (fst r) (snd r)"])
  show "keeps quiz_ok (quiz_serve (fst r) (snd r))" for r by (rule quiz_serve_keeps)
qed (simp add: quiz_ok_def no_quiz_def)

lemma quiz_run_on:
  "quiz_on (questions (tables (quiz_run rs p))) (next_question (tables (quiz_run rs p))) (answers (tables (quiz_run rs p)))
     {(l, u). student_passes env (tables (quiz_run rs p)) l u} {(l, u). teacher_passes env (tables (quiz_run rs p)) l u}
     (tables (quiz_run rs p))"
  using quiz_run_ok by (auto simp: quiz_on_def student_passes_def teacher_passes_def)

lemma tally_total: "sum_list (map snd (tally qid as)) = length (filter (\<lambda>a. AQuestion a = qid) as)"
proof -
  have "sum_list (map (count_list xs) (rev (remdups (rev xs)))) = length xs" for xs :: "string list"
    by (simp add: sum_list_distinct_conv_sum_set sum_count_set rev_map [symmetric])
  then show ?thesis by (simp add: tally_def Let_def comp_def)
qed

text \<open>
  (invariant). Questions and answers stay consistent: after any requests from empty tables, with any
  failures of MySQL and Redis and any answers of the other services, question ids are unique, a
  cached question is the stored one, a user has at most one answer to a question, and every answer
  belongs to a stored question and is marked correct exactly when it is this question's right
  answer.
\<close>

theorem quiz_stays_consistent: "quiz_ok (tables (quiz_run rs p))"
  by (rule quiz_run_ok)

text \<open>
  C6 (safety). An answer is recorded only while the question is open, only of a student of its lesson,
  and only once: TorFAnswer leaves the answers as they are or adds one answer, correctly marked, of
  a user whom the lesson service confirms or whose cached permission is stored, to a stored question
  that has not closed and that this user has not answered; it replies success only with that answer
  added, and then with the question's right answer and counts that add up to all its answers.
\<close>

theorem answer_is_recorded_once:
  "case TorFAnswer env qid uid ans now (quiz_run rs p) of (r, s') \<Rightarrow>
     answer_outcome (takes_answer env (tables (quiz_run rs p)) qid uid now) (answers (tables (quiz_run rs p))) uid ans r
       (answers (tables s')) \<and>
     (case r of
        Inr (Answered i teacher right stats) \<Rightarrow> sum_list (map snd stats) = length (filter (\<lambda>a. AQuestion a = i) (answers (tables s')))
      | _ \<Rightarrow> True)"
proof -
  let ?t = "tables (quiz_run rs p)"
  obtain r s' where run: "TorFAnswer env qid uid ans now (quiz_run rs p) = (r, s')" by (cases "TorFAnswer env qid uid ans now (quiz_run rs p)")
  have "takes_answer env ?t qid uid now = (\<lambda>q. q \<in> set (questions ?t) \<and> QID q = qid \<and> now \<le> CloseTime q \<and>
      (QLesson q, uid) \<in> {(l, u). student_passes env ?t l u} \<and> find (is_answer qid uid) (answers ?t) = None)"
    by (auto simp: takes_answer_def)
  with alwaysD [OF answer_effect [OF quiz_run_on [where env = env]] run]
  have o: "answer_outcome (takes_answer env ?t qid uid now) (answers ?t) uid ans r (answers (tables s'))"
    by (simp add: student_passes_def)
  then show ?thesis
    by (auto simp: run answer_outcome_def tally_total split: sum.splits answer_reply.splits)
qed

definition deleted_by_teacher :: "quiz_env \<Rightarrow> int \<Rightarrow> int \<Rightarrow> quiz_world \<Rightarrow> quiz_world \<Rightarrow> bool" where
  "deleted_by_teacher env qid uid t t' \<longleftrightarrow> only_without qid t t' \<and>
     (\<exists>l. teacher_passes env t l uid \<and> filter (\<lambda>q. QID q = qid \<and> QLesson q \<noteq> l) (questions t) = [])"

text \<open>
  (safety). Only the teacher deletes a question: DelQuestion leaves questions and answers as they
  are, or the user is the teacher of the question's lesson (the two services agree on it, or a
  cached permission says so) and exactly this question goes, with all its answers; success is
  replied only in the second case.
\<close>

theorem only_teacher_deletes_question:
  "case DelQuestion env qid uid (quiz_run rs p) of
     (Inr _, s') \<Rightarrow> deleted_by_teacher env qid uid (tables (quiz_run rs p)) (tables s')
   | (Inl _, s') \<Rightarrow>
       questions (tables s') = questions (tables (quiz_run rs p)) \<and> answers (tables s') = answers (tables (quiz_run rs p)) \<or>
       deleted_by_teacher env qid uid (tables (quiz_run rs p)) (tables s')"
proof -
  let ?t = "tables (quiz_run rs p)"
  obtain r s' where run: "DelQuestion env qid uid (quiz_run rs p) = (r, s')" by (cases "DelQuestion env qid uid (quiz_run rs p)")
  from alwaysD [OF delete_effect [OF quiz_run_on [where env = env]] run] show ?thesis
    by (cases r) (auto simp: run deleted_by_teacher_def teacher_passes_def filter_empty_conv)
qed

end
