(* ===== verification/Token_Budget.thy ===== *)
theory Token_Budget
  imports Prelude
begin

text \<open>
  Token estimates and truncation of the agent's session context
  (src/internal/rpc/agent/session/context.go: EstimateTextTokens, truncateToTokens). A text is the
  list of its runes (the texts are valid UTF-8, so that runes and text determine each other). The
  Unicode tables of the four scripts are the parameter cjk.
\<close>

subsection \<open>Runes\<close>

type_synonym rune = int
type_synonym runes = "rune list"

definition ascii :: "string \<Rightarrow> runes" where
  "ascii s = map of_char s"

text \<open>unicode.IsSpace, and strings.TrimSpace on runes.\<close>

definition rune_space :: "rune \<Rightarrow> bool" where
  "rune_space r \<longleftrightarrow> r \<in> {9, 10, 11, 12, 13, 32, 0x85, 0xA0, 0x1680, 0x2028, 0x2029, 0x202f, 0x205f, 0x3000} \<or>
     0x2000 \<le> r \<and> r \<le> 0x200a"

definition trim :: "runes \<Rightarrow> runes" where
  "trim t = rev (dropWhile rune_space (rev (dropWhile rune_space t)))"

definition ascii_alnum :: "rune \<Rightarrow> bool" where
  "ascii_alnum r \<longleftrightarrow> 48 \<le> r \<and> r \<le> 57 \<or> 65 \<le> r \<and> r \<le> 90 \<or> 97 \<le> r \<and> r \<le> 122"

subsection \<open>The estimate\<close>

definition count :: "(rune \<Rightarrow> bool) \<Rightarrow> runes \<Rightarrow> nat" where
  "count P t = length (filter P t)"

definition is_ascii :: "(rune \<Rightarrow> bool) \<Rightarrow> rune \<Rightarrow> bool" where
  "is_ascii cjk r \<longleftrightarrow> \<not> cjk r \<and> ascii_alnum r"

definition is_other :: "(rune \<Rightarrow> bool) \<Rightarrow> rune \<Rightarrow> bool" where
  "is_other cjk r \<longleftrightarrow> \<not> cjk r \<and> \<not> ascii_alnum r \<and> \<not> rune_space r"

definition EstimateTextTokens :: "(rune \<Rightarrow> bool) \<Rightarrow> runes \<Rightarrow> nat" where
  "EstimateTextTokens cjk t =
     (let estimate = count cjk t + (count (is_ascii cjk) t + 3) div 4 + (count (is_other cjk) t + 1) div 2 in
      if estimate = 0 \<and> trim t \<noteq> [] then 1 else estimate)"

subsection \<open>Truncation\<close>

text \<open>The binary search for the longest prefix that fits.\<close>

function search :: "(nat \<Rightarrow> bool) \<Rightarrow> nat \<Rightarrow> nat \<Rightarrow> nat" where
  "search fits lo hi =
     (if lo < hi then
        (let mid = (lo + hi + 1) div 2 in
         if fits mid then search fits mid hi else search fits lo (mid - 1))
      else lo)"
  by pat_completeness auto
termination by (relation "measure (\<lambda>(_, lo, hi). hi - lo)") auto

declare search.simps [simp del]

definition marker :: runes where
  "marker = [91, 25130, 26029, 93]"

definition truncateToTokens :: "(rune \<Rightarrow> bool) \<Rightarrow> runes \<Rightarrow> int \<Rightarrow> runes \<times> bool" where
  "truncateToTokens cjk t budget =
     (if budget \<le> 0 then ([], trim t \<noteq> [])
      else if int (EstimateTextTokens cjk t) \<le> budget then (t, False)
      else
        (let contentBudget = budget - int (EstimateTextTokens cjk marker) in
         if contentBudget \<le> 0 then (marker, True)
         else
           (let lo = search (\<lambda>mid. int (EstimateTextTokens cjk (take mid t)) \<le> contentBudget) 0 (length t) in
            (trim (take lo t) @ marker, True))))"

subsection \<open>Facts about the estimate\<close>

lemma count_append [simp]: "count P (s @ t) = count P s + count P t"
  by (simp add: count_def)

lemma count_simps [simp]: "count P [] = 0" "count P (r # t) = (if P r then 1 else 0) + count P t"
  by (simp_all add: count_def)

lemma count_replicate: "count P (replicate n r) = (if P r then n else 0)"
  by (simp add: count_def)

lemma trim_split: "\<exists>a b. t = a @ trim t @ b"
proof -
  let ?u = "dropWhile rune_space t"
  have "t = takeWhile rune_space t @ ?u" by simp
  moreover have "?u = trim t @ rev (takeWhile rune_space (rev ?u))"
    by (metis rev_append rev_rev_ident takeWhile_dropWhile_id trim_def)
  ultimately show ?thesis by metis
qed

lemma trim_Nil: "trim t = [] \<longleftrightarrow> (\<forall>r \<in> set t. rune_space r)"
proof -
  let ?u = "dropWhile rune_space t"
  have "trim t = [] \<longleftrightarrow> (\<forall>r \<in> set ?u. rune_space r)"
    unfolding trim_def rev_is_Nil_conv dropWhile_eq_Nil_conv [of _ "rev ?u"] set_rev ..
  also have "\<dots> \<longleftrightarrow> ?u = []" by (metis empty_iff empty_set hd_dropWhile hd_in_set)
  also have "\<dots> \<longleftrightarrow> (\<forall>r \<in> set t. rune_space r)" by (rule dropWhile_eq_Nil_conv)
  finally show ?thesis .
qed

text \<open>The last line of the code never applies: a rune that is no space is counted already.\<close>

lemma estimate_eq:
  "EstimateTextTokens cjk t = count cjk t + (count (is_ascii cjk) t + 3) div 4 + (count (is_other cjk) t + 1) div 2"
proof -
  have "trim t = []" if "count cjk t = 0" "count (is_ascii cjk) t = 0" "count (is_other cjk) t = 0"
    using that by (auto simp: trim_Nil count_def filter_empty_conv is_ascii_def is_other_def)
  moreover have "(m + 3) div 4 = 0 \<longleftrightarrow> m = 0" "(m + 1) div 2 = 0 \<longleftrightarrow> m = 0" for m :: nat by presburger+
  ultimately show ?thesis by (auto simp: EstimateTextTokens_def Let_def)
qed

lemma estimate_Nil [simp]: "EstimateTextTokens cjk [] = 0"
  by (simp add: estimate_eq)

lemma estimate_mono: "EstimateTextTokens cjk t \<le> EstimateTextTokens cjk (a @ t @ b)"
  by (simp add: estimate_eq add_mono div_le_mono)

lemma estimate_take: "m \<le> n \<Longrightarrow> EstimateTextTokens cjk (take m t) \<le> EstimateTextTokens cjk (take n t)"
  by (metis append_Nil append_take_drop_id estimate_mono min.absorb1 take_take)

lemma estimate_trim: "EstimateTextTokens cjk (trim t) \<le> EstimateTextTokens cjk t"
  by (metis estimate_mono trim_split)

lemma estimate_append: "EstimateTextTokens cjk (s @ t) \<le> EstimateTextTokens cjk s + EstimateTextTokens cjk t"
proof -
  have four: "(m + n + 3) div 4 \<le> (m + 3) div 4 + (n + 3) div 4" for m n :: nat by presburger
  have two: "(m + n + 1) div 2 \<le> (m + 1) div 2 + (n + 1) div 2" for m n :: nat by presburger
  show ?thesis
    using four [of "count (is_ascii cjk) s" "count (is_ascii cjk) t"] two [of "count (is_other cjk) s" "count (is_other cjk) t"]
    unfolding estimate_eq count_append by linarith
qed

subsection \<open>The search\<close>

text \<open>The code's search finds the greatest number that fits, when fitting is inherited downwards.\<close>

lemma search_spec:
  assumes anti: "\<And>m n. m \<le> n \<Longrightarrow> fits n \<Longrightarrow> fits m" and "fits lo" and "lo \<le> hi"
  shows "fits (search fits lo hi) \<and> search fits lo hi \<le> hi \<and> (\<forall>k. search fits lo hi < k \<longrightarrow> k \<le> hi \<longrightarrow> \<not> fits k)"
  using assms(2,3)
proof (induction "hi - lo" arbitrary: lo hi rule: less_induct)
  case less
  let ?mid = "(lo + hi + 1) div 2"
  consider "\<not> lo < hi" | "lo < hi" "fits ?mid" | "lo < hi" "\<not> fits ?mid" by blast
  then show ?case
  proof cases
    case 1
    then have "search fits lo hi = lo" by (subst search.simps) simp
    with 1 less.prems show ?thesis by simp
  next
    case 2
    then have "hi - ?mid < hi - lo" "?mid \<le> hi" by auto
    with less.hyps [of hi ?mid] 2 show ?thesis by (simp add: search.simps [of fits lo hi] Let_def)
  next
    case 3
    then have m: "?mid - 1 - lo < hi - lo" "lo \<le> ?mid - 1" by auto
    have no: "\<not> fits k" if "?mid \<le> k" for k using anti [OF that] 3(2) by blast
    have "search fits lo hi = search fits lo (?mid - 1)" using 3 by (subst search.simps) (simp add: Let_def)
    moreover have "?mid - 1 \<le> hi" using 3(1) by auto
    moreover have "k \<le> ?mid - 1 \<or> ?mid \<le> k" for k by linarith
    ultimately show ?thesis
      using less.hyps [OF m(1) less.prems(1) m(2)] no by (metis le_trans)
  qed
qed

text \<open>What the Unicode tables say of the marker's four runes.\<close>

definition marker_ok :: "(rune \<Rightarrow> bool) \<Rightarrow> bool" where
  "marker_ok cjk \<longleftrightarrow> cjk 25130 \<and> cjk 26029 \<and> \<not> cjk 91 \<and> \<not> cjk 93"

lemma marker_tokens: "marker_ok cjk \<Longrightarrow> EstimateTextTokens cjk marker = 3"
  by (simp add: estimate_eq marker_ok_def marker_def is_ascii_def is_other_def ascii_alnum_def rune_space_def)

text \<open>The prefix that truncation keeps: the longest one whose estimate fits.\<close>

definition longest_fitting :: "(rune \<Rightarrow> bool) \<Rightarrow> int \<Rightarrow> runes \<Rightarrow> nat \<Rightarrow> bool" where
  "longest_fitting cjk b t n \<longleftrightarrow> n \<le> length t \<and> int (EstimateTextTokens cjk (take n t)) \<le> b \<and>
     (\<forall>k. n < k \<longrightarrow> k \<le> length t \<longrightarrow> b < int (EstimateTextTokens cjk (take k t)))"

lemma search_longest:
  assumes "0 \<le> b"
  shows "longest_fitting cjk b t (search (\<lambda>mid. int (EstimateTextTokens cjk (take mid t)) \<le> b) 0 (length t))"
proof -
  let ?fits = "\<lambda>mid. int (EstimateTextTokens cjk (take mid t)) \<le> b"
  have "?fits m" if "m \<le> n" "?fits n" for m n using estimate_take [OF that(1), of cjk t] that(2) by simp
  from search_spec [of ?fits 0 "length t", OF this] assms show ?thesis by (auto simp: longest_fitting_def not_le)
qed

lemma truncate_cases:
  assumes "marker_ok cjk"
  shows "budget \<le> 0 \<and> truncateToTokens cjk t budget = ([], trim t \<noteq> []) \<or>
    0 < budget \<and> int (EstimateTextTokens cjk t) \<le> budget \<and> truncateToTokens cjk t budget = (t, False) \<or>
    0 < budget \<and> budget \<le> 3 \<and> budget < int (EstimateTextTokens cjk t) \<and> truncateToTokens cjk t budget = (marker, True) \<or>
    3 < budget \<and> budget < int (EstimateTextTokens cjk t) \<and>
      (\<exists>n. longest_fitting cjk (budget - 3) t n \<and> truncateToTokens cjk t budget = (trim (take n t) @ marker, True))"
  using marker_tokens [OF assms] search_longest [of "budget - 3" cjk t]
  by (auto simp: truncateToTokens_def Let_def)

lemma truncate_fits:
  assumes "marker_ok cjk"
  shows "int (EstimateTextTokens cjk (fst (truncateToTokens cjk t budget))) \<le> (if budget \<le> 0 then 0 else max 3 budget)"
proof -
  have "int (EstimateTextTokens cjk (trim (take n t) @ marker)) \<le> b + 3" if "longest_fitting cjk b t n" for n b
    using that estimate_append [of cjk "trim (take n t)" marker] estimate_trim [of cjk "take n t"] marker_tokens [OF assms]
    by (simp add: longest_fitting_def)
  from this [of "budget - 3"] truncate_cases [OF assms, of budget t] marker_tokens [OF assms] show ?thesis by auto
qed

text \<open>
  (bounds). A truncated text fits its budget: whatever the text, the estimate of the result is at
  most the budget, as soon as the budget is at least the three tokens of the truncation marker
  itself (with a budget of one or two tokens a longer text is replaced by the marker, which is
  more). A text that fits is left alone; otherwise the result is the longest prefix that leaves room
  for the marker, trimmed, and the marker.
\<close>

theorem truncation_is_tight:
  assumes "marker_ok cjk" and "3 \<le> budget"
  shows "int (EstimateTextTokens cjk (fst (truncateToTokens cjk t budget))) \<le> budget \<and>
    (if int (EstimateTextTokens cjk t) \<le> budget then truncateToTokens cjk t budget = (t, False)
     else \<exists>n. longest_fitting cjk (budget - 3) t n \<and> truncateToTokens cjk t budget = (trim (take n t) @ marker, True))"
proof -
  obtain n where n: "longest_fitting cjk 0 t n" using search_longest [of 0 cjk t] by auto
  then have "trim (take n t) = []"
    by (auto simp: longest_fitting_def EstimateTextTokens_def Let_def split: if_splits)
  with n have "\<exists>n. longest_fitting cjk 0 t n \<and> marker = trim (take n t) @ marker" by auto
  note three = this
  have fits: "int (EstimateTextTokens cjk (fst (truncateToTokens cjk t budget))) \<le> budget"
    using truncate_fits [OF assms(1), of t budget] assms(2) by simp
  show ?thesis
  proof (cases "int (EstimateTextTokens cjk t) \<le> budget")
    case True
    with fits assms(2) show ?thesis by (simp add: truncateToTokens_def)
  next
    case False
    consider "budget = 3" | "3 < budget" using assms(2) by linarith
    then have "\<exists>n. longest_fitting cjk (budget - 3) t n \<and> truncateToTokens cjk t budget = (trim (take n t) @ marker, True)"
    proof cases
      case 1
      with False three marker_tokens [OF assms(1)] show ?thesis by (auto simp: truncateToTokens_def)
    next
      case 2
      then have "\<not> budget \<le> 0" "\<not> budget \<le> 3" by auto
      with False truncate_cases [OF assms(1), of budget t] show ?thesis by blast
    qed
    with False fits show ?thesis by simp
  qed
qed

text \<open>A classification of runes: the CJK unified ideographs.\<close>

definition unified_ideograph :: "rune \<Rightarrow> bool" where
  "unified_ideograph r \<longleftrightarrow> 0x4e00 \<le> r \<and> r \<le> 0x9fff"

lemma ideographs_ok: "marker_ok unified_ideograph"
  by (simp add: marker_ok_def unified_ideograph_def)

theorem truncation_is_tight_witness:
  "int (EstimateTextTokens unified_ideograph (fst (truncateToTokens unified_ideograph (replicate 9 0x8bfe) 5))) \<le> 5 \<and>
   (\<exists>n. longest_fitting unified_ideograph 2 (replicate 9 0x8bfe) n)"
proof -
  have "EstimateTextTokens unified_ideograph (replicate 9 0x8bfe) = 9"
    by (simp add: estimate_eq count_replicate unified_ideograph_def is_ascii_def is_other_def)
  with truncation_is_tight [OF ideographs_ok, of 5 "replicate 9 0x8bfe"] show ?thesis by force
qed

end
