(* ===== verification/Session_Context.thy ===== *)
theory Session_Context
  imports Token_Budget Sql_Tx "HOL-Library.Sublist"
begin

text \<open>
  The session memory of the agent (src/internal/rpc/agent/session: context.go, manager.go and
  model_compactor.go, on the tables of agent/memory/session.go): the transcript with its summary
  checkpoints, the context that is built for a request within a token budget, and its recovery,
  which compacts an old prefix of the transcript into a summary. The language model and
  encoding/json are parameters. Ids, keys and types are ASCII strings; texts are runes.
\<close>

subsection \<open>Tables\<close>

record tevent =
  EvID :: int
  EvUser :: int
  EvSession :: string
  EvRequest :: string
  EvKey :: string
  EvType :: string
  EvRole :: string
  EvContent :: runes
  EvTokens :: int

text \<open>The JSON columns of a checkpoint are the lists they hold.\<close>

record checkpoint =
  CpID :: int
  CpUser :: int
  CpSession :: string
  CpSummary :: runes
  CpFacts :: "runes list"
  CpDecisions :: "runes list"
  CpTasks :: "runes list"
  CpStart :: int
  CpEnd :: int
  CpTokens :: int

record session_world =
  tevents :: "tevent list"
  checkpoints :: "checkpoint list"
  next_event :: int
  next_checkpoint :: int

type_synonym 'a session_tx = "(session_world, 'a) tx"

definition same_event :: "tevent \<Rightarrow> tevent \<Rightarrow> bool" where
  "same_event e x \<longleftrightarrow> EvSession x = EvSession e \<and> EvRequest x = EvRequest e \<and> EvKey x = EvKey e"

definition same_range :: "checkpoint \<Rightarrow> checkpoint \<Rightarrow> bool" where
  "same_range c x \<longleftrightarrow> CpSession x = CpSession c \<and> CpEnd x = CpEnd c"

text \<open>INSERT ... ON CONFLICT DO NOTHING; the sequence advances in either case.\<close>

definition insertEvent :: "tevent \<Rightarrow> (session_world, unit) sql" where
  [sql_defs]: "insertEvent e = (\<lambda>now t.
     (Inr (), t\<lparr>tevents := (if find (same_event e) (tevents t) \<noteq> None then tevents t
                            else tevents t @ [e\<lparr>EvID := next_event t\<rparr>]),
        next_event := next_event t + 1\<rparr>))"

definition selectEvents :: "string \<Rightarrow> int \<Rightarrow> (session_world, tevent list) sql" where
  [sql_defs]: "selectEvents sid after = (\<lambda>now t.
     (Inr (sort_key EvID (filter (\<lambda>e. EvSession e = sid \<and> (0 < after \<longrightarrow> after < EvID e)) (tevents t))), t))"

text \<open>ORDER BY source_event_end_id DESC, id DESC.\<close>

definition later :: "checkpoint \<Rightarrow> checkpoint \<Rightarrow> checkpoint" where
  "later x y = (if CpEnd x < CpEnd y \<or> CpEnd x = CpEnd y \<and> CpID x < CpID y then y else x)"

definition firstCheckpoint :: "string \<Rightarrow> (session_world, checkpoint) sql" where
  [sql_defs]: "firstCheckpoint sid = (\<lambda>now t.
     (case filter (\<lambda>c. CpSession c = sid) (checkpoints t) of
        [] \<Rightarrow> Inl ErrRecordNotFound
      | c # cs \<Rightarrow> Inr (fold (\<lambda>x y. later y x) cs c), t))"

definition insertCheckpoint :: "checkpoint \<Rightarrow> (session_world, unit) sql" where
  [sql_defs]: "insertCheckpoint c = (\<lambda>now t.
     (Inr (), t\<lparr>checkpoints := (if find (same_range c) (checkpoints t) \<noteq> None then checkpoints t
                                else checkpoints t @ [c\<lparr>CpID := next_checkpoint t\<rparr>]),
        next_checkpoint := next_checkpoint t + 1\<rparr>))"

definition AppendTranscriptEvent :: "tevent \<Rightarrow> unit session_tx" where
  "AppendTranscriptEvent e =
     (if EvSession e = '''' \<or> EvRequest e = '''' \<or> EvKey e = '''' \<or> EvType e = ''''
      then tx_fail (ErrNew ''invalid transcript event'')
      else stmt (insertEvent e))"

definition ListTranscriptEvents :: "string \<Rightarrow> int \<Rightarrow> tevent list session_tx" where
  "ListTranscriptEvents sid after = stmt (selectEvents sid after)"

definition LatestSummaryCheckpoint :: "string \<Rightarrow> checkpoint option session_tx" where
  "LatestSummaryCheckpoint sid =
     tx_then (stmt (firstCheckpoint sid)) (\<lambda>r.
       case r of
         Inl e \<Rightarrow> if err_is e ErrRecordNotFound then tx_return None else tx_fail e
       | Inr c \<Rightarrow> tx_return (Some c))"

definition SaveSummaryCheckpoint :: "checkpoint \<Rightarrow> unit session_tx" where
  "SaveSummaryCheckpoint c =
     (if CpSession c = '''' \<or> CpEnd c \<le> 0 then tx_fail (ErrNew ''invalid summary checkpoint'')
      else stmt (insertCheckpoint c))"

subsection \<open>The budget\<close>

record budget =
  ModelContext :: int
  SystemReserve :: int
  OutputReserve :: int
  RAG :: int
  Memory :: int
  Conversation :: int
  CompactionTrigger :: int
  RecentTail :: int
  MaxToolResult :: int

definition DefaultBudget :: budget where
  "DefaultBudget = \<lparr>ModelContext = 32768, SystemReserve = 5000, OutputReserve = 4000, RAG = 7000, Memory = 3000,
     Conversation = 12000, CompactionTrigger = 10500, RecentTail = 4000, MaxToolResult = 1200\<rparr>"

definition Validate :: "budget \<Rightarrow> bool" where
  "Validate b \<longleftrightarrow> 0 < ModelContext b \<and> 0 < OutputReserve b \<and> 0 < Conversation b \<and>
     SystemReserve b + OutputReserve b + RAG b + Memory b + Conversation b \<le> ModelContext b \<and>
     0 < RecentTail b \<and> RecentTail b < Conversation b"

definition NewBuilder :: "budget \<Rightarrow> budget" where
  "NewBuilder b = (if \<not> Validate b then DefaultBudget else b)"

subsection \<open>Building the context\<close>

record message =
  MsgRole :: string
  MsgContent :: runes

record build_input =
  InProfile :: runes
  InFacts :: runes
  InDocs :: runes
  TaskState :: runes
  CurrentRequestID :: string
  InRequest :: runes
  Checkpoint :: "checkpoint option"
  Events :: "tevent list"

record working_context =
  Profile :: runes
  Facts :: runes
  Docs :: runes
  History :: "message list"
  CurrentRequest :: runes
  EstimatedTokens :: int
  Truncated :: bool

abbreviation system_message :: "runes \<Rightarrow> message" where
  "system_message t \<equiv> \<lparr>MsgRole = ''system'', MsgContent = t\<rparr>"

definition tool_header :: "string \<Rightarrow> runes" where
  "tool_header key = [24037, 20855, 32467, 26524, 65288] @ ascii key @ [65289, 65306, 10]"

definition eventMessage :: "(rune \<Rightarrow> bool) \<Rightarrow> tevent \<Rightarrow> int \<Rightarrow> message option" where
  "eventMessage cjk e maxToolTokens =
     (if EvType e = ''user_message'' then Some \<lparr>MsgRole = ''user'', MsgContent = EvContent e\<rparr>
      else if EvType e = ''assistant_message'' then Some \<lparr>MsgRole = ''assistant'', MsgContent = EvContent e\<rparr>
      else if EvType e = ''tool_result'' then
        Some (system_message (tool_header (EvKey e) @ fst (truncateToTokens cjk (EvContent e) maxToolTokens)))
      else if EvType e = ''error'' \<or> EvType e = ''runtime_event'' then Some (system_message (EvContent e))
      else None)"

text \<open>The loop over the events, newest first: selected messages, their tokens, and whether one was left out.\<close>

fun pick ::
    "(rune \<Rightarrow> bool) \<Rightarrow> int \<Rightarrow> string \<Rightarrow> int \<Rightarrow> tevent list \<Rightarrow> int \<Rightarrow> message list \<Rightarrow> bool \<Rightarrow> message list \<times> int \<times> bool" where
  "pick cjk maxTool request conv [] used selected missed = (selected, used, missed)"
| "pick cjk maxTool request conv (e # es) used selected missed =
     (if request \<noteq> '''' \<and> EvType e = ''user_message'' \<and> EvRequest e = request
      then pick cjk maxTool request conv es used selected missed
      else case eventMessage cjk e maxTool of
          None \<Rightarrow> pick cjk maxTool request conv es used selected missed
        | Some m \<Rightarrow>
            (let cost = int (EstimateTextTokens cjk (MsgContent m)) in
             if conv < used + cost then pick cjk maxTool request conv es used selected True
             else pick cjk maxTool request conv es (used + cost) (selected @ [m]) missed))"

definition task_header :: runes where
  "task_header = [24403, 21069, 20219, 21153, 35745, 21010, 29366, 24577, 65306, 10]"

definition summary_header :: runes where
  "summary_header = [21382, 21490, 20250, 35805, 25688, 35201, 65306, 10]"

text \<open>
  A section of the history with a third of what is left: the message, if it is not blank, and its
  tokens.
\<close>

definition add_section :: "(rune \<Rightarrow> bool) \<Rightarrow> runes \<Rightarrow> runes \<Rightarrow> message list \<times> int" where
  "add_section cjk header t =
     (if trim t \<noteq> [] then ([system_message (header @ t)], int (EstimateTextTokens cjk t)) else ([], 0))"

definition Build :: "(rune \<Rightarrow> bool) \<Rightarrow> budget \<Rightarrow> build_input \<Rightarrow> working_context" where
  "Build cjk b inp =
     (let (profile, cut1) = truncateToTokens cjk (InProfile inp) (go_div (Memory b) 3);
          remainingMemory = Memory b - int (EstimateTextTokens cjk profile);
          (facts, cut2) = truncateToTokens cjk (InFacts inp) remainingMemory;
          (docs, cut3) = truncateToTokens cjk (InDocs inp) (RAG b);
          (request, cut4) = truncateToTokens cjk (InRequest inp) (Conversation b);
          currentTokens = int (EstimateTextTokens cjk request);
          conv1 = max 0 (Conversation b - currentTokens);
          (taskState, taskCut) = truncateToTokens cjk (TaskState inp) (go_div conv1 3);
          (task, taskTokens) = add_section cjk task_header taskState;
          conv2 = conv1 - taskTokens;
          (summary, summaryCut) = (case Checkpoint inp of
              None \<Rightarrow> ([], False)
            | Some c \<Rightarrow> if trim (CpSummary c) \<noteq> [] then truncateToTokens cjk (CpSummary c) (go_div conv2 3) else ([], False));
          (summaryMsg, summaryTokens) = add_section cjk summary_header summary;
          conv3 = conv2 - summaryTokens;
          (selected, used, eventCut) =
            pick cjk (MaxToolResult b) (CurrentRequestID inp) conv3 (rev (sort_key EvID (Events inp))) 0 [] False
      in \<lparr>Profile = profile, Facts = facts, Docs = docs, History = task @ summaryMsg @ rev selected, CurrentRequest = request,
          EstimatedTokens = taskTokens + int (EstimateTextTokens cjk profile) + int (EstimateTextTokens cjk facts) +
            int (EstimateTextTokens cjk docs) + currentTokens + summaryTokens + used,
          Truncated = cut1 \<or> cut2 \<or> cut3 \<or> cut4 \<or> (task \<noteq> [] \<and> taskCut) \<or> summaryCut \<or> eventCut\<rparr>)"

subsection \<open>The context fits\<close>

abbreviation est :: "(rune \<Rightarrow> bool) \<Rightarrow> runes \<Rightarrow> int" where
  "est cjk t \<equiv> int (EstimateTextTokens cjk t)"

definition msg_tokens :: "(rune \<Rightarrow> bool) \<Rightarrow> message list \<Rightarrow> int" where
  "msg_tokens cjk ms = sum_list (map (\<lambda>m. est cjk (MsgContent m)) ms)"

lemma msg_tokens_simps [simp]:
  "msg_tokens cjk [] = 0" "msg_tokens cjk (m # ms) = est cjk (MsgContent m) + msg_tokens cjk ms"
  "msg_tokens cjk (ms @ ns) = msg_tokens cjk ms + msg_tokens cjk ns" "msg_tokens cjk (rev ms) = msg_tokens cjk ms"
  by (simp_all add: msg_tokens_def rev_map [symmetric])

text \<open>Which events a loop may select, and what it has selected.\<close>

definition relevant :: "(rune \<Rightarrow> bool) \<Rightarrow> int \<Rightarrow> string \<Rightarrow> tevent \<Rightarrow> bool" where
  "relevant cjk maxTool request e \<longleftrightarrow>
     \<not> (request \<noteq> '''' \<and> EvType e = ''user_message'' \<and> EvRequest e = request) \<and> eventMessage cjk e maxTool \<noteq> None"

definition shown :: "(rune \<Rightarrow> bool) \<Rightarrow> int \<Rightarrow> tevent list \<Rightarrow> message list" where
  "shown cjk maxTool es = map (\<lambda>e. the (eventMessage cjk e maxTool)) es"

lemma pick_spec:
  assumes "pick cjk maxTool request conv es used sel missed = (sel', used', missed')" and "0 \<le> used"
  shows "\<exists>evs. subseq evs (filter (relevant cjk maxTool request) es) \<and> sel' = sel @ shown cjk maxTool evs \<and>
    used' = used + msg_tokens cjk (shown cjk maxTool evs) \<and> (used \<le> conv \<longrightarrow> used' \<le> conv) \<and>
    (missed' = (missed \<or> evs \<noteq> filter (relevant cjk maxTool request) es))"
  using assms
proof (induction es arbitrary: used sel missed)
  case Nil
  then show ?case by (simp add: shown_def)
next
  case (Cons e es)
  show ?case
  proof (cases "relevant cjk maxTool request e")
    case False
    then have "pick cjk maxTool request conv (e # es) used sel missed = pick cjk maxTool request conv es used sel missed"
      by (auto simp: relevant_def)
    with Cons.IH [of used sel missed] Cons.prems False show ?thesis by simp
  next
    case True
    then obtain m where m: "eventMessage cjk e maxTool = Some m" by (auto simp: relevant_def)
    let ?cost = "est cjk (MsgContent m)"
    show ?thesis
    proof (cases "conv < used + ?cost")
      case fits: False
      then have "pick cjk maxTool request conv (e # es) used sel missed =
          pick cjk maxTool request conv es (used + ?cost) (sel @ [m]) missed"
        using True m by (auto simp: relevant_def Let_def)
      with Cons.IH [of "used + ?cost" "sel @ [m]" missed] Cons.prems obtain evs where
        "subseq evs (filter (relevant cjk maxTool request) es)" "sel' = sel @ m # shown cjk maxTool evs"
        "used' = used + ?cost + msg_tokens cjk (shown cjk maxTool evs)" "used + ?cost \<le> conv \<longrightarrow> used' \<le> conv"
        "missed' = (missed \<or> evs \<noteq> filter (relevant cjk maxTool request) es)" by auto
      with True m fits show ?thesis by (intro exI [of _ "e # evs"]) (auto simp: shown_def)
    next
      case big: True
      then have "pick cjk maxTool request conv (e # es) used sel missed = pick cjk maxTool request conv es used sel True"
        using True m by (auto simp: relevant_def Let_def)
      with Cons.IH [of used sel True] Cons.prems obtain evs where e:
        "subseq evs (filter (relevant cjk maxTool request) es)" "sel' = sel @ shown cjk maxTool evs"
        "used' = used + msg_tokens cjk (shown cjk maxTool evs)" "used \<le> conv \<longrightarrow> used' \<le> conv" "missed'" by auto
      have "evs \<noteq> e # filter (relevant cjk maxTool request) es"
        using list_emb_length [OF e(1)] by auto
      with e True show ?thesis by (intro exI [of _ evs]) auto
    qed
  qed
qed

lemma add_section_tokens:
  assumes "marker_ok cjk" and "add_section cjk header (fst (truncateToTokens cjk t (go_div conv 3))) = (ms, n)" and "0 \<le> conv"
  shows "0 \<le> n \<and> n \<le> conv \<and> msg_tokens cjk ms \<le> est cjk header + n"
proof -
  let ?t = "fst (truncateToTokens cjk t (go_div conv 3))"
  have "go_div conv 3 = conv div 3" using assms(3) by (simp add: go_div_pos)
  then have "est cjk ?t \<le> (if conv div 3 \<le> 0 then 0 else max 3 (conv div 3))"
    using truncate_fits [OF assms(1), of t "conv div 3"] by simp
  then have "est cjk ?t \<le> conv" using assms(3) by (auto split: if_splits)
  with assms(2,3) estimate_append [of cjk header ?t] show ?thesis
    by (auto simp: add_section_def split: if_splits)
qed

lemma subseq_rev: "subseq xs ys \<Longrightarrow> subseq (rev xs) (rev ys)"
  by (induction rule: list_emb.induct) (auto intro: list_emb_append_mono subseq_rev_drop_many)

lemma sorted_subseq: "subseq xs ys \<Longrightarrow> sorted ys \<Longrightarrow> sorted xs"
proof (induction rule: list_emb.induct)
  case (list_emb_Cons2 x y xs ys)
  then show ?case by (auto elim: list_emb_set)
qed auto

definition summary_text :: "build_input \<Rightarrow> runes" where
  "summary_text inp = (case Checkpoint inp of None \<Rightarrow> [] | Some c \<Rightarrow> if trim (CpSummary c) \<noteq> [] then CpSummary c else [])"

lemma truncate_Nil [simp]: "truncateToTokens cjk [] k = ([], False)"
  by (simp add: truncateToTokens_def trim_def)

lemma summary_case:
  "(case Checkpoint inp of None \<Rightarrow> ([], False)
    | Some c \<Rightarrow> if trim (CpSummary c) \<noteq> [] then truncateToTokens cjk (CpSummary c) k else ([], False)) =
   truncateToTokens cjk (summary_text inp) k"
  by (simp add: summary_text_def split: option.split)

text \<open>The parts of a built context, each with its tokens.\<close>

definition parts_ok :: "(rune \<Rightarrow> bool) \<Rightarrow> budget \<Rightarrow> build_input \<Rightarrow> working_context \<Rightarrow> bool" where
  "parts_ok cjk b inp c \<longleftrightarrow>
     Profile c = fst (truncateToTokens cjk (InProfile inp) (go_div (Memory b) 3)) \<and>
     Facts c = fst (truncateToTokens cjk (InFacts inp) (Memory b - est cjk (Profile c))) \<and>
     Docs c = fst (truncateToTokens cjk (InDocs inp) (RAG b)) \<and>
     CurrentRequest c = fst (truncateToTokens cjk (InRequest inp) (Conversation b)) \<and>
     (\<exists>heads n evs.
        History c = heads @ shown cjk (MaxToolResult b) evs \<and>
        subseq evs (filter (relevant cjk (MaxToolResult b) (CurrentRequestID inp)) (sort_key EvID (Events inp))) \<and>
        (\<not> Truncated c \<longrightarrow>
           evs = filter (relevant cjk (MaxToolResult b) (CurrentRequestID inp)) (sort_key EvID (Events inp))) \<and>
        length heads \<le> 2 \<and> (\<forall>m \<in> set heads. MsgRole m = ''system'') \<and>
        n + msg_tokens cjk (shown cjk (MaxToolResult b) evs) \<le> max 0 (Conversation b - est cjk (CurrentRequest c)) \<and>
        msg_tokens cjk heads \<le> n + est cjk task_header + est cjk summary_header \<and>
        EstimatedTokens c = est cjk (Profile c) + est cjk (Facts c) + est cjk (Docs c) + est cjk (CurrentRequest c) +
          n + msg_tokens cjk (shown cjk (MaxToolResult b) evs))"

lemma Build_parts:
  assumes "marker_ok cjk"
  shows "parts_ok cjk b inp (Build cjk b inp)"
proof -
  let ?tr = "truncateToTokens cjk"
  let ?p = "fst (?tr (InProfile inp) (go_div (Memory b) 3))"
  let ?f = "fst (?tr (InFacts inp) (Memory b - est cjk ?p))"
  let ?d = "fst (?tr (InDocs inp) (RAG b))" and ?r = "fst (?tr (InRequest inp) (Conversation b))"
  let ?conv1 = "max 0 (Conversation b - est cjk ?r)"
  let ?ts = "?tr (TaskState inp) (go_div ?conv1 3)"
  obtain task tt where t: "add_section cjk task_header (fst ?ts) = (task, tt)" by fastforce
  let ?sm = "?tr (summary_text inp) (go_div (?conv1 - tt) 3)"
  obtain sm st where s: "add_section cjk summary_header (fst ?sm) = (sm, st)" by fastforce
  let ?evs = "sort_key EvID (Events inp)"
  obtain sel used missed where k:
    "pick cjk (MaxToolResult b) (CurrentRequestID inp) (?conv1 - tt - st) (rev ?evs) 0 [] False = (sel, used, missed)"
    by (metis prod_cases3)
  have tt: "0 \<le> tt" "tt \<le> ?conv1" "msg_tokens cjk task \<le> est cjk task_header + tt"
    using add_section_tokens [OF assms t] by auto
  have st: "0 \<le> st" "st \<le> ?conv1 - tt" "msg_tokens cjk sm \<le> est cjk summary_header + st"
    using add_section_tokens [OF assms s] tt(2) by auto
  obtain evs where e: "subseq evs (filter (relevant cjk (MaxToolResult b) (CurrentRequestID inp)) (rev ?evs))"
    "sel = shown cjk (MaxToolResult b) evs" "used = msg_tokens cjk (shown cjk (MaxToolResult b) evs)"
    "used \<le> ?conv1 - tt - st" "missed \<longleftrightarrow> evs \<noteq> filter (relevant cjk (MaxToolResult b) (CurrentRequestID inp)) (rev ?evs)"
    using pick_spec [OF k] st(2) by auto
  have c: "Build cjk b inp = \<lparr>Profile = ?p, Facts = ?f, Docs = ?d, History = task @ sm @ rev sel, CurrentRequest = ?r,
      EstimatedTokens = tt + est cjk ?p + est cjk ?f + est cjk ?d + est cjk ?r + st + used,
      Truncated = snd (?tr (InProfile inp) (go_div (Memory b) 3)) \<or> snd (?tr (InFacts inp) (Memory b - est cjk ?p)) \<or>
        snd (?tr (InDocs inp) (RAG b)) \<or> snd (?tr (InRequest inp) (Conversation b)) \<or> (task \<noteq> [] \<and> snd ?ts) \<or> snd ?sm \<or> missed\<rparr>"
    by (simp add: Build_def summary_case Let_def split_beta t s k)
  have rev_shown: "rev (shown cjk m xs) = shown cjk m (rev xs)" for m xs by (simp add: shown_def rev_map)
  have heads: "length (task @ sm) \<le> 2 \<and> (\<forall>m \<in> set (task @ sm). MsgRole m = ''system'')"
    using t s by (auto simp: add_section_def split: if_splits)
  have sub: "subseq (rev evs) (filter (relevant cjk (MaxToolResult b) (CurrentRequestID inp)) ?evs)"
    using e(1) by (metis rev_filter rev_rev_ident subseq_rev)
  have all: "rev evs = filter (relevant cjk (MaxToolResult b) (CurrentRequestID inp)) ?evs" if "\<not> missed"
    using e(5) that by (metis rev_filter rev_rev_ident)
  show ?thesis
    unfolding parts_ok_def c
    using tt st e(2-4) heads sub all
    by (intro conjI exI [of _ "task @ sm"] exI [of _ "tt + st"] exI [of _ "rev evs"])
      (auto simp: rev_shown msg_tokens_def shown_def rev_map [symmetric])
qed

text \<open>
  C19 (bounds). The context of a request fits the model: with a valid budget whose shares leave room for
  the truncation marker, the estimate that Build reports is at most the memory, retrieval and
  conversation shares, so that with the reserves of the system prompt and of the output it is within
  the model's context; and the texts really handed out exceed the reported estimate by at most the
  two section headings, which the code does not count. This holds for every input: profile, facts,
  documents, request, plan, summary and transcript of any size.
\<close>

theorem context_fits_model:
  assumes "marker_ok cjk" and "Validate b" and "9 \<le> Memory b" and "3 \<le> RAG b" and "3 \<le> Conversation b"
  shows "SystemReserve b + EstimatedTokens (Build cjk b inp) + OutputReserve b \<le> ModelContext b \<and>
    est cjk (Profile (Build cjk b inp)) + est cjk (Facts (Build cjk b inp)) + est cjk (Docs (Build cjk b inp)) +
      est cjk (CurrentRequest (Build cjk b inp)) + msg_tokens cjk (History (Build cjk b inp))
      \<le> EstimatedTokens (Build cjk b inp) + est cjk task_header + est cjk summary_header"
proof -
  let ?c = "Build cjk b inp"
  note p = Build_parts [OF assms(1), of b inp, unfolded parts_ok_def]
  have fits: "est cjk (fst (truncateToTokens cjk t k)) \<le> k" if "3 \<le> k" for t k
    using truncate_fits [OF assms(1), of t k] that by simp
  have "go_div (Memory b) 3 = Memory b div 3" using assms(3) by (simp add: go_div_pos)
  with p have "est cjk (Profile ?c) \<le> Memory b div 3" using fits [of "Memory b div 3"] assms(3) by simp
  moreover from this p have "est cjk (Facts ?c) \<le> Memory b - est cjk (Profile ?c)"
    using fits [of "Memory b - est cjk (Profile ?c)" "InFacts inp"] assms(3) by simp
  moreover have "est cjk (Docs ?c) \<le> RAG b" "est cjk (CurrentRequest ?c) \<le> Conversation b"
    using p fits assms(4,5) by simp_all
  moreover obtain heads n evs where
    "History ?c = heads @ shown cjk (MaxToolResult b) evs"
    "n + msg_tokens cjk (shown cjk (MaxToolResult b) evs) \<le> max 0 (Conversation b - est cjk (CurrentRequest ?c))"
    "msg_tokens cjk heads \<le> n + est cjk task_header + est cjk summary_header"
    "EstimatedTokens ?c = est cjk (Profile ?c) + est cjk (Facts ?c) + est cjk (Docs ?c) + est cjk (CurrentRequest ?c) +
       n + msg_tokens cjk (shown cjk (MaxToolResult b) evs)"
    using p by blast
  ultimately show ?thesis using assms(2) by (auto simp: Validate_def)
qed

text \<open>
  (functional). The history of a context is the transcript, oldest event first: at most two system
  messages (the plan and the summary) and then messages of events in the order of their ids, each
  the message of its event, never one for the current request's own user message; and when nothing
  is reported as truncated, no event that has a message is missing.
\<close>

theorem history_follows_transcript:
  assumes "marker_ok cjk"
  shows "\<exists>heads evs. History (Build cjk b inp) = heads @ shown cjk (MaxToolResult b) evs \<and> length heads \<le> 2 \<and>
    sorted (map EvID evs) \<and>
    subseq evs (filter (relevant cjk (MaxToolResult b) (CurrentRequestID inp)) (sort_key EvID (Events inp))) \<and>
    (Truncated (Build cjk b inp) \<or>
     evs = filter (relevant cjk (MaxToolResult b) (CurrentRequestID inp)) (sort_key EvID (Events inp)))"
proof -
  let ?all = "filter (relevant cjk (MaxToolResult b) (CurrentRequestID inp)) (sort_key EvID (Events inp))"
  have "sorted (map EvID ?all)" by (rule sorted_filter) simp
  then have sorted: "sorted (map EvID evs)" if "subseq evs ?all" for evs
    using subseq_map [OF that, of EvID] sorted_subseq by blast
  from Build_parts [OF assms, of b inp, unfolded parts_ok_def] sorted show ?thesis by metis
qed

subsection \<open>Recovery and compaction\<close>

definition event_cost :: "(rune \<Rightarrow> bool) \<Rightarrow> tevent \<Rightarrow> int" where
  "event_cost cjk e = (if 0 < EvTokens e then EvTokens e else est cjk (EvContent e))"

definition eventTokens :: "(rune \<Rightarrow> bool) \<Rightarrow> tevent list \<Rightarrow> int" where
  "eventTokens cjk es = sum_list (map (event_cost cjk) es)"

text \<open>The loop of splitForTail: how many events, newest first, the tail takes.\<close>

fun tail_length :: "(rune \<Rightarrow> bool) \<Rightarrow> int \<Rightarrow> tevent list \<Rightarrow> int \<Rightarrow> nat" where
  "tail_length cjk tailBudget [] used = 0"
| "tail_length cjk tailBudget (e # es) used =
     (if tailBudget < used + event_cost cjk e then 0 else Suc (tail_length cjk tailBudget es (used + event_cost cjk e)))"

definition splitForTail :: "(rune \<Rightarrow> bool) \<Rightarrow> tevent list \<Rightarrow> int \<Rightarrow> tevent list \<times> tevent list" where
  "splitForTail cjk events tailBudget =
     (let split = length events - tail_length cjk tailBudget (rev events) 0 in (take split events, drop split events))"

record summary =
  Summary :: runes
  ImportantFacts :: "runes list"
  Decisions :: "runes list"
  UnfinishedTasks :: "runes list"

definition checkpointFromSummary ::
    "(rune \<Rightarrow> bool) \<Rightarrow> int \<Rightarrow> string \<Rightarrow> checkpoint option \<Rightarrow> tevent list \<Rightarrow> summary \<Rightarrow> checkpoint" where
  "checkpointFromSummary cjk userID sid previous events s =
     (let start = EvID (hd events);
          start = (case previous of None \<Rightarrow> start | Some p \<Rightarrow> if 0 < CpStart p then CpStart p else start) in
      \<lparr>CpID = 0, CpUser = userID, CpSession = sid, CpSummary = Summary s, CpFacts = ImportantFacts s, CpDecisions = Decisions s,
       CpTasks = UnfinishedTasks s, CpStart = start, CpEnd = EvID (last events), CpTokens = est cjk (Summary s)\<rparr>)"

definition summary_event :: "string \<Rightarrow> string \<Rightarrow> checkpoint \<Rightarrow> tevent" where
  "summary_event sid request c =
     \<lparr>EvID = 0, EvUser = CpUser c, EvSession = sid, EvRequest = request, EvKey = ''summary:'' @ show_int (CpEnd c),
      EvType = ''summary_event'', EvRole = ''system'', EvContent = CpSummary c, EvTokens = CpTokens c\<rparr>"

type_synonym compactor = "checkpoint option \<Rightarrow> tevent list \<Rightarrow> goerr + summary"

text \<open>The compaction inside Recover: the checkpoint and the events that the context is built from.\<close>

definition compact_prefix ::
    "(rune \<Rightarrow> bool) \<Rightarrow> budget \<Rightarrow> compactor option \<Rightarrow> string \<Rightarrow> checkpoint option \<Rightarrow> tevent list \<Rightarrow>
     (checkpoint option \<times> tevent list) session_tx" where
  "compact_prefix cjk b compactor sid cp events =
     (case compactor of
        None \<Rightarrow> tx_return (cp, events)
      | Some compact \<Rightarrow>
          if CompactionTrigger b < eventTokens cjk events then
            (let (front, tail) = splitForTail cjk events (RecentTail b) in
             if 0 < length front then
               (case compact cp front of
                  Inl _ \<Rightarrow> tx_return (cp, events)
                | Inr s \<Rightarrow>
                    if trim (Summary s) \<noteq> [] then
                      (let newCP = checkpointFromSummary cjk (EvUser (hd front)) sid cp front s in
                       tx_bind (SaveSummaryCheckpoint newCP) (\<lambda>_.
                       tx_then (AppendTranscriptEvent (summary_event sid (EvRequest (last front)) newCP)) (\<lambda>_.
                       tx_return (Some newCP, tail))))
                    else tx_return (cp, events))
             else tx_return (cp, events))
          else tx_return (cp, events))"

text \<open>taskState is what ActiveTaskPlanContext answers.\<close>

definition Recover ::
    "(rune \<Rightarrow> bool) \<Rightarrow> budget \<Rightarrow> compactor option \<Rightarrow> goerr + runes \<Rightarrow> string \<Rightarrow> build_input \<Rightarrow> working_context session_tx" where
  "Recover cjk b compactor taskState sid inp =
     tx_bind (LatestSummaryCheckpoint sid) (\<lambda>cp.
     tx_bind (ListTranscriptEvents sid (case cp of None \<Rightarrow> 0 | Some c \<Rightarrow> CpEnd c)) (\<lambda>events.
     tx_bind (compact_prefix cjk b compactor sid cp events) (\<lambda>(cp, events).
       if trim (TaskState inp) = [] then
         (case taskState of
            Inl e \<Rightarrow> tx_fail e
          | Inr ts \<Rightarrow> tx_return (Build cjk b (inp\<lparr>TaskState := ts, Checkpoint := cp, Events := events\<rparr>)))
       else tx_return (Build cjk b (inp\<lparr>Checkpoint := cp, Events := events\<rparr>)))))"

definition AppendMessage ::
    "(rune \<Rightarrow> bool) \<Rightarrow> int \<Rightarrow> string \<Rightarrow> string \<Rightarrow> string \<Rightarrow> string \<Rightarrow> string \<Rightarrow> runes \<Rightarrow> unit session_tx" where
  "AppendMessage cjk userID sid request eventKey eventType role content =
     AppendTranscriptEvent \<lparr>EvID = 0, EvUser = userID, EvSession = sid, EvRequest = request, EvKey = eventKey,
       EvType = eventType, EvRole = role, EvContent = content, EvTokens = est cjk content\<rparr>"

subsection \<open>Nothing is lost\<close>

definition latest_checkpoint :: "string \<Rightarrow> session_world \<Rightarrow> checkpoint option" where
  "latest_checkpoint sid t =
     (case filter (\<lambda>c. CpSession c = sid) (checkpoints t) of [] \<Rightarrow> None | c # cs \<Rightarrow> Some (fold (\<lambda>x y. later y x) cs c))"

text \<open>The events behind a checkpoint, oldest first.\<close>

definition events_behind :: "string \<Rightarrow> checkpoint option \<Rightarrow> session_world \<Rightarrow> tevent list" where
  "events_behind sid cp t =
     sort_key EvID (filter (\<lambda>e. EvSession e = sid \<and> (case cp of None \<Rightarrow> True | Some c \<Rightarrow> CpEnd c < EvID e)) (tevents t))"

text \<open>Event ids are unique, positive and given out; checkpoints end at positive ids.\<close>

definition session_ok :: "session_world \<Rightarrow> bool" where
  "session_ok t \<longleftrightarrow> distinct (map EvID (tevents t)) \<and> (\<forall>e \<in> set (tevents t). 0 < EvID e \<and> EvID e < next_event t) \<and>
     0 < next_event t \<and> (\<forall>c \<in> set (checkpoints t). 0 < CpEnd c)"

lemma fold_later:
  "fold (\<lambda>x y. later y x) cs c \<in> set (c # cs) \<and> (\<forall>x \<in> set (c # cs). CpEnd x \<le> CpEnd (fold (\<lambda>x y. later y x) cs c))"
proof (induction cs arbitrary: c)
  case (Cons d cs)
  from Cons [of "later c d"] show ?case by (auto simp: later_def split: if_splits)
qed simp

lemma latest_in:
  assumes "latest_checkpoint sid t = Some c"
  shows "c \<in> set (checkpoints t)" "CpSession c = sid"
    "x \<in> set (checkpoints t) \<Longrightarrow> CpSession x = sid \<Longrightarrow> CpEnd x \<le> CpEnd c"
proof -
  obtain d ds where d: "filter (\<lambda>c. CpSession c = sid) (checkpoints t) = d # ds" "c = fold (\<lambda>x y. later y x) ds d"
    using assms by (auto simp: latest_checkpoint_def split: list.splits)
  have s: "set (d # ds) = {x \<in> set (checkpoints t). CpSession x = sid}" using d(1) by (metis set_filter)
  with d(2) fold_later [of ds d] show "c \<in> set (checkpoints t)" "CpSession c = sid"
    "x \<in> set (checkpoints t) \<Longrightarrow> CpSession x = sid \<Longrightarrow> CpEnd x \<le> CpEnd c" by blast+
qed

lemma latest_append:
  assumes "CpSession n = sid" and "\<And>c. latest_checkpoint sid t = Some c \<Longrightarrow> CpEnd c < CpEnd n"
  shows "latest_checkpoint sid (t\<lparr>checkpoints := checkpoints t @ [n], next_checkpoint := k\<rparr>) = Some n"
proof -
  have "later c n = n" if "latest_checkpoint sid t = Some c" for c using assms(2) [OF that] by (simp add: later_def)
  with assms(1) show ?thesis
    by (cases "filter (\<lambda>c. CpSession c = sid) (checkpoints t)") (simp_all add: latest_checkpoint_def)
qed

lemma latest_frame [simp]: "latest_checkpoint sid (t\<lparr>tevents := es, next_event := k\<rparr>) = latest_checkpoint sid t"
  by (simp add: latest_checkpoint_def)

lemma tail_within:
  assumes "0 \<le> used" "used \<le> tb"
  shows "used + eventTokens cjk (take (tail_length cjk tb es used) es) \<le> tb"
  using assms
proof (induction es arbitrary: used)
  case (Cons e es)
  have "0 \<le> event_cost cjk e" by (simp add: event_cost_def)
  with Cons.IH [of "used + event_cost cjk e"] Cons.prems show ?case by (auto simp: eventTokens_def add.assoc)
qed (simp add: eventTokens_def)

lemma tail_length_le: "tail_length cjk tb es used \<le> length es"
  by (induction es arbitrary: used) auto

lemma split_tail:
  assumes "splitForTail cjk events tb = (front, tail)"
  shows "front @ tail = events" and "0 \<le> tb \<Longrightarrow> eventTokens cjk tail \<le> tb"
proof -
  let ?n = "tail_length cjk tb (rev events) 0"
  have p: "front = take (length events - ?n) events" "tail = drop (length events - ?n) events"
    using assms by (auto simp: splitForTail_def Let_def)
  then show "front @ tail = events" by simp
  assume "0 \<le> tb"
  have "tail = rev (take ?n (rev events))" using p(2) by (simp add: rev_take)
  then show "eventTokens cjk tail \<le> tb"
    using tail_within [of 0 tb cjk "rev events"] \<open>0 \<le> tb\<close> by (simp add: eventTokens_def rev_map [symmetric])
qed

lemma sorted_behind: "sorted (map EvID (events_behind sid cp t))"
  by (simp add: events_behind_def)

lemma strict_behind: "session_ok t \<Longrightarrow> sorted_wrt (<) (map EvID (events_behind sid cp t))"
  by (simp add: session_ok_def strict_sorted_iff events_behind_def distinct_map_filter del: sorted_sort_key)
     (simp add: distinct_map inj_on_def)

text \<open>What is behind the checkpoint of a front is the rest.\<close>

lemma behind_split:
  assumes ok: "session_ok t" and e: "events_behind sid cp t = front @ rest" and p: "front \<noteq> []" and c: "CpEnd n = EvID (last front)"
  shows "events_behind sid (Some n) t = rest" and "cp = Some c \<Longrightarrow> CpEnd c < CpEnd n"
proof -
  have s: "sorted_wrt (<) (map EvID (front @ rest))" using strict_behind [OF ok, of sid cp] e by simp
  have last: "last front \<in> set front" using p by simp
  then have "last front \<in> set (events_behind sid cp t)" using e by simp
  then show "cp = Some c \<Longrightarrow> CpEnd c < CpEnd n" using assms(4) by (auto simp: events_behind_def)
  have f: "sorted_wrt (<) (map EvID front)" and r: "\<And>x y. x \<in> set front \<Longrightarrow> y \<in> set rest \<Longrightarrow> EvID x < EvID y"
    using s by (auto simp: sorted_wrt_append)
  have below: "\<not> CpEnd n < EvID x" if "x \<in> set front" for x
  proof -
    have "front = butlast front @ [last front]" using p by simp
    with f have "sorted_wrt (<) (map EvID (butlast front) @ [EvID (last front)])" by (metis list.simps(8,9) map_append)
    moreover have "x \<in> set (butlast front) \<or> x = last front" using that by (metis append_butlast_last_id in_set_conv_decomp p rotate1.simps(2) set_ConsD set_rotate1)
    ultimately show ?thesis using c by (auto simp: sorted_wrt_append)
  qed
  have above: "CpEnd n < EvID y" if "y \<in> set rest" for y using r [OF last that] c by simp
  have "events_behind sid (Some n) t = filter (\<lambda>e. CpEnd n < EvID e) (events_behind sid cp t)"
    using \<open>last front \<in> set (events_behind sid cp t)\<close> c
    by (auto simp: events_behind_def filter_sort intro!: arg_cong [of _ _ "sort_key EvID"] filter_cong split: option.splits)
  also have "\<dots> = rest" using below above e by (simp add: filter_empty_conv filter_id_conv)
  finally show "events_behind sid (Some n) t = rest" .
qed

lemma first_latest:
  "firstCheckpoint sid now t = (case latest_checkpoint sid t of None \<Rightarrow> Inl ErrRecordNotFound | Some c \<Rightarrow> Inr c, t)"
  by (simp add: firstCheckpoint_def latest_checkpoint_def split: list.splits)

lemma latest_always:
  "always (LatestSummaryCheckpoint sid) t (\<lambda>r t'. t' = t \<and> (\<forall>cp. r = Inr cp \<longrightarrow> cp = latest_checkpoint sid t))"
  by (auto simp: LatestSummaryCheckpoint_def always_simps first_latest split: option.splits)

lemma list_always:
  assumes "session_ok t" and "cp = latest_checkpoint sid t"
  shows "always (ListTranscriptEvents sid (case cp of None \<Rightarrow> 0 | Some c \<Rightarrow> CpEnd c)) t
    (\<lambda>r t'. t' = t \<and> (\<forall>es. r = Inr es \<longrightarrow> es = events_behind sid cp t))"
proof -
  have "0 < CpEnd c" if "cp = Some c" for c using latest_in(1) [of sid t c] assms that by (auto simp: session_ok_def)
  then show ?thesis
    by (auto simp: ListTranscriptEvents_def always_simps selectEvents_def events_behind_def split: option.split)
qed

text \<open>
  A recovery keeps the session: its context covers every event, either behind the checkpoint it uses
  or in a chain of summaries, each made from the one before and the next part of the transcript.
\<close>

definition summarised ::
    "(rune \<Rightarrow> bool) \<Rightarrow> budget \<Rightarrow> compactor option \<Rightarrow> string \<Rightarrow> session_world \<Rightarrow> checkpoint option \<Rightarrow> tevent list \<Rightarrow> bool" where
  "summarised cjk b compactor sid t cp es \<longleftrightarrow>
     (\<exists>compact front s. compactor = Some compact \<and> front \<noteq> [] \<and>
        events_behind sid (latest_checkpoint sid t) t = front @ es \<and> eventTokens cjk es \<le> RecentTail b \<and>
        compact (latest_checkpoint sid t) front = Inr s \<and> trim (Summary s) \<noteq> [] \<and>
        cp = Some (checkpointFromSummary cjk (EvUser (hd front)) sid (latest_checkpoint sid t) front s))"

definition recovered ::
    "(rune \<Rightarrow> bool) \<Rightarrow> budget \<Rightarrow> compactor option \<Rightarrow> string \<Rightarrow> session_world \<Rightarrow> checkpoint option \<Rightarrow> tevent list \<Rightarrow> session_world \<Rightarrow> bool" where
  "recovered cjk b compactor sid t cp es t' \<longleftrightarrow>
     es = events_behind sid cp t \<and> (cp = latest_checkpoint sid t \<or> summarised cjk b compactor sid t cp es) \<and>
     map_option (\<lambda>c. (CpEnd c, CpSummary c)) (latest_checkpoint sid t') = map_option (\<lambda>c. (CpEnd c, CpSummary c)) cp"

lemma insert_new_checkpoint:
  assumes "CpSession n = sid" and "\<And>c. latest_checkpoint sid t = Some c \<Longrightarrow> CpEnd c < CpEnd n"
  shows "\<exists>k. latest_checkpoint sid (snd (insertCheckpoint n now t)) = Some (n\<lparr>CpID := k\<rparr>)"
proof -
  have "find (same_range n) (checkpoints t) = None"
  proof (rule ccontr)
    assume "find (same_range n) (checkpoints t) \<noteq> None"
    then obtain x where x: "x \<in> set (checkpoints t)" "CpSession x = sid" "CpEnd x = CpEnd n"
      using assms(1) by (auto simp: find_None_iff same_range_def)
    then have "filter (\<lambda>c. CpSession c = sid) (checkpoints t) \<noteq> []" by (auto simp: filter_empty_conv)
    then obtain c where c: "latest_checkpoint sid t = Some c"
      by (cases "filter (\<lambda>c. CpSession c = sid) (checkpoints t)") (auto simp: latest_checkpoint_def)
    from latest_in(3) [OF c x(1,2)] assms(2) [OF c] x(3) show False by simp
  qed
  then have "snd (insertCheckpoint n now t) =
      t\<lparr>checkpoints := checkpoints t @ [n\<lparr>CpID := next_checkpoint t\<rparr>], next_checkpoint := next_checkpoint t + 1\<rparr>"
    by (simp add: insertCheckpoint_def)
  moreover have "latest_checkpoint sid (t\<lparr>checkpoints := checkpoints t @ [n\<lparr>CpID := next_checkpoint t\<rparr>],
      next_checkpoint := next_checkpoint t + 1\<rparr>) = Some (n\<lparr>CpID := next_checkpoint t\<rparr>)"
    by (rule latest_append) (use assms in auto)
  ultimately show ?thesis by auto
qed

lemma append_frame: "always (AppendTranscriptEvent e) t (\<lambda>r t'. latest_checkpoint sid t' = latest_checkpoint sid t)"
  by (auto simp: AppendTranscriptEvent_def always_simps insertEvent_def)

lemma compact_always:
  assumes ok: "session_ok t" and b: "0 \<le> RecentTail b"
  shows "always (compact_prefix cjk b compactor sid (latest_checkpoint sid t) (events_behind sid (latest_checkpoint sid t) t)) t
    (\<lambda>r t'. \<forall>cp es. r = Inr (cp, es) \<longrightarrow> recovered cjk b compactor sid t cp es t')"
proof -
  let ?cp = "latest_checkpoint sid t"
  let ?es = "events_behind sid ?cp t"
  let ?Q = "\<lambda>r t'. \<forall>cp es. r = Inr (cp, es) \<longrightarrow> recovered cjk b compactor sid t cp es t'"
  have same: "always (tx_return (?cp, ?es)) t ?Q" by (simp add: always_simps recovered_def)
  obtain front tail where f: "splitForTail cjk ?es (RecentTail b) = (front, tail)" by fastforce
  note sp = split_tail(1) [OF f] split_tail(2) [OF f b]
  have new: "always (tx_bind (SaveSummaryCheckpoint n) (\<lambda>_. tx_then (AppendTranscriptEvent e) (\<lambda>_. tx_return (Some n, tail)))) t ?Q"
    if "compactor = Some compact" "compact ?cp front = Inr s" "trim (Summary s) \<noteq> []" "front \<noteq> []"
      and n: "n = checkpointFromSummary cjk (EvUser (hd front)) sid ?cp front s" for compact s n e
  proof -
    have end_n: "CpEnd n = EvID (last front)" and ses: "CpSession n = sid" using n by (simp_all add: checkpointFromSummary_def Let_def)
    have behind: "events_behind sid (Some n) t = tail" and less: "\<And>c. ?cp = Some c \<Longrightarrow> CpEnd c < CpEnd n"
      using behind_split [OF ok sp(1) [symmetric] that(4) end_n] by auto
    have "summarised cjk b compactor sid t (Some n) tail"
      using that sp by (auto simp: summarised_def)
    then have r: "recovered cjk b compactor sid t (Some n) tail t'" if "latest_checkpoint sid t' = Some (n\<lparr>CpID := k\<rparr>)" for t' k
      using that behind by (simp add: recovered_def)
    have "always (stmt (insertCheckpoint n)) t (\<lambda>r t'. \<forall>u. r = Inr u \<longrightarrow> (\<exists>k. latest_checkpoint sid t' = Some (n\<lparr>CpID := k\<rparr>)))"
      using insert_new_checkpoint [OF ses less] by (auto simp: always_simps split_beta)
    then have "always (SaveSummaryCheckpoint n) t (\<lambda>r t'. \<forall>u. r = Inr u \<longrightarrow> (\<exists>k. latest_checkpoint sid t' = Some (n\<lparr>CpID := k\<rparr>)))"
      by (simp add: SaveSummaryCheckpoint_def always_simps)
    then show ?thesis
    proof (rule always_bind)
      fix u t1 assume "\<forall>x. Inr u = Inr x \<longrightarrow> (\<exists>k. latest_checkpoint sid t1 = Some (n\<lparr>CpID := k\<rparr>))"
      then obtain k where k: "latest_checkpoint sid t1 = Some (n\<lparr>CpID := k\<rparr>)" by auto
      show "always (tx_then (AppendTranscriptEvent e) (\<lambda>_. tx_return (Some n, tail))) t1 ?Q"
        by (rule always_then, rule always_mono [OF append_frame [of e t1 sid]]) (use k r in \<open>auto simp: always_simps\<close>)
    qed simp
  qed
  show ?thesis
    using same new sp
    by (cases compactor) (auto simp: compact_prefix_def f Let_def split: sum.split)
qed

lemma fetch_always:
  assumes "session_ok t"
    and that: "always (compact_prefix cjk b compactor sid (latest_checkpoint sid t) (events_behind sid (latest_checkpoint sid t) t)) t Q"
      "\<And>e. Q (Inl e) t"
  shows "always (tx_bind (LatestSummaryCheckpoint sid) (\<lambda>cp.
      tx_bind (ListTranscriptEvents sid (case cp of None \<Rightarrow> 0 | Some c \<Rightarrow> CpEnd c)) (\<lambda>events.
      compact_prefix cjk b compactor sid cp events))) t Q"
proof (rule always_bind [OF latest_always])
  fix cp t' assume "t' = t \<and> (\<forall>c. Inr cp = Inr c \<longrightarrow> c = latest_checkpoint sid t)"
  then have c: "t' = t" "cp = latest_checkpoint sid t" by auto
  show "always (tx_bind (ListTranscriptEvents sid (case cp of None \<Rightarrow> 0 | Some c \<Rightarrow> CpEnd c))
      (\<lambda>events. compact_prefix cjk b compactor sid cp events)) t' Q"
    unfolding c(1) by (rule always_bind [OF list_always [OF assms(1) c(2)]]) (use that c in auto)
qed (use that(2) in auto)

lemma bind_assoc: "tx_bind (tx_bind m k) l = tx_bind m (\<lambda>x. tx_bind (k x) l)"
  by (auto simp: tx_bind_def tx_then_def fun_eq_iff tx_fail_def split: prod.splits sum.splits)

text \<open>
  C10 (refinement). Recovery loses nothing of a session, whatever the compactor answers and whichever
  statement fails: the context that Recover returns is Build's on a checkpoint and events such that
  the events are exactly those behind the checkpoint, and the checkpoint is either the session's
  latest or a new one. A new one is the compactor's non-blank summary of the latest checkpoint and of
  a non-empty part of the transcript that, put before the events used, gives all events behind the
  latest checkpoint; what it leaves fits the recent tail. In either case the checkpoint that is
  stored after the recovery has the same end and the same summary as the one used, so the next
  recovery goes on where this one stopped.
\<close>

theorem recover_loses_nothing:
  assumes "session_ok (tables s)" and "0 \<le> RecentTail b"
    and "Recover cjk b compactor taskState sid inp s = (Inr c, s')"
  shows "\<exists>cp es ts. c = Build cjk b (inp\<lparr>TaskState := ts, Checkpoint := cp, Events := es\<rparr>) \<and>
    recovered cjk b compactor sid (tables s) cp es (tables s')"
proof -
  let ?t = "tables s"
  let ?R = "\<lambda>r t'. \<forall>cp es. r = Inr (cp, es) \<longrightarrow> recovered cjk b compactor sid ?t cp es t'"
  let ?Q = "\<lambda>r t'. \<forall>c. r = Inr c \<longrightarrow> (\<exists>cp es ts. c = Build cjk b (inp\<lparr>TaskState := ts, Checkpoint := cp, Events := es\<rparr>) \<and>
      recovered cjk b compactor sid ?t cp es t')"
  define fetch where "fetch = tx_bind (LatestSummaryCheckpoint sid) (\<lambda>cp.
      tx_bind (ListTranscriptEvents sid (case cp of None \<Rightarrow> 0 | Some c \<Rightarrow> CpEnd c)) (\<lambda>events.
      compact_prefix cjk b compactor sid cp events))"
  define answer where "answer = (\<lambda>(cp, events).
       if trim (TaskState inp) = [] then
         (case taskState of
            Inl e \<Rightarrow> tx_fail e
          | Inr ts \<Rightarrow> tx_return (Build cjk b (inp\<lparr>TaskState := ts, Checkpoint := cp, Events := events\<rparr>)))
       else tx_return (Build cjk b (inp\<lparr>Checkpoint := cp, Events := events\<rparr>) :: working_context) :: working_context session_tx)"
  have split: "Recover cjk b compactor taskState sid inp = tx_bind fetch answer"
    by (simp add: Recover_def fetch_def answer_def bind_assoc)
  have keep: "\<exists>ts. Build cjk b (inp\<lparr>Checkpoint := cp, Events := es\<rparr>) = Build cjk b (inp\<lparr>TaskState := ts, Checkpoint := cp, Events := es\<rparr>)"
    for cp es by (rule exI [of _ "TaskState inp"]) simp
  have "always fetch ?t ?R"
    unfolding fetch_def by (rule fetch_always [OF assms(1) compact_always [OF assms(1,2)]]) simp
  then have "always (tx_bind fetch answer) ?t ?Q"
  proof (rule always_bind)
    fix x t' assume r: "\<forall>cp es. Inr x = Inr (cp, es) \<longrightarrow> recovered cjk b compactor sid ?t cp es t'"
    obtain cp es where x: "x = (cp, es)" by fastforce
    with r have "recovered cjk b compactor sid ?t cp es t'" by simp
    define good where "good c \<longleftrightarrow> (\<exists>cp es ts. c = Build cjk b (inp\<lparr>TaskState := ts, Checkpoint := cp, Events := es\<rparr>) \<and>
        recovered cjk b compactor sid ?t cp es t')" for c
    have "good (Build cjk b (inp\<lparr>Checkpoint := cp, Events := es\<rparr>))"
      "\<And>ts. good (Build cjk b (inp\<lparr>TaskState := ts, Checkpoint := cp, Events := es\<rparr>))"
      using keep [of es cp] \<open>recovered cjk b compactor sid ?t cp es t'\<close> unfolding good_def by blast+
    then have "always (answer x) t' (\<lambda>r t''. t'' = t' \<and> (\<forall>c. r = Inr c \<longrightarrow> good c))"
      unfolding x answer_def by (cases taskState) (simp_all add: always_simps)
    then show "always (answer x) t' ?Q" by (rule always_mono) (simp add: good_def)
  qed simp
  from alwaysD [OF this, of "Inr c" s'] assms(3) split show ?thesis by simp
qed

definition memory_budget :: budget where
  "memory_budget = DefaultBudget\<lparr>CompactionTrigger := 4, RecentTail := 3\<rparr>"

definition old_event :: tevent where
  "old_event = \<lparr>EvID = 1, EvUser = 7, EvSession = ''s'', EvRequest = ''r1'', EvKey = ''k1'', EvType = ''user_message'',
     EvRole = ''user'', EvContent = ascii ''hello'', EvTokens = 2\<rparr>"

definition new_event :: tevent where
  "new_event = old_event\<lparr>EvID := 2, EvRequest := ''r2'', EvKey := ''k2'', EvTokens := 3\<rparr>"

definition two_events :: session_world where
  "two_events = \<lparr>tevents = [old_event, new_event], checkpoints = [], next_event = 3, next_checkpoint = 1\<rparr>"

definition old_summary :: summary where
  "old_summary = \<lparr>Summary = ascii ''greeted'', ImportantFacts = [], Decisions = [], UnfinishedTasks = []\<rparr>"

lemmas memory_defs = memory_budget_def DefaultBudget_def old_event_def new_event_def two_events_def old_summary_def

theorem recover_loses_nothing_witness:
  "\<exists>c s' cp es. Recover unified_ideograph memory_budget (Some (\<lambda>_ _. Inr old_summary)) (Inr []) ''s''
      \<lparr>InProfile = [], InFacts = [], InDocs = [], TaskState = [], CurrentRequestID = '''', InRequest = [], Checkpoint = None, Events = []\<rparr>
      (quiet 0 two_events) = (Inr c, s') \<and>
    recovered unified_ideograph memory_budget (Some (\<lambda>_ _. Inr old_summary)) ''s'' two_events cp es (tables s') \<and>
    map CpEnd (checkpoints (tables s')) = [1]"
proof -
  let ?inp = "\<lparr>InProfile = [], InFacts = [], InDocs = [], TaskState = [], CurrentRequestID = '''', InRequest = [], Checkpoint = None, Events = []\<rparr>"
  let ?run = "Recover unified_ideograph memory_budget (Some (\<lambda>_ _. Inr old_summary)) (Inr []) ''s'' ?inp (quiet 0 two_events)"
  have ev: "eventTokens unified_ideograph [old_event, new_event] = 5" "splitForTail unified_ideograph [old_event, new_event] 3 = ([old_event], [new_event])"
    by (simp_all add: eventTokens_def splitForTail_def event_cost_def old_event_def new_event_def)
  have ok: "session_ok (tables (quiet 0 two_events))" by (simp add: session_ok_def memory_defs)
  have r: "\<exists>c s'. ?run = (Inr c, s') \<and> map CpEnd (checkpoints (tables s')) = [1]"
  proof -
    have "LatestSummaryCheckpoint ''s'' (quiet 0 two_events) = (Inr None, quiet 0 two_events)"
      by (simp add: LatestSummaryCheckpoint_def tx_then_def tx_return_def firstCheckpoint_def two_events_def)
    moreover have "ListTranscriptEvents ''s'' 0 (quiet 0 two_events) = (Inr [old_event, new_event], quiet 0 two_events)"
      by (simp add: ListTranscriptEvents_def selectEvents_def memory_defs)
    moreover have "\<exists>cp s'. compact_prefix unified_ideograph memory_budget (Some (\<lambda>_ _. Inr old_summary)) ''s'' None [old_event, new_event]
        (quiet 0 two_events) = (Inr (cp, [new_event]), s') \<and> map CpEnd (checkpoints (tables s')) = [1]"
      by (simp add: compact_prefix_def memory_budget_def DefaultBudget_def ev)
        (simp add: trim_Nil rune_space_def old_summary_def ascii_def tx_bind_def tx_then_def tx_return_def SaveSummaryCheckpoint_def
          checkpointFromSummary_def Let_def AppendTranscriptEvent_def insertCheckpoint_def insertEvent_def summary_event_def same_range_def memory_defs)
    ultimately show ?thesis
      by (auto simp: Recover_def tx_bind_def tx_then_def tx_return_def trim_Nil)
  qed
  then obtain c s' where c: "?run = (Inr c, s')" "map CpEnd (checkpoints (tables s')) = [1]" by (elim exE conjE)
  have "0 \<le> RecentTail memory_budget" by (simp add: memory_defs)
  from recover_loses_nothing [OF ok this c(1)] obtain cp es where
    "recovered unified_ideograph memory_budget (Some (\<lambda>_ _. Inr old_summary)) ''s'' two_events cp es (tables s')"
    unfolding tables_quiet by (elim exE conjE)
  with c show ?thesis by (intro exI conjI)
qed

text \<open>A request with a long text and a transcript of one event.\<close>

definition long_input :: build_input where
  "long_input = \<lparr>InProfile = ascii ''student'', InFacts = [], InDocs = replicate 9000 0x8bfe, TaskState = [],
     CurrentRequestID = ''r9'', InRequest = replicate 20000 0x8bfe, Checkpoint = None, Events = [old_event]\<rparr>"

theorem context_fits_model_witness:
  "5000 + EstimatedTokens (Build unified_ideograph DefaultBudget long_input) + 4000 \<le> 32768 \<and>
   fst (truncateToTokens unified_ideograph (InRequest long_input) 3) = marker"
  using context_fits_model [OF ideographs_ok, of DefaultBudget long_input] marker_tokens [OF ideographs_ok]
  by (simp add: DefaultBudget_def Validate_def long_input_def truncateToTokens_def estimate_eq count_replicate
      unified_ideograph_def is_ascii_def is_other_def)

theorem history_follows_transcript_witness:
  "\<exists>heads evs. History (Build unified_ideograph DefaultBudget long_input) = heads @ shown unified_ideograph 1200 evs \<and>
     subseq evs [old_event]"
proof -
  have "filter (relevant unified_ideograph 1200 ''r9'') (sort_key EvID [old_event]) = [old_event]"
    by (simp add: relevant_def eventMessage_def old_event_def)
  moreover have "MaxToolResult DefaultBudget = 1200" "CurrentRequestID long_input = ''r9''" "Events long_input = [old_event]"
    by (simp_all add: DefaultBudget_def long_input_def)
  ultimately show ?thesis
    using history_follows_transcript [OF ideographs_ok, of DefaultBudget long_input] by (metis (no_types, lifting))
qed

subsection \<open>The session invariant\<close>

lemma session_statements [intro]:
  "keeps session_ok (AppendTranscriptEvent e)" "keeps session_ok (ListTranscriptEvents sid after)"
  "keeps session_ok (LatestSummaryCheckpoint sid)" "keeps session_ok (SaveSummaryCheckpoint c)"
proof -
  have "session_ok (snd (insertEvent e now t))" if "session_ok t" for now t
    using that by (auto simp: session_ok_def insertEvent_def)
  then show "keeps session_ok (AppendTranscriptEvent e)"
    unfolding AppendTranscriptEvent_def by (intro yields_if yields_fail keeps_stmt)
  show "keeps session_ok (ListTranscriptEvents sid after)"
    unfolding ListTranscriptEvents_def by (intro keeps_stmt) (simp add: selectEvents_def)
  show "keeps session_ok (LatestSummaryCheckpoint sid)"
    unfolding LatestSummaryCheckpoint_def by (intro keeps_rules keeps_stmt) (auto simp: firstCheckpoint_def)
  have "keeps session_ok (stmt (insertCheckpoint c))" if "0 < CpEnd c"
    by (intro keeps_stmt) (use that in \<open>auto simp: session_ok_def insertCheckpoint_def\<close>)
  then show "keeps session_ok (SaveSummaryCheckpoint c)"
    unfolding SaveSummaryCheckpoint_def by (intro yields_if yields_fail) simp
qed

lemma Recover_keeps: "keeps session_ok (Recover cjk b compactor taskState sid inp)"
  unfolding Recover_def compact_prefix_def by (intro keeps_rules session_statements)

text \<open>
  (invariant). The session memory stays well formed: whatever the driver and the compactor do, after
  any sequence of recoveries and appended messages the ids of the transcript are distinct, positive
  and below the sequence, and every checkpoint ends at a positive id; it is what the recovery needs
  to lose nothing, so it holds for every recovery of a session that started empty.
\<close>

theorem session_stays_ok:
  "session_ok (tables s) \<Longrightarrow>
     session_ok (tables (fold (\<lambda>q s. case q of
         Inl (userID, sid, request, k, ty, role, content) \<Rightarrow> snd (AppendMessage cjk userID sid request k ty role content s)
       | Inr (taskState, sid, inp) \<Rightarrow> snd (Recover cjk b compactor taskState sid inp s)) qs s))"
proof (induction qs arbitrary: s)
  case (Cons q qs)
  have "session_ok (tables (snd (AppendMessage cjk userID sid request k ty role content s)))" for userID sid request k ty role content
    using yieldsD [OF session_statements(1) Cons.prems] unfolding AppendMessage_def by (metis prod.collapse)
  moreover have "session_ok (tables (snd (Recover cjk b compactor taskState sid inp s)))" for taskState sid inp
    using yieldsD [OF Recover_keeps Cons.prems] by (metis prod.collapse)
  ultimately show ?case using Cons.IH by (auto split: sum.split)
qed simp

theorem session_stays_ok_witness:
  "session_ok (tables (fold (\<lambda>q s. case q of
         Inl (userID, sid, request, k, ty, role, content) \<Rightarrow> snd (AppendMessage unified_ideograph userID sid request k ty role content s)
       | Inr (taskState, sid, inp) \<Rightarrow> snd (Recover unified_ideograph DefaultBudget None taskState sid inp s))
     [Inl (7, ''s'', ''r3'', ''k3'', ''user_message'', ''user'', ascii ''again''), Inr (Inr [], ''s'', long_input)]
     (quiet 0 two_events)))"
  by (rule session_stays_ok) (simp add: session_ok_def memory_defs)

subsection \<open>The compactors\<close>

definition summary_prefix :: runes where
  "summary_prefix = [0x5df2, 0x6709, 0x6458, 0x8981, 0xff1a]"

text \<open>strings.Join.\<close>

fun join :: "runes \<Rightarrow> runes list \<Rightarrow> runes" where
  "join sep [] = []"
| "join sep [t] = t"
| "join sep (t # u # ts) = t @ sep @ join sep (u # ts)"

definition event_excerpt :: "(rune \<Rightarrow> bool) \<Rightarrow> tevent \<Rightarrow> runes" where
  "event_excerpt cjk e = ascii (EvType e) @ ascii '': '' @ fst (truncateToTokens cjk (EvContent e) 160)"

definition DeterministicCompactor :: "(rune \<Rightarrow> bool) \<Rightarrow> int \<Rightarrow> compactor" where
  "DeterministicCompactor cjk MaxTokens previous events =
     (let maxTokens = (if MaxTokens \<le> 0 then 1200 else MaxTokens);
          parts = (case previous of
              None \<Rightarrow> []
            | Some p \<Rightarrow> if CpSummary p \<noteq> [] then [summary_prefix @ CpSummary p] else []) @
            map (event_excerpt cjk)
              (filter (\<lambda>e. EvType e = ''user_message'' \<or> EvType e = ''assistant_message'' \<or> EvType e = ''tool_result'') events);
          text = fst (truncateToTokens cjk (join [10] parts) maxTokens)
      in Inr \<lparr>Summary = text, ImportantFacts = [], Decisions = [], UnfinishedTasks = []\<rparr>)"

text \<open>strings.Index and strings.LastIndex of one character.\<close>

definition index_of :: "rune \<Rightarrow> runes \<Rightarrow> int" where
  "index_of r t = (if r \<in> set t then int (length (takeWhile (\<lambda>x. x \<noteq> r) t)) else - 1)"

definition last_index_of :: "rune \<Rightarrow> runes \<Rightarrow> int" where
  "last_index_of r t = (if r \<in> set t then int (length t) - 1 - int (length (takeWhile (\<lambda>x. x \<noteq> r) (rev t))) else - 1)"

definition parseSummary :: "(runes \<Rightarrow> goerr + summary) \<Rightarrow> runes \<Rightarrow> goerr + summary" where
  "parseSummary unmarshal raw =
     (let raw = trim raw;
          start = index_of 123 raw;
          end = last_index_of 125 raw in
      if start < 0 \<or> end \<le> start then Inl (ErrNew ''summary output does not contain JSON object'')
      else case unmarshal (drop (nat start) (take (nat (end + 1)) raw)) of
          Inl err \<Rightarrow> Inl err
        | Inr s \<Rightarrow> if trim (Summary s) = [] then Inl (ErrNew ''summary is empty'') else Inr s)"

text \<open>
  A request to the model is its system prompt with the user message's variable parts; the model
  answers the n-th request of a compaction, or fails.
\<close>

datatype prompt =
  Compress runes
| Repair goerr runes

type_synonym chat_model = "nat \<Rightarrow> prompt \<Rightarrow> goerr + runes"

text \<open>The repair loop: how many requests were made in all, and the summary or the error it ends with.\<close>

fun repair :: "chat_model \<Rightarrow> (runes \<Rightarrow> goerr + summary) \<Rightarrow> nat \<Rightarrow> nat \<Rightarrow> goerr \<Rightarrow> runes \<Rightarrow> nat \<times> (goerr + summary)" where
  "repair generate unmarshal 0 n parseErr resp = (n, Inl parseErr)"
| "repair generate unmarshal (Suc attempts) n parseErr resp =
     (case generate n (Repair parseErr resp) of
        Inl err \<Rightarrow> (Suc n, Inl err)
      | Inr resp \<Rightarrow>
          (case parseSummary unmarshal resp of
             Inr s \<Rightarrow> (Suc n, Inr s)
           | Inl parseErr \<Rightarrow> repair generate unmarshal attempts (Suc n) parseErr resp))"

definition compact_fallback :: "compactor option \<Rightarrow> checkpoint option \<Rightarrow> tevent list \<Rightarrow> goerr \<Rightarrow> goerr + summary" where
  "compact_fallback fb previous events cause = (case fb of Some f \<Rightarrow> f previous events | None \<Rightarrow> Inl cause)"

text \<open>ModelCompactor.Compact, with the number of requests to the model. marshal encodes the payload.\<close>

definition Compact ::
    "chat_model option \<Rightarrow> (runes \<Rightarrow> tevent list \<Rightarrow> goerr + runes) \<Rightarrow> (runes \<Rightarrow> goerr + summary) \<Rightarrow> int \<Rightarrow> compactor option \<Rightarrow>
     checkpoint option \<Rightarrow> tevent list \<Rightarrow> nat \<times> (goerr + summary)" where
  "Compact model marshal unmarshal RepairAttempts fb previous events =
     (case model of
        None \<Rightarrow> (0, compact_fallback fb previous events (ErrNew ''nil compaction model''))
      | Some generate \<Rightarrow>
          (case marshal (case previous of None \<Rightarrow> [] | Some p \<Rightarrow> CpSummary p) events of
             Inl err \<Rightarrow> (0, Inl err)
           | Inr raw \<Rightarrow>
               (case generate 0 (Compress raw) of
                  Inl err \<Rightarrow> (1, compact_fallback fb previous events err)
                | Inr resp \<Rightarrow>
                    (let attempts = (if RepairAttempts \<le> 0 then 2 else RepairAttempts);
                         (n, r) = (case parseSummary unmarshal resp of
                             Inr s \<Rightarrow> (1, Inr s)
                           | Inl parseErr \<Rightarrow> repair generate unmarshal (nat attempts) 1 parseErr resp)
                     in case r of
                          Inr s \<Rightarrow> (n, Inr s)
                        | Inl err \<Rightarrow> (n, compact_fallback fb previous events err)))))"

text \<open>A summary the model gave: read from one of its replies, and not blank.\<close>

definition from_model :: "chat_model \<Rightarrow> (runes \<Rightarrow> goerr + summary) \<Rightarrow> nat \<Rightarrow> summary \<Rightarrow> bool" where
  "from_model generate unmarshal n s \<longleftrightarrow>
     trim (Summary s) \<noteq> [] \<and> (\<exists>q resp. 0 < n \<and> generate (n - 1) q = Inr resp \<and> parseSummary unmarshal resp = Inr s)"

lemma parseSummary_not_blank: "parseSummary unmarshal raw = Inr s \<Longrightarrow> trim (Summary s) \<noteq> []"
  by (auto simp: parseSummary_def Let_def split: if_splits sum.splits)

lemma repair_spec:
  assumes "repair generate unmarshal attempts n e resp = (n', r)"
  shows "n' \<le> n + attempts \<and> (case r of Inl _ \<Rightarrow> True | Inr s \<Rightarrow> from_model generate unmarshal n' s)"
  using assms
proof (induction attempts arbitrary: n e resp)
  case (Suc k)
  show ?case
  proof (cases "generate n (Repair e resp)")
    case (Inr new)
    show ?thesis
    proof (cases "parseSummary unmarshal new")
      case (Inl e')
      with Inr Suc.prems Suc.IH [of "Suc n" e' new] show ?thesis by simp
    next
      case p: (Inr s)
      with Inr have "from_model generate unmarshal (Suc n) s" using parseSummary_not_blank [OF p] by (auto simp: from_model_def)
      moreover have "n' = Suc n" "r = Inr s" using Suc.prems Inr p by simp_all
      ultimately show ?thesis by simp
    qed
  next
    case (Inl e')
    then have "n' = Suc n" "r = Inl e'" using Suc.prems by simp_all
    then show ?thesis by simp
  qed
qed auto

lemma truncate_total: "\<exists>s. DeterministicCompactor cjk m previous events = Inr s"
  by (simp add: DeterministicCompactor_def Let_def)

lemma deterministic_bound:
  assumes "marker_ok cjk" and "DeterministicCompactor cjk m previous events = Inr s"
  shows "est cjk (Summary s) \<le> (if m \<le> 0 then 1200 else max 3 m)"
proof -
  let ?m = "if m \<le> 0 then 1200 else m"
  obtain t where "Summary s = fst (truncateToTokens cjk t ?m)"
    using assms(2) by (auto simp: DeterministicCompactor_def Let_def)
  with truncate_fits [OF assms(1), of t ?m] show ?thesis by (simp split: if_splits)
qed

text \<open>
  C37 (error). A compaction always comes back with a usable answer: with the deterministic fallback,
  whatever the language model and the JSON decoder do, the model is asked at most once plus the
  repair attempts (twice by default), and unless the payload cannot be encoded the result is a
  summary: either one that a reply of the model holds and that is not blank, or the fallback's
  excerpt, whose estimate is within its bound.
\<close>

theorem compaction_answers:
  assumes "marker_ok cjk" and "m \<le> 0 \<or> 3 \<le> m"
    and "Compact model marshal unmarshal attempts (Some (DeterministicCompactor cjk m)) previous events = (n, r)"
  shows "int n \<le> 1 + (if attempts \<le> 0 then 2 else attempts) \<and>
    (case r of
       Inl e \<Rightarrow> marshal (case previous of None \<Rightarrow> [] | Some p \<Rightarrow> CpSummary p) events = Inl e
     | Inr s \<Rightarrow> (case model of None \<Rightarrow> False | Some generate \<Rightarrow> from_model generate unmarshal n s) \<or>
         Inr s = DeterministicCompactor cjk m previous events \<and> est cjk (Summary s) \<le> (if m \<le> 0 then 1200 else m))"
proof -
  obtain d where d: "DeterministicCompactor cjk m previous events = Inr d" using truncate_total by blast
  then have bound: "est cjk (Summary d) \<le> (if m \<le> 0 then 1200 else m)"
    using deterministic_bound [OF assms(1) d] assms(2) by (auto split: if_splits)
  have fb: "compact_fallback (Some (DeterministicCompactor cjk m)) previous events e = Inr d" for e
    by (simp add: compact_fallback_def d)
  note run = assms(3)
  show ?thesis
  proof (cases model)
    case None
    then have "n = 0" "r = Inr d" using run fb by (simp_all add: Compact_def)
    then show ?thesis using d bound by auto
  next
    case (Some generate)
    let ?prev = "case previous of None \<Rightarrow> [] | Some p \<Rightarrow> CpSummary p"
    let ?k = "if attempts \<le> 0 then 2 else attempts"
    show ?thesis
    proof (cases "marshal ?prev events")
      case (Inl e)
      then have "n = 0" "r = Inl e" using run Some by (simp_all add: Compact_def)
      then show ?thesis using Inl by auto
    next
      case raw: (Inr raw)
      show ?thesis
      proof (cases "generate 0 (Compress raw)")
        case (Inl e)
        then have "n = 1" "r = Inr d" using run Some raw fb by (simp_all add: Compact_def)
        then show ?thesis using d bound by auto
      next
        case resp: (Inr resp)
        obtain n' r' where l: "(case parseSummary unmarshal resp of Inr s \<Rightarrow> (1, Inr s)
            | Inl e \<Rightarrow> repair generate unmarshal (nat ?k) 1 e resp) = (n', r')" by fastforce
        have l': "n' \<le> 1 + nat ?k \<and> (case r' of Inl _ \<Rightarrow> True | Inr s \<Rightarrow> from_model generate unmarshal n' s)"
        proof (cases "parseSummary unmarshal resp")
          case p: (Inr s)
          then have "n' = 1" "r' = Inr s" using l by simp_all
          then show ?thesis using p resp parseSummary_not_blank [OF p] by (auto simp: from_model_def)
        next
          case (Inl e)
          with l repair_spec [of generate unmarshal "nat ?k" 1 e resp n' r'] show ?thesis by simp
        qed
        have "(n, r) = (case r' of Inr s \<Rightarrow> (n', Inr s) | Inl e \<Rightarrow> (n', Inr d))"
          using run Some raw resp l fb by (simp add: Compact_def Let_def)
        with l' Some d bound show ?thesis by (cases r') (auto split: if_splits)
      qed
    qed
  qed
qed

text \<open>A model whose first reply is cut off and whose repair is good.\<close>

theorem compaction_answers_witness:
  "Compact (Some (\<lambda>n q. case q of Compress t \<Rightarrow> Inr (ascii ''{cut'') | Repair e t \<Rightarrow> Inr (ascii ''{x}''))) (\<lambda>p es. Inr [])
     (\<lambda>t. Inr old_summary) 0 (Some (DeterministicCompactor unified_ideograph 0)) None [old_event] = (2, Inr old_summary) \<and>
   (from_model (\<lambda>n q. case q of Compress t \<Rightarrow> Inr (ascii ''{cut'') | Repair e t \<Rightarrow> Inr (ascii ''{x}''))
     (\<lambda>t. Inr old_summary) 2 old_summary \<or>
    Inr old_summary = DeterministicCompactor unified_ideograph 0 None [old_event])"
proof -
  let ?gen = "\<lambda>n q. case q of Compress t \<Rightarrow> Inr (ascii ''{cut'') | Repair e t \<Rightarrow> Inr (ascii ''{x}'')"
  have run: "Compact (Some ?gen) (\<lambda>p es. Inr []) (\<lambda>t. Inr old_summary) 0 (Some (DeterministicCompactor unified_ideograph 0)) None [old_event]
      = (2, Inr old_summary)"
    by (simp add: Compact_def parseSummary_def index_of_def last_index_of_def ascii_def trim_def rune_space_def old_summary_def
        numeral_2_eq_2)
  then show ?thesis
    using compaction_answers [OF ideographs_ok _ run] by auto
qed

end
