(* ===== verification/Tool_Runtime.thy ===== *)
theory Tool_Runtime
  imports Prelude Complex_Main
begin

text \<open>
  The tool runtime of the agent (src/internal/rpc/agent/toolruntime: runtime.go, progress.go and
  repair.go, with trace/trace.go and IsTransient of dependency/manager.go): the registry of tools,
  the authorization of a call, the call itself with its retries, the validation and repair of its
  output, the trace counters and the progress tracker. The tools, the repair model, encoding/json
  and the JSON schemas are parameters; the classes of an error (HTTP, network, gRPC) are what the
  parameter error_view reads from it. Strings are bytes.
\<close>

subsection \<open>Transient errors\<close>

record error_view =
  http_status :: "goerr \<Rightarrow> int option"
  net_error :: "goerr \<Rightarrow> (bool \<times> bool) option"
  grpc_code :: "goerr \<Rightarrow> string"

definition IsTransient :: "error_view \<Rightarrow> goerr \<Rightarrow> bool" where
  "IsTransient v err =
     (if err_is err Canceled then False
      else if err_is err DeadlineExceeded then True
      else case http_status v err of
          Some code \<Rightarrow> code = 429 \<or> 500 \<le> code
        | None \<Rightarrow>
            (case net_error v err of
               Some (timeout, temporary) \<Rightarrow> timeout \<or> temporary
             | None \<Rightarrow> grpc_code v err \<in> {''Unavailable'', ''DeadlineExceeded'', ''ResourceExhausted''}))"

subsection \<open>The trace of a run\<close>

record trace_entry =
  TeType :: string
  TeName :: string
  TeStatus :: string

record transcript_entry =
  TrUser :: int
  TrSession :: string
  TrRequest :: string
  TrKey :: string
  TrType :: string
  TrContent :: string

text \<open>The counters of a run, and what it has handed to its store.\<close>

record trun =
  RunUser :: int
  RunSession :: string
  RunRequest :: string
  toolCalls :: "(string \<times> int) list"
  steps :: int
  errors :: int
  retries :: int
  fallbacks :: int
  run_sequence :: int
  traced :: "trace_entry list"
  transcribed :: "transcript_entry list"

definition NewRun :: "string \<Rightarrow> string \<Rightarrow> int \<Rightarrow> trun" where
  "NewRun sid request userID =
     \<lparr>RunUser = userID, RunSession = sid, RunRequest = request, toolCalls = [], steps = 0, errors = 0, retries = 0,
      fallbacks = 0, run_sequence = 0, traced = [], transcribed = []\<rparr>"

fun bump :: "string \<Rightarrow> (string \<times> int) list \<Rightarrow> (string \<times> int) list" where
  "bump name [] = [(name, 1)]"
| "bump name ((n, c) # cs) = (if n = name then (n, c + 1) # cs else (n, c) # bump name cs)"

definition Record :: "string \<Rightarrow> string \<Rightarrow> string \<Rightarrow> trun \<Rightarrow> trun" where
  "Record eventType name status r =
     (let r = r\<lparr>steps := steps r + 1\<rparr>;
          r = (if eventType = ''tool_result'' then
                 (let r = r\<lparr>toolCalls := bump name (toolCalls r)\<rparr> in
                  if status = ''error'' \<or> status = ''denied'' then r\<lparr>errors := errors r + 1\<rparr> else r)
               else r);
          r = (if eventType = ''retry'' then r\<lparr>retries := retries r + 1\<rparr> else r);
          r = (if eventType = ''fallback'' then r\<lparr>fallbacks := fallbacks r + 1\<rparr> else r)
      in r\<lparr>traced := traced r @ [\<lparr>TeType = eventType, TeName = name, TeStatus = status\<rparr>]\<rparr>)"

definition event_key :: "string \<Rightarrow> string \<Rightarrow> int \<Rightarrow> string" where
  "event_key eventType name n = eventType @ '':'' @ name @ '':'' @ show_int n"

definition RecordTranscript :: "string \<Rightarrow> string \<Rightarrow> string \<Rightarrow> trun \<Rightarrow> trun" where
  "RecordTranscript eventType name content r =
     (let n = run_sequence r + 1 in
      r\<lparr>run_sequence := n,
        transcribed := transcribed r @ [\<lparr>TrUser = RunUser r, TrSession = RunSession r, TrRequest = RunRequest r,
          TrKey = event_key eventType name n, TrType = eventType, TrContent = content\<rparr>]\<rparr>)"

definition ToolCallCount :: "string \<Rightarrow> trun \<Rightarrow> int" where
  "ToolCallCount name r = (case map_of (toolCalls r) name of None \<Rightarrow> 0 | Some c \<Rightarrow> c)"

text \<open>Duplicates, retries, fallbacks and tool errors.\<close>

definition Stats :: "trun \<Rightarrow> int \<times> int \<times> int \<times> int" where
  "Stats r = (sum_list (map (\<lambda>(n, c). if 1 < c then c - 1 else 0) (toolCalls r)), retries r, fallbacks r, errors r)"

subsection \<open>Progress\<close>

record tracker =
  sinceProgress :: int
  reminderEvery :: int

definition NewProgressTracker :: "int \<Rightarrow> tracker" where
  "NewProgressTracker n = \<lparr>sinceProgress = 0, reminderEvery = (if n \<le> 0 then 5 else n)\<rparr>"

definition ObserveTool :: "string \<Rightarrow> bool \<Rightarrow> tracker \<Rightarrow> tracker" where
  "ObserveTool name success t =
     (if success \<and> (name = ''create_task_plan'' \<or> name = ''update_task_step'' \<or> name = ''update_task_plan'')
      then t\<lparr>sinceProgress := 0\<rparr>
      else t\<lparr>sinceProgress := sinceProgress t + 1\<rparr>)"

definition ConsumeReminder :: "tracker \<Rightarrow> bool \<times> tracker" where
  "ConsumeReminder t =
     (if sinceProgress t < reminderEvery t then (False, t) else (True, t\<lparr>sinceProgress := 0\<rparr>))"

subsection \<open>Specifications and the registry\<close>

text \<open>
  The decoded arguments of a call. A number is the float64 that encoding/json reads, a rational.
\<close>

datatype json =
  JNull
| JBool bool
| JNumber rat
| JString string
| JArray "json list"
| JObject "(string \<times> json) list"

type_synonym schema = "json \<Rightarrow> goerr option"

record tool_spec =
  SpecName :: string
  Description :: string
  InputSchema :: "schema option"
  OutputSchema :: "schema option"
  Permission :: string
  Timeout :: int
  Attempts :: int
  Backoff :: int
  RiskLevel :: string
  Metadata :: "string \<Rightarrow> string option"

text \<open>A tool: what Info answers, with the schema of its parameters, and whether it can be invoked.\<close>

record tool_info =
  InfoName :: string
  InfoDesc :: string
  ParamsOneOf :: "(goerr + schema option) option"

record base_tool =
  Info :: "goerr + tool_info"
  invokable :: bool

record registry =
  specs :: "string \<Rightarrow> tool_spec option"
  tools :: "(base_tool \<times> tool_spec) list"

definition NewRegistry :: registry where
  "NewRegistry = \<lparr>specs = Map.empty, tools = []\<rparr>"

definition Register :: "base_tool option \<Rightarrow> tool_spec \<Rightarrow> registry \<Rightarrow> goerr + registry" where
  "Register base s r =
     (case base of
        None \<Rightarrow> Inl (ErrNew ''nil tool'')
      | Some base \<Rightarrow>
          (case Info base of
             Inl err \<Rightarrow> Inl err
           | Inr info \<Rightarrow>
               (let s = (if TrimSpace (SpecName s) = '''' then s\<lparr>SpecName := InfoName info\<rparr> else s) in
                if SpecName s \<noteq> InfoName info then Inl (ErrNew ''tool spec name does not match tool'')
                else if specs r (SpecName s) \<noteq> None then Inl (ErrNew ''duplicate tool'')
                else
                  (let s = (if Description s = '''' then s\<lparr>Description := InfoDesc info\<rparr> else s) in
                   case (if InputSchema s = None then (case ParamsOneOf info of None \<Rightarrow> Inr None | Some p \<Rightarrow> p)
                         else Inr (InputSchema s)) of
                     Inl err \<Rightarrow> Inl err
                   | Inr sch \<Rightarrow>
                       (let s = s\<lparr>InputSchema := sch\<rparr>;
                            s = (if Permission s = '''' then s\<lparr>Permission := ''authenticated''\<rparr> else s);
                            s = (if Timeout s \<le> 0 then s\<lparr>Timeout := 3000000000\<rparr> else s);
                            s = (if Attempts s \<le> 0 then s\<lparr>Attempts := 1\<rparr> else s);
                            s = (if RiskLevel s = '''' then s\<lparr>RiskLevel := ''read_only''\<rparr> else s)
                        in if \<not> invokable base then Inl (ErrNew ''tool is not invokable'')
                           else Inr (r\<lparr>specs := (specs r)(SpecName s \<mapsto> s), tools := tools r @ [(base, s)]\<rparr>))))))"

definition register_all :: "(base_tool option \<times> tool_spec) list \<Rightarrow> registry \<Rightarrow> registry" where
  "register_all = fold (\<lambda>(base, s) r. case Register base s r of Inl _ \<Rightarrow> r | Inr r' \<Rightarrow> r')"

text \<open>What a registered specification always has, and how the two parts of a registry agree.\<close>

definition complete_spec :: "tool_spec \<Rightarrow> bool" where
  "complete_spec s \<longleftrightarrow> Permission s \<noteq> '''' \<and> 0 < Timeout s \<and> 1 \<le> Attempts s \<and> RiskLevel s \<noteq> ''''"

definition registry_ok :: "registry \<Rightarrow> bool" where
  "registry_ok r \<longleftrightarrow>
     distinct (map (\<lambda>(b, s). SpecName s) (tools r)) \<and>
     (\<forall>(b, s) \<in> set (tools r). complete_spec s \<and> invokable b \<and> (\<exists>i. Info b = Inr i \<and> InfoName i = SpecName s)) \<and>
     (\<forall>n s. specs r n = Some s \<longleftrightarrow> SpecName s = n \<and> s \<in> snd ` set (tools r))"

lemma Register_cases:
  assumes "Register base s r = Inr r'"
  obtains b i s' where "base = Some b" "Info b = Inr i" "SpecName s' = InfoName i" "specs r (SpecName s') = None"
    "complete_spec s'" "invokable b" "r' = r\<lparr>specs := (specs r)(SpecName s' \<mapsto> s'), tools := tools r @ [(b, s')]\<rparr>"
proof -
  obtain b where b: "base = Some b" using assms by (cases base) (auto simp: Register_def)
  obtain i where i: "Info b = Inr i" using assms b by (cases "Info b") (auto simp: Register_def)
  define s1 where "s1 = (if TrimSpace (SpecName s) = '''' then s\<lparr>SpecName := InfoName i\<rparr> else s)"
  define s2 where "s2 = (if Description s1 = '''' then s1\<lparr>Description := InfoDesc i\<rparr> else s1)"
  define res where "res = (if InputSchema s2 = None then (case ParamsOneOf i of None \<Rightarrow> Inr None | Some p \<Rightarrow> p) else Inr (InputSchema s2))"
  have run: "Register base s r =
      (if SpecName s1 \<noteq> InfoName i then Inl (ErrNew ''tool spec name does not match tool'')
       else if specs r (SpecName s1) \<noteq> None then Inl (ErrNew ''duplicate tool'')
       else case res of Inl err \<Rightarrow> Inl err
         | Inr sch \<Rightarrow>
            (let s = s2\<lparr>InputSchema := sch\<rparr>;
                 s = (if Permission s = '''' then s\<lparr>Permission := ''authenticated''\<rparr> else s);
                 s = (if Timeout s \<le> 0 then s\<lparr>Timeout := 3000000000\<rparr> else s);
                 s = (if Attempts s \<le> 0 then s\<lparr>Attempts := 1\<rparr> else s);
                 s = (if RiskLevel s = '''' then s\<lparr>RiskLevel := ''read_only''\<rparr> else s)
             in if \<not> invokable b then Inl (ErrNew ''tool is not invokable'')
                else Inr (r\<lparr>specs := (specs r)(SpecName s \<mapsto> s), tools := tools r @ [(b, s)]\<rparr>)))"
    unfolding Register_def b i option.case sum.case Let_def s1_def s2_def res_def by simp
  obtain sch where sch: "res = Inr sch" and n: "SpecName s1 = InfoName i" "specs r (InfoName i) = None"
    using assms unfolding run by (cases res) (auto split: if_splits)
  define s3 where "s3 = (let s = s2\<lparr>InputSchema := sch\<rparr>;
                 s = (if Permission s = '''' then s\<lparr>Permission := ''authenticated''\<rparr> else s);
                 s = (if Timeout s \<le> 0 then s\<lparr>Timeout := 3000000000\<rparr> else s);
                 s = (if Attempts s \<le> 0 then s\<lparr>Attempts := 1\<rparr> else s)
             in if RiskLevel s = '''' then s\<lparr>RiskLevel := ''read_only''\<rparr> else s)"
  have s3: "SpecName s3 = InfoName i" "complete_spec s3"
    using n by (simp_all add: s3_def s2_def Let_def complete_spec_def)
  have "invokable b" "r' = r\<lparr>specs := (specs r)(SpecName s3 \<mapsto> s3), tools := tools r @ [(b, s3)]\<rparr>"
    using assms n unfolding run sch s3_def by (auto simp: Let_def split: if_splits)
  with that [OF b i s3(1)] s3 n(2) show ?thesis by simp
qed

lemma Register_ok:
  assumes "registry_ok r" and "Register base s r = Inr r'"
  shows "registry_ok r'"
  using assms(2)
proof (cases rule: Register_cases)
  case (1 b i s')
  have old: "specs r n = Some s \<longleftrightarrow> SpecName s = n \<and> s \<in> snd ` set (tools r)" for n s
    using assms(1) unfolding registry_ok_def by blast
  have new: "SpecName s \<noteq> SpecName s'" if "s \<in> snd ` set (tools r)" for s
    using old [of "SpecName s" s] that 1(4) by auto
  have "SpecName s' \<notin> set (map (\<lambda>(b, s). SpecName s) (tools r))"
  proof
    assume "SpecName s' \<in> set (map (\<lambda>(b, s). SpecName s) (tools r))"
    then obtain q where q: "q \<in> set (tools r)" "SpecName (snd q) = SpecName s'" by (auto simp: split_beta)
    then show False using new [of "snd q"] by simp
  qed
  then have "distinct (map (\<lambda>(b, s). SpecName s) (tools r'))"
    using assms(1) unfolding 1(7) registry_ok_def by simp
  moreover have "\<forall>(b, s) \<in> set (tools r'). complete_spec s \<and> invokable b \<and> (\<exists>i. Info b = Inr i \<and> InfoName i = SpecName s)"
    using assms(1) 1(2,3,5,6) unfolding 1(7) registry_ok_def by auto
  moreover have "specs r' n = Some s \<longleftrightarrow> SpecName s = n \<and> s \<in> snd ` set (tools r')" for n s
    using old [of n s] new [of s] by (cases "n = SpecName s'") (auto simp: 1(7))
  ultimately show ?thesis unfolding registry_ok_def by blast
qed

text \<open>
  C39 (type). Every tool of a registry is completely specified: whatever tools are registered with
  whatever specifications, in whatever order, each tool the registry hands out can be invoked, goes
  under the name it reports of itself, and has a permission, a positive timeout, at least one
  attempt and a risk level; names are unique, and the table of specifications holds exactly the
  specifications of the tools.
\<close>

theorem registered_tools_are_complete:
  "registry_ok (register_all regs NewRegistry)"
proof -
  have "registry_ok r \<Longrightarrow> registry_ok (register_all regs r)" for r
  proof (induction regs arbitrary: r)
    case (Cons q qs)
    obtain base s where q: "q = (base, s)" by fastforce
    show ?case
    proof (cases "Register base s r")
      case (Inl e)
      with Cons q show ?thesis by (simp add: register_all_def)
    next
      case (Inr r')
      with Cons q Register_ok [OF Cons.prems Inr] show ?thesis by (simp add: register_all_def)
    qed
  qed (simp add: register_all_def)
  moreover have "registry_ok NewRegistry" by (simp add: registry_ok_def NewRegistry_def)
  ultimately show ?thesis by blast
qed

subsection \<open>Authorization\<close>

record principal =
  UserID :: int
  Role :: string
  LessonID :: int
  SessionID :: string
  RequestID :: string
  ApprovedTools :: "string \<Rightarrow> bool"
  AllowedTools :: "(string \<Rightarrow> bool) option"
  AllowPlanning :: bool

text \<open>strings.Split with a separator of one character.\<close>

fun split_on :: "char \<Rightarrow> string \<Rightarrow> string list" where
  "split_on c [] = ['''']"
| "split_on c (x # xs) =
     (if x = c then '''' # split_on c xs
      else (case split_on c xs of [] \<Rightarrow> [[x]] | w # ws \<Rightarrow> (x # w) # ws))"

definition metadata :: "tool_spec \<Rightarrow> string \<Rightarrow> string" where
  "metadata s k = (case Metadata s k of None \<Rightarrow> '''' | Some v \<Rightarrow> v)"

text \<open>obj["user_id"].(float64) with its zero value, and the conversion to int64.\<close>

definition json_user_id :: "json \<Rightarrow> rat" where
  "json_user_id input =
     (case input of
        JObject obj \<Rightarrow> (case map_of obj ''user_id'' of Some (JNumber x) \<Rightarrow> x | _ \<Rightarrow> 0)
      | _ \<Rightarrow> 0)"

definition trunc :: "rat \<Rightarrow> int" where
  "trunc x = (if 0 \<le> x then \<lfloor>x\<rfloor> else \<lceil>x\<rceil>)"

abbreviation denied :: "string \<Rightarrow> goerr option" where
  "denied t \<equiv> Some (ErrNew (''tool permission denied: '' @ t))"

definition authorize :: "principal option \<Rightarrow> tool_spec \<Rightarrow> json \<Rightarrow> goerr option" where
  "authorize caller s input =
     (if Permission s = ''public'' then None
      else case caller of
        None \<Rightarrow> denied ''unauthenticated''
      | Some p \<Rightarrow>
          if UserID p \<le> 0 then denied ''unauthenticated''
          else if (case AllowedTools p of None \<Rightarrow> False | Some allowed \<Rightarrow> \<not> allowed (SpecName s)) then denied ''tool is not allowlisted''
          else
            (let roles = TrimSpace (metadata s ''allowed_roles'') in
             if roles \<noteq> '''' \<and> \<not> list_ex (\<lambda>role. TrimSpace role = Role p) (split_on CHR '','' roles)
             then denied ''role is not allowlisted''
             else if RiskLevel s = ''high'' \<and> \<not> ApprovedTools p (SpecName s) then denied ''high-risk tool requires approval''
             else if metadata s ''complex_task'' = ''required'' \<and> \<not> AllowPlanning p
             then denied ''task is not complex enough for a plan''
             else if Permission s = ''authenticated'' then None
             else if Permission s = ''own_user'' then
               (if trunc (json_user_id input) \<noteq> UserID p then denied ''cross-user access'' else None)
             else if Permission s = ''lesson_member'' then
               (if LessonID p \<le> 0 then denied ''no lesson scope'' else None)
             else if Permission s = ''admin'' then
               (if Role p \<noteq> ''admin'' then denied ''admin required'' else None)
             else if Permission s = ''approval'' then
               (if \<not> ApprovedTools p (SpecName s) then denied ''approval required'' else None)
             else denied ''unknown policy''))"

text \<open>The policy as a statement: who may call a tool with what arguments.\<close>

definition may_call :: "principal \<Rightarrow> tool_spec \<Rightarrow> bool" where
  "may_call p s \<longleftrightarrow> 0 < UserID p \<and> (\<forall>allowed. AllowedTools p = Some allowed \<longrightarrow> allowed (SpecName s)) \<and>
     (TrimSpace (metadata s ''allowed_roles'') = '''' \<or>
      Role p \<in> TrimSpace ` set (split_on CHR '','' (TrimSpace (metadata s ''allowed_roles'')))) \<and>
     (RiskLevel s = ''high'' \<longrightarrow> ApprovedTools p (SpecName s)) \<and>
     (metadata s ''complex_task'' = ''required'' \<longrightarrow> AllowPlanning p)"

definition permitted :: "principal option \<Rightarrow> tool_spec \<Rightarrow> json \<Rightarrow> bool" where
  "permitted caller s input \<longleftrightarrow>
     Permission s = ''public'' \<or>
     (\<exists>p. caller = Some p \<and> may_call p s \<and>
        (Permission s = ''authenticated'' \<or>
         Permission s = ''own_user'' \<and> trunc (json_user_id input) = UserID p \<or>
         Permission s = ''lesson_member'' \<and> 0 < LessonID p \<or>
         Permission s = ''admin'' \<and> Role p = ''admin'' \<or>
         Permission s = ''approval'' \<and> ApprovedTools p (SpecName s)))"

lemma gates:
  "(if a then None else if b then Some e1 else if c then Some e2 else if d then Some e3 else if f then Some e4
    else if g then Some e5 else r) = None \<longleftrightarrow> a \<or> \<not> b \<and> \<not> c \<and> \<not> d \<and> \<not> f \<and> \<not> g \<and> r = None"
  by simp

lemma authorize_iff: "authorize caller s input = None \<longleftrightarrow> permitted caller s input"
proof (cases caller)
  case None
  then show ?thesis by (simp add: authorize_def permitted_def)
next
  case (Some p)
  define ok where "ok \<longleftrightarrow> (\<forall>allowed. AllowedTools p = Some allowed \<longrightarrow> allowed (SpecName s))"
  have allow: "(case AllowedTools p of None \<Rightarrow> False | Some allowed \<Rightarrow> \<not> allowed (SpecName s)) \<longleftrightarrow> \<not> ok"
    by (simp add: ok_def split: option.split)
  have roles: "list_ex (\<lambda>role. TrimSpace role = Role p) ws \<longleftrightarrow> Role p \<in> TrimSpace ` set ws" for ws
    by (auto simp: list_ex_iff) (metis imageI)
  let ?roles = "TrimSpace (metadata s ''allowed_roles'')"
  let ?policy = "if Permission s = ''authenticated'' then None
      else if Permission s = ''own_user'' then
        (if trunc (json_user_id input) \<noteq> UserID p then denied ''cross-user access'' else None)
      else if Permission s = ''lesson_member'' then
        (if LessonID p \<le> 0 then denied ''no lesson scope'' else None)
      else if Permission s = ''admin'' then
        (if Role p \<noteq> ''admin'' then denied ''admin required'' else None)
      else if Permission s = ''approval'' then
        (if \<not> ApprovedTools p (SpecName s) then denied ''approval required'' else None)
      else denied ''unknown policy''"
  have policy: "?policy = None \<longleftrightarrow> Permission s = ''authenticated'' \<or>
      Permission s = ''own_user'' \<and> trunc (json_user_id input) = UserID p \<or> Permission s = ''lesson_member'' \<and> 0 < LessonID p \<or>
      Permission s = ''admin'' \<and> Role p = ''admin'' \<or> Permission s = ''approval'' \<and> ApprovedTools p (SpecName s)"
    by (simp add: not_le)
  have gate: "may_call p s \<longleftrightarrow> 0 < UserID p \<and> ok \<and>
      \<not> (?roles \<noteq> '''' \<and> \<not> list_ex (\<lambda>role. TrimSpace role = Role p) (split_on CHR '','' ?roles)) \<and>
      \<not> (RiskLevel s = ''high'' \<and> \<not> ApprovedTools p (SpecName s)) \<and>
      \<not> (metadata s ''complex_task'' = ''required'' \<and> \<not> AllowPlanning p)"
    unfolding may_call_def ok_def [symmetric] roles by blast
  have "authorize caller s input =
      (if Permission s = ''public'' then None
       else if UserID p \<le> 0 then denied ''unauthenticated''
       else if \<not> ok then denied ''tool is not allowlisted''
       else if ?roles \<noteq> '''' \<and> \<not> list_ex (\<lambda>role. TrimSpace role = Role p) (split_on CHR '','' ?roles)
       then denied ''role is not allowlisted''
       else if RiskLevel s = ''high'' \<and> \<not> ApprovedTools p (SpecName s) then denied ''high-risk tool requires approval''
       else if metadata s ''complex_task'' = ''required'' \<and> \<not> AllowPlanning p
       then denied ''task is not complex enough for a plan''
       else ?policy)"
    unfolding authorize_def Some option.case allow Let_def ..
  then have "authorize caller s input = None \<longleftrightarrow> Permission s = ''public'' \<or> may_call p s \<and> ?policy = None"
    unfolding gate by (simp only: gates not_le) blast
  then show ?thesis unfolding policy permitted_def Some by simp
qed

subsection \<open>A call\<close>

text \<open>
  The world of a call: encoding/json, the caller, the tool with its k-th answer (output and error),
  the state of the context while the call waits after an attempt, and the repair of an output.
\<close>

record tool_env =
  view :: error_view
  unmarshal :: "string \<Rightarrow> goerr + json"
  caller :: "principal option"
  base_run :: "nat \<Rightarrow> string \<Rightarrow> string \<times> goerr option"
  cancelled :: "nat \<Rightarrow> goerr option"
  repairer :: "(tool_spec \<Rightarrow> string \<Rightarrow> goerr \<Rightarrow> string \<times> goerr option) option"

text \<open>ModelRepairer.Repair: generate is what dependency.Do answers for the repair prompt.\<close>

definition ModelRepair ::
    "(tool_spec \<Rightarrow> string \<Rightarrow> goerr \<Rightarrow> goerr + string) option \<Rightarrow> tool_spec \<Rightarrow> string \<Rightarrow> goerr \<Rightarrow> string \<times> goerr option" where
  "ModelRepair model s original validationErr =
     (case model of
        None \<Rightarrow> ('''', Some (ErrNew ''nil repair model''))
      | Some generate \<Rightarrow> (case generate s original validationErr of Inl err \<Rightarrow> ('''', Some err) | Inr content \<Rightarrow> (content, None)))"

record call_state =
  calls :: nat
  crun :: "trun option"
  ctracker :: "tracker option"

definition on_run :: "(trun \<Rightarrow> trun) \<Rightarrow> call_state \<Rightarrow> call_state" where
  "on_run f st = st\<lparr>crun := map_option f (crun st)\<rparr>"

definition bounded :: "string \<Rightarrow> nat \<Rightarrow> string" where
  "bounded value limit = (if length value \<le> limit then value else take limit value @ CHR 0x0A # ''[truncated]'')"

definition validateOutput :: "tool_env \<Rightarrow> schema \<Rightarrow> string \<Rightarrow> goerr option" where
  "validateOutput env sch out = (case unmarshal env out of Inl err \<Rightarrow> Some err | Inr value \<Rightarrow> sch value)"

text \<open>The retry loop, with the number of attempts left.\<close>

fun try_tool ::
    "tool_env \<Rightarrow> tool_spec \<Rightarrow> string \<Rightarrow> nat \<Rightarrow> nat \<Rightarrow> string \<times> goerr option \<Rightarrow> call_state \<Rightarrow> (string \<times> goerr option) \<times> call_state" where
  "try_tool env s arguments 0 attempt res st = (res, st)"
| "try_tool env s arguments (Suc left) attempt res st =
     (let (out, err) = base_run env (calls st) arguments;
          st = st\<lparr>calls := calls st + 1\<rparr>
      in case err of
           None \<Rightarrow> ((out, None), st)
         | Some e \<Rightarrow>
             if \<not> IsTransient (view env) e \<or> left = 0 then ((out, Some e), st)
             else
               (let st = on_run (Record ''retry'' (SpecName s) ''scheduled'') st;
                    err = (case cancelled env attempt of Some c \<Rightarrow> Some c | None \<Rightarrow> Some e)
                in try_tool env s arguments left (attempt + 1) (out, err) st))"

definition record_result :: "string \<Rightarrow> string \<Rightarrow> call_state \<Rightarrow> call_state" where
  "record_result name status st = on_run (Record ''tool_result'' name status) st"

definition InvokableRun :: "tool_env \<Rightarrow> tool_spec \<Rightarrow> string \<Rightarrow> call_state \<Rightarrow> (string \<times> goerr option) \<times> call_state" where
  "InvokableRun env s arguments st =
     (let st = on_run (Record ''tool_call'' (SpecName s) ''started'') st;
          st = on_run (RecordTranscript ''tool_call'' (SpecName s) (bounded arguments 8192)) st
      in case unmarshal env arguments of
           Inl err \<Rightarrow> (('''', Some (Wrapf (''validate '' @ SpecName s @ '' input JSON: '') err '''')), st)
         | Inr input \<Rightarrow>
             (case (case InputSchema s of None \<Rightarrow> None | Some sch \<Rightarrow> sch input) of
                Some err \<Rightarrow> (('''', Some (Wrapf (''validate '' @ SpecName s @ '' input schema: '') err '''')), st)
              | None \<Rightarrow>
                  (case authorize (caller env) s input of
                     Some err \<Rightarrow> (('''', Some err), record_result (SpecName s) ''denied'' st)
                   | None \<Rightarrow>
                       (let ((out, err), st) = try_tool env s arguments (nat (Attempts s)) 1 ('''', None) st;
                            (out, err) =
                              (case (err, OutputSchema s) of
                                 (None, Some sch) \<Rightarrow>
                                   (case validateOutput env sch out of
                                      None \<Rightarrow> (out, None)
                                    | Some e \<Rightarrow>
                                        (case repairer env of
                                           None \<Rightarrow> (out, Some e)
                                         | Some repair \<Rightarrow>
                                             (case repair s out e of
                                                (out, Some e) \<Rightarrow> (out, Some e)
                                              | (out, None) \<Rightarrow> (out, validateOutput env sch out))))
                               | _ \<Rightarrow> (out, err));
                            st = st\<lparr>ctracker := map_option (ObserveTool (SpecName s) (err = None)) (ctracker st)\<rparr>;
                            st = record_result (SpecName s) (if err = None then ''ok'' else ''error'') st;
                            st = on_run (RecordTranscript ''tool_result'' (SpecName s) (bounded out 16384)) st
                        in ((out, err), st)))))"

lemma on_run_simps [simp]: "calls (on_run f st) = calls st" "ctracker (on_run f st) = ctracker st"
  by (simp_all add: on_run_def)

lemma try_tool_calls: "calls (snd (try_tool env s arguments n attempt res st)) \<le> calls st + n"
proof (induction n arbitrary: attempt res st)
  case (Suc left)
  obtain out err where b: "base_run env (calls st) arguments = (out, err)" by fastforce
  let ?st = "on_run (Record ''retry'' (SpecName s) ''scheduled'') (st\<lparr>calls := calls st + 1\<rparr>)"
  show ?case
  proof (cases err)
    case (Some e)
    have "calls (snd (try_tool env s arguments left (attempt + 1) r ?st)) \<le> calls st + 1 + left" for r
      using Suc.IH [of "attempt + 1" r ?st] by simp
    with Some b show ?thesis by (simp add: Let_def)
  qed (simp add: b)
qed simp

text \<open>What validation leaves of an output: an output that is returned without error matches its schema.\<close>

definition check_output :: "tool_env \<Rightarrow> tool_spec \<Rightarrow> string \<times> goerr option \<Rightarrow> string \<times> goerr option" where
  "check_output env s r =
     (case r of
        (out, Some e) \<Rightarrow> (out, Some e)
      | (out, None) \<Rightarrow>
          (case OutputSchema s of
             None \<Rightarrow> (out, None)
           | Some sch \<Rightarrow>
               (case validateOutput env sch out of
                  None \<Rightarrow> (out, None)
                | Some e \<Rightarrow>
                    (case repairer env of
                       None \<Rightarrow> (out, Some e)
                     | Some repair \<Rightarrow>
                         (case repair s out e of
                            (out, Some e) \<Rightarrow> (out, Some e)
                          | (out, None) \<Rightarrow> (out, validateOutput env sch out))))))"

lemma check_output_valid:
  "check_output env s r = (out, None) \<Longrightarrow>
     (case OutputSchema s of None \<Rightarrow> True | Some sch \<Rightarrow> \<exists>v. unmarshal env out = Inr v \<and> sch v = None)"
  by (auto simp: check_output_def validateOutput_def split: prod.splits option.splits sum.splits)

definition call_started :: "tool_spec \<Rightarrow> string \<Rightarrow> call_state \<Rightarrow> call_state" where
  "call_started s arguments st =
     on_run (RecordTranscript ''tool_call'' (SpecName s) (bounded arguments 8192)) (on_run (Record ''tool_call'' (SpecName s) ''started'') st)"

definition call_ended :: "tool_spec \<Rightarrow> string \<times> goerr option \<Rightarrow> call_state \<Rightarrow> call_state" where
  "call_ended s r st =
     on_run (RecordTranscript ''tool_result'' (SpecName s) (bounded (fst r) 16384))
       (record_result (SpecName s) (if snd r = None then ''ok'' else ''error'')
          (st\<lparr>ctracker := map_option (ObserveTool (SpecName s) (snd r = None)) (ctracker st)\<rparr>))"

lemma InvokableRun_eq:
  "InvokableRun env s arguments st =
     (let st = call_started s arguments st in
      case unmarshal env arguments of
        Inl err \<Rightarrow> (('''', Some (Wrapf (''validate '' @ SpecName s @ '' input JSON: '') err '''')), st)
      | Inr input \<Rightarrow>
          (case (case InputSchema s of None \<Rightarrow> None | Some sch \<Rightarrow> sch input) of
             Some err \<Rightarrow> (('''', Some (Wrapf (''validate '' @ SpecName s @ '' input schema: '') err '''')), st)
           | None \<Rightarrow>
               (case authorize (caller env) s input of
                  Some err \<Rightarrow> (('''', Some err), record_result (SpecName s) ''denied'' st)
                | None \<Rightarrow>
                    (let (r, st) = try_tool env s arguments (nat (Attempts s)) 1 ('''', None) st;
                         r = check_output env s r
                     in (r, call_ended s r st)))))"
proof -
  have check: "(case (err, OutputSchema s) of
       (None, Some sch) \<Rightarrow>
         (case validateOutput env sch out of
            None \<Rightarrow> (out, None)
          | Some e \<Rightarrow>
              (case repairer env of
                 None \<Rightarrow> (out, Some e)
               | Some repair \<Rightarrow>
                   (case repair s out e of
                      (out, Some e) \<Rightarrow> (out, Some e)
                    | (out, None) \<Rightarrow> (out, validateOutput env sch out))))
     | _ \<Rightarrow> (out, err)) = check_output env s (out, err)" for out err
    by (cases err; cases "OutputSchema s") (simp_all add: check_output_def)
  show ?thesis
    unfolding InvokableRun_def call_started_def call_ended_def check Let_def
    by (auto simp: split_beta split: sum.split option.split)
qed

lemma call_ended_calls [simp]: "calls (call_ended s r st) = calls st" "calls (call_started s arguments st) = calls st"
  by (simp_all add: call_ended_def call_started_def record_result_def)

lemma run_permitted:
  assumes "InvokableRun env s arguments st = ((out, err), st')"
  shows "calls st' \<le> calls st + nat (Attempts s) \<and>
    (calls st' = calls st \<or>
     (\<exists>input. unmarshal env arguments = Inr input \<and> (case InputSchema s of None \<Rightarrow> True | Some sch \<Rightarrow> sch input = None) \<and>
        permitted (caller env) s input)) \<and>
    (err \<noteq> None \<or> (case OutputSchema s of None \<Rightarrow> True | Some sch \<Rightarrow> \<exists>v. unmarshal env out = Inr v \<and> sch v = None))"
proof (cases "unmarshal env arguments")
  case (Inl e)
  then show ?thesis using assms by (auto simp: InvokableRun_eq)
next
  case input: (Inr input)
  show ?thesis
  proof (cases "case InputSchema s of None \<Rightarrow> None | Some sch \<Rightarrow> sch input")
    case (Some e)
    then show ?thesis using assms input by (auto simp: InvokableRun_eq Let_def)
  next
    case schema: None
    show ?thesis
    proof (cases "authorize (caller env) s input")
      case (Some e)
      then have "err = Some e" "calls st' = calls st"
        using assms input schema by (auto simp: InvokableRun_eq Let_def record_result_def)
      then show ?thesis by simp
    next
      case allowed: None
      obtain r st1 where t: "try_tool env s arguments (nat (Attempts s)) 1 ('''', None) (call_started s arguments st) = (r, st1)"
        by fastforce
      have res: "check_output env s r = (out, err)" "st' = call_ended s (out, err) st1"
        using assms input schema allowed t by (auto simp: InvokableRun_eq Let_def)
      have "calls st1 \<le> calls st + nat (Attempts s)"
        using try_tool_calls [of env s arguments "nat (Attempts s)" 1 "('''', None)" "call_started s arguments st"] t by simp
      moreover have "case InputSchema s of None \<Rightarrow> True | Some sch \<Rightarrow> sch input = None"
        using schema by (simp split: option.splits)
      moreover have "permitted (caller env) s input" using allowed authorize_iff by blast
      moreover have "err \<noteq> None \<or> (case OutputSchema s of None \<Rightarrow> True | Some sch \<Rightarrow> \<exists>v. unmarshal env out = Inr v \<and> sch v = None)"
        using check_output_valid [of env s r out] res(1) by (cases err) simp_all
      ultimately show ?thesis using input res(2) by auto
    qed
  qed
qed

text \<open>
  C20 (safety). A tool only runs for a caller who may run it, on arguments that fit, and a bounded number
  of times: whatever the caller sends and whatever the tool, its errors and the repair model answer,
  if the tool was invoked at all, the arguments are JSON, they match the tool's input schema and the
  policy permits this caller to call this tool with them; the tool is invoked at most as often as its
  retry policy says; and an output that is returned without an error matches the output schema.
\<close>

theorem tool_runs_only_if_permitted:
  assumes "InvokableRun env s arguments st = ((out, err), st')"
  shows "calls st' \<le> calls st + nat (Attempts s) \<and>
    (calls st' = calls st \<or>
     (\<exists>input. unmarshal env arguments = Inr input \<and> (case InputSchema s of None \<Rightarrow> True | Some sch \<Rightarrow> sch input = None) \<and>
        permitted (caller env) s input)) \<and>
    (err \<noteq> None \<or> (case OutputSchema s of None \<Rightarrow> True | Some sch \<Rightarrow> \<exists>v. unmarshal env out = Inr v \<and> sch v = None))"
  using run_permitted [OF assms] .

text \<open>A tool on the caller's own user, called by its user, with a transient failure first.\<close>

definition own_spec :: tool_spec where
  "own_spec = \<lparr>SpecName = ''query_user_info'', Description = '''', InputSchema = None, OutputSchema = Some (\<lambda>v. None), Permission = ''own_user'',
     Timeout = 800000000, Attempts = 2, Backoff = 50000000, RiskLevel = ''read_only'', Metadata = Map.empty\<rparr>"

definition own_env :: tool_env where
  "own_env = \<lparr>view = \<lparr>http_status = Map.empty, net_error = Map.empty, grpc_code = (\<lambda>_. '''')\<rparr>,
     unmarshal = (\<lambda>t. Inr (JObject [(''user_id'', JNumber 7)])),
     caller = Some \<lparr>UserID = 7, Role = ''student'', LessonID = 0, SessionID = ''s'', RequestID = ''r'', ApprovedTools = (\<lambda>_. False),
       AllowedTools = None, AllowPlanning = False\<rparr>,
     base_run = (\<lambda>k t. if k = 0 then ('''', Some DeadlineExceeded) else (''{}'', None)), cancelled = (\<lambda>_. Some Canceled), repairer = None\<rparr>"

theorem tool_runs_only_if_permitted_witness:
  "calls (snd (InvokableRun own_env own_spec '''' \<lparr>calls = 0, crun = None, ctracker = None\<rparr>)) = 2 \<and>
   (\<exists>input. unmarshal own_env '''' = Inr input \<and> permitted (caller own_env) own_spec input)"
proof -
  let ?st = "\<lparr>calls = 0, crun = None, ctracker = None\<rparr> :: call_state"
  have allowed: "authorize (caller own_env) own_spec (JObject [(''user_id'', JNumber 7)]) = None"
    by (simp add: authorize_def own_env_def own_spec_def metadata_def TrimSpace_def json_user_id_def trunc_def)
  have two: "nat (Attempts own_spec) = Suc (Suc 0)" by (simp add: own_spec_def)
  have run: "try_tool own_env own_spec '''' (Suc (Suc 0)) 1 ('''', None) (call_started own_spec '''' ?st) =
      ((''{}'', None), (call_started own_spec '''' ?st)\<lparr>calls := 2\<rparr>)"
    by (simp add: own_env_def IsTransient_def call_started_def on_run_def)
  have check: "check_output own_env own_spec (''{}'', None) = (''{}'', None)"
    by (simp add: check_output_def validateOutput_def own_env_def own_spec_def)
  have inp: "unmarshal own_env '''' = Inr (JObject [(''user_id'', JNumber 7)])" "InputSchema own_spec = None"
    by (simp_all add: own_env_def own_spec_def)
  have r: "InvokableRun own_env own_spec '''' ?st =
      ((''{}'', None), call_ended own_spec (''{}'', None) ((call_started own_spec '''' ?st)\<lparr>calls := 2\<rparr>))"
    unfolding InvokableRun_eq Let_def inp two run by (simp add: allowed check)
  from tool_runs_only_if_permitted [OF r] r show ?thesis by auto
qed

subsection \<open>What the counters and the transcript say\<close>

definition results_in :: "trun \<Rightarrow> trace_entry list" where
  "results_in r = filter (\<lambda>e. TeType e = ''tool_result'') (traced r)"

definition occurrences :: "string \<Rightarrow> trace_entry list \<Rightarrow> int" where
  "occurrences n es = int (length (filter (\<lambda>e. TeName e = n) es))"

definition number_of :: "string \<Rightarrow> trun \<Rightarrow> int" where
  "number_of ty r = int (length (filter (\<lambda>e. TeType e = ty) (traced r)))"

definition failed_results :: "trun \<Rightarrow> int" where
  "failed_results r = int (length (filter (\<lambda>e. TeStatus e = ''error'' \<or> TeStatus e = ''denied'') (results_in r)))"

definition counts_ok :: "trun \<Rightarrow> bool" where
  "counts_ok r \<longleftrightarrow> steps r = int (length (traced r)) \<and> errors r = failed_results r \<and> retries r = number_of ''retry'' r \<and>
     fallbacks r = number_of ''fallback'' r \<and> distinct (map fst (toolCalls r)) \<and> fst ` set (toolCalls r) = TeName ` set (results_in r) \<and>
     (\<forall>n c. (n, c) \<in> set (toolCalls r) \<longrightarrow> c = occurrences n (results_in r)) \<and>
     sum_list (map snd (toolCalls r)) = int (length (results_in r))"

lemma bump_keys: "map fst (bump n tc) = (if n \<in> fst ` set tc then map fst tc else map fst tc @ [n])"
  by (induction n tc rule: bump.induct) auto

lemma bump_sum: "sum_list (map snd (bump n tc)) = sum_list (map snd tc) + 1"
  by (induction n tc rule: bump.induct) auto

lemma bump_entries:
  "distinct (map fst tc) \<Longrightarrow> (m, c) \<in> set (bump n tc) \<longleftrightarrow>
     (if m = n then (m, c - 1) \<in> set tc \<or> (n \<notin> fst ` set tc \<and> c = 1) else (m, c) \<in> set tc)"
  by (induction n tc rule: bump.induct) (auto simp: image_iff, force+)

lemma Record_fields:
  "traced (Record ty n st r) = traced r @ [\<lparr>TeType = ty, TeName = n, TeStatus = st\<rparr>]"
  "steps (Record ty n st r) = steps r + 1"
  "errors (Record ty n st r) = errors r + (if ty = ''tool_result'' \<and> (st = ''error'' \<or> st = ''denied'') then 1 else 0)"
  "retries (Record ty n st r) = retries r + (if ty = ''retry'' then 1 else 0)"
  "fallbacks (Record ty n st r) = fallbacks r + (if ty = ''fallback'' then 1 else 0)"
  "toolCalls (Record ty n st r) = (if ty = ''tool_result'' then bump n (toolCalls r) else toolCalls r)"
  by (simp_all add: Record_def Let_def)

lemma Record_counts:
  assumes "counts_ok r"
  shows "counts_ok (Record ty n st r)"
proof (cases "ty = ''tool_result''")
  case False
  with assms show ?thesis
    by (auto simp: counts_ok_def Record_fields results_in_def failed_results_def number_of_def)
next
  case True
  let ?r' = "Record ty n st r"
  have res: "results_in ?r' = results_in r @ [\<lparr>TeType = ty, TeName = n, TeStatus = st\<rparr>]"
    using True by (simp add: results_in_def Record_fields)
  have keys: "distinct (map fst (toolCalls ?r'))" "fst ` set (toolCalls ?r') = TeName ` set (results_in ?r')"
  proof -
    have k: "map fst (toolCalls ?r') = (if n \<in> fst ` set (toolCalls r) then map fst (toolCalls r) else map fst (toolCalls r) @ [n])"
      using True by (simp add: Record_fields bump_keys)
    then show "distinct (map fst (toolCalls ?r'))" using assms by (auto simp: counts_ok_def)
    have "fst ` set (toolCalls ?r') = insert n (fst ` set (toolCalls r))"
      using arg_cong [OF k, of set] by (auto split: if_splits)
    then show "fst ` set (toolCalls ?r') = TeName ` set (results_in ?r')" using assms by (simp add: res counts_ok_def)
  qed
  have "c = occurrences m (results_in ?r')" if "(m, c) \<in> set (toolCalls ?r')" for m c
  proof -
    have old: "(m, c) \<in> set (toolCalls r) \<Longrightarrow> c = occurrences m (results_in r)" for m c
      using assms by (auto simp: counts_ok_def)
    have new: "n \<notin> fst ` set (toolCalls r) \<Longrightarrow> occurrences n (results_in r) = 0"
      using assms by (auto simp: counts_ok_def occurrences_def filter_empty_conv)
    from that have "if m = n then (m, c - 1) \<in> set (toolCalls r) \<or> (n \<notin> fst ` set (toolCalls r) \<and> c = 1) else (m, c) \<in> set (toolCalls r)"
      using True assms bump_entries [of "toolCalls r" m c n] by (simp add: Record_fields counts_ok_def)
    with old [of m c] old [of m "c - 1"] new show ?thesis by (auto simp: res occurrences_def split: if_splits)
  qed
  moreover have "sum_list (map snd (toolCalls ?r')) = int (length (results_in ?r'))"
    using assms True unfolding res by (simp add: Record_fields bump_sum counts_ok_def)
  moreover have "errors ?r' = failed_results ?r'" using assms True res by (auto simp: counts_ok_def Record_fields failed_results_def)
  ultimately show ?thesis
    using assms keys True by (auto simp: counts_ok_def Record_fields number_of_def)
qed

lemma duplicates_of:
  assumes "counts_ok r"
  shows "sum_list (map (\<lambda>(n, c). if 1 < c then c - 1 else 0) (toolCalls r)) =
    int (length (results_in r)) - int (card (TeName ` set (results_in r)))"
proof -
  have pos: "1 \<le> c" if "(n, c) \<in> set (toolCalls r)" for n c
  proof -
    have "n \<in> TeName ` set (results_in r)" using that assms by (force simp: counts_ok_def)
    then have "filter (\<lambda>e. TeName e = n) (results_in r) \<noteq> []" by (auto simp: filter_empty_conv)
    then have "1 \<le> occurrences n (results_in r)" by (cases "filter (\<lambda>e. TeName e = n) (results_in r)") (auto simp: occurrences_def)
    with that assms show ?thesis by (auto simp: counts_ok_def)
  qed
  have "sum_list (map (\<lambda>(n, c). if 1 < c then c - 1 else 0) tc) = sum_list (map snd tc) - int (length tc)"
    if "\<And>n c. (n, c) \<in> set tc \<Longrightarrow> 1 \<le> (c :: int)" for tc :: "(string \<times> int) list"
    using that by (induction tc) force+
  with pos have "sum_list (map (\<lambda>(n, c). if 1 < c then c - 1 else 0) (toolCalls r)) =
      sum_list (map snd (toolCalls r)) - int (length (toolCalls r))" by blast
  moreover have "length (toolCalls r) = card (TeName ` set (results_in r))"
    using assms distinct_card [of "map fst (toolCalls r)"] by (simp add: counts_ok_def)
  ultimately show ?thesis using assms by (simp add: counts_ok_def)
qed

text \<open>
  (functional). The statistics of a run are those of its trace: whatever is recorded, in whatever
  order, the duplicates are the tool results beyond the first of each tool, the retries, fallbacks
  and errors are the entries of these kinds (an error being a result with status error or denied),
  the steps are all entries, and the count of a tool is the number of its results.
\<close>

theorem stats_are_of_the_trace:
  "let r = fold (\<lambda>(ty, n, st). Record ty n st) evs (NewRun sid request uid) in
     Stats r = (int (length (results_in r)) - int (card (TeName ` set (results_in r))), number_of ''retry'' r, number_of ''fallback'' r,
       failed_results r) \<and>
     steps r = int (length (traced r)) \<and> ToolCallCount name r = occurrences name (results_in r)"
proof -
  have "counts_ok r \<Longrightarrow> counts_ok (fold (\<lambda>(ty, n, st). Record ty n st) evs r)" for r
    by (induction evs arbitrary: r) (auto simp: Record_counts)
  then have ok: "counts_ok (fold (\<lambda>(ty, n, st). Record ty n st) evs (NewRun sid request uid))"
    by (simp add: counts_ok_def NewRun_def results_in_def failed_results_def number_of_def)
  define r where "r = fold (\<lambda>(ty, n, st). Record ty n st) evs (NewRun sid request uid)"
  have "ToolCallCount name r = occurrences name (results_in r)"
  proof (cases "map_of (toolCalls r) name")
    case None
    then have "name \<notin> TeName ` set (results_in r)" using ok by (simp add: r_def [symmetric] counts_ok_def map_of_eq_None_iff)
    with None show ?thesis by (auto simp: ToolCallCount_def occurrences_def filter_empty_conv)
  next
    case (Some c)
    with map_of_SomeD [OF Some] ok show ?thesis by (simp add: r_def [symmetric] ToolCallCount_def counts_ok_def)
  qed
  moreover have "counts_ok r" using ok by (simp add: r_def)
  ultimately show ?thesis
    unfolding r_def [symmetric] Let_def Stats_def duplicates_of [OF \<open>counts_ok r\<close>] by (simp add: counts_ok_def)
qed

lemma event_key_number:
  assumes "event_key ty n k = event_key ty' n' k'" and "in_int64 k" and "in_int64 k'"
  shows "k = k'"
proof -
  have last_part: "takeWhile (\<lambda>c. c \<noteq> CHR '':'') (rev (event_key ty n k)) = rev (show_int k)" for ty n k
  proof -
    have "rev (event_key ty n k) = rev (show_int k) @ CHR '':'' # rev (ty @ '':'' @ n)" by (simp add: event_key_def)
    moreover have "takeWhile (\<lambda>c. c \<noteq> CHR '':'') (rev (show_int k) @ CHR '':'' # xs) = rev (show_int k)" for xs
      using show_int_no_colon [of k] by (subst takeWhile_append2) auto
    ultimately show ?thesis by simp
  qed
  from last_part [of ty n k] last_part [of ty' n' k'] assms(1) have "show_int k = show_int k'" by (metis rev_rev_ident)
  with show_int_inject assms(2,3) show ?thesis by blast
qed

text \<open>
  The keys of a run's transcript are all different, so that the unique index of the transcript
  drops none of them.
\<close>

lemma transcript_keys_unique:
  assumes "int (length evs) < 2 ^ 63"
  shows "distinct (map TrKey (transcribed (fold (\<lambda>(ty, n, c). RecordTranscript ty n c) evs (NewRun sid request uid))))"
proof -
  let ?run = "\<lambda>evs. fold (\<lambda>(ty, n, c). RecordTranscript ty n c) evs (NewRun sid request uid)"
  have keys: "run_sequence (?run evs) = int (length evs) \<and>
      map TrKey (transcribed (?run evs)) = map (\<lambda>i. case evs ! i of (ty, n, c) \<Rightarrow> event_key ty n (int i + 1)) [0..<length evs]" for evs
  proof (induction evs rule: rev_induct)
    case (snoc e evs)
    obtain ty n c where e: "e = (ty, n, c)" by (cases e)
    have "map (\<lambda>i. case (evs @ [e]) ! i of (ty, n, c) \<Rightarrow> event_key ty n (int i + 1)) [0..<length evs] =
        map (\<lambda>i. case evs ! i of (ty, n, c) \<Rightarrow> event_key ty n (int i + 1)) [0..<length evs]"
      by (rule map_cong) (simp_all add: nth_append)
    with snoc e show ?case by (simp add: RecordTranscript_def Let_def)
  qed (simp add: NewRun_def)
  show ?thesis
    unfolding conjunct2 [OF keys] distinct_map
  proof (intro conjI inj_onI)
    fix i j assume i: "i \<in> set [0..<length evs]" and j: "j \<in> set [0..<length evs]"
      and eq: "(case evs ! i of (ty, n, c) \<Rightarrow> event_key ty n (int i + 1)) = (case evs ! j of (ty, n, c) \<Rightarrow> event_key ty n (int j + 1))"
    have "in_int64 (int k + 1)" if "k < length evs" for k using assms that by (simp add: in_int64_def)
    with i j have r: "in_int64 (int i + 1)" "in_int64 (int j + 1)" by auto
    obtain ty n c ty' n' c' where "evs ! i = (ty, n, c)" "evs ! j = (ty', n', c')" by (metis prod_cases3)
    with eq event_key_number [OF _ r, of ty n ty' n'] show "i = j" by simp
  qed simp
qed

text \<open>
  But a second run of the same request (a retry after a failure) starts its numbers at one again, so
  its events get the keys of the first run's, and the transcript keeps only the first run's.
\<close>

lemma second_run_reuses_keys:
  "map (\<lambda>e. (TrSession e, TrRequest e, TrKey e)) (transcribed (RecordTranscript ty n c (NewRun sid request uid))) =
   map (\<lambda>e. (TrSession e, TrRequest e, TrKey e)) (transcribed (RecordTranscript ty n c' (NewRun sid request uid')))"
  by (simp add: RecordTranscript_def NewRun_def Let_def)

text \<open>A bounded text can end inside a rune: here after two of the three bytes of one.\<close>

definition ke :: string where
  "ke = [char_of (0xe8 :: nat), char_of (0xaf :: nat), char_of (0xbe :: nat)]"

lemma bounded_cuts_runes:
  "bounded (concat (replicate 3000 ke)) 8192 = concat (replicate 2730 ke) @ take 2 ke @ CHR 0x0A # ''[truncated]''"
proof -
  have len: "length (concat (replicate k ke)) = 3 * k" for k by (induction k) (simp_all add: ke_def)
  have "replicate 3000 ke = replicate 2730 ke @ ke # replicate 269 ke"
    by (simp flip: replicate_add replicate_Suc)
  then have "take 8192 (concat (replicate 3000 ke)) = concat (replicate 2730 ke) @ take 2 (ke @ concat (replicate 269 ke))"
    by (simp add: len)
  then show ?thesis using len [of 3000] by (simp add: bounded_def ke_def)
qed

text \<open>A context that is cancelled while a call waits does not end the retries: the tool is called again.\<close>

lemma cancelled_call_is_retried:
  "calls (snd (try_tool own_env own_spec '''' 2 1 ('''', None) \<lparr>calls = 0, crun = None, ctracker = None\<rparr>)) = 2"
  by (simp add: own_env_def numeral_2_eq_2 IsTransient_def on_run_def)

end
