(* ===== verification/Mall_Confirmation.thy ===== *)
theory Mall_Confirmation
  imports Tool_Runtime
begin

text \<open>
  The mall tools of the agent (src/internal/rpc/agent/tool/mall_tool.go and
  agent/mall_confirmation.go): an exchange of points takes a quote with a signed token first, and
  the token in a later request. The mall service, the clock, uuid and encoding/json are parameters,
  and mac stands for HMAC-SHA256; base64 is written out.
\<close>

subsection \<open>base64, the raw URL alphabet\<close>

definition sextet_char :: "nat \<Rightarrow> char" where
  "sextet_char n = char_of (if n < 26 then n + 65 else if n < 52 then n + 71 else if n < 62 then n - 4 else if n = 62 then 45 else 95)"

definition char_sextet :: "char \<Rightarrow> nat option" where
  "char_sextet c =
     (let k = of_char c :: nat in
      if 65 \<le> k \<and> k \<le> 90 then Some (k - 65)
      else if 97 \<le> k \<and> k \<le> 122 then Some (k - 71)
      else if 48 \<le> k \<and> k \<le> 57 then Some (k + 4)
      else if k = 45 then Some 62
      else if k = 95 then Some 63
      else None)"

fun encode_bytes :: "nat list \<Rightarrow> nat list" where
  "encode_bytes (a # b # c # bs) =
     [a div 4, a mod 4 * 16 + b div 16, b mod 16 * 4 + c div 64, c mod 64] @ encode_bytes bs"
| "encode_bytes [a, b] = [a div 4, a mod 4 * 16 + b div 16, b mod 16 * 4]"
| "encode_bytes [a] = [a div 4, a mod 4 * 16]"
| "encode_bytes [] = []"

fun decode_sextets :: "nat list \<Rightarrow> nat list option" where
  "decode_sextets (a # b # c # d # ss) =
     map_option (\<lambda>bs. [a * 4 + b div 16, b mod 16 * 16 + c div 4, c mod 4 * 64 + d] @ bs) (decode_sextets ss)"
| "decode_sextets [a, b, c] = Some [a * 4 + b div 16, b mod 16 * 16 + c div 4]"
| "decode_sextets [a, b] = Some [a * 4 + b div 16]"
| "decode_sextets [a] = None"
| "decode_sextets [] = Some []"

definition EncodeToString :: "string \<Rightarrow> string" where
  "EncodeToString s = map sextet_char (encode_bytes (map of_char s))"

fun all_some :: "'a option list \<Rightarrow> 'a list option" where
  "all_some [] = Some []"
| "all_some (x # xs) = (case x of None \<Rightarrow> None | Some y \<Rightarrow> map_option ((#) y) (all_some xs))"

text \<open>DecodeString skips line breaks.\<close>

definition DecodeString :: "string \<Rightarrow> string option" where
  "DecodeString s =
     (case all_some (map char_sextet (filter (\<lambda>c. c \<noteq> CHR 0x0A \<and> c \<noteq> CHR 0x0D) s)) of
        None \<Rightarrow> None
      | Some ss \<Rightarrow> map_option (map char_of) (decode_sextets ss))"

lemma char_sextet_char: "n < 64 \<Longrightarrow> char_sextet (sextet_char n) = Some n"
  by (auto simp: char_sextet_def sextet_char_def Let_def)

lemma sextet_char_plain:
  assumes "n < 64"
  shows "sextet_char n \<noteq> CHR 0x0A" "sextet_char n \<noteq> CHR 0x0D" "sextet_char n \<noteq> CHR ''.''"
proof -
  have "char_sextet CHR 0x0A = None" "char_sextet CHR 0x0D = None" "char_sextet CHR ''.'' = None"
    by (simp_all add: char_sextet_def)
  with char_sextet_char [OF assms] show "sextet_char n \<noteq> CHR 0x0A" "sextet_char n \<noteq> CHR 0x0D" "sextet_char n \<noteq> CHR ''.''"
    by auto
qed

lemma encode_bytes_range: "\<forall>b \<in> set bs. b < 256 \<Longrightarrow> \<forall>x \<in> set (encode_bytes bs). x < 64"
  by (induction bs rule: encode_bytes.induct) auto

lemma decode_encode_bytes: "\<forall>b \<in> set bs. b < 256 \<Longrightarrow> decode_sextets (encode_bytes bs) = Some bs"
proof (induction bs rule: encode_bytes.induct)
  case (1 a b c bs)
  have b: "b div 16 < 16" and c: "c div 64 < 4" using 1 by auto
  from b have "a div 4 * 4 + (a mod 4 * 16 + b div 16) div 16 = a" by simp
  moreover have "(a mod 4 * 16 + b div 16) mod 16 = b div 16" using b by simp
  moreover have "(b mod 16 * 4 + c div 64) div 4 = b mod 16" using c by simp
  moreover have "(b mod 16 * 4 + c div 64) mod 4 = c div 64" using c by simp
  ultimately show ?case using 1 by (simp only: encode_bytes.simps append.simps decode_sextets.simps) simp
qed (auto simp: less_mult_imp_div_less)

lemma decode_encode: "DecodeString (EncodeToString s) = Some s"
proof -
  let ?e = "encode_bytes (map of_char s)"
  have bytes: "\<forall>b \<in> set (map of_char s). b < (256 :: nat)" by auto
  note range = encode_bytes_range [OF bytes]
  have plain: "filter (\<lambda>c. c \<noteq> CHR 0x0A \<and> c \<noteq> CHR 0x0D) (map sextet_char xs) = map sextet_char xs"
    if "\<forall>x \<in> set xs. x < 64" for xs
    using that sextet_char_plain by (auto simp: filter_id_conv)
  have all: "all_some (map char_sextet (map sextet_char xs)) = Some xs" if "\<forall>x \<in> set xs. x < 64" for xs
    using that by (induction xs) (auto simp: char_sextet_char)
  show ?thesis
    unfolding DecodeString_def EncodeToString_def plain [OF range] all [OF range]
    by (simp add: decode_encode_bytes [OF bytes] comp_def)
qed

lemma encoded_has_no_dot: "CHR ''.'' \<notin> set (EncodeToString s)"
proof -
  have "\<forall>b \<in> set (map of_char s). b < (256 :: nat)" by auto
  from encode_bytes_range [OF this] sextet_char_plain(3) show ?thesis unfolding EncodeToString_def by fastforce
qed

lemma split_on_none: "c \<notin> set s \<Longrightarrow> split_on c s = [s]"
  by (induction s) auto

lemma split_on_once: "c \<notin> set s \<Longrightarrow> c \<notin> set t \<Longrightarrow> split_on c (s @ c # t) = [s, t]"
  by (induction s) (auto simp: split_on_none)

subsection \<open>The signed quote\<close>

record confirmation =
  CfUserID :: int
  CfSessionID :: string
  IssuedRequestID :: string
  CheckoutID :: string
  CfProductID :: int
  CfQuantity :: int
  ExpiresAtUnix :: int

text \<open>encoding/json on a confirmation, and the message authentication code.\<close>

record codec =
  marshal :: "confirmation \<Rightarrow> goerr + string"
  unmarshal_claims :: "string \<Rightarrow> confirmation option"
  mac :: "string \<Rightarrow> string \<Rightarrow> string"

definition signMallConfirmation :: "codec \<Rightarrow> confirmation \<Rightarrow> string \<Rightarrow> goerr + string" where
  "signMallConfirmation k claims secret =
     (case marshal k claims of
        Inl err \<Rightarrow> Inl err
      | Inr payload \<Rightarrow>
          (let encoded = EncodeToString payload in Inr (encoded @ ''.'' @ EncodeToString (mac k secret encoded))))"

definition verifyMallConfirmation :: "codec \<Rightarrow> int \<Rightarrow> string \<Rightarrow> string \<Rightarrow> goerr + confirmation" where
  "verifyMallConfirmation k now token secret =
     (case split_on CHR ''.'' token of
        [body, sig] \<Rightarrow>
          (case DecodeString sig of
             None \<Rightarrow> Inl (ErrNew ''invalid confirmation signature'')
           | Some signature \<Rightarrow>
               if signature \<noteq> mac k secret body then Inl (ErrNew ''invalid confirmation signature'')
               else
                 (case Option.bind (DecodeString body) (unmarshal_claims k) of
                    None \<Rightarrow> Inl (ErrNew ''invalid confirmation payload'')
                  | Some claims \<Rightarrow>
                      if CfUserID claims \<le> 0 \<or> CfProductID claims \<le> 0 \<or> CfQuantity claims \<le> 0 \<or> CheckoutID claims = '''' \<or>
                         CfSessionID claims = '''' \<or> IssuedRequestID claims = ''''
                      then Inl (ErrNew ''incomplete confirmation payload'')
                      else if ExpiresAtUnix claims < now then Inl (ErrNew ''confirmation token expired'')
                      else Inr claims))
      | _ \<Rightarrow> Inl (ErrNew ''invalid confirmation token''))"

definition bytes :: "nat list \<Rightarrow> string" where
  "bytes bs = map char_of bs"

text \<open>The phrases in UTF-8; lower is strings.ToLower.\<close>

definition exchange_phrases :: "string list" where
  "exchange_phrases =
     [bytes [0xe7, 0xa1, 0xae, 0xe8, 0xae, 0xa4, 0xe5, 0x85, 0x91, 0xe6, 0x8d, 0xa2],
      bytes [0xe7, 0xa1, 0xae, 0xe8, 0xae, 0xa4, 0xe4, 0xb8, 0x8b, 0xe5, 0x8d, 0x95],
      bytes [0xe7, 0xa1, 0xae, 0xe5, 0xae, 0x9a, 0xe5, 0x85, 0x91, 0xe6, 0x8d, 0xa2],
      ''confirm exchange'', ''confirm purchase'']"

text \<open>strings.Contains.\<close>

fun contains :: "string \<Rightarrow> string \<Rightarrow> bool" where
  "contains [] p \<longleftrightarrow> p = []"
| "contains (c # cs) p \<longleftrightarrow> HasPrefix (c # cs) p \<or> contains cs p"

definition confirmsMallExchange :: "(string \<Rightarrow> string) \<Rightarrow> string \<Rightarrow> bool" where
  "confirmsMallExchange lower message \<longleftrightarrow> list_ex (contains (lower (TrimSpace message))) exchange_phrases"

lemma contains_iff: "contains s p \<longleftrightarrow> (\<exists>a b. s = a @ p @ b)"
proof (induction s)
  case (Cons c cs)
  have "HasPrefix (c # cs) p \<longleftrightarrow> (\<exists>b. c # cs = p @ b)"
    by (metis HasPrefix_def append_eq_conv_conj)
  with Cons show ?case by (auto simp: Cons_eq_append_conv)
qed auto

text \<open>A message that refuses the exchange contains the phrase too.\<close>

lemma refusal_counts_as_confirmation: "confirmsMallExchange id ''do not confirm exchange''"
proof -
  have "contains ''do not confirm exchange'' ''confirm exchange''"
    unfolding contains_iff by (intro exI [of _ "''do not ''"] exI [of _ "''''"]) simp
  then show ?thesis by (simp add: confirmsMallExchange_def exchange_phrases_def TrimSpace_def is_space_def)
qed

subsection \<open>The tools\<close>

record mall_product =
  MpID :: int
  MpName :: string
  MpDescription :: string
  MpPrice :: int

record prepare_request =
  PrProduct :: int
  PrQuantity :: int

record prepare_response =
  RespProduct :: mall_product
  RespQuantity :: int
  RespTotalPoints :: int
  ConfirmationToken :: string
  RespExpires :: int

text \<open>The replies of the mall service: code and message, where there is one, and the payload.\<close>

record list_reply =
  LrResp :: "(int \<times> string) option"
  LrProducts :: "mall_product list"

record exchange_order =
  EoID :: string
  EoProduct :: int
  EoQuantity :: int
  EoPoints :: int
  EoStatus :: string

record exchange_reply =
  ErResp :: "(int \<times> string) option"
  ErOrder :: "exchange_order option"

record exchange_req =
  XUser :: int
  XRequest :: string
  XProduct :: int
  XQuantity :: int

definition listMallProducts :: "(int \<Rightarrow> goerr + list_reply option) \<Rightarrow> int \<Rightarrow> goerr + mall_product list" where
  "listMallProducts ListProducts userID =
     (case ListProducts userID of
        Inl err \<Rightarrow> Inl err
      | Inr resp \<Rightarrow>
          (case resp of
             None \<Rightarrow> Inl (ErrNew ''mall catalog unavailable'')
           | Some r \<Rightarrow>
               (case LrResp r of
                  None \<Rightarrow> Inl (ErrNew ''mall catalog unavailable'')
                | Some (code, _) \<Rightarrow> if code \<noteq> 0 then Inl (ErrNew ''mall catalog unavailable'') else Inr (LrProducts r))))"

definition prepare_mall_exchange ::
    "codec \<Rightarrow> string \<Rightarrow> (int \<Rightarrow> goerr + list_reply option) \<Rightarrow> string \<Rightarrow> int \<Rightarrow> principal option \<Rightarrow> prepare_request option \<Rightarrow>
     goerr + prepare_response" where
  "prepare_mall_exchange k secret ListProducts uuid now who req =
     (case (who, req) of
        (Some p, Some q) \<Rightarrow>
          if PrProduct q \<le> 0 \<or> PrQuantity q \<le> 0 \<or> 100 < PrQuantity q then Inl (ErrNew ''invalid mall exchange preview'')
          else
            (case listMallProducts ListProducts (UserID p) of
               Inl err \<Rightarrow> Inl err
             | Inr products \<Rightarrow>
                 (case find (\<lambda>m. MpID m = PrProduct q) products of
                    None \<Rightarrow> Inl (ErrNew ''product is not available'')
                  | Some selected \<Rightarrow>
                      (let expires = now + 300;
                           claims = \<lparr>CfUserID = UserID p, CfSessionID = SessionID p, IssuedRequestID = RequestID p,
                             CheckoutID = uuid, CfProductID = PrProduct q, CfQuantity = PrQuantity q, ExpiresAtUnix = expires\<rparr>
                       in case signMallConfirmation k claims secret of
                            Inl err \<Rightarrow> Inl err
                          | Inr token \<Rightarrow>
                              Inr \<lparr>RespProduct = selected, RespQuantity = PrQuantity q,
                                RespTotalPoints = wrap64 (MpPrice selected * PrQuantity q), ConfirmationToken = token,
                                RespExpires = expires\<rparr>)))
      | _ \<Rightarrow> Inl (ErrNew ''invalid mall exchange preview''))"

text \<open>exchange_mall_product, with the request it sends to the mall service, if it sends one.\<close>

definition exchange_mall_product ::
    "codec \<Rightarrow> string \<Rightarrow> (exchange_req \<Rightarrow> goerr + exchange_reply option) \<Rightarrow> int \<Rightarrow> principal option \<Rightarrow> string option \<Rightarrow>
     exchange_req option \<times> (goerr + exchange_order)" where
  "exchange_mall_product k secret Exchange now who req =
     (case (who, req) of
        (Some p, Some token) \<Rightarrow>
          if TrimSpace token = '''' then (None, Inl (ErrNew ''missing exchange confirmation''))
          else
            (case verifyMallConfirmation k now token secret of
               Inl err \<Rightarrow> (None, Inl err)
             | Inr claims \<Rightarrow>
                 if CfUserID claims \<noteq> UserID p \<or> CfSessionID claims \<noteq> SessionID p
                 then (None, Inl (ErrNew ''confirmation does not belong to this user session''))
                 else if IssuedRequestID claims = RequestID p
                 then (None, Inl (ErrNew ''exchange requires explicit confirmation in a later user turn''))
                 else
                   (let x = \<lparr>XUser = UserID p, XRequest = CheckoutID claims, XProduct = CfProductID claims, XQuantity = CfQuantity claims\<rparr>
                    in (Some x,
                        case Exchange x of
                          Inl err \<Rightarrow> Inl err
                        | Inr None \<Rightarrow> Inl (ErrNew ''mall exchange failed'')
                        | Inr (Some r) \<Rightarrow>
                            (case ErResp r of
                               None \<Rightarrow> Inl (ErrNew ''mall exchange failed'')
                             | Some (code, msg) \<Rightarrow>
                                 if code \<noteq> 0 then Inl (ErrNew msg)
                                 else (case ErOrder r of None \<Rightarrow> Inl (ErrNew msg) | Some order \<Rightarrow> Inr order)))))
      | _ \<Rightarrow> (None, Inl (ErrNew ''missing exchange confirmation'')))"

text \<open>NewMallTools refuses a short secret.\<close>

definition NewMallTools :: "bool \<Rightarrow> string \<Rightarrow> goerr + unit" where
  "NewMallTools has_client secret =
     (if \<not> has_client then Inl (ErrNew ''nil mall service client'')
      else if length secret < 32 then Inl (ErrNew ''mall confirmation secret must contain at least 32 bytes'')
      else Inr ())"

subsection \<open>A quote is confirmed by its own token\<close>

text \<open>encoding/json reads back what it wrote.\<close>

definition json_faithful :: "codec \<Rightarrow> bool" where
  "json_faithful k \<longleftrightarrow> (\<forall>c payload. marshal k c = Inr payload \<longrightarrow> unmarshal_claims k payload = Some c)"

definition complete_claims :: "confirmation \<Rightarrow> bool" where
  "complete_claims c \<longleftrightarrow> 0 < CfUserID c \<and> 0 < CfProductID c \<and> 0 < CfQuantity c \<and> CheckoutID c \<noteq> '''' \<and>
     CfSessionID c \<noteq> '''' \<and> IssuedRequestID c \<noteq> ''''"

lemma verify_signed:
  assumes "json_faithful k" and "signMallConfirmation k c secret = Inr token"
  shows "verifyMallConfirmation k now token secret =
    (if \<not> complete_claims c then Inl (ErrNew ''incomplete confirmation payload'')
     else if ExpiresAtUnix c < now then Inl (ErrNew ''confirmation token expired'')
     else Inr c)"
proof -
  obtain payload where p: "marshal k c = Inr payload"
    using assms(2) by (auto simp: signMallConfirmation_def split: sum.splits)
  let ?body = "EncodeToString payload"
  let ?sig = "EncodeToString (mac k secret ?body)"
  have "token = ?body @ CHR ''.'' # ?sig" using assms(2) p by (simp add: signMallConfirmation_def Let_def)
  then have "split_on CHR ''.'' token = [?body, ?sig]" by (simp add: split_on_once encoded_has_no_dot)
  moreover have "unmarshal_claims k payload = Some c" using assms(1) p by (simp add: json_faithful_def)
  ultimately show ?thesis
    by (simp add: verifyMallConfirmation_def decode_encode complete_claims_def not_less)
qed

text \<open>
  C40 (roundtrip). A token that was signed verifies to the very claims it was signed for, as long as they
  are complete and it has not expired; afterwards it is refused, at any time. base64 and the two
  parts of a token lose nothing, whatever the secret and the authentication code.
\<close>

theorem signed_quote_verifies:
  assumes "json_faithful k" and "signMallConfirmation k c secret = Inr token" and "complete_claims c"
  shows "(verifyMallConfirmation k now token secret = Inr c) = (now \<le> ExpiresAtUnix c) \<and>
    (verifyMallConfirmation k now token secret = Inr c \<or>
     verifyMallConfirmation k now token secret = Inl (ErrNew ''confirmation token expired''))"
  using verify_signed [OF assms(1,2), of now] assms(3) by auto

text \<open>A quote of the past: the catalog it saw, the id it drew, its time, its caller and its request.\<close>

type_synonym quote = "(int \<Rightarrow> goerr + list_reply option) \<times> string \<times> int \<times> principal \<times> prepare_request"

definition quote_claims :: "string \<Rightarrow> int \<Rightarrow> principal \<Rightarrow> prepare_request \<Rightarrow> confirmation" where
  "quote_claims uuid t p q = \<lparr>CfUserID = UserID p, CfSessionID = SessionID p, IssuedRequestID = RequestID p,
     CheckoutID = uuid, CfProductID = PrProduct q, CfQuantity = PrQuantity q, ExpiresAtUnix = t + 300\<rparr>"

lemma prepare_issues:
  assumes "prepare_mall_exchange k secret ListProducts uuid now (Some p) (Some q) = Inr resp"
  shows "signMallConfirmation k (quote_claims uuid now p q) secret = Inr (ConfirmationToken resp)"
    and "1 \<le> PrQuantity q \<and> PrQuantity q \<le> 100 \<and>
      (\<exists>products. listMallProducts ListProducts (UserID p) = Inr products \<and> PrProduct q \<in> MpID ` set products)"
  using assms
  by (auto simp: prepare_mall_exchange_def quote_claims_def Let_def find_Some_iff image_iff
      split: if_splits sum.splits option.splits) (metis nth_mem)

text \<open>
  What the secrecy of the key gives: the authentication code of a token that is presented is one
  that was computed for a quote.
\<close>

definition not_forged :: "codec \<Rightarrow> string \<Rightarrow> quote list \<Rightarrow> string \<Rightarrow> bool" where
  "not_forged k secret quotes token \<longleftrightarrow>
     (\<forall>body sig. split_on CHR ''.'' token = [body, sig] \<longrightarrow> DecodeString sig = Some (mac k secret body) \<longrightarrow>
        (\<exists>(L, uuid, t, p, q) \<in> set quotes. \<exists>resp payload. prepare_mall_exchange k secret L uuid t (Some p) (Some q) = Inr resp \<and>
           marshal k (quote_claims uuid t p q) = Inr payload \<and> body = EncodeToString payload))"

text \<open>A quote of the caller's session, in an earlier request of it, that is still valid and says just what is exchanged.\<close>

definition confirms :: "principal \<Rightarrow> int \<Rightarrow> exchange_req \<Rightarrow> quote \<Rightarrow> bool" where
  "confirms p now x quote \<longleftrightarrow>
     (case quote of (L, uuid, t, p', q) \<Rightarrow>
        UserID p' = UserID p \<and> SessionID p' = SessionID p \<and> RequestID p' \<noteq> RequestID p \<and> now \<le> t + 300 \<and>
        1 \<le> PrQuantity q \<and> PrQuantity q \<le> 100 \<and>
        (\<exists>products. listMallProducts L (UserID p') = Inr products \<and> PrProduct q \<in> MpID ` set products) \<and>
        x = \<lparr>XUser = UserID p, XRequest = uuid, XProduct = PrProduct q, XQuantity = PrQuantity q\<rparr>)"

lemma verify_cases:
  assumes "verifyMallConfirmation k now token secret = Inr claims"
  obtains body sig payload where "split_on CHR ''.'' token = [body, sig]" "DecodeString sig = Some (mac k secret body)"
    "DecodeString body = Some payload" "unmarshal_claims k payload = Some claims" "now \<le> ExpiresAtUnix claims"
proof -
  obtain body sig where s: "split_on CHR ''.'' token = [body, sig]"
    using assms by (auto simp: verifyMallConfirmation_def split: list.splits)
  have d: "DecodeString sig = Some (mac k secret body)"
    using assms s by (auto simp: verifyMallConfirmation_def split: option.splits if_splits)
  obtain payload where p: "DecodeString body = Some payload"
    using assms s d by (cases "DecodeString body") (auto simp: verifyMallConfirmation_def)
  have "unmarshal_claims k payload = Some claims \<and> now \<le> ExpiresAtUnix claims"
    using assms s d p by (cases "unmarshal_claims k payload") (auto simp: verifyMallConfirmation_def split: if_splits)
  with that s d p show ?thesis by blast
qed

text \<open>
  C11 (safety). Points are only spent on a confirmed quote: if the exchange tool asks the mall service
  for an exchange at all, then with a token that was not forged, there is a quote that the prepare
  tool gave to the same user in the same session in another request, not more than five minutes
  before, for a product of the catalog and a quantity from 1 to 100; and what is exchanged is what
  was quoted, under the quote's own checkout id as the request id, so that repeating the tool call
  repeats the same request.
\<close>

theorem exchange_needs_earlier_quote:
  assumes "json_faithful k" and "not_forged k secret quotes token"
    and "exchange_mall_product k secret Exchange now (Some p) (Some token) = (Some x, r)"
  shows "\<exists>quote \<in> set quotes. confirms p now x quote"
proof -
  obtain claims where v: "verifyMallConfirmation k now token secret = Inr claims"
    using assms(3) by (auto simp: exchange_mall_product_def split: if_splits sum.splits)
  with assms(3) have c: "CfUserID claims = UserID p" "CfSessionID claims = SessionID p" "IssuedRequestID claims \<noteq> RequestID p"
    "x = \<lparr>XUser = UserID p, XRequest = CheckoutID claims, XProduct = CfProductID claims, XQuantity = CfQuantity claims\<rparr>"
    by (auto simp: exchange_mall_product_def Let_def split: if_splits)
  from v show ?thesis
  proof (rule verify_cases)
    fix body sig payload
    assume s: "split_on CHR ''.'' token = [body, sig]" "DecodeString sig = Some (mac k secret body)"
      and b: "DecodeString body = Some payload" "unmarshal_claims k payload = Some claims" "now \<le> ExpiresAtUnix claims"
    then obtain L uuid t p' q resp payload' where q: "(L, uuid, t, p', q) \<in> set quotes"
      "prepare_mall_exchange k secret L uuid t (Some p') (Some q) = Inr resp"
      "marshal k (quote_claims uuid t p' q) = Inr payload'" "body = EncodeToString payload'"
      using assms(2) unfolding not_forged_def by blast
    have "payload' = payload" using q(4) b(1) by (simp add: decode_encode)
    with q(3) b(2) assms(1) have "claims = quote_claims uuid t p' q" by (simp add: json_faithful_def)
    with c b(3) prepare_issues(2) [OF q(2)] have "confirms p now x (L, uuid, t, p', q)"
      by (simp add: confirms_def quote_claims_def)
    with q(1) show ?thesis by blast
  qed
qed

subsection \<open>An exchange, step by step\<close>

definition quoting :: principal where
  "quoting = \<lparr>UserID = 7, Role = ''student'', LessonID = 3, SessionID = ''s'', RequestID = ''r1'', ApprovedTools = (\<lambda>_. False),
     AllowedTools = None, AllowPlanning = False\<rparr>"

definition pen :: prepare_request where
  "pen = \<lparr>PrProduct = 9, PrQuantity = 2\<rparr>"

definition pen_catalog :: "int \<Rightarrow> goerr + list_reply option" where
  "pen_catalog uid = Inr (Some \<lparr>LrResp = Some (0, ''ok''), LrProducts = [\<lparr>MpID = 9, MpName = ''pen'', MpDescription = '''', MpPrice = 5\<rparr>]\<rparr>)"

definition pen_claims :: confirmation where
  "pen_claims = quote_claims ''u'' 100 quoting pen"

definition pen_codec :: codec where
  "pen_codec = \<lparr>marshal = (\<lambda>c. if c = pen_claims then Inr ''pen'' else Inl (ErrNew ''json'')),
     unmarshal_claims = (\<lambda>t. if t = ''pen'' then Some pen_claims else None), mac = (\<lambda>secret body. secret @ body)\<rparr>"

lemma pen_faithful: "json_faithful pen_codec"
  by (simp add: json_faithful_def pen_codec_def)

definition pen_token :: string where
  "pen_token = EncodeToString ''pen'' @ ''.'' @ EncodeToString (''k'' @ EncodeToString ''pen'')"

lemma pen_signed: "signMallConfirmation pen_codec pen_claims ''k'' = Inr pen_token"
  by (simp add: signMallConfirmation_def pen_codec_def pen_token_def Let_def)

theorem signed_quote_verifies_witness:
  "verifyMallConfirmation pen_codec 400 pen_token ''k'' = Inr pen_claims \<and>
   verifyMallConfirmation pen_codec 401 pen_token ''k'' = Inl (ErrNew ''confirmation token expired'')"
proof -
  have "complete_claims pen_claims" "ExpiresAtUnix pen_claims = 400"
    by (simp_all add: complete_claims_def pen_claims_def quote_claims_def quoting_def pen_def)
  with signed_quote_verifies [OF pen_faithful pen_signed, of 400] signed_quote_verifies [OF pen_faithful pen_signed, of 401]
  show ?thesis by auto
qed

theorem exchange_needs_earlier_quote_witness:
  "\<exists>x r quote. exchange_mall_product pen_codec ''k'' (\<lambda>x. Inr None) 200 (Some (quoting\<lparr>RequestID := ''r2''\<rparr>)) (Some pen_token) = (Some x, r) \<and>
     confirms (quoting\<lparr>RequestID := ''r2''\<rparr>) 200 x quote"
proof -
  let ?p = "quoting\<lparr>RequestID := ''r2''\<rparr>"
  let ?quotes = "[(pen_catalog, ''u'', 100, quoting, pen)]"
  have "complete_claims pen_claims" "ExpiresAtUnix pen_claims = 400"
    by (simp_all add: complete_claims_def pen_claims_def quote_claims_def quoting_def pen_def)
  then have v: "verifyMallConfirmation pen_codec 200 pen_token ''k'' = Inr pen_claims"
    by (simp add: verify_signed [OF pen_faithful pen_signed])
  have tok: "TrimSpace pen_token \<noteq> ''''"
  proof -
    have "\<not> is_space (hd pen_token)" "pen_token \<noteq> []"
      by (simp_all add: pen_token_def EncodeToString_def sextet_char_def is_space_def)
    moreover have "TrimSpace t \<noteq> []" if "\<not> is_space (hd t)" "t \<noteq> []" for t
      using that by (cases t) (auto simp: TrimSpace_def)
    ultimately show ?thesis by blast
  qed
  have run: "exchange_mall_product pen_codec ''k'' (\<lambda>x. Inr None) 200 (Some ?p) (Some pen_token) =
      (Some \<lparr>XUser = 7, XRequest = ''u'', XProduct = 9, XQuantity = 2\<rparr>, Inl (ErrNew ''mall exchange failed''))"
    using tok by (simp add: exchange_mall_product_def v pen_claims_def quote_claims_def quoting_def pen_def)
  have "\<exists>resp. prepare_mall_exchange pen_codec ''k'' pen_catalog ''u'' 100 (Some quoting) (Some pen) = Inr resp"
    using pen_signed by (simp add: prepare_mall_exchange_def listMallProducts_def pen_catalog_def pen_claims_def quote_claims_def
        quoting_def pen_def Let_def)
  moreover have "marshal pen_codec (quote_claims ''u'' 100 quoting pen) = Inr ''pen''"
    by (simp add: pen_codec_def pen_claims_def)
  moreover have "split_on CHR ''.'' pen_token = [EncodeToString ''pen'', EncodeToString (''k'' @ EncodeToString ''pen'')]"
    by (simp add: pen_token_def split_on_once encoded_has_no_dot)
  ultimately have "not_forged pen_codec ''k'' ?quotes pen_token" by (auto simp: not_forged_def)
  from exchange_needs_earlier_quote [OF pen_faithful this run] run show ?thesis by blast
qed

end
