(* ===== verification/Agent_Tools.thy ===== *)
theory Agent_Tools
  imports Mall_Confirmation Token_Budget
begin

text \<open>
  The identity that a chat request gives the agent (src/internal/rpc/agent/agent/chat.go), the tools
  that the agent is given (src/internal/rpc/agent/workflow/agent/tools.go), registered in the tool
  runtime, and what follows for a request: which tool can run under its identity. The tools themselves and the MCP server are parameters.
\<close>

subsection \<open>The identity of a request\<close>

text \<open>string([]rune), the UTF-8 encoding.\<close>

definition utf8_rune :: "rune \<Rightarrow> string" where
  "utf8_rune r =
     (if r < 0x80 then [char_of r]
      else if r < 0x800 then [char_of (0xc0 + r div 64), char_of (0x80 + r mod 64)]
      else if r < 0x10000 then [char_of (0xe0 + r div 4096), char_of (0x80 + r div 64 mod 64), char_of (0x80 + r mod 64)]
      else [char_of (0xf0 + r div 262144), char_of (0x80 + r div 4096 mod 64), char_of (0x80 + r div 64 mod 64), char_of (0x80 + r mod 64)])"

definition utf8 :: "runes \<Rightarrow> string" where
  "utf8 t = concat (map utf8_rune t)"

definition planning_words :: "runes list" where
  "planning_words = [[0x8ba1, 0x5212], [0x89c4, 0x5212], [0x5b89, 0x6392], ascii ''plan'']"

definition multi_step_words :: "runes list" where
  "multi_step_words = [[0x5206, 0x6b65, 0x9aa4], [0x591a, 0x6b65, 0x9aa4], [0x672c, 0x5468], [0x4e0b, 0x5468], [0x8bfe, 0x8868], [0x8584, 0x5f31],
     ascii ''next week'', ascii ''multiple step'', ascii ''multi-step'']"

definition isComplexPlanningRequest :: "(string \<Rightarrow> string) \<Rightarrow> runes \<Rightarrow> bool" where
  "isComplexPlanningRequest lower message =
     (let text = lower (TrimSpace (utf8 message)) in
      if text = '''' then False
      else list_ex (\<lambda>w. contains text (utf8 w)) planning_words \<and> list_ex (\<lambda>w. contains text (utf8 w)) multi_step_words)"

definition request_principal :: "(string \<Rightarrow> string) \<Rightarrow> string \<Rightarrow> int \<Rightarrow> string \<Rightarrow> string \<Rightarrow> runes \<Rightarrow> int \<Rightarrow> principal" where
  "request_principal lower role uid conv req msg lesson =
     (let role = (if role \<noteq> ''student'' \<and> role \<noteq> ''teacher'' \<and> role \<noteq> ''admin'' then ''student'' else role) in
      \<lparr>UserID = uid, Role = role, LessonID = lesson, SessionID = conv, RequestID = req,
       ApprovedTools = (\<lambda>n. n = ''exchange_mall_product'' \<and> confirmsMallExchange lower (utf8 msg)),
       AllowedTools = None, AllowPlanning = isComplexPlanningRequest lower msg\<rparr>)"

subsection \<open>Registration\<close>

text \<open>
  What start-up has found: the MCP tools or the error of their server, and of the service clients that
  are connected the tool or the error of its constructor.
\<close>

record tool_sources =
  McpTools :: "goerr + base_tool list"
  UserTool :: "(goerr + base_tool) option"
  LessonTool :: "(goerr + base_tool) option"
  MallTools :: "(goerr + base_tool \<times> base_tool \<times> base_tool) option"
  SearchTool :: "goerr + base_tool"
  FormatTool :: "goerr + base_tool"

text \<open>The specification that the local function register builds, times in nanoseconds.\<close>

definition spec_of :: "string \<Rightarrow> string \<Rightarrow> int \<Rightarrow> int \<Rightarrow> schema option \<Rightarrow> tool_spec" where
  "spec_of permission risk timeout attempts out =
     \<lparr>SpecName = '''', Description = '''', InputSchema = None, OutputSchema = out, Permission = permission, Timeout = timeout,
      Attempts = attempts, Backoff = 50000000, RiskLevel = risk, Metadata = Map.empty\<rparr>"

definition opt_tool :: "(goerr + base_tool) option \<Rightarrow> tool_spec \<Rightarrow> (base_tool option \<times> tool_spec) list" where
  "opt_tool src spec = (case src of Some (Inr b) \<Rightarrow> [(Some b, spec)] | _ \<Rightarrow> [])"

text \<open>outs is outputSchema of the k-th output type.\<close>

definition registrations :: "(nat \<Rightarrow> schema option) \<Rightarrow> base_tool list \<Rightarrow> tool_sources \<Rightarrow> (base_tool option \<times> tool_spec) list" where
  "registrations outs mcp src =
     map (\<lambda>b. (Some b, spec_of ''authenticated'' ''read_only'' 3000000000 2 (outs 0))) mcp @
     opt_tool (UserTool src) (spec_of ''own_user'' ''read_only'' 800000000 1 (outs 1)) @
     opt_tool (LessonTool src) (spec_of ''lesson_member'' ''read_only'' 800000000 1 (outs 2)) @
     (case MallTools src of
        Some (Inr (catalog, prepare, exchange)) \<Rightarrow>
          [(Some catalog, spec_of ''authenticated'' ''read_only'' 800000000 1 (outs 3)),
           (Some prepare, spec_of ''authenticated'' ''low'' 800000000 1 (outs 4)),
           (Some exchange, spec_of ''authenticated'' ''high'' 20000000000 1 (outs 5))]
      | _ \<Rightarrow> []) @
     opt_tool (Some (SearchTool src)) (spec_of ''authenticated'' ''read_only'' 2000000000 1 (outs 6)) @
     opt_tool (Some (FormatTool src)) (spec_of ''authenticated'' ''low'' 2000000000 1 (outs 0))"

definition GetTools :: "(nat \<Rightarrow> schema option) \<Rightarrow> tool_sources \<Rightarrow> goerr + (base_tool \<times> tool_spec) list" where
  "GetTools outs src =
     (case McpTools src of
        Inl err \<Rightarrow> Inl err
      | Inr mcp \<Rightarrow> Inr (tools (register_all (registrations outs mcp src) NewRegistry)))"

subsection \<open>Registration keeps the policy\<close>

lemma Register_policy:
  assumes "Register base s r = Inr r'" and "Permission s \<noteq> ''''" and "RiskLevel s \<noteq> ''''"
  shows "\<exists>b s'. base = Some b \<and> tools r' = tools r @ [(b, s')] \<and> Permission s' = Permission s \<and> RiskLevel s' = RiskLevel s \<and>
    Metadata s' = Metadata s \<and> (\<exists>i. Info b = Inr i \<and> SpecName s' = InfoName i)"
proof -
  obtain b where b: "base = Some b" using assms by (cases base) (auto simp: Register_def)
  obtain i where i: "Info b = Inr i" using assms b by (cases "Info b") (auto simp: Register_def)
  define s1 where "s1 = (if TrimSpace (SpecName s) = '''' then s\<lparr>SpecName := InfoName i\<rparr> else s)"
  define s2 where "s2 = (if Description s1 = '''' then s1\<lparr>Description := InfoDesc i\<rparr> else s1)"
  have keep: "Permission s2 = Permission s" "RiskLevel s2 = RiskLevel s" "Metadata s2 = Metadata s" "SpecName s2 = SpecName s1"
    by (simp_all add: s1_def s2_def)
  obtain sch where sch: "(if InputSchema s2 = None then (case ParamsOneOf i of None \<Rightarrow> Inr None | Some p \<Rightarrow> p) else Inr (InputSchema s2)) = Inr sch"
    and n: "SpecName s1 = InfoName i" "specs r (SpecName s1) = None"
    using assms(1) unfolding b Register_def option.case i sum.case Let_def s1_def [symmetric] s2_def [symmetric]
    by (auto split: if_splits sum.splits)
  define s3 where "s3 = (let s = s2\<lparr>InputSchema := sch\<rparr>;
      s = (if Timeout s \<le> 0 then s\<lparr>Timeout := 3000000000\<rparr> else s) in if Attempts s \<le> 0 then s\<lparr>Attempts := 1\<rparr> else s)"
  have s3: "Permission s3 = Permission s" "RiskLevel s3 = RiskLevel s" "Metadata s3 = Metadata s" "SpecName s3 = InfoName i"
    by (simp_all add: s3_def Let_def keep n)
  have "tools r' = tools r @ [(b, s3)]"
    using assms n unfolding b Register_def option.case i sum.case Let_def s1_def [symmetric] s2_def [symmetric] sch
    by (auto simp: s3_def Let_def keep split: if_splits)
  with b i s3 show ?thesis by blast
qed

lemma register_all_policy:
  assumes "\<forall>(base, s) \<in> set regs. Permission s \<noteq> '''' \<and> RiskLevel s \<noteq> ''''" and "(b, s') \<in> set (tools (register_all regs r))"
  shows "(b, s') \<in> set (tools r) \<or> (\<exists>s. (Some b, s) \<in> set regs \<and> Permission s' = Permission s \<and> RiskLevel s' = RiskLevel s \<and>
    Metadata s' = Metadata s \<and> (\<exists>i. Info b = Inr i \<and> SpecName s' = InfoName i))"
  using assms
proof (induction regs arbitrary: r)
  case (Cons q regs)
  obtain base s where q: "q = (base, s)" by fastforce
  show ?case
  proof (cases "Register base s r")
    case (Inl e)
    with Cons q show ?thesis by (fastforce simp: register_all_def)
  next
    case (Inr r')
    then have "(b, s') \<in> set (tools (register_all regs r'))" using Cons.prems(2) q by (simp add: register_all_def)
    with Cons.IH [of r'] Cons.prems(1) have "(b, s') \<in> set (tools r') \<or> (\<exists>s. (Some b, s) \<in> set regs \<and> Permission s' = Permission s \<and>
        RiskLevel s' = RiskLevel s \<and> Metadata s' = Metadata s \<and> (\<exists>i. Info b = Inr i \<and> SpecName s' = InfoName i))" by auto
    moreover obtain b0 s0 where "base = Some b0" "tools r' = tools r @ [(b0, s0)]" "Permission s0 = Permission s" "RiskLevel s0 = RiskLevel s"
      "Metadata s0 = Metadata s" "\<exists>i. Info b0 = Inr i \<and> SpecName s0 = InfoName i"
      using Register_policy [OF Inr] Cons.prems(1) q by auto
    ultimately show ?thesis using q by auto
  qed
qed (simp add: register_all_def)

text \<open>The tools of the sources, without the exchange.\<close>

definition other_tools :: "base_tool list \<Rightarrow> tool_sources \<Rightarrow> base_tool set" where
  "other_tools mcp src = set mcp \<union> {b. UserTool src = Some (Inr b) \<or> LessonTool src = Some (Inr b) \<or> SearchTool src = Inr b \<or>
     FormatTool src = Inr b \<or> (\<exists>p x. MallTools src = Some (Inr (b, p, x)) \<or> MallTools src = Some (Inr (p, b, x)))}"

lemma exchange_policy:
  assumes "GetTools outs src = Inr ts" and "McpTools src = Inr mcp" and "(b, s) \<in> set ts" and "b \<notin> other_tools mcp src"
  shows "Permission s = ''authenticated'' \<and> RiskLevel s = ''high'' \<and> Metadata s = Map.empty \<and> (\<exists>i. Info b = Inr i \<and> SpecName s = InfoName i)"
proof -
  have "\<forall>(base, s) \<in> set (registrations outs mcp src). Permission s \<noteq> '''' \<and> RiskLevel s \<noteq> ''''"
    by (auto simp: registrations_def opt_tool_def spec_of_def split: option.splits sum.splits)
  from register_all_policy [OF this, of b s NewRegistry] assms(1-3)
  obtain s0 where "(Some b, s0) \<in> set (registrations outs mcp src)" "Permission s = Permission s0" "RiskLevel s = RiskLevel s0"
    "Metadata s = Metadata s0" and i: "\<exists>i. Info b = Inr i \<and> SpecName s = InfoName i"
    by (auto simp: GetTools_def NewRegistry_def)
  moreover from this(1) assms(4) have "s0 = spec_of ''authenticated'' ''high'' 20000000000 1 (outs 5)"
    by (auto simp: registrations_def opt_tool_def other_tools_def dest: sym split: option.splits sum.splits)
  ultimately show ?thesis by (simp add: spec_of_def)
qed

subsection \<open>The exchange of a request\<close>


text \<open>The three tools of the mall, and a call of the exchange after a confirming message.\<close>

definition plain_tool :: "string \<Rightarrow> base_tool" where
  "plain_tool n = \<lparr>Info = Inr \<lparr>InfoName = n, InfoDesc = '''', ParamsOneOf = None\<rparr>, invokable = True\<rparr>"

definition mall_sources :: tool_sources where
  "mall_sources = \<lparr>McpTools = Inr [], UserTool = None, LessonTool = None,
     MallTools = Some (Inr (plain_tool ''list_mall_products'', plain_tool ''prepare_mall_exchange'', plain_tool ''exchange_mall_product'')),
     SearchTool = Inl Canceled, FormatTool = Inl Canceled\<rparr>"

definition exchange_spec :: tool_spec where
  "exchange_spec = (spec_of ''authenticated'' ''high'' 20000000000 1 None)\<lparr>SpecName := ''exchange_mall_product''\<rparr>"

definition exchange_env :: "runes \<Rightarrow> tool_env" where
  "exchange_env msg = \<lparr>view = \<lparr>http_status = Map.empty, net_error = Map.empty, grpc_code = (\<lambda>_. '''')\<rparr>, unmarshal = (\<lambda>t. Inr (JObject [])),
     caller = Some (request_principal id ''student'' 7 ''user_7:c'' ''r'' msg 0), base_run = (\<lambda>k t. (''{}'', None)), cancelled = (\<lambda>_. None),
     repairer = None\<rparr>"

lemma mall_tools: "GetTools (\<lambda>_. None) mall_sources = Inr
    [(plain_tool ''list_mall_products'', (spec_of ''authenticated'' ''read_only'' 800000000 1 None)\<lparr>SpecName := ''list_mall_products''\<rparr>),
     (plain_tool ''prepare_mall_exchange'', (spec_of ''authenticated'' ''low'' 800000000 1 None)\<lparr>SpecName := ''prepare_mall_exchange''\<rparr>),
     (plain_tool ''exchange_mall_product'', exchange_spec)]"
  by (simp add: GetTools_def mall_sources_def registrations_def opt_tool_def register_all_def Register_def NewRegistry_def plain_tool_def
      spec_of_def exchange_spec_def TrimSpace_def Let_def)


end
