(* ===== verification/Conv_Ids.thy ===== *)
theory Conv_Ids
  imports Prelude
begin

text \<open>
  The conversation ids of the agent (src/internal/rpc/agent/memory/short_memory.go, BuildConvID):
  what the caller sends is moved into a name space of its user. digest is the hexadecimal form of
  the first 16 bytes of a SHA-256 sum.
\<close>

definition BuildConvID :: "(string \<Rightarrow> string) \<Rightarrow> int \<Rightarrow> string \<Rightarrow> string" where
  "BuildConvID digest userID convID =
     (let convID = TrimSpace convID;
          own = ''user_'' @ show_int userID in
      if convID = '''' then own @ ''_default''
      else if convID = own @ ''_default'' then convID
      else if HasPrefix convID (own @ '':'') then convID
      else if length (own @ '':'' @ convID) \<le> 64 then own @ '':'' @ convID
      else own @ '':'' @ digest convID)"

lemma show_nat_length: "n < 10 ^ k \<Longrightarrow> 1 \<le> k \<Longrightarrow> length (show_nat n) \<le> k"
proof (induction k arbitrary: n)
  case (Suc k)
  show ?case
  proof (cases "n < 10")
    case False
    then have "1 \<le> k" "n div 10 < 10 ^ k" using Suc.prems by (cases k; simp add: less_mult_imp_div_less mult.commute)+
    with Suc.IH [of "n div 10"] False show ?thesis by (subst show_nat.simps) simp
  qed (subst show_nat.simps, simp)
qed simp

lemma show_int_length:
  assumes "in_int64 i"
  shows "length (show_int i) \<le> 20"
proof -
  have "nat (- i) < 10 ^ 19" "nat i < 10 ^ 19" using assms by (simp_all add: in_int64_def) linarith+
  then have "length (show_nat (nat (- i))) \<le> 19" "length (show_nat (nat i)) \<le> 19" using show_nat_length by (metis one_le_numeral)+
  then show ?thesis by (simp add: show_int_def)
qed

lemma has_prefix_split: "HasPrefix t p \<Longrightarrow> \<exists>b. t = p @ b"
  by (metis HasPrefix_def append_take_drop_id)

lemma conv_id_cases:
  "BuildConvID digest u c = (''user_'' @ show_int u) @ ''_default'' \<or> HasPrefix (BuildConvID digest u c) ((''user_'' @ show_int u) @ '':'')"
proof -
  define own where "own = ''user_'' @ show_int u"
  have pre: "HasPrefix (own @ CHR '':'' # x) (own @ '':'')" for x by (simp add: HasPrefix_def)
  show ?thesis unfolding BuildConvID_def Let_def own_def [symmetric] using pre by simp
qed

lemma conv_id_shape: "\<exists>sep rest. BuildConvID digest u c = ''user_'' @ show_int u @ sep # rest \<and> sep \<in> {CHR ''_'', CHR '':''}"
proof -
  have "\<exists>rest. t = ''user_'' @ show_int u @ CHR '':'' # rest" if "HasPrefix t ((''user_'' @ show_int u) @ '':'')" for t
    using has_prefix_split [OF that] by auto
  note pre = this
  consider "BuildConvID digest u c = ''user_'' @ show_int u @ ''_default''" | "HasPrefix (BuildConvID digest u c) ((''user_'' @ show_int u) @ '':'')"
    using conv_id_cases [of digest u c] by fastforce
  then show ?thesis
  proof cases
    case 1
    then show ?thesis by (intro exI [of _ "CHR ''_''"] exI [of _ "''default''"]) simp
  next
    case 2
    from pre [OF this] show ?thesis by blast
  qed
qed

lemma conv_id_number:
  assumes "show_int u @ sep # rest = show_int v @ sep' # rest'" and "sep \<in> {CHR ''_'', CHR '':''}" and "sep' \<in> {CHR ''_'', CHR '':''}"
  shows "show_int u = show_int v"
proof -
  have no: "c \<notin> {CHR ''_'', CHR '':''}" if "c \<in> set (show_int i)" for c i
    using show_int_chars [OF that] by (auto simp: char_digit_def)
  have t: "takeWhile (\<lambda>c. c \<notin> {CHR ''_'', CHR '':''}) (show_int i @ s # r) = show_int i" if "s \<in> {CHR ''_'', CHR '':''}" for i s r
    using that no by (subst takeWhile_append2) auto
  show ?thesis using t [OF assms(2), of u rest] t [OF assms(3), of v rest'] assms(1) by metis
qed

lemma trimmed_last: "TrimSpace s \<noteq> [] \<Longrightarrow> \<not> is_space (last (TrimSpace s))"
proof -
  let ?r = "dropWhile is_space (rev (dropWhile is_space s))"
  assume "TrimSpace s \<noteq> []"
  then have "?r \<noteq> []" by (simp add: TrimSpace_def)
  then have "\<not> is_space (hd ?r)" by (rule hd_dropWhile)
  with \<open>?r \<noteq> []\<close> show ?thesis by (simp add: TrimSpace_def last_rev)
qed

lemma trim_id: "s \<noteq> [] \<Longrightarrow> \<not> is_space (hd s) \<Longrightarrow> \<not> is_space (last s) \<Longrightarrow> TrimSpace s = s"
proof -
  assume "s \<noteq> []" "\<not> is_space (hd s)" "\<not> is_space (last s)"
  then have "dropWhile is_space s = s" "dropWhile is_space (rev s) = rev s"
    by (simp_all add: dropWhile_eq_self_iff hd_rev)
  then show "TrimSpace s = s" by (simp add: TrimSpace_def)
qed

lemma conv_id_trimmed:
  assumes "\<And>c. digest c \<noteq> [] \<and> \<not> is_space (last (digest c))"
  shows "TrimSpace (BuildConvID digest u c) = BuildConvID digest u c"
proof (rule trim_id)
  obtain sep rest where s: "BuildConvID digest u c = ''user_'' @ show_int u @ sep # rest" using conv_id_shape by blast
  then show "BuildConvID digest u c \<noteq> []" "\<not> is_space (hd (BuildConvID digest u c))" by (simp_all add: is_space_def)
  have t: "\<not> is_space (last (TrimSpace c))" if "TrimSpace c \<noteq> []" using trimmed_last that by blast
  show "\<not> is_space (last (BuildConvID digest u c))"
    using assms [of "TrimSpace c"] t by (auto simp: BuildConvID_def Let_def is_space_def)
qed

lemma conv_id_stable:
  assumes "\<And>c. digest c \<noteq> [] \<and> \<not> is_space (last (digest c))"
  shows "BuildConvID digest u (BuildConvID digest u c) = BuildConvID digest u c"
proof -
  let ?i = "BuildConvID digest u c" and ?own = "''user_'' @ show_int u"
  have "?i = ?own @ ''_default'' \<or> HasPrefix ?i (?own @ '':'')" by (rule conv_id_cases)
  moreover have "?i \<noteq> []" using conv_id_shape [of digest u c] by auto
  ultimately show ?thesis
    unfolding BuildConvID_def [of digest u "?i"] Let_def conv_id_trimmed [OF assms] by auto
qed

text \<open>
  (safety). Users do not share conversations: whatever ids two users send, and whatever the digest,
  the ids that the service works with are different for different users; an id that the service
  gave out names the same conversation when it is sent back; and an id that does not carry the
  user's prefix itself fits the 64 characters of its column.
\<close>

theorem conversations_are_separate:
  assumes "in_int64 u" and "in_int64 v" and "\<And>c. length (digest c) = 32 \<and> \<not> is_space (last (digest c))"
  shows "(BuildConvID digest u c = BuildConvID digest v d \<longrightarrow> u = v) \<and>
    BuildConvID digest u (BuildConvID digest u c) = BuildConvID digest u c \<and>
    (HasPrefix (TrimSpace c) (''user_'' @ show_int u @ '':'') \<or> length (BuildConvID digest u c) \<le> 64)"
proof (intro conjI impI)
  have d: "digest c \<noteq> [] \<and> \<not> is_space (last (digest c))" for c using assms(3) [of c] by auto
  show "BuildConvID digest u (BuildConvID digest u c) = BuildConvID digest u c" by (rule conv_id_stable [OF d])
  show "u = v" if same: "BuildConvID digest u c = BuildConvID digest v d"
  proof -
    obtain sep rest sep' rest' where "BuildConvID digest u c = ''user_'' @ show_int u @ sep # rest" "sep \<in> {CHR ''_'', CHR '':''}"
      "BuildConvID digest v d = ''user_'' @ show_int v @ sep' # rest'" "sep' \<in> {CHR ''_'', CHR '':''}"
      using conv_id_shape by metis
    with same conv_id_number have "show_int u = show_int v" by simp
    with assms(1,2) show ?thesis using show_int_inject by blast
  qed
  show "HasPrefix (TrimSpace c) (''user_'' @ show_int u @ '':'') \<or> length (BuildConvID digest u c) \<le> 64"
    using show_int_length [OF assms(1)] assms(3) by (simp add: BuildConvID_def Let_def)
qed

text \<open>An id with the user's own prefix is not shortened.\<close>

lemma show_seven: "show_int 7 = ''7''"
  by code_simp

lemma long_conv_id_is_kept: "length (BuildConvID digest 7 (''user_7:'' @ replicate 100 CHR ''a'')) = 107"
proof -
  let ?c = "''user_7:'' @ replicate 100 CHR ''a''"
  have "TrimSpace ?c = ?c" by (rule trim_id) (simp_all add: is_space_def)
  then show ?thesis by (simp add: BuildConvID_def Let_def HasPrefix_def show_seven)
qed

theorem conversations_are_separate_witness:
  "BuildConvID (\<lambda>_. replicate 32 CHR ''0'') 7 ''c'' \<noteq> BuildConvID (\<lambda>_. replicate 32 CHR ''0'') 8 ''c'' \<and>
   BuildConvID (\<lambda>_. replicate 32 CHR ''0'') 7 ''user_7:c'' = ''user_7:c''"
proof -
  have c: "BuildConvID (\<lambda>_. replicate 32 CHR ''0'') 7 ''c'' = ''user_7:c''"
    by (simp add: BuildConvID_def TrimSpace_def is_space_def show_seven HasPrefix_def)
  from conversations_are_separate [of 7 8 "\<lambda>_. replicate 32 CHR ''0''" "''c''" "''c''"] show ?thesis
    by (simp add: in_int64_def is_space_def c)
qed

end
