(* ===== verification/Agent_Chat.thy ===== *)
theory Agent_Chat
  imports Session_Context Agent_Tools Conv_Ids
begin

text \<open>
  A chat request to the agent (src/internal/rpc/agent/agent/chat.go with handler.go): the short-term
  memory of messages and conversations (memory/short_memory.go, memory/other.go), the identity under
  which tools run, and the request itself, which answers from what is stored, or recovers the session
  context, invokes the agent and stores its answer. The agent, the retrieval of facts and documents
  and the profile are parameters; trace rows and metrics are not modelled.
\<close>

subsection \<open>Tables\<close>

record message_row =
  RowID :: int
  RowUser :: int
  RowConv :: string
  RowRequest :: string
  RowRole :: string
  RowContent :: runes
  RowCreated :: int

record conv_row =
  ConvUser :: int
  ConvID :: string
  ConvUpdated :: int

text \<open>What the model is asked.\<close>

record user_message =
  UmID :: int
  UmLesson :: int
  UmQuery :: runes
  UmHistory :: "message list"
  UmFacts :: runes
  UmProfile :: runes
  UmDocs :: runes

text \<open>
  The tables of the agent: the session memory, messages and conversations, and of the plans, steps
  and trace events the columns that the deletion of a conversation looks at (plan id, user and
  session; plan id; session). The log of invocations and the sequence number of the current run are
  no tables.
\<close>

record agent_world =
  session :: session_world
  messages :: "message_row list"
  conversations :: "conv_row list"
  next_message :: int
  plan_rows :: "(int \<times> int \<times> string) list"
  step_rows :: "int list"
  trace_rows :: "string list"
  invoked :: "(string \<times> string \<times> user_message) list"
  run_seq :: int

type_synonym 'a agent_tx = "(agent_world, 'a) tx"

definition on_session :: "'a session_tx \<Rightarrow> 'a agent_tx" where
  "on_session m s =
     (case m \<lparr>tables = session (tables s), plan = plan s\<rparr> of
        (r, s') \<Rightarrow> (r, \<lparr>tables = (tables s)\<lparr>session := tables s'\<rparr>, plan = plan s'\<rparr>))"

definition tx_modify :: "('t \<Rightarrow> 't) \<Rightarrow> ('t, unit) tx" where
  "tx_modify f s = (Inr (), s\<lparr>tables := f (tables s)\<rparr>)"

lemma always_on_session [always_simps]:
  "always (on_session m) t Q \<longleftrightarrow> always m (session t) (\<lambda>r t'. Q r (t\<lparr>session := t'\<rparr>))"
  by (simp add: always_def on_session_def split_beta)

lemma always_modify [always_simps]: "always (tx_modify f) t Q \<longleftrightarrow> Q (Inr ()) (f t)"
  by (simp add: always_def tx_modify_def)

lemma always_modify_bind [always_simps]: "always (tx_bind (tx_modify f) k) t Q \<longleftrightarrow> always (k ()) (f t) Q"
  by (simp add: always_def tx_modify_def tx_bind_def tx_then_def)

subsection \<open>Statements\<close>

definition same_message :: "string \<Rightarrow> string \<Rightarrow> string \<Rightarrow> message_row \<Rightarrow> bool" where
  "same_message conv req role m \<longleftrightarrow> RowConv m = conv \<and> RowRequest m = req \<and> RowRole m = role"

text \<open>INSERT ... ON CONFLICT (conv_id) DO UPDATE SET updated_at = NOW().\<close>

definition upsertConversation :: "int \<Rightarrow> string \<Rightarrow> (agent_world, unit) sql" where
  [sql_defs]: "upsertConversation uid conv = (\<lambda>now t.
     (Inr (), t\<lparr>conversations :=
        (if find (\<lambda>c. ConvID c = conv) (conversations t) \<noteq> None
         then map (\<lambda>c. if ConvID c = conv then c\<lparr>ConvUpdated := now\<rparr> else c) (conversations t)
         else conversations t @ [\<lparr>ConvUser = uid, ConvID = conv, ConvUpdated = now\<rparr>])\<rparr>))"

text \<open>INSERT ... ON CONFLICT (conv_id, request_id, role) DO NOTHING.\<close>

definition insertMessage :: "message_row \<Rightarrow> (agent_world, unit) sql" where
  [sql_defs]: "insertMessage m = (\<lambda>now t.
     (Inr (), t\<lparr>messages :=
          (if find (same_message (RowConv m) (RowRequest m) (RowRole m)) (messages t) \<noteq> None then messages t
           else messages t @ [m\<lparr>RowID := next_message t, RowCreated := now\<rparr>]),
        next_message := next_message t + 1\<rparr>))"

definition firstMessage :: "string \<Rightarrow> string \<Rightarrow> string \<Rightarrow> (agent_world, message_row) sql" where
  [sql_defs]: "firstMessage conv req role = (\<lambda>now t.
     (case find (same_message conv req role) (messages t) of None \<Rightarrow> Inl ErrRecordNotFound | Some m \<Rightarrow> Inr m, t))"

definition countMessages :: "string \<Rightarrow> string \<Rightarrow> string \<Rightarrow> (agent_world, int) sql" where
  [sql_defs]: "countMessages conv req role = (\<lambda>now t. (Inr (int (length (filter (same_message conv req role) (messages t)))), t))"

text \<open>The messages of a conversation in the order of created_at and id.\<close>

definition in_order :: "string \<Rightarrow> agent_world \<Rightarrow> message_row list" where
  "in_order conv t = sort_key RowCreated (sort_key RowID (filter (\<lambda>m. RowConv m = conv) (messages t)))"

definition selectRecent :: "string \<Rightarrow> nat \<Rightarrow> (agent_world, message_row list) sql" where
  [sql_defs]: "selectRecent conv limit = (\<lambda>now t. (Inr (take limit (rev (in_order conv t))), t))"

definition selectFull :: "string \<Rightarrow> (agent_world, message_row list) sql" where
  [sql_defs]: "selectFull conv = (\<lambda>now t. (Inr (in_order conv t), t))"

subsection \<open>Short-term memory\<close>

definition AppendMessage_db :: "int \<Rightarrow> string \<Rightarrow> string \<Rightarrow> string \<Rightarrow> runes \<Rightarrow> unit agent_tx" where
  "AppendMessage_db uid conv req role content =
     (if conv = '''' then tx_fail (ErrNew ''empty convID'')
      else if req = '''' then tx_fail (ErrNew ''empty requestID'')
      else Transaction
        (tx_bind (stmt (upsertConversation uid conv)) (\<lambda>_.
         stmt (insertMessage \<lparr>RowID = 0, RowUser = uid, RowConv = conv, RowRequest = req, RowRole = role, RowContent = content,
           RowCreated = 0\<rparr>))))"

definition EnsureConversation :: "int \<Rightarrow> string \<Rightarrow> unit agent_tx" where
  "EnsureConversation uid conv =
     (if conv = '''' then tx_fail (ErrNew ''empty convID'') else stmt (upsertConversation uid conv))"

definition ExistsMessage :: "string \<Rightarrow> string \<Rightarrow> string \<Rightarrow> bool agent_tx" where
  "ExistsMessage conv req role =
     (if conv = '''' then tx_fail (ErrNew ''empty convID'')
      else if req = '''' then tx_fail (ErrNew ''empty requestID'')
      else tx_bind (stmt (countMessages conv req role)) (\<lambda>n. tx_return (0 < n)))"

definition GetMessageByRequestIDAndRole :: "string \<Rightarrow> string \<Rightarrow> string \<Rightarrow> message_row option agent_tx" where
  "GetMessageByRequestIDAndRole conv req role =
     (if conv = '''' then tx_fail (ErrNew ''empty convID'')
      else if req = '''' then tx_fail (ErrNew ''empty requestID'')
      else tx_then (stmt (firstMessage conv req role)) (\<lambda>r.
        case r of
          Inl e \<Rightarrow> if err_is e ErrRecordNotFound then tx_return None else tx_fail e
        | Inr m \<Rightarrow> tx_return (Some m)))"

definition GetAssistantMessageByRequestID :: "string \<Rightarrow> string \<Rightarrow> runes option agent_tx" where
  "GetAssistantMessageByRequestID conv req =
     tx_bind (GetMessageByRequestIDAndRole conv req ''assistant'') (\<lambda>m. tx_return (map_option RowContent m))"

definition as_message :: "message_row \<Rightarrow> message" where
  "as_message m = \<lparr>MsgRole = RowRole m, MsgContent = RowContent m\<rparr>"

definition GetRecentMessages :: "string \<Rightarrow> int \<Rightarrow> message list agent_tx" where
  "GetRecentMessages conv window =
     (if conv = '''' then tx_fail (ErrNew ''empty convID'')
      else tx_bind (stmt (selectRecent conv (nat (if window \<le> 0 then 6 else window)))) (\<lambda>rows.
        tx_return (map as_message (rev rows))))"

definition GetFullMessages :: "string \<Rightarrow> message list agent_tx" where
  "GetFullMessages conv =
     (if conv = '''' then tx_fail (ErrNew ''empty convID'')
      else tx_bind (stmt (selectFull conv)) (\<lambda>rows. tx_return (map as_message rows)))"

text \<open>DeleteConversation, statement by statement.\<close>

definition deleteWhere :: "(agent_world \<Rightarrow> agent_world) \<Rightarrow> (agent_world, unit) sql" where
  [sql_defs]: "deleteWhere f = (\<lambda>now t. (Inr (), f t))"

definition pluckPlans :: "int \<Rightarrow> string \<Rightarrow> (agent_world, int list) sql" where
  [sql_defs]: "pluckPlans uid conv = (\<lambda>now t. (Inr (map fst (filter (\<lambda>(i, u, c). u = uid \<and> c = conv) (plan_rows t))), t))"

definition DeleteConversation :: "int \<Rightarrow> string \<Rightarrow> unit agent_tx" where
  "DeleteConversation uid conv =
     (if conv = '''' then tx_fail (ErrNew ''empty convID'')
      else Transaction
        (tx_bind (stmt (pluckPlans uid conv)) (\<lambda>planIDs.
         tx_bind (if 0 < length planIDs
                  then stmt (deleteWhere (\<lambda>t. t\<lparr>step_rows := filter (\<lambda>p. p \<notin> set planIDs) (step_rows t)\<rparr>))
                  else tx_return ()) (\<lambda>_.
         tx_bind (stmt (deleteWhere (\<lambda>t. t\<lparr>plan_rows := filter (\<lambda>(i, u, c). \<not> (u = uid \<and> c = conv)) (plan_rows t)\<rparr>))) (\<lambda>_.
         tx_bind (stmt (deleteWhere (\<lambda>t. t\<lparr>session := (session t)\<lparr>checkpoints :=
             filter (\<lambda>c. \<not> (CpUser c = uid \<and> CpSession c = conv)) (checkpoints (session t))\<rparr>\<rparr>))) (\<lambda>_.
         tx_bind (stmt (deleteWhere (\<lambda>t. t\<lparr>session := (session t)\<lparr>tevents :=
             filter (\<lambda>e. \<not> (EvUser e = uid \<and> EvSession e = conv)) (tevents (session t))\<rparr>\<rparr>))) (\<lambda>_.
         tx_bind (stmt (deleteWhere (\<lambda>t. t\<lparr>trace_rows := filter (\<lambda>s. s \<noteq> conv) (trace_rows t)\<rparr>))) (\<lambda>_.
         tx_bind (stmt (deleteWhere (\<lambda>t. t\<lparr>messages := filter (\<lambda>m. RowConv m \<noteq> conv) (messages t)\<rparr>))) (\<lambda>_.
         tx_bind (stmt (deleteWhere (\<lambda>t. t\<lparr>conversations := filter (\<lambda>c. \<not> (ConvUser c = uid \<and> ConvID c = conv)) (conversations t)\<rparr>))) (\<lambda>_.
         tx_return ()))))))))))"

subsection \<open>Reading a conversation list\<close>

text \<open>ORDER BY updated_at DESC, id DESC; rows stand in the order of their ids.\<close>

definition selectConversations :: "int \<Rightarrow> (agent_world, conv_row list) sql" where
  [sql_defs]: "selectConversations uid = (\<lambda>now t.
     (Inr (rev (sort_key ConvUpdated (filter (\<lambda>c. ConvUser c = uid) (conversations t)))), t))"

definition ListConversations :: "int \<Rightarrow> string list agent_tx" where
  "ListConversations uid = tx_bind (stmt (selectConversations uid)) (\<lambda>rows. tx_return (map ConvID rows))"

subsection \<open>A request\<close>

text \<open>
  What a request is given: the budget and the compactor of the session manager (if there is one), the
  task state, the three retrievals (facts, documents and profile, which degrade to empty texts and
  never fail), and the agent, which sees the principal of its context, answers the n-th question with
  the role and content of a message or an error, and writes transcript events while it runs.
\<close>

record chat_env =
  Cjk :: "rune \<Rightarrow> bool"
  Budget :: budget
  Compact :: "compactor option"
  has_sessions :: bool
  Tasks :: "nat \<Rightarrow> goerr + runes"
  Gather :: "nat \<Rightarrow> runes \<times> runes \<times> runes"
  Runner :: "(principal \<Rightarrow> nat \<Rightarrow> user_message \<Rightarrow> (string \<times> string \<times> runes) list \<times> (goerr + string \<times> runes)) option"
  SafeError :: "goerr \<Rightarrow> runes"
  Lower :: "string \<Rightarrow> string"
  CallerRole :: string

definition tx_read :: "('t \<Rightarrow> 'a) \<Rightarrow> ('t, 'a) tx" where
  "tx_read f s = (Inr (f (tables s)), s)"

lemma always_read [always_simps]: "always (tx_read f) t Q \<longleftrightarrow> Q (Inr (f t)) t"
  by (simp add: always_def tx_read_def)

lemma always_read_bind [always_simps]: "always (tx_bind (tx_read f) k) t Q \<longleftrightarrow> always (k (f t)) t Q"
  by (simp add: always_def tx_read_def tx_bind_def tx_then_def)

text \<open>RecordTranscript of trace.go on the database; its error is dropped.\<close>

definition record_event :: "int \<Rightarrow> string \<Rightarrow> string \<Rightarrow> string \<times> string \<times> runes \<Rightarrow> unit agent_tx" where
  "record_event uid conv req e =
     (case e of (ty, name, content) \<Rightarrow>
        tx_bind (tx_modify (\<lambda>t. t\<lparr>run_seq := run_seq t + 1\<rparr>)) (\<lambda>_.
        tx_bind (tx_read run_seq) (\<lambda>n.
        tx_then (on_session (AppendTranscriptEvent \<lparr>EvID = 0, EvUser = uid, EvSession = conv, EvRequest = req,
            EvKey = event_key ty name n, EvType = ty, EvRole = '''', EvContent = content, EvTokens = 0\<rparr>)) (\<lambda>_.
        tx_return ()))))"

fun record_events :: "int \<Rightarrow> string \<Rightarrow> string \<Rightarrow> (string \<times> string \<times> runes) list \<Rightarrow> unit agent_tx" where
  "record_events uid conv req [] = tx_return ()"
| "record_events uid conv req (e # es) = tx_bind (record_event uid conv req e) (\<lambda>_. record_events uid conv req es)"

definition firstEvent :: "string \<Rightarrow> string \<Rightarrow> string \<Rightarrow> (session_world, tevent) sql" where
  [sql_defs]: "firstEvent sid request k = (\<lambda>now t.
     (case find (\<lambda>e. EvSession e = sid \<and> EvRequest e = request \<and> EvKey e = k) (tevents t) of
        None \<Rightarrow> Inl ErrRecordNotFound | Some e \<Rightarrow> Inr e, t))"

definition GetTranscriptEvent :: "string \<Rightarrow> string \<Rightarrow> string \<Rightarrow> tevent option session_tx" where
  "GetTranscriptEvent sid request k =
     tx_then (stmt (firstEvent sid request k)) (\<lambda>r.
       case r of
         Inl e \<Rightarrow> if err_is e ErrRecordNotFound then tx_return None else tx_fail e
       | Inr e \<Rightarrow> tx_return (Some e))"

definition empty_input :: build_input where
  "empty_input = \<lparr>InProfile = [], InFacts = [], InDocs = [], TaskState = [], CurrentRequestID = '''', InRequest = [],
     Checkpoint = None, Events = []\<rparr>"

text \<open>agentRunner.Invoke, with the events it records.\<close>

definition Invoke ::
    "(principal \<Rightarrow> nat \<Rightarrow> user_message \<Rightarrow> (string \<times> string \<times> runes) list \<times> (goerr + string \<times> runes)) \<Rightarrow> principal \<Rightarrow> user_message \<Rightarrow>
     (string \<times> runes) agent_tx" where
  "Invoke agent who um =
     tx_bind (tx_read (\<lambda>t. agent who (length (invoked t)) um)) (\<lambda>(events, answer).
     tx_bind (tx_modify (\<lambda>t. t\<lparr>invoked := invoked t @ [(SessionID who, RequestID who, um)]\<rparr>)) (\<lambda>_.
     tx_bind (record_events (UserID who) (SessionID who) (RequestID who) events) (\<lambda>_.
       (case answer of Inl e \<Rightarrow> tx_fail e | Inr a \<Rightarrow> tx_return a))))"

text \<open>The working context: rebuilt from the transcript, or without a session manager the recent messages.\<close>

definition question_of :: "chat_env \<Rightarrow> int \<Rightarrow> int \<Rightarrow> string \<Rightarrow> string \<Rightarrow> runes \<Rightarrow> message list \<Rightarrow> user_message agent_tx" where
  "question_of env uid lesson conv req msg history =
     tx_bind (tx_read (\<lambda>t. length (invoked t))) (\<lambda>n.
       let (facts, docs, profile) = Gather env n in
       if has_sessions env then
         tx_bind (on_session (Recover (Cjk env) (Budget env) (Compact env) (Tasks env n) conv
             (empty_input\<lparr>InProfile := profile, InFacts := facts, InDocs := docs, CurrentRequestID := req, InRequest := msg\<rparr>))) (\<lambda>c.
         tx_return \<lparr>UmID = uid, UmLesson = lesson, UmQuery = CurrentRequest c, UmHistory = History c, UmFacts = Facts c,
           UmProfile = Profile c, UmDocs = Docs c\<rparr>)
       else tx_return \<lparr>UmID = uid, UmLesson = lesson, UmQuery = msg, UmHistory = history, UmFacts = facts, UmProfile = profile,
           UmDocs = docs\<rparr>)"

text \<open>The part of ChatWithAgent that asks: the question is stored first, then the answer.\<close>

definition ask ::
    "chat_env \<Rightarrow> (principal \<Rightarrow> nat \<Rightarrow> user_message \<Rightarrow> (string \<times> string \<times> runes) list \<times> (goerr + string \<times> runes)) \<Rightarrow>
     int \<Rightarrow> string \<Rightarrow> string \<Rightarrow> runes \<Rightarrow> int \<Rightarrow> runes agent_tx" where
  "ask env agent uid conv req msg lesson =
     tx_bind (if has_sessions env then tx_return [] else GetRecentMessages conv 6) (\<lambda>history.
     tx_bind (AppendMessage_db uid conv req ''user'' msg) (\<lambda>_.
     tx_bind (if has_sessions env
              then on_session (AppendMessage (Cjk env) uid conv req ''user'' ''user_message'' ''user'' msg)
              else tx_return ()) (\<lambda>_.
     tx_bind (question_of env uid lesson conv req msg history) (\<lambda>um.
     tx_bind (Invoke agent (request_principal (Lower env) (CallerRole env) uid conv req msg lesson) um) (\<lambda>(role, answer).
     tx_bind (if has_sessions env
              then on_session (AppendMessage (Cjk env) uid conv req ''assistant'' ''assistant_message'' ''assistant'' answer)
              else tx_return ()) (\<lambda>_.
     tx_bind (AppendMessage_db uid conv req role answer) (\<lambda>_.
     tx_return answer)))))))"

definition answer_request :: "chat_env \<Rightarrow> int \<Rightarrow> string \<Rightarrow> string \<Rightarrow> runes \<Rightarrow> int \<Rightarrow> runes agent_tx" where
  "answer_request env uid conv req msg lesson =
     (case Runner env of
        None \<Rightarrow> tx_fail (ErrNew ''nil agent runner'')
      | Some agent \<Rightarrow>
          tx_bind (GetAssistantMessageByRequestID conv req) (\<lambda>existed.
            case existed of
              Some a \<Rightarrow> tx_return a
            | None \<Rightarrow>
                tx_bind (if has_sessions env then on_session (GetTranscriptEvent conv req ''assistant'') else tx_return None) (\<lambda>transcript.
                  case transcript of
                    Some e \<Rightarrow>
                      tx_bind (AppendMessage_db uid conv req ''assistant'' (EvContent e)) (\<lambda>_. tx_return (EvContent e))
                  | None \<Rightarrow> ask env agent uid conv req msg lesson)))"

text \<open>ChatWithAgent: the events of the run around the answer; the deferred function runs on every return.\<close>

definition ChatWithAgent :: "chat_env \<Rightarrow> int \<Rightarrow> string \<Rightarrow> string \<Rightarrow> runes \<Rightarrow> int \<Rightarrow> runes agent_tx" where
  "ChatWithAgent env uid conv req msg lesson =
     tx_bind (tx_modify (\<lambda>t. t\<lparr>run_seq := 0\<rparr>)) (\<lambda>_.
     tx_bind (record_event uid conv req (''runtime_event'', ''run_started'', ascii ''Agent request started'')) (\<lambda>_.
     tx_then (answer_request env uid conv req msg lesson) (\<lambda>r.
     tx_bind (case r of
                Inl e \<Rightarrow> record_event uid conv req (''error'', ''agent'', SafeError env e)
              | Inr _ \<Rightarrow> tx_return ()) (\<lambda>_.
     tx_bind (record_event uid conv req (''runtime_event'', ''run_finished'', ascii ''Agent request finished'')) (\<lambda>_.
     (case r of Inl e \<Rightarrow> tx_fail e | Inr a \<Rightarrow> tx_return a))))))"

text \<open>AgentRuntime.Run and RunVariant: v1 is the run without a session manager.\<close>

definition RunVariant :: "chat_env \<Rightarrow> string \<Rightarrow> int \<Rightarrow> string \<Rightarrow> string \<Rightarrow> runes \<Rightarrow> int \<Rightarrow> runes agent_tx" where
  "RunVariant env variant uid conv req msg lesson =
     (if variant = ''v1'' then ChatWithAgent (env\<lparr>has_sessions := False\<rparr>) uid conv req msg lesson
      else ChatWithAgent env uid conv req msg lesson)"

subsection \<open>The handlers\<close>

text \<open>
  The reply and the error of the handler; uuid is the request id that is drawn when the caller sent
  none. Requests are served one after the other, so singleflight runs each of them.
\<close>

definition handle_chat ::
    "chat_env \<Rightarrow> (string \<Rightarrow> string) \<Rightarrow> bool \<Rightarrow> string \<Rightarrow> string \<Rightarrow> int \<Rightarrow> string \<Rightarrow> string \<Rightarrow> runes \<Rightarrow> int \<Rightarrow>
     (runes \<times> goerr option) agent_tx" where
  "handle_chat env digest allow_v1 variant uuid uid convId reqId msg lesson =
     (if trim msg = [] then tx_return (ascii ''empty message'', None)
      else
        (let conv = BuildConvID digest uid convId;
             req = TrimSpace reqId;
             req = (if req = '''' then uuid else req) in
         tx_then
           (if variant = ''v1'' \<and> allow_v1 then RunVariant env ''v1'' uid conv req msg lesson
            else ChatWithAgent env uid conv req msg lesson) (\<lambda>r.
         case r of
           Inl e \<Rightarrow> tx_return (ascii ''agent service temporarily unavailable'', Some e)
         | Inr a \<Rightarrow> tx_return (a, None))))"

definition ListAllUserConv :: "int \<Rightarrow> runes agent_tx" where
  "ListAllUserConv uid =
     tx_bind (ListConversations uid) (\<lambda>ids.
       tx_return (if ids = [] then ascii ''no conversations'' else join [10] (map ascii ids)))"

definition DelAllUserConv :: "(string \<Rightarrow> string) \<Rightarrow> int \<Rightarrow> string \<Rightarrow> runes agent_tx" where
  "DelAllUserConv digest uid convId =
     tx_bind (DeleteConversation uid (BuildConvID digest uid convId)) (\<lambda>_. tx_return (ascii ''success''))"

subsection \<open>What is stored of a request\<close>

definition stored_message :: "string \<Rightarrow> string \<Rightarrow> string \<Rightarrow> agent_world \<Rightarrow> message_row option" where
  "stored_message conv req role t = find (same_message conv req role) (messages t)"

definition stored_event :: "string \<Rightarrow> string \<Rightarrow> string \<Rightarrow> agent_world \<Rightarrow> tevent option" where
  "stored_event conv req k t = find (\<lambda>e. EvSession e = conv \<and> EvRequest e = req \<and> EvKey e = k) (tevents (session t))"

text \<open>The answer of a request: of the messages, else of the transcript.\<close>

definition stored_answer :: "string \<Rightarrow> string \<Rightarrow> agent_world \<Rightarrow> runes option" where
  "stored_answer conv req t =
     (case stored_message conv req ''assistant'' t of
        Some m \<Rightarrow> Some (RowContent m)
      | None \<Rightarrow> map_option EvContent (stored_event conv req ''assistant'' t))"

lemma find_app: "find P (xs @ ys) = (case find P xs of None \<Rightarrow> find P ys | Some x \<Rightarrow> Some x)"
  by (induction xs) auto

lemma find_none_if: "(\<And>x. x \<in> set xs \<Longrightarrow> \<not> P x) \<Longrightarrow> find P xs = None"
  by (simp add: find_None_iff)

text \<open>A step of a run that stores no message, asks nothing and adds to the transcript no answer.\<close>

definition only_traced :: "agent_world \<Rightarrow> agent_world \<Rightarrow> bool" where
  "only_traced t0 t \<longleftrightarrow> messages t = messages t0 \<and> invoked t = invoked t0 \<and>
     (\<exists>es. tevents (session t) = tevents (session t0) @ es \<and> (\<forall>e \<in> set es. EvKey e \<noteq> ''assistant''))"

lemma only_traced_refl: "only_traced t t"
  by (simp add: only_traced_def)

lemma only_traced_trans: "only_traced t u \<Longrightarrow> only_traced u v \<Longrightarrow> only_traced t v"
  unfolding only_traced_def by force

lemma only_traced_stored:
  assumes "only_traced t0 t"
  shows "stored_message conv req role t = stored_message conv req role t0"
    "stored_event conv req ''assistant'' t = stored_event conv req ''assistant'' t0"
    "stored_answer conv req t = stored_answer conv req t0"
    "stored_event conv req k t0 = Some e \<Longrightarrow> stored_event conv req k t = Some e"
    "invoked t = invoked t0"
proof -
  obtain es where es: "tevents (session t) = tevents (session t0) @ es" "\<forall>e \<in> set es. EvKey e \<noteq> ''assistant''"
    using assms by (auto simp: only_traced_def)
  show m: "stored_message conv req role t = stored_message conv req role t0" for role
    using assms by (simp add: only_traced_def stored_message_def)
  show a: "stored_event conv req ''assistant'' t = stored_event conv req ''assistant'' t0"
    using es by (simp add: stored_event_def find_app find_none_if split: option.split)
  show "stored_answer conv req t = stored_answer conv req t0" unfolding stored_answer_def m a ..
  show "stored_event conv req k t = Some e" if "stored_event conv req k t0 = Some e"
    using es(1) that by (simp add: stored_event_def find_app)
  show "invoked t = invoked t0" using assms by (simp add: only_traced_def)
qed

lemma keeps_on_session: "keeps I m \<Longrightarrow> keeps (\<lambda>t. I (session t)) (on_session m)"
  by (simp add: yields_def always_simps)

text \<open>The session operations of a run, for the sessions that grow by events of other keys.\<close>

definition grown :: "session_world \<Rightarrow> session_world \<Rightarrow> bool" where
  "grown s0 s \<longleftrightarrow> (\<exists>es. tevents s = tevents s0 @ es \<and> (\<forall>e \<in> set es. EvKey e \<noteq> ''assistant''))"

lemma grown_append: "EvKey e \<noteq> ''assistant'' \<Longrightarrow> keeps (grown s0) (AppendTranscriptEvent e)"
  unfolding AppendTranscriptEvent_def
proof (intro yields_if yields_fail keeps_stmt)
  fix now t
  assume "EvKey e \<noteq> ''assistant''" "grown s0 t"
  then obtain es where "tevents t = tevents s0 @ es" "\<forall>e \<in> set es. EvKey e \<noteq> ''assistant''" by (auto simp: grown_def)
  with \<open>EvKey e \<noteq> ''assistant''\<close> show "grown s0 (snd (insertEvent e now t))"
    unfolding grown_def by (intro exI [of _ "es @ (if find (same_event e) (tevents t) \<noteq> None then [] else [e\<lparr>EvID := next_event t\<rparr>])"])
      (auto simp: insertEvent_def)
qed

lemma grown_statements:
  "keeps (grown s0) (ListTranscriptEvents sid after)" "keeps (grown s0) (LatestSummaryCheckpoint sid)"
  "keeps (grown s0) (SaveSummaryCheckpoint c)"
  unfolding ListTranscriptEvents_def LatestSummaryCheckpoint_def SaveSummaryCheckpoint_def
  by (intro keeps_rules keeps_stmt; auto simp: selectEvents_def firstCheckpoint_def insertCheckpoint_def grown_def)+

lemma summary_key: "EvKey (summary_event sid request c) \<noteq> ''assistant''"
  by (simp add: summary_event_def)

lemma grown_Recover: "keeps (grown s0) (Recover cjk b compactor taskState sid inp)"
  unfolding Recover_def compact_prefix_def
  by (intro keeps_rules grown_statements grown_append summary_key)

lemma event_key_not_assistant: "event_key ty name n \<noteq> ''assistant''"
proof
  assume "event_key ty name n = ''assistant''"
  then have "CHR '':'' \<in> set ''assistant''" by (metis Un_iff event_key_def list.set_intros(1) set_append append_Cons)
  then show False by simp
qed

lemma keeps_modify: "(\<And>t. I t \<Longrightarrow> I (f t)) \<Longrightarrow> keeps I (tx_modify f)"
  by (simp add: yields_def always_simps)

lemma keeps_read: "keeps I (tx_read f)"
  by (simp add: yields_def always_simps)

lemma traced_on_session: "(\<And>s0. keeps (grown s0) m) \<Longrightarrow> keeps (only_traced t0) (on_session m)"
  unfolding yields_def
proof (intro allI impI)
  fix t
  assume m: "\<And>s0. \<forall>t. grown s0 t \<longrightarrow> always m t (\<lambda>r t'. grown s0 t' \<and> (\<forall>x. r = Inr x \<longrightarrow> True))" and t: "only_traced t0 t"
  have "always m (session t) (\<lambda>r s'. only_traced t0 (t\<lparr>session := s'\<rparr>))"
  proof (rule always_mono)
    show "always m (session t) (\<lambda>r s'. grown (session t0) s')" using m [of "session t0"] t by (simp add: grown_def only_traced_def)
  qed (use t in \<open>simp add: grown_def only_traced_def\<close>)
  then show "always (on_session m) t (\<lambda>r t'. only_traced t0 t' \<and> (\<forall>x. r = Inr x \<longrightarrow> True))" by (simp add: always_simps)
qed

lemma traced_seq: "keeps (only_traced t0) (tx_modify (\<lambda>t. t\<lparr>run_seq := f t\<rparr>))"
  by (rule keeps_modify) (simp add: only_traced_def)

lemma traced_event: "keeps (only_traced t0) (record_event uid conv req e)"
  unfolding record_event_def
  by (intro keeps_rules traced_seq keeps_read traced_on_session grown_append) (simp add: event_key_not_assistant)

lemma traced_events: "keeps (only_traced t0) (record_events uid conv req es)"
  by (induction es) (auto intro!: keeps_rules traced_event)

lemma traced_question: "keeps (only_traced t0) (question_of env uid lesson conv req msg history)"
  unfolding question_of_def by (intro keeps_rules keeps_read traced_on_session grown_Recover)

lemma traced_always: "keeps (only_traced t) m \<Longrightarrow> always m t (\<lambda>r t'. only_traced t t')"
  by (simp add: yields_def only_traced_refl)

lemma traced_transcript: "keeps (only_traced t0) (on_session (GetTranscriptEvent conv req k))"
  unfolding GetTranscriptEvent_def
  by (intro traced_on_session keeps_rules keeps_stmt) (auto simp: firstEvent_def)

definition same_answers :: "agent_world \<Rightarrow> agent_world \<Rightarrow> bool" where
  "same_answers t0 t \<longleftrightarrow> (\<forall>c q. stored_answer c q t = stored_answer c q t0)"

lemma traced_answers: "only_traced t0 t \<Longrightarrow> same_answers t0 t"
  by (simp add: same_answers_def only_traced_stored)

text \<open>What AppendMessage does to the messages.\<close>

definition stores :: "string \<Rightarrow> string \<Rightarrow> string \<Rightarrow> runes \<Rightarrow> agent_world \<Rightarrow> agent_world \<Rightarrow> bool" where
  "stores conv req role content t0 t \<longleftrightarrow> session t = session t0 \<and> invoked t = invoked t0 \<and>
     (messages t = messages t0 \<or>
      stored_message conv req role t0 = None \<and>
        (\<exists>m. messages t = messages t0 @ [m] \<and> same_message conv req role m \<and> RowContent m = content))"

lemma append_stores:
  "always (AppendMessage_db uid conv req role content) t
     (\<lambda>r t'. stores conv req role content t t' \<and> (r = Inr () \<longrightarrow> stored_message conv req role t' \<noteq> None))"
proof -
  let ?Q = "\<lambda>(r :: goerr + unit) t'. stores conv req role content t t' \<and> (r = Inr () \<longrightarrow> stored_message conv req role t' \<noteq> None)"
  have refl: "?Q (Inl e) t" for e by (simp add: stores_def)
  have body: "always
     (tx_bind (stmt (upsertConversation uid conv)) (\<lambda>_. stmt (insertMessage \<lparr>RowID = 0, RowUser = uid, RowConv = conv,
        RowRequest = req, RowRole = role, RowContent = content, RowCreated = 0\<rparr>))) t
     (\<lambda>r t'. case r of Inl e \<Rightarrow> ?Q (Inl e) t | Inr x \<Rightarrow> ?Q (Inr x) t' \<and> (\<forall>e. ?Q (Inl e) t') \<and> (\<forall>e. ?Q (Inl e) t))"
    by (auto simp: always_simps upsertConversation_def insertMessage_def stores_def stored_message_def find_app
        same_message_def split: option.split)
  show ?thesis
    unfolding AppendMessage_db_def always_if using always_Transaction [of _ t ?Q, OF body refl] refl by (auto simp: always_fail)
qed

lemma same_message_inj: "same_message c q ro m \<Longrightarrow> same_message conv req role m \<longleftrightarrow> c = conv \<and> q = req \<and> ro = role"
  by (auto simp: same_message_def)

lemma stores_message:
  assumes "stores conv req role content t0 t" and "stored_message c q ro t0 = Some m"
  shows "stored_message c q ro t = Some m"
  using assms by (auto simp: stores_def stored_message_def find_app)

lemma stores_other:
  assumes "stores conv req role content t0 t" and "(c, q, ro) \<noteq> (conv, req, role)"
  shows "stored_message c q ro t = stored_message c q ro t0"
  using assms by (auto simp: stores_def stored_message_def find_app same_message_def split: option.split)

lemma stores_new:
  assumes "stores conv req role content t0 t" and "stored_message conv req role t0 = None" and "stored_message conv req role t = Some m"
  shows "RowContent m = content"
  using assms by (auto simp: stores_def stored_message_def find_app split: if_splits)

lemma stores_event: "stores conv req role content t0 t \<Longrightarrow> stored_event c q k t = stored_event c q k t0"
  by (simp add: stores_def stored_event_def)

lemma stores_answers:
  assumes s: "stores conv req role content t0 t" and a: "role = ''assistant'' \<Longrightarrow> stored_answer conv req t0 = Some content"
  shows "same_answers t0 t"
  unfolding same_answers_def
proof (intro allI)
  fix c q
  note e = stores_event [OF s, of c q "''assistant''"]
  show "stored_answer c q t = stored_answer c q t0"
  proof (cases "(c, q, ''assistant'') = (conv, req, role) \<and> stored_message conv req role t0 = None")
    case False
    then have "stored_message c q ''assistant'' t = stored_message c q ''assistant'' t0"
      using stores_other [OF s, of c q "''assistant''"] stores_message [OF s, of c q "''assistant''"]
      by (metis (no_types, lifting) option.exhaust prod.inject)
    then show ?thesis unfolding stored_answer_def e by simp
  next
    case True
    with a have "stored_answer conv req t0 = Some content" by simp
    with True stores_new [OF s] e show ?thesis
      by (cases "stored_message conv req role t") (auto simp: stored_answer_def)
  qed
qed

lemma append_event_stored:
  "always (on_session (AppendMessage cjk uid conv req k ty role content)) t
     (\<lambda>r t'. messages t' = messages t \<and> invoked t' = invoked t \<and>
        (\<forall>c q j. stored_event c q j t' = stored_event c q j t \<or>
           (c, q, j) = (conv, req, k) \<and> stored_event c q j t = None \<and> map_option EvContent (stored_event c q j t') = Some content) \<and>
        (r = Inr () \<longrightarrow> stored_event conv req k t' \<noteq> None))"
proof -
  let ?e = "\<lparr>EvID = 0, EvUser = uid, EvSession = conv, EvRequest = req, EvKey = k, EvType = ty, EvRole = role, EvContent = content,
    EvTokens = est cjk content\<rparr>"
  have same: "find (same_event ?e) = find (\<lambda>e. EvSession e = conv \<and> EvRequest e = req \<and> EvKey e = k)"
    by (rule arg_cong [of _ _ find]) (auto simp: same_event_def)
  show ?thesis
    unfolding AppendMessage_def AppendTranscriptEvent_def
    by (auto simp: always_simps insertEvent_def stored_event_def find_app same split: option.split)
qed

lemma same_answers_trans [trans]: "same_answers t u \<Longrightarrow> same_answers u v \<Longrightarrow> same_answers t v"
  by (simp add: same_answers_def)

text \<open>The question of a request is stored.\<close>

definition question_stored :: "string \<Rightarrow> string \<Rightarrow> agent_world \<Rightarrow> bool" where
  "question_stored conv req t \<longleftrightarrow> stored_message conv req ''user'' t \<noteq> None \<and> stored_event conv req ''user'' t \<noteq> None"

lemma traced_question_stored: "only_traced t0 t \<Longrightarrow> question_stored conv req t0 \<Longrightarrow> question_stored conv req t"
  using only_traced_stored(1) [of t0 t conv req "''user''"] only_traced_stored(4) [of t0 t conv req "''user''"]
  by (fastforce simp: question_stored_def)

lemma stores_question_stored: "stores c q ro content t0 t \<Longrightarrow> question_stored conv req t0 \<Longrightarrow> question_stored conv req t"
  using stores_message [of c q ro content t0 t conv req "''user''"] stores_event [of c q ro content t0 t conv req "''user''"]
  by (fastforce simp: question_stored_def)

text \<open>How far a request has come that was asked in t0 without an answer there.\<close>

definition before_asking :: "agent_world \<Rightarrow> agent_world \<Rightarrow> bool" where
  "before_asking t0 t \<longleftrightarrow> same_answers t0 t \<and> invoked t = invoked t0"

definition after_asking :: "string \<Rightarrow> string \<Rightarrow> agent_world \<Rightarrow> agent_world \<Rightarrow> bool" where
  "after_asking conv req t0 t \<longleftrightarrow> same_answers t0 t \<and> question_stored conv req t \<and> (\<exists>um. invoked t = invoked t0 @ [(conv, req, um)])"

definition answered :: "string \<Rightarrow> string \<Rightarrow> agent_world \<Rightarrow> goerr + runes \<Rightarrow> agent_world \<Rightarrow> bool" where
  "answered conv req t0 r t \<longleftrightarrow>
     (\<forall>c q a. stored_answer c q t0 = Some a \<longrightarrow> stored_answer c q t = Some a) \<and>
     (\<forall>a. r = Inr a \<longrightarrow> stored_answer conv req t = Some a) \<and>
     (stored_answer conv req t0 \<noteq> None \<longrightarrow> invoked t = invoked t0) \<and>
     (invoked t = invoked t0 \<or> question_stored conv req t \<and> (\<exists>um. invoked t = invoked t0 @ [(conv, req, um)]))"

lemma before_answered: "before_asking t0 t \<Longrightarrow> answered conv req t0 (Inl e) t"
  by (simp add: before_asking_def answered_def same_answers_def)

lemma after_answered: "after_asking conv req t0 t \<Longrightarrow> stored_answer conv req t0 = None \<Longrightarrow> answered conv req t0 (Inl e) t"
  by (simp add: after_asking_def answered_def same_answers_def)

lemma before_traced: "before_asking t0 t \<Longrightarrow> only_traced t t' \<Longrightarrow> before_asking t0 t'"
  using traced_answers only_traced_stored(5) same_answers_trans by (metis before_asking_def)

lemma before_stores:
  "before_asking t0 t \<Longrightarrow> stores conv req role content t t' \<Longrightarrow> role \<noteq> ''assistant'' \<Longrightarrow> before_asking t0 t'"
  using stores_answers [of conv req role content t t'] same_answers_trans by (auto simp: before_asking_def stores_def)

lemma after_traced: "after_asking conv req t0 t \<Longrightarrow> only_traced t t' \<Longrightarrow> after_asking conv req t0 t'"
  using traced_answers [of t t'] only_traced_stored(5) [of t t'] same_answers_trans [of t0 t t'] traced_question_stored [of t t' conv req]
  by (simp add: after_asking_def)

lemma Invoke_always:
  assumes "before_asking t0 t" and "question_stored conv req t" and "SessionID who = conv" and "RequestID who = req"
  shows "always (Invoke agent who um) t (\<lambda>r t'. after_asking conv req t0 t')"
proof -
  let ?t = "t\<lparr>invoked := invoked t @ [(conv, req, um)]\<rparr>"
  have "stored_message c q ro ?t = stored_message c q ro t" "stored_event c q k ?t = stored_event c q k t" for c q ro k
    by (simp_all add: stored_message_def stored_event_def)
  note same = this
  have a: "after_asking conv req t0 ?t"
    using assms(1,2) unfolding after_asking_def before_asking_def same_answers_def question_stored_def stored_answer_def same by simp
  obtain events answer where q: "agent who (length (invoked t)) um = (events, answer)" by fastforce
  have "always (tx_bind (record_events (UserID who) conv req events) (\<lambda>_. case answer of Inl e \<Rightarrow> tx_fail e | Inr a \<Rightarrow> tx_return a)) ?t
      (\<lambda>r t'. after_asking conv req t0 t')"
    by (rule always_bind [OF traced_always [OF traced_events]])
      (auto simp: always_simps split: sum.split intro: after_traced [OF a])
  then show ?thesis using q by (simp add: Invoke_def always_simps assms(3,4))
qed

lemma answer_event:
  assumes "after_asking conv req t0 t" and "stored_answer conv req t0 = None"
    and "messages t' = messages t" and "invoked t' = invoked t"
    and "\<forall>c q j. stored_event c q j t' = stored_event c q j t \<or>
           (c, q, j) = (conv, req, ''assistant'') \<and> stored_event c q j t = None \<and>
             map_option EvContent (stored_event c q j t') = Some content"
  shows "answered conv req t0 (Inl e) t'" and
    "stored_event conv req ''assistant'' t' \<noteq> None \<Longrightarrow> answered conv req t0 (Inr content) t'"
proof -
  have m: "stored_message c q ro t' = stored_message c q ro t" for c q ro using assms(3) by (simp add: stored_message_def)
  have none: "stored_answer conv req t = None" using assms(1,2) by (simp add: after_asking_def same_answers_def)
  have other: "stored_answer c q t' = stored_answer c q t" if "(c, q) \<noteq> (conv, req)" for c q
  proof -
    have "stored_event c q ''assistant'' t' = stored_event c q ''assistant'' t" using assms(5) that by blast
    then show ?thesis unfolding stored_answer_def m by metis
  qed
  have user: "question_stored conv req t'"
  proof -
    have "stored_event conv req ''user'' t' = stored_event conv req ''user'' t" using assms(5) by auto
    with assms(1) m show ?thesis by (simp add: after_asking_def question_stored_def)
  qed
  have keep: "stored_answer c q t' = Some a" if "stored_answer c q t0 = Some a" for c q a
    using other [of c q] that assms(1,2) by (cases "(c, q) = (conv, req)") (auto simp: after_asking_def same_answers_def)
  show "answered conv req t0 (Inl e) t'" using keep user assms(1,2,4) by (auto simp: answered_def after_asking_def)
  assume some: "stored_event conv req ''assistant'' t' \<noteq> None"
  have "stored_message conv req ''assistant'' t = None" "stored_event conv req ''assistant'' t = None"
    using none by (auto simp: stored_answer_def split: option.splits)
  moreover from this some assms(5) have "map_option EvContent (stored_event conv req ''assistant'' t') = Some content" by metis
  ultimately have "stored_answer conv req t' = Some content" by (simp add: stored_answer_def m)
  then show "answered conv req t0 (Inr content) t'" using keep user assms(1,2,4) by (auto simp: answered_def after_asking_def)
qed

lemma stores_answered:
  assumes "answered conv req t0 (Inr content) t" and "stores conv req role content t t'" and "\<forall>a. r = Inr a \<longrightarrow> a = content"
  shows "answered conv req t0 r t'"
proof -
  have "stored_answer conv req t = Some content" using assms(1) by (simp add: answered_def)
  then have "same_answers t t'" using stores_answers [OF assms(2)] by simp
  moreover have "invoked t' = invoked t" using assms(2) by (simp add: stores_def)
  moreover have "question_stored conv req t \<longrightarrow> question_stored conv req t'" using stores_question_stored [OF assms(2)] by blast
  ultimately show ?thesis
    using assms(1,3) unfolding answered_def same_answers_def by metis
qed

text \<open>Storing the answer, in the transcript and then in the messages.\<close>

lemma answer_stored:
  assumes "after_asking conv req t0 t" and "stored_answer conv req t0 = None"
  shows "always (tx_bind (on_session (AppendMessage cjk uid conv req ''assistant'' ty ro answer)) (\<lambda>_.
      tx_bind (AppendMessage_db uid conv req role answer) (\<lambda>_. tx_return answer))) t (\<lambda>r t'. answered conv req t0 r t')"
proof (rule always_bind [OF append_event_stored])
  fix e :: goerr and t'
  assume "messages t' = messages t \<and> invoked t' = invoked t \<and>
    (\<forall>c q j. stored_event c q j t' = stored_event c q j t \<or>
       (c, q, j) = (conv, req, ''assistant'') \<and> stored_event c q j t = None \<and> map_option EvContent (stored_event c q j t') = Some answer) \<and>
    ((Inl e :: goerr + unit) = Inr () \<longrightarrow> stored_event conv req ''assistant'' t' \<noteq> None)"
  then show "answered conv req t0 (Inl e) t'" using answer_event(1) [OF assms] by blast
next
  fix x :: unit and t'
  assume "messages t' = messages t \<and> invoked t' = invoked t \<and>
    (\<forall>c q j. stored_event c q j t' = stored_event c q j t \<or>
       (c, q, j) = (conv, req, ''assistant'') \<and> stored_event c q j t = None \<and> map_option EvContent (stored_event c q j t') = Some answer) \<and>
    ((Inr x :: goerr + unit) = Inr () \<longrightarrow> stored_event conv req ''assistant'' t' \<noteq> None)"
  then have "answered conv req t0 (Inr answer) t'" using answer_event(2) [OF assms] by simp
  note a = stores_answered [OF this]
  show "always (tx_bind (AppendMessage_db uid conv req role answer) (\<lambda>_. tx_return answer)) t' (\<lambda>r t'. answered conv req t0 r t')"
    by (rule always_bind [OF append_stores]) (auto simp: always_simps intro: a)
qed

text \<open>Storing the question.\<close>

lemma question_event:
  assumes "before_asking t0 t" and "stored_message conv req ''user'' t \<noteq> None"
  shows "always (on_session (AppendMessage cjk uid conv req ''user'' ty ro msg)) t
    (\<lambda>r t'. before_asking t0 t' \<and> (r = Inr () \<longrightarrow> question_stored conv req t'))"
proof (rule always_mono [OF append_event_stored])
  fix r t'
  assume p: "messages t' = messages t \<and> invoked t' = invoked t \<and>
    (\<forall>c q j. stored_event c q j t' = stored_event c q j t \<or>
       (c, q, j) = (conv, req, ''user'') \<and> stored_event c q j t = None \<and> map_option EvContent (stored_event c q j t') = Some msg) \<and>
    (r = Inr () \<longrightarrow> stored_event conv req ''user'' t' \<noteq> None)"
  then have m: "stored_message c q ro t' = stored_message c q ro t" for c q ro by (simp add: stored_message_def)
  have "stored_event c q ''assistant'' t' = stored_event c q ''assistant'' t" for c q using p by auto
  then have "same_answers t t'" unfolding same_answers_def stored_answer_def m by metis
  with assms p m show "before_asking t0 t' \<and> (r = Inr () \<longrightarrow> question_stored conv req t')"
    using same_answers_trans [of t0 t t'] by (simp add: before_asking_def question_stored_def)
qed

lemma ask_answered:
  assumes "has_sessions env" and "before_asking t0 t" and none: "stored_answer conv req t0 = None"
  shows "always (ask env agent uid conv req msg lesson) t (\<lambda>r t'. answered conv req t0 r t')"
proof -
  let ?who = "request_principal (Lower env) (CallerRole env) uid conv req msg lesson"
  have who: "SessionID ?who = conv" "RequestID ?who = req" by (simp_all add: request_principal_def Let_def)
  have invoke: "always (tx_bind (Invoke agent ?who um) (\<lambda>(role, answer).
      tx_bind (on_session (AppendMessage (Cjk env) uid conv req ''assistant'' ''assistant_message'' ''assistant'' answer)) (\<lambda>_.
      tx_bind (AppendMessage_db uid conv req role answer) (\<lambda>_. tx_return answer)))) t2 (\<lambda>r t'. answered conv req t0 r t')"
    if "before_asking t0 t2" "question_stored conv req t2" for um t2
    by (rule always_bind [OF Invoke_always [OF that who]])
      (auto intro: after_answered none answer_stored)
  have asking: "always (tx_bind (question_of env uid lesson conv req msg []) (\<lambda>um. tx_bind (Invoke agent ?who um) (\<lambda>(role, answer).
      tx_bind (on_session (AppendMessage (Cjk env) uid conv req ''assistant'' ''assistant_message'' ''assistant'' answer)) (\<lambda>_.
      tx_bind (AppendMessage_db uid conv req role answer) (\<lambda>_. tx_return answer))))) t2 (\<lambda>r t'. answered conv req t0 r t')"
    if "before_asking t0 t2" "question_stored conv req t2" for t2
    by (rule always_bind [OF traced_always [OF traced_question]])
      (use before_traced [OF that(1)] traced_question_stored [OF _ that(2)] in \<open>auto intro: before_answered invoke\<close>)
  have stored: "always (tx_bind (on_session (AppendMessage (Cjk env) uid conv req ''user'' ''user_message'' ''user'' msg)) (\<lambda>_.
      tx_bind (question_of env uid lesson conv req msg []) (\<lambda>um. tx_bind (Invoke agent ?who um) (\<lambda>(role, answer).
      tx_bind (on_session (AppendMessage (Cjk env) uid conv req ''assistant'' ''assistant_message'' ''assistant'' answer)) (\<lambda>_.
      tx_bind (AppendMessage_db uid conv req role answer) (\<lambda>_. tx_return answer)))))) t1 (\<lambda>r t'. answered conv req t0 r t')"
    if "before_asking t0 t1" "stored_message conv req ''user'' t1 \<noteq> None" for t1
    by (rule always_bind [OF question_event [OF that]]) (auto intro: before_answered asking)
  have "always (tx_bind (AppendMessage_db uid conv req ''user'' msg) (\<lambda>_.
      tx_bind (on_session (AppendMessage (Cjk env) uid conv req ''user'' ''user_message'' ''user'' msg)) (\<lambda>_.
      tx_bind (question_of env uid lesson conv req msg []) (\<lambda>um. tx_bind (Invoke agent ?who um) (\<lambda>(role, answer).
      tx_bind (on_session (AppendMessage (Cjk env) uid conv req ''assistant'' ''assistant_message'' ''assistant'' answer)) (\<lambda>_.
      tx_bind (AppendMessage_db uid conv req role answer) (\<lambda>_. tx_return answer))))))) t (\<lambda>r t'. answered conv req t0 r t')"
    by (rule always_bind [OF append_stores])
      (use before_stores [OF assms(2)] in \<open>auto intro!: before_answered stored\<close>)
  then show ?thesis unfolding ask_def if_P [OF assms(1)] tx_steps .
qed

lemma get_answer:
  "always (GetAssistantMessageByRequestID conv req) t
     (\<lambda>r t'. t' = t \<and> (\<forall>ex. r = Inr ex \<longrightarrow> ex = map_option RowContent (stored_message conv req ''assistant'' t)))"
  unfolding GetAssistantMessageByRequestID_def
proof (rule always_bind [where R = "\<lambda>r t'. t' = t \<and> (\<forall>ex. r = Inr ex \<longrightarrow> ex = stored_message conv req ''assistant'' t)"])
  show "always (GetMessageByRequestIDAndRole conv req ''assistant'') t
      (\<lambda>r t'. t' = t \<and> (\<forall>ex. r = Inr ex \<longrightarrow> ex = stored_message conv req ''assistant'' t))"
    by (auto simp: GetMessageByRequestIDAndRole_def always_simps firstMessage_def stored_message_def split: option.split)
qed (auto simp: always_simps)

lemma get_event:
  "always (on_session (GetTranscriptEvent conv req k)) t (\<lambda>r t'. t' = t \<and> (\<forall>e. r = Inr e \<longrightarrow> e = stored_event conv req k t))"
  by (auto simp: GetTranscriptEvent_def always_simps firstEvent_def stored_event_def split: option.split)

lemma answered_refl: "answered conv req t (Inl e) t" "stored_answer conv req t = Some a \<Longrightarrow> answered conv req t (Inr a) t"
  by (simp_all add: answered_def)

lemma before_refl: "before_asking t t"
  by (simp add: before_asking_def same_answers_def)

lemma request_answered:
  assumes "has_sessions env"
  shows "always (answer_request env uid conv req msg lesson) t (\<lambda>r t'. answered conv req t r t')"
proof (cases "Runner env")
  case None
  then show ?thesis by (simp add: answer_request_def always_simps answered_refl)
next
  case (Some agent)
  have restored: "always (tx_bind (AppendMessage_db uid conv req ''assistant'' a) (\<lambda>_. tx_return a)) t (\<lambda>r t'. answered conv req t r t')"
    if "stored_answer conv req t = Some a" for a
    by (rule always_bind [OF append_stores])
      (auto simp: always_simps intro: stores_answered [OF answered_refl(2) [OF that]])
  have missing: "always (tx_bind (on_session (GetTranscriptEvent conv req ''assistant'')) (\<lambda>transcript.
      case transcript of
        Some e \<Rightarrow> tx_bind (AppendMessage_db uid conv req ''assistant'' (EvContent e)) (\<lambda>_. tx_return (EvContent e))
      | None \<Rightarrow> ask env agent uid conv req msg lesson)) t (\<lambda>r t'. answered conv req t r t')"
    if m: "stored_message conv req ''assistant'' t = None"
  proof (rule always_bind [OF get_event])
    fix x t'
    assume x: "t' = t \<and> (\<forall>e. Inr x = Inr e \<longrightarrow> e = stored_event conv req ''assistant'' t)"
    show "always (case x of
        Some e \<Rightarrow> tx_bind (AppendMessage_db uid conv req ''assistant'' (EvContent e)) (\<lambda>_. tx_return (EvContent e))
      | None \<Rightarrow> ask env agent uid conv req msg lesson) t' (\<lambda>r t'. answered conv req t r t')"
    proof (cases x)
      case None
      with x m have "stored_answer conv req t = None" by (simp add: stored_answer_def)
      with None x show ?thesis using ask_answered [OF assms before_refl] by simp
    next
      case (Some e)
      with x have "stored_event conv req ''assistant'' t = Some e" by metis
      with m have a: "stored_answer conv req t = Some (EvContent e)" by (simp add: stored_answer_def)
      from x have t: "t' = t" by simp
      show ?thesis unfolding Some t using restored [OF a] by simp
    qed
  qed (auto intro: answered_refl)
  show ?thesis
    unfolding answer_request_def Some option.case if_P [OF assms]
  proof (rule always_bind [OF get_answer])
    fix x t'
    assume x: "t' = t \<and> (\<forall>ex. Inr x = Inr ex \<longrightarrow> ex = map_option RowContent (stored_message conv req ''assistant'' t))"
    show "always (case x of
        None \<Rightarrow> tx_bind (on_session (GetTranscriptEvent conv req ''assistant'')) (\<lambda>transcript.
          case transcript of
            None \<Rightarrow> ask env agent uid conv req msg lesson
          | Some e \<Rightarrow> tx_bind (AppendMessage_db uid conv req ''assistant'' (EvContent e)) (\<lambda>_. tx_return (EvContent e)))
      | Some a \<Rightarrow> tx_return a) t' (\<lambda>r t'. answered conv req t r t')"
    proof (cases x)
      case None
      with x missing show ?thesis by simp
    next
      case (Some a)
      with x have "map_option RowContent (stored_message conv req ''assistant'' t) = Some a" by metis
      then have a: "stored_answer conv req t = Some a" by (auto simp: stored_answer_def)
      from x have t: "t' = t" by simp
      show ?thesis unfolding Some t using answered_refl(2) [OF a] by (simp add: always_simps)
    qed
  qed (auto intro: answered_refl)
qed

lemma answered_traced:
  assumes "answered conv req t r t'"
  shows "only_traced t0 t \<Longrightarrow> answered conv req t0 r t'" and "only_traced t' u \<Longrightarrow> answered conv req t r u"
  using assms only_traced_stored [of t0 t] traced_answers [of t' u] only_traced_stored(5) [of t' u] traced_question_stored [of t' u conv req]
  unfolding answered_def same_answers_def by (metis, metis)

lemma traced_result:
  assumes "answered conv req t0 r t" and "keeps (only_traced t) m"
  shows "always (tx_bind m (\<lambda>_. case r of Inl e \<Rightarrow> tx_fail e | Inr a \<Rightarrow> tx_return a)) t (\<lambda>r t'. answered conv req t0 r t')"
proof (rule always_bind [OF traced_always [OF assms(2)]])
  fix x t' assume "only_traced t t'"
  then have "answered conv req t0 r t'" using answered_traced(2) [OF assms(1)] by blast
  then show "always (case r of Inl e \<Rightarrow> tx_fail e | Inr a \<Rightarrow> tx_return a) t' (\<lambda>r t'. answered conv req t0 r t')"
    by (cases r) (simp_all add: always_simps)
next
  fix e t' assume "only_traced t t'"
  then have "answered conv req t0 r t'" using answered_traced(2) [OF assms(1)] by blast
  then show "answered conv req t0 (Inl e) t'" by (simp add: answered_def)
qed

lemma Chat_answered:
  assumes "has_sessions env"
  shows "always (ChatWithAgent env uid conv req msg lesson) t (\<lambda>r t'. answered conv req t r t')"
proof -
  let ?finish = "record_event uid conv req (''runtime_event'', ''run_finished'', ascii ''Agent request finished'')"
  let ?note = "\<lambda>r. case r of Inl e \<Rightarrow> record_event uid conv req (''error'', ''agent'', SafeError env e) | Inr _ \<Rightarrow> tx_return ()"
  have split: "tx_bind (?note r) (\<lambda>_. tx_bind ?finish (\<lambda>_. case r of Inl e \<Rightarrow> tx_fail e | Inr a \<Rightarrow> tx_return a)) =
      tx_bind (tx_bind (?note r) (\<lambda>_. ?finish)) (\<lambda>_. case r of Inl e \<Rightarrow> tx_fail e | Inr (a :: runes) \<Rightarrow> tx_return a)" for r
    by (rule ext) (auto simp: tx_bind_def tx_then_def tx_fail_def split: prod.split sum.split)
  have traced: "keeps (only_traced u) (tx_bind (?note r) (\<lambda>_. ?finish))" for u and r :: "goerr + runes"
    by (intro keeps_rules traced_event)
  have result: "always (tx_bind (?note r) (\<lambda>_. tx_bind ?finish (\<lambda>_. case r of Inl e \<Rightarrow> tx_fail e | Inr a \<Rightarrow> tx_return a))) u
      (\<lambda>r t'. answered conv req t r t')" if "answered conv req t r u" for r u
    unfolding split by (rule traced_result [OF that traced])
  have start: "only_traced t (t\<lparr>run_seq := 0\<rparr>)" by (simp add: only_traced_def)
  show ?thesis
    unfolding ChatWithAgent_def always_modify_bind
  proof (rule always_bind [OF traced_always [OF traced_event]])
    fix x t1 assume "only_traced (t\<lparr>run_seq := 0\<rparr>) t1"
    then have t1: "only_traced t t1" using start only_traced_trans by blast
    show "always (tx_then (answer_request env uid conv req msg lesson) (\<lambda>r. tx_bind (?note r) (\<lambda>_. tx_bind ?finish (\<lambda>_.
        case r of Inl e \<Rightarrow> tx_fail e | Inr a \<Rightarrow> tx_return a)))) t1 (\<lambda>r t'. answered conv req t r t')"
      by (rule always_then, rule always_mono [OF request_answered [OF assms]]) (rule result, rule answered_traced(1) [OF _ t1])
  next
    fix e t1 assume "only_traced (t\<lparr>run_seq := 0\<rparr>) t1"
    then show "answered conv req t (Inl e) t1" using answered_traced(2) [OF answered_traced(1) [OF answered_refl(1) start]] by blast
  qed
qed

subsection \<open>Answers are final\<close>

text \<open>
  Requests served one after the other: of each its conversation and id, the result, and whether the
  agent was asked.
\<close>

fun serve_chats ::
    "chat_env \<Rightarrow> (int \<times> string \<times> string \<times> runes \<times> int) list \<Rightarrow> agent_world tx_state \<Rightarrow>
     ((string \<times> string) \<times> (goerr + runes) \<times> bool) list" where
  "serve_chats env [] s = []"
| "serve_chats env ((uid, conv, req, msg, lesson) # cs) s =
     (let (r, s') = ChatWithAgent env uid conv req msg lesson s
      in ((conv, req), r, invoked (tables s') \<noteq> invoked (tables s)) # serve_chats env cs s')"

text \<open>An entry of the log that, if it is of request k, gives the answer a or an error without asking.\<close>

definition repeats :: "string \<times> string \<Rightarrow> runes \<Rightarrow> (string \<times> string) \<times> (goerr + runes) \<times> bool \<Rightarrow> bool" where
  "repeats k a e \<longleftrightarrow> (fst e = k \<longrightarrow> \<not> snd (snd e) \<and> (\<forall>b. fst (snd e) = Inr b \<longrightarrow> b = a))"

lemma answered_repeats:
  assumes "answered conv req t r t'" and "stored_answer (fst k) (snd k) t = Some a"
  shows "repeats k a ((conv, req), r, invoked t' \<noteq> invoked t)" and "stored_answer (fst k) (snd k) t' = Some a"
  using assms by (auto simp: answered_def repeats_def)

lemma stored_answers_are_final:
  assumes "has_sessions env"
  shows "stored_answer (fst k) (snd k) (tables s) = Some a \<Longrightarrow> e \<in> set (serve_chats env cs s) \<Longrightarrow> repeats k a e"
proof (induction cs arbitrary: s)
  case (Cons x cs)
  obtain uid conv req msg lesson where x: "x = (uid, conv, req, msg, lesson)" by (metis prod_cases5)
  obtain r s' where c: "ChatWithAgent env uid conv req msg lesson s = (r, s')" by fastforce
  note a = answered_repeats [OF alwaysD [OF Chat_answered [OF assms] c] Cons.prems(1)]
  from Cons.prems(2) consider "e = ((conv, req), r, invoked (tables s') \<noteq> invoked (tables s))" | "e \<in> set (serve_chats env cs s')"
    unfolding x serve_chats.simps c by auto
  then show ?case using a Cons.IH [of s'] by cases simp_all
qed simp


text \<open>Without faults a stored answer is returned.\<close>

lemma on_session_quiet:
  "on_session m (quiet now t) = (case m (quiet now (session t)) of
     (r, s') \<Rightarrow> (r, \<lparr>tables = t\<lparr>session := tables s'\<rparr>, plan = plan s'\<rparr>))"
  by (simp add: on_session_def quiet_def)

lemma on_session_quiet_stmt: "on_session (stmt f) (quiet now t) = (case f now (session t) of (r, s') \<Rightarrow> (r, quiet now (t\<lparr>session := s'\<rparr>)))"
  by (simp add: on_session_quiet split: prod.split) (simp add: quiet_def)

lemma on_session_fail: "on_session (tx_fail e) (quiet now t) = (Inl e, quiet now t)"
  by (simp add: on_session_quiet tx_fail_def) (simp add: quiet_def)

lemma modify_quiet: "tx_modify f (quiet now t) = (Inr (), quiet now (f t))" "tx_read g (quiet now t) = (Inr (g t), quiet now t)"
  by (simp_all add: tx_modify_def tx_read_def) (simp add: quiet_def)

lemma record_quiet: "\<exists>t'. record_event uid conv req e (quiet now t) = (Inr (), quiet now t') \<and> only_traced t t'"
proof -
  obtain r s' where r: "record_event uid conv req e (quiet now t) = (r, s')" by fastforce
  obtain ty name content where e: "e = (ty, name, content)" by (metis prod_cases3)
  have "r = Inr () \<and> (\<exists>t'. s' = quiet now t')"
    using r by (auto simp: e record_event_def tx_then_def tx_bind_def tx_return_def modify_quiet AppendTranscriptEvent_def on_session_fail
        on_session_quiet_stmt insertEvent_def split: if_splits)
  moreover have "only_traced t (tables s')"
    using alwaysD [OF traced_always [OF traced_event] r] by simp
  ultimately show ?thesis using r by auto
qed


lemma answer_quiet:
  assumes "stored_answer conv req t = Some a" and "has_sessions env" and "Runner env \<noteq> None" and "conv \<noteq> []" and "req \<noteq> []"
  shows "\<exists>t'. answer_request env uid conv req msg lesson (quiet now t) = (Inr a, quiet now t')"
proof -
  obtain agent where r: "Runner env = Some agent" using assms(3) by blast
  show ?thesis
  proof (cases "stored_message conv req ''assistant'' t")
    case (Some m)
    then have "RowContent m = a" using assms(1) by (simp add: stored_answer_def)
    with Some r assms(4,5) show ?thesis
      by (simp add: answer_request_def GetAssistantMessageByRequestID_def GetMessageByRequestIDAndRole_def stored_message_def
          firstMessage_def tx_run) blast
  next
    case None
    with assms(1) obtain e where e: "stored_event conv req ''assistant'' t = Some e" "EvContent e = a"
      by (auto simp: stored_answer_def)
    have get: "on_session (GetTranscriptEvent conv req ''assistant'') (quiet now t) = (Inr (Some e), quiet now t)"
      using e(1) by (simp add: on_session_quiet GetTranscriptEvent_def firstEvent_def tx_run stored_event_def) (simp add: quiet_def)
    from None e get r assms(2,4,5) show ?thesis
      by (simp add: answer_request_def GetAssistantMessageByRequestID_def GetMessageByRequestIDAndRole_def stored_message_def
          firstMessage_def tx_run AppendMessage_db_def Transaction_def upsertConversation_def insertMessage_def) blast
  qed
qed


lemma chat_quiet:
  assumes "stored_answer conv req t = Some a" and "has_sessions env" and "Runner env \<noteq> None" and "conv \<noteq> []" and "req \<noteq> []"
  shows "fst (ChatWithAgent env uid conv req msg lesson (quiet now t)) = Inr a"
proof -
  obtain t1 where t1: "record_event uid conv req (''runtime_event'', ''run_started'', ascii ''Agent request started'')
      (quiet now (t\<lparr>run_seq := 0\<rparr>)) = (Inr (), quiet now t1)" "only_traced (t\<lparr>run_seq := 0\<rparr>) t1"
    using record_quiet by blast
  have "only_traced t (t\<lparr>run_seq := 0\<rparr>)" by (simp add: only_traced_def)
  with t1(2) have "stored_answer conv req t1 = Some a" using only_traced_stored(3) only_traced_trans assms(1) by metis
  then obtain t2 where t2: "answer_request env uid conv req msg lesson (quiet now t1) = (Inr a, quiet now t2)"
    using answer_quiet assms(2-5) by blast
  obtain t3 where "record_event uid conv req (''runtime_event'', ''run_finished'', ascii ''Agent request finished'') (quiet now t2) =
      (Inr (), quiet now t3)" using record_quiet by blast
  with t1(1) t2 show ?thesis by (simp add: ChatWithAgent_def tx_bind_def tx_then_def tx_return_def modify_quiet)
qed

text \<open>A request whose answer reached the transcript only, made again twice.\<close>

definition half_answered :: agent_world where
  "half_answered =
     \<lparr>session = \<lparr>tevents = [\<lparr>EvID = 1, EvUser = 7, EvSession = ''user_7:c'', EvRequest = ''r'', EvKey = ''assistant'',
         EvType = ''assistant_message'', EvRole = ''assistant'', EvContent = ascii ''four'', EvTokens = 1\<rparr>],
       checkpoints = [], next_event = 2, next_checkpoint = 1\<rparr>,
      messages = [], conversations = [], next_message = 1, plan_rows = [], step_rows = [], trace_rows = [], invoked = [], run_seq = 0\<rparr>"

definition silent_env :: chat_env where
  "silent_env = \<lparr>Cjk = unified_ideograph, Budget = DefaultBudget, Compact = None, has_sessions = True, Tasks = (\<lambda>_. Inr []),
     Gather = (\<lambda>_. ([], [], [])), Runner = Some (\<lambda>_ _ _. ([], Inl Canceled)), SafeError = (\<lambda>_. []), Lower = id, CallerRole = ''student''\<rparr>"


subsection \<open>The tables of the conversations\<close>

text \<open>
  The session memory is well formed; a conversation stands once; a message of a request and a role
  stands once, under a given id, and belongs to a conversation; a step belongs to a plan.
\<close>

definition chat_ok :: "agent_world \<Rightarrow> bool" where
  "chat_ok t \<longleftrightarrow> session_ok (session t) \<and> distinct (map ConvID (conversations t)) \<and>
     distinct (map (\<lambda>m. (RowConv m, RowRequest m, RowRole m)) (messages t)) \<and>
     (\<forall>m \<in> set (messages t). RowID m < next_message t \<and> RowConv m \<in> set (map ConvID (conversations t))) \<and>
     set (step_rows t) \<subseteq> fst ` set (plan_rows t)"

lemma chat_ok_session: "keeps session_ok m \<Longrightarrow> keeps chat_ok (on_session m)"
  unfolding yields_def always_simps by (auto simp: chat_ok_def elim!: always_mono)

lemma chat_ok_seq: "keeps chat_ok (tx_modify (\<lambda>t. t\<lparr>run_seq := f t\<rparr>))" "keeps chat_ok (tx_modify (\<lambda>t. t\<lparr>invoked := g t\<rparr>))"
  by (rule keeps_modify; simp add: chat_ok_def)+

lemma upsert_ids:
  "map ConvID (conversations (snd (upsertConversation uid conv now t))) =
     (if conv \<in> set (map ConvID (conversations t)) then map ConvID (conversations t) else map ConvID (conversations t) @ [conv])"
  by (auto simp: upsertConversation_def find_None_iff image_iff)

lemma upsert_frame:
  "session (snd (upsertConversation uid conv now t)) = session t" "messages (snd (upsertConversation uid conv now t)) = messages t"
  "next_message (snd (upsertConversation uid conv now t)) = next_message t"
  "step_rows (snd (upsertConversation uid conv now t)) = step_rows t" "plan_rows (snd (upsertConversation uid conv now t)) = plan_rows t"
  by (simp_all add: upsertConversation_def)

lemma upsert_ok:
  assumes "chat_ok t"
  shows "chat_ok (snd (upsertConversation uid conv now t))"
    "conv \<in> set (map ConvID (conversations (snd (upsertConversation uid conv now t))))"
  using assms unfolding chat_ok_def upsert_ids upsert_frame by (auto split: if_splits)

lemma insert_ok:
  assumes "chat_ok t" and "RowConv m \<in> set (map ConvID (conversations t))"
  shows "chat_ok (snd (insertMessage m now t))"
proof (cases "find (same_message (RowConv m) (RowRequest m) (RowRole m)) (messages t)")
  case None
  then have "(RowConv m, RowRequest m, RowRole m) \<notin> set (map (\<lambda>m. (RowConv m, RowRequest m, RowRole m)) (messages t))"
    by (auto simp: find_None_iff same_message_def)
  with None assms show ?thesis by (auto simp: chat_ok_def insertMessage_def)
next
  case (Some x)
  with assms show ?thesis by (auto simp: chat_ok_def insertMessage_def)
qed

lemma chat_ok_AppendMessage: "keeps chat_ok (AppendMessage_db uid conv req role content)"
  unfolding AppendMessage_db_def
proof (intro yields_if yields_fail yields_Transaction)
  let ?m = "\<lparr>RowID = 0, RowUser = uid, RowConv = conv, RowRequest = req, RowRole = role, RowContent = content, RowCreated = 0\<rparr>"
  have ok: "fst (upsertConversation uid conv now t) = Inr ()" "fst (insertMessage m now t) = Inr ()" for now t m
    by (simp_all add: upsertConversation_def insertMessage_def)
  have "chat_ok (snd (insertMessage ?m now' (snd (upsertConversation uid conv now t))))" if "chat_ok t" for now now' t
    using insert_ok [of "snd (upsertConversation uid conv now t)" ?m now'] upsert_ok [OF that] by simp
  then show "keeps chat_ok (tx_bind (stmt (upsertConversation uid conv)) (\<lambda>_. stmt (insertMessage ?m)))"
    by (simp add: yields_def always_simps split_beta ok upsert_ok)
qed

text \<open>The tables without a conversation of a user: what is left, row by row.\<close>

definition plans_of :: "int \<Rightarrow> string \<Rightarrow> (int \<times> int \<times> string) list \<Rightarrow> int set" where
  "plans_of uid conv rows = {i. (i, uid, conv) \<in> set rows}"

definition without :: "int \<Rightarrow> string \<Rightarrow> agent_world \<Rightarrow> agent_world" where
  "without uid conv t =
     t\<lparr>session := (session t)\<lparr>tevents := filter (\<lambda>e. (EvUser e, EvSession e) \<noteq> (uid, conv)) (tevents (session t)),
         checkpoints := filter (\<lambda>c. (CpUser c, CpSession c) \<noteq> (uid, conv)) (checkpoints (session t))\<rparr>,
       messages := filter (\<lambda>m. RowConv m \<noteq> conv) (messages t),
       conversations := filter (\<lambda>c. (ConvUser c, ConvID c) \<noteq> (uid, conv)) (conversations t),
       plan_rows := filter (\<lambda>q. snd q \<noteq> (uid, conv)) (plan_rows t),
       step_rows := filter (\<lambda>p. p \<notin> plans_of uid conv (plan_rows t)) (step_rows t),
       trace_rows := filter (\<lambda>s. s \<noteq> conv) (trace_rows t)\<rparr>"

lemma DeleteConversation_always:
  "always (DeleteConversation uid conv) t (\<lambda>r t'. t' = without uid conv t \<or> t' = t \<and> r \<noteq> Inr ())"
proof -
  let ?Q = "\<lambda>(r :: goerr + unit) t'. t' = without uid conv t \<or> t' = t \<and> r \<noteq> Inr ()"
  have ids: "fst ` {x \<in> set rows. case x of (i, u, c) \<Rightarrow> u = uid \<and> c = conv} = plans_of uid conv rows" for rows :: "(int \<times> int \<times> string) list"
    by (force simp: plans_of_def)
  have rows: "(\<lambda>(i, u, c). u = uid \<longrightarrow> c \<noteq> conv) = (\<lambda>q. snd q \<noteq> (uid, conv))" by auto
  have empty: "plans_of uid conv rows = {}" if "filter (\<lambda>(i, u, c). u = uid \<and> c = conv) rows = []" for rows :: "(int \<times> int \<times> string) list"
    using that by (auto simp: plans_of_def filter_empty_conv)
  have bind_if: "tx_bind (if b then m else n) k = (if b then tx_bind m k else tx_bind n k)" for b m n and k :: "unit \<Rightarrow> unit agent_tx"
    by simp
  have fold: "always (Transaction b) t ?Q"
    if "always b t (\<lambda>r t'. r = Inr () \<longrightarrow> t' = without uid conv t)" for b :: "unit agent_tx"
    by (rule always_Transaction, rule always_mono [OF that]) (auto split: sum.split)
  show ?thesis
  proof (cases "conv = []")
    case True
    then show ?thesis by (simp add: DeleteConversation_def always_simps)
  next
    case False
    show ?thesis
      unfolding DeleteConversation_def if_not_P [OF False]
      by (rule fold)
        (cases t; cases "session t"; simp add: always_simps tx_steps bind_if pluckPlans_def deleteWhere_def rows without_def ids;
         use empty in \<open>auto simp: filter_id_conv\<close>)
  qed
qed

lemma chat_ok_without: "chat_ok t \<Longrightarrow> chat_ok (without uid conv t)"
  unfolding chat_ok_def without_def plans_of_def
  by (auto simp: session_ok_def distinct_map_filter image_iff) (drule (1) subsetD, fastforce)

lemma chat_ok_DeleteConversation: "keeps chat_ok (DeleteConversation uid conv)"
  unfolding yields_def using chat_ok_without by (auto intro: always_mono [OF DeleteConversation_always])

lemma chat_ok_event: "keeps chat_ok (record_event uid conv req e)"
  unfolding record_event_def by (intro keeps_rules chat_ok_seq keeps_read chat_ok_session session_statements)

lemma chat_ok_events: "keeps chat_ok (record_events uid conv req es)"
  by (induction es) (auto intro!: keeps_rules chat_ok_event)

lemma chat_ok_reads:
  "keeps chat_ok (GetAssistantMessageByRequestID conv req)" "keeps chat_ok (GetRecentMessages conv w)"
  "keeps chat_ok (on_session (GetTranscriptEvent conv req k))" "keeps chat_ok (ListConversations uid)"
  unfolding GetAssistantMessageByRequestID_def GetMessageByRequestIDAndRole_def GetRecentMessages_def GetTranscriptEvent_def
    ListConversations_def
  by (intro keeps_rules keeps_stmt chat_ok_session;
      simp add: firstMessage_def selectRecent_def firstEvent_def selectConversations_def split: option.split)+

lemma chat_ok_Chat: "keeps chat_ok (ChatWithAgent env uid conv req msg lesson)"
proof -
  have session: "keeps chat_ok (on_session (AppendMessage cjk uid conv req k ty role content))" for k ty role content cjk
    unfolding AppendMessage_def by (intro chat_ok_session session_statements)
  have question: "keeps chat_ok (question_of env uid lesson conv req msg history)" for history
    unfolding question_of_def by (intro keeps_rules keeps_read chat_ok_session Recover_keeps)
  have invoke: "keeps chat_ok (Invoke agent who um)" for agent who um
    unfolding Invoke_def by (intro keeps_rules keeps_read chat_ok_seq chat_ok_events)
  have ask: "keeps chat_ok (ask env agent uid conv req msg lesson)" for agent
    unfolding ask_def by (intro keeps_rules chat_ok_reads chat_ok_AppendMessage session question invoke)
  show ?thesis
    unfolding ChatWithAgent_def answer_request_def
    by (intro keeps_rules chat_ok_seq chat_ok_event chat_ok_reads chat_ok_AppendMessage ask)
qed

text \<open>
  (safety). Deleting a conversation is atomic, complete and local: whatever the database does, the
  tables are afterwards as before, or as before without just the conversation (its messages,
  transcript, summaries, plans with their steps, traces and its own row), and success means that it
  is gone; every row of another conversation stays, in its order. A recovery then starts from
  nothing, and no answer is left of it that a later request could be given.
\<close>

theorem conversation_is_forgotten:
  assumes "DeleteConversation uid conv s = (r, s')"
  shows "(tables s' = without uid conv (tables s) \<or> tables s' = tables s \<and> r \<noteq> Inr ()) \<and>
    (r = Inr () \<longrightarrow>
       \<not> (\<exists>m \<in> set (messages (tables s')). RowConv m = conv) \<and>
       \<not> (\<exists>p \<in> plans_of uid conv (plan_rows (tables s)). p \<in> set (step_rows (tables s'))) \<and>
       ((\<forall>e \<in> set (tevents (session (tables s))). EvSession e = conv \<longrightarrow> EvUser e = uid) \<longrightarrow>
          stored_answer conv req (tables s') = None \<and> events_behind conv cp (session (tables s')) = []))"
proof -
  have c: "tables s' = without uid conv (tables s) \<or> tables s' = tables s \<and> r \<noteq> Inr ()"
    using alwaysD [OF DeleteConversation_always assms] .
  have "stored_answer conv req (without uid conv t) = None \<and> events_behind conv cp (session (without uid conv t)) = []"
    if "\<forall>e \<in> set (tevents (session t)). EvSession e = conv \<longrightarrow> EvUser e = uid" for t
    using that by (auto simp: stored_answer_def stored_message_def stored_event_def find_None_iff without_def events_behind_def
        same_message_def filter_empty_conv split: option.split)
  with c show ?thesis by (auto simp: without_def)
qed

theorem conversation_is_forgotten_witness:
  "\<exists>s'. DeleteConversation 7 ''user_7:c'' (quiet 0 half_answered) = (Inr (), s') \<and> stored_answer ''user_7:c'' ''r'' (tables s') = None"
proof -
  obtain s' where s: "DeleteConversation 7 ''user_7:c'' (quiet 0 half_answered) = (Inr (), s')"
    by (simp add: DeleteConversation_def Transaction_def tx_run pluckPlans_def deleteWhere_def half_answered_def)
  from conversation_is_forgotten [OF s, of "''r''" None] show ?thesis
    using s by (auto simp: half_answered_def)
qed

text \<open>A call of the service: a chat, a list, a deletion.\<close>

datatype agent_call =
  CallChat int string string runes int
| CallList int
| CallDelete int string

fun serve_call :: "chat_env \<Rightarrow> (string \<Rightarrow> string) \<Rightarrow> bool \<Rightarrow> string \<Rightarrow> agent_call \<Rightarrow> (runes \<times> goerr option) agent_tx" where
  "serve_call env digest v1 uuid (CallChat uid convId reqId msg lesson) =
     handle_chat env digest v1 (if v1 then ''v1'' else '''') uuid uid convId reqId msg lesson"
| "serve_call env digest v1 uuid (CallList uid) = tx_bind (ListAllUserConv uid) (\<lambda>t. tx_return (t, None))"
| "serve_call env digest v1 uuid (CallDelete uid convId) = tx_bind (DelAllUserConv digest uid convId) (\<lambda>t. tx_return (t, None))"

lemma serve_call_keeps: "keeps chat_ok (serve_call env digest v1 uuid q)"
proof (cases q)
  case (CallChat uid convId reqId msg lesson)
  then show ?thesis
    unfolding CallChat serve_call.simps handle_chat_def RunVariant_def by (intro keeps_rules chat_ok_Chat)
next
  case (CallList uid)
  then show ?thesis
    unfolding CallList serve_call.simps ListAllUserConv_def by (intro keeps_rules chat_ok_reads)
next
  case (CallDelete uid convId)
  then show ?thesis
    unfolding CallDelete serve_call.simps DelAllUserConv_def by (intro keeps_rules chat_ok_DeleteConversation)
qed

text \<open>
  (invariant). The tables of the agent stay well formed under every sequence of calls of the
  service, with and without a session manager, whatever the database, the model and the compactor
  do: one row per conversation, one message per request and role, every message in a conversation,
  every step with a plan, and the session memory as its recovery needs it.
\<close>

theorem chat_tables_stay_ok:
  "chat_ok (tables s) \<Longrightarrow> chat_ok (tables (fold (\<lambda>(env, digest, v1, uuid, q) s. snd (serve_call env digest v1 uuid q s)) qs s))"
proof (induction qs arbitrary: s)
  case (Cons x qs)
  obtain env digest v1 uuid q where x: "x = (env, digest, v1, uuid, q)" by (metis prod_cases5)
  have "chat_ok (tables (snd (serve_call env digest v1 uuid q s)))"
    using yieldsD [OF serve_call_keeps Cons.prems] by (metis prod.collapse)
  with Cons.IH x show ?case by simp
qed simp

theorem chat_tables_stay_ok_witness:
  "chat_ok (tables (fold (\<lambda>(env, digest, v1, uuid, q) s. snd (serve_call env digest v1 uuid q s))
     [(silent_env, id, False, ''u'', CallChat 7 ''c'' ''r'' (ascii ''2 + 2?'') 0), (silent_env, id, False, ''u'', CallDelete 7 ''c'')]
     (quiet 0 half_answered)))"
  by (rule chat_tables_stay_ok) (simp add: chat_ok_def session_ok_def half_answered_def)

end
