(* ===== verification/Fact_Memory.thy ===== *)
theory Fact_Memory
  imports Sql_Tx Complex_Main
begin

text \<open>
  The long-term facts of the agent about its users: how a new fact is resolved against the old one
  and announced in the outbox (src/internal/rpc/agent/memory/fact_indexer.go, long_memory_pg.go), how
  the outbox is dispatched to Kafka (memory/outbox_dao.go, cdc/outbox_worker.go) and how the consumer
  keeps the vector index (cdc/consumer_worker.go). PostgreSQL statements are statements of Sql_Tx.
  strings.ToLower, the embedding model, encoding/json on the payload and the answers of Kafka and
  Qdrant are parameters; a confidence is the rational number of its float64.
\<close>

subsection \<open>Tables\<close>

record user_fact =
  FactID :: int
  FUser :: int
  FType :: string
  FContent :: string
  Confidence :: rat
  FSource :: string
  FSourceConv :: string
  IsActive :: bool
  Supersedes :: "int option"
  ConflictKey :: "string option"
  IndexStatus :: string
  CreatedAt :: int
  UpdatedAt :: int

text \<open>The payload of an outbox event, before json.Marshal.\<close>

record fact_payload =
  plFact :: int
  plUser :: int
  plType :: string
  plContent :: string
  plConv :: string
  plActive :: bool

record outbox_event =
  ObID :: int
  ObType :: string
  BizKey :: string
  Payload :: fact_payload
  ObStatus :: int
  LastError :: string
  RetryCount :: int

record fact_world =
  facts :: "user_fact list"
  outbox :: "outbox_event list"
  next_fact :: int
  next_outbox :: int

type_synonym 'a fact_tx = "(fact_world, 'a) tx"

subsection \<open>Statements\<close>

text \<open>SELECT pg_advisory_xact_lock.\<close>

definition advisoryLock :: "(fact_world, unit) sql" where
  [sql_defs]: "advisoryLock = (\<lambda>now t. (Inr (), t))"

text \<open>ORDER BY confidence desc, updated_at desc, id desc.\<close>

definition ranks_before :: "user_fact \<Rightarrow> user_fact \<Rightarrow> bool" where
  "ranks_before f g \<longleftrightarrow> Confidence g < Confidence f \<or>
     Confidence g = Confidence f \<and> (UpdatedAt g < UpdatedAt f \<or> UpdatedAt g = UpdatedAt f \<and> FactID g < FactID f)"

definition first_ranked :: "user_fact list \<Rightarrow> user_fact option" where
  "first_ranked fs = fold (\<lambda>f best. case best of None \<Rightarrow> Some f | Some b \<Rightarrow> if ranks_before f b then Some f else Some b) fs None"

definition conflicting :: "int \<Rightarrow> string \<Rightarrow> string \<Rightarrow> user_fact \<Rightarrow> bool" where
  "conflicting uid ty k f \<longleftrightarrow> FUser f = uid \<and> FType f = ty \<and> IsActive f \<and> ConflictKey f = Some k"

definition selectConflict :: "int \<Rightarrow> string \<Rightarrow> string \<Rightarrow> (fact_world, user_fact) sql" where
  [sql_defs]: "selectConflict uid ty k = (\<lambda>now t.
     (case first_ranked (filter (conflicting uid ty k) (facts t)) of None \<Rightarrow> Inl ErrRecordNotFound | Some f \<Rightarrow> Inr f, t))"

text \<open>
  INSERT of a fact by gorm: the column is_active has the default true in the model, and gorm writes
  the default of a column whose field has its zero value, into the row and into the struct.
\<close>

definition default_IsActive :: bool where
  "default_IsActive = True"

definition insertFact :: "user_fact \<Rightarrow> (fact_world, user_fact) sql" where
  [sql_defs]: "insertFact f = (\<lambda>now t.
     (let f = f\<lparr>FactID := next_fact t, IsActive := (if IsActive f then True else default_IsActive), CreatedAt := now, UpdatedAt := now\<rparr> in
      (Inr f, t\<lparr>facts := facts t @ [f], next_fact := next_fact t + 1\<rparr>)))"

definition biz_key :: "int \<Rightarrow> bool \<Rightarrow> string" where
  "biz_key i active = ''fact:'' @ show_int i @ '':'' @ (if active then ''true'' else ''false'')"

definition payload_of :: "user_fact \<Rightarrow> fact_payload" where
  "payload_of f = \<lparr>plFact = FactID f, plUser = FUser f, plType = FType f, plContent = FContent f, plConv = FSourceConv f,
     plActive = IsActive f\<rparr>"

text \<open>INSERT of an outbox row; biz_key has a unique index.\<close>

definition insertOutbox :: "outbox_event \<Rightarrow> (fact_world, unit) sql" where
  [sql_defs]: "insertOutbox ev = (\<lambda>now t.
     if BizKey ev \<in> BizKey ` set (outbox t) then (Inl (DriverError ''duplicate key value violates unique constraint''), t)
     else (Inr (), t\<lparr>outbox := outbox t @ [ev\<lparr>ObID := next_outbox t\<rparr>], next_outbox := next_outbox t + 1\<rparr>))"

definition deactivateFact :: "int \<Rightarrow> (fact_world, unit) sql" where
  [sql_defs]: "deactivateFact i = (\<lambda>now t.
     (Inr (), t\<lparr>facts := map (\<lambda>f. if FactID f = i then f\<lparr>IsActive := False, IndexStatus := ''pending'', UpdatedAt := now\<rparr> else f)
        (facts t)\<rparr>))"

definition setIndexStatus :: "int \<Rightarrow> string \<Rightarrow> (fact_world, unit) sql" where
  [sql_defs]: "setIndexStatus i status = (\<lambda>now t.
     (Inr (), t\<lparr>facts := map (\<lambda>f. if FactID f = i then f\<lparr>IndexStatus := status, UpdatedAt := now\<rparr> else f) (facts t)\<rparr>))"

definition findFact :: "int \<Rightarrow> (fact_world, user_fact) sql" where
  [sql_defs]: "findFact i = (\<lambda>now t.
     (case find (\<lambda>f. FactID f = i) (facts t) of None \<Rightarrow> Inl ErrRecordNotFound | Some f \<Rightarrow> Inr f, t))"

subsection \<open>Resolving a fact\<close>

record fact_write =
  InUser :: int
  InType :: string
  InKey :: string
  InContent :: string
  InConfidence :: rat
  InSource :: string
  InConv :: string

definition allowedFactType :: "string \<Rightarrow> bool" where
  "allowedFactType v \<longleftrightarrow>
     v \<in> {''project'', ''identity'', ''preference'', ''habit'', ''goal'', ''background'', ''skill'', ''episodic''}"

definition sourcePriority :: "(string \<Rightarrow> string) \<Rightarrow> string \<Rightarrow> int" where
  "sourcePriority lower source =
     (let s = lower source in
      if s = ''user_explicit'' then 3 else if s = ''conversation'' then 2 else if s = ''inferred'' then 1 else 0)"

definition shouldSupersede :: "(string \<Rightarrow> string) \<Rightarrow> user_fact \<Rightarrow> fact_write \<Rightarrow> bool" where
  "shouldSupersede lower old input \<longleftrightarrow>
     (if InConfidence input < 7 / 10 then False
      else if Confidence old \<le> InConfidence input then True
      else sourcePriority lower (FSource old) < sourcePriority lower (InSource input))"

definition createFactOutbox :: "user_fact \<Rightarrow> unit fact_tx" where
  "createFactOutbox f =
     stmt (insertOutbox \<lparr>ObID = 0, ObType = ''user_fact_upserted'', BizKey = biz_key (FactID f) (IsActive f), Payload = payload_of f,
       ObStatus = 0, LastError = '''', RetryCount = 0\<rparr>)"

text \<open>Which fact is superseded, and whether the new one is active.\<close>

definition find_superseded :: "(string \<Rightarrow> string) \<Rightarrow> fact_write \<Rightarrow> (user_fact option \<times> bool) fact_tx" where
  "find_superseded lower input =
     (if InKey input \<noteq> '''' \<and> (InType input = ''preference'' \<or> InType input = ''habit'') then
        tx_bind (stmt advisoryLock) (\<lambda>_.
        tx_then (stmt (selectConflict (InUser input) (InType input) (InKey input))) (\<lambda>r.
          case r of
            Inr old \<Rightarrow> if shouldSupersede lower old input then tx_return (Some old, True) else tx_return (None, False)
          | Inl e \<Rightarrow> if err_is e ErrRecordNotFound then tx_return (None, True) else tx_fail e))
      else tx_return (None, True))"

definition write_fact :: "fact_write \<Rightarrow> user_fact option \<Rightarrow> bool \<Rightarrow> user_fact fact_tx" where
  "write_fact input superseded active =
     tx_bind (stmt (insertFact
       \<lparr>FactID = 0, FUser = InUser input, FType = InType input, FContent = TrimSpace (InContent input), Confidence = InConfidence input,
        FSource = InSource input, FSourceConv = InConv input, IsActive = active, Supersedes = map_option FactID superseded,
        ConflictKey = Some (InKey input), IndexStatus = ''pending'', CreatedAt = 0, UpdatedAt = 0\<rparr>)) (\<lambda>fact.
     tx_bind (createFactOutbox fact) (\<lambda>_.
     case superseded of
       None \<Rightarrow> tx_return fact
     | Some old \<Rightarrow>
         tx_bind (stmt (deactivateFact (FactID old))) (\<lambda>_.
         tx_bind (createFactOutbox (old\<lparr>IsActive := False\<rparr>)) (\<lambda>_.
         tx_return fact))))"

definition ResolveFactWithOutbox :: "(string \<Rightarrow> string) \<Rightarrow> fact_write \<Rightarrow> user_fact fact_tx" where
  "ResolveFactWithOutbox lower input =
     (let input = input\<lparr>InType := lower (TrimSpace (InType input)), InKey := lower (TrimSpace (InKey input))\<rparr> in
      if InUser input \<le> 0 \<or> InType input = '''' \<or> TrimSpace (InContent input) = '''' then tx_fail (ErrNew ''invalid fact'')
      else if InConfidence input < 0 \<or> 1 < InConfidence input \<or> \<not> allowedFactType (InType input)
      then tx_fail (ErrNew ''invalid fact type or confidence'')
      else
        (let input = (if InSource input = '''' then input\<lparr>InSource := ''conversation''\<rparr> else input) in
         Transaction
           (tx_bind (find_superseded lower input) (\<lambda>(superseded, active). write_fact input superseded active))))"

definition InsertFactWithOutbox :: "(string \<Rightarrow> string) \<Rightarrow> int \<Rightarrow> string \<Rightarrow> string \<Rightarrow> rat \<Rightarrow> string \<Rightarrow> user_fact fact_tx" where
  "InsertFactWithOutbox lower userID factType content confidence sourceConv =
     ResolveFactWithOutbox lower \<lparr>InUser = userID, InType = factType, InKey = '''', InContent = content, InConfidence = confidence,
       InSource = ''conversation'', InConv = sourceConv\<rparr>"

definition UpdateFactIndexStatus :: "int \<Rightarrow> string \<Rightarrow> unit fact_tx" where
  "UpdateFactIndexStatus i status = stmt (setIndexStatus i status)"

definition GetFactByID :: "int \<Rightarrow> user_fact fact_tx" where
  "GetFactByID i = stmt (findFact i)"

subsection \<open>The invariant\<close>

text \<open>A fact that may take the place of another.\<close>

definition outranks :: "(string \<Rightarrow> string) \<Rightarrow> user_fact \<Rightarrow> user_fact \<Rightarrow> bool" where
  "outranks lower g f \<longleftrightarrow> 7 / 10 \<le> Confidence g \<and>
     (Confidence f \<le> Confidence g \<or> sourcePriority lower (FSource f) < sourcePriority lower (FSource g))"

text \<open>
  Facts have unique ids; the last event of the outbox about a fact announces its current state; a
  fact is inactive only because a later one of the same user, type and conflict key superseded
  it and outranks it; and the events are in the order of their ids and valid for the consumer.
\<close>

definition last_about :: "int \<Rightarrow> fact_payload list \<Rightarrow> fact_payload option" where
  "last_about i ps = find (\<lambda>p. plFact p = i) (rev ps)"

definition announced :: "fact_world \<Rightarrow> user_fact \<Rightarrow> bool" where
  "announced t f \<longleftrightarrow> last_about (FactID f) (map Payload (outbox t)) = Some (payload_of f)"

definition valid_payload :: "fact_payload \<Rightarrow> bool" where
  "valid_payload p \<longleftrightarrow> 0 < plFact p \<and> 0 < plUser p \<and> plType p \<noteq> '''' \<and> plContent p \<noteq> ''''"

definition outbox_ok :: "fact_world \<Rightarrow> bool" where
  "outbox_ok t \<longleftrightarrow> 0 < next_fact t \<and> sorted_wrt (<) (map ObID (outbox t)) \<and>
     (\<forall>e \<in> set (outbox t). ObID e < next_outbox t \<and> valid_payload (Payload e))"

definition replaced :: "(string \<Rightarrow> string) \<Rightarrow> fact_world \<Rightarrow> user_fact \<Rightarrow> bool" where
  "replaced lower t f \<longleftrightarrow>
     (\<exists>g \<in> set (facts t). Supersedes g = Some (FactID f) \<and> FactID f < FactID g \<and> FUser g = FUser f \<and> FType g = FType f \<and>
        ConflictKey g = ConflictKey f \<and> outranks lower g f)"

definition facts_ok :: "(string \<Rightarrow> string) \<Rightarrow> fact_world \<Rightarrow> bool" where
  "facts_ok lower t \<longleftrightarrow> distinct (map FactID (facts t)) \<and> (\<forall>f \<in> set (facts t). FactID f < next_fact t \<and> announced t f) \<and>
     (\<forall>f \<in> set (facts t). IsActive f \<or> replaced lower t f) \<and> outbox_ok t"

lemma last_about_simps [simp]:
  "last_about i [] = None" "last_about i (ps @ [p]) = (if plFact p = i then Some p else last_about i ps)"
  "last_about i (ps @ [p, q]) = (if plFact q = i then Some q else if plFact p = i then Some p else last_about i ps)"
  by (simp_all add: last_about_def)

lemma last_about_in: "last_about i ps = Some p \<Longrightarrow> p \<in> set ps \<and> plFact p = i"
  by (auto simp: last_about_def find_Some_iff) (metis nth_mem length_rev set_rev)

lemma plFact_of [simp]: "plFact (payload_of f) = FactID f"
  by (simp add: payload_of_def)

lemma first_ranked_in: "first_ranked fs = Some f \<Longrightarrow> f \<in> set fs"
proof -
  have "fold (\<lambda>f best. case best of None \<Rightarrow> Some f | Some b \<Rightarrow> if ranks_before f b then Some f else Some b) fs b = Some f \<Longrightarrow>
      f \<in> set fs \<or> b = Some f" for b
    by (induction fs arbitrary: b) (force split: option.splits if_splits)+
  from this [of None] show "first_ranked fs = Some f \<Longrightarrow> f \<in> set fs" by (simp add: first_ranked_def)
qed

text \<open>The two ways a successful write changes the tables.\<close>

lemma add_fact_ok:
  assumes "facts_ok lower t" and "FactID g = next_fact t" and "IsActive g" and "Payload ev = payload_of g"
    and "ObID ev = next_outbox t" and "valid_payload (payload_of g)"
  shows "facts_ok lower (t\<lparr>facts := facts t @ [g], next_fact := next_fact t + 1,
    outbox := outbox t @ [ev], next_outbox := next_outbox t + 1\<rparr>)"
proof -
  let ?t = "t\<lparr>facts := facts t @ [g], next_fact := next_fact t + 1, outbox := outbox t @ [ev], next_outbox := next_outbox t + 1\<rparr>"
  have "announced ?t f" if "f \<in> set (facts t)" for f
    using assms(1,2,4) that by (force simp: facts_ok_def announced_def)
  moreover have "announced ?t g" using assms(4) by (simp add: announced_def)
  moreover have "replaced lower t f \<Longrightarrow> replaced lower ?t f" for f by (auto simp: replaced_def)
  moreover have "outbox_ok ?t"
    using assms(1,2,4-6) unfolding facts_ok_def outbox_ok_def by (auto simp: sorted_wrt_append intro: less_trans)
  ultimately show ?thesis using assms(1-3) by (force simp: facts_ok_def)
qed

lemma replace_fact_ok:
  assumes ok: "facts_ok lower t" and g: "FactID g = next_fact t" "IsActive g" and old: "old \<in> set (facts t)"
    and better: "Supersedes g = Some (FactID old)" "FUser g = FUser old" "FType g = FType old" "ConflictKey g = ConflictKey old"
      "outranks lower g old"
    and ev: "Payload ev = payload_of g" "Payload ev' = payload_of (old\<lparr>IsActive := False\<rparr>)"
      "ObID ev = next_outbox t" "ObID ev' = next_outbox t + 1" "valid_payload (payload_of g)" "n = next_outbox t + 2"
  shows "facts_ok lower (t\<lparr>next_fact := next_fact t + 1, facts := map (\<lambda>f. if FactID f = FactID old then f\<lparr>IsActive := False, IndexStatus := ''pending'', UpdatedAt := now\<rparr>
        else f) (facts t) @ [g],
      outbox := outbox t @ [ev, ev'], next_outbox := n\<rparr>)"
proof -
  let ?off = "\<lambda>f. f\<lparr>IsActive := False, IndexStatus := ''pending'', UpdatedAt := now\<rparr>"
  let ?upd = "\<lambda>f. if FactID f = FactID old then ?off f else f"
  let ?t = "t\<lparr>next_fact := next_fact t + 1, facts := map ?upd (facts t) @ [g],
      outbox := outbox t @ [ev, ev'], next_outbox := n\<rparr>"
  have ids: "distinct (map FactID (facts t))" and below: "FactID f < next_fact t" if "f \<in> set (facts t)" for f
    using ok that by (auto simp: facts_ok_def)
  have g_id: "FactID g \<noteq> FactID old" using below [OF old] g(1) by simp
  have same_id: "f = old" if "f \<in> set (facts t)" "FactID f = FactID old" for f
    using that ids [OF old] old by (auto simp: distinct_map inj_on_def)
  have fs: "set (facts ?t) = insert g (?upd ` set (facts t))" by auto
  have keeps: "FactID (?upd f) = FactID f" "FUser (?upd f) = FUser f" "FType (?upd f) = FType f" "ConflictKey (?upd f) = ConflictKey f"
    "Supersedes (?upd f) = Supersedes f" "Confidence (?upd f) = Confidence f" "FSource (?upd f) = FSource f" for f by simp_all
  have m: "map FactID (map ?upd xs) = map FactID xs" for xs by (induction xs) auto
  have map_t: "map FactID (facts ?t) = map FactID (facts t) @ [FactID g]" using m [of "facts t"] by simp
  have "FactID g \<notin> set (map FactID (facts t))" using below g(1) by force
  then have d: "distinct (map FactID (facts ?t))" unfolding map_t using ids [OF old] by simp
  have bound: "FactID f < next_fact ?t" if "f \<in> set (facts ?t)" for f
    using that below g(1) unfolding fs by (force split: if_splits)
  have out: "announced ?t f" if fm: "f \<in> set (facts ?t)" for f
  proof -
    consider "f = g" | h where "h \<in> set (facts t)" "f = ?upd h" using fm unfolding fs by blast
    then show ?thesis
    proof cases
      case 2
      have h: "announced t h" "FactID h \<noteq> FactID g" using ok 2(1) below [OF 2(1)] g(1) by (auto simp: facts_ok_def)
      moreover have "payload_of (?off old) = payload_of (old\<lparr>IsActive := False\<rparr>)" by (simp add: payload_of_def)
      ultimately show ?thesis using 2 same_id [of h] ev by (auto simp: announced_def)
    qed (use ev g_id in \<open>simp add: announced_def\<close>)
  qed
  have rep: "IsActive f \<or> replaced lower ?t f" if fm: "f \<in> set (facts ?t)" for f
  proof -
    consider "f = g" | h where "h \<in> set (facts t)" "f = ?upd h" using fm unfolding fs by blast
    then show ?thesis
    proof cases
      case 2
      show ?thesis
      proof (cases "h = old")
        case True
        have "FactID f < FactID g" "Supersedes g = Some (FactID f)" "FUser g = FUser f" "FType g = FType f" "ConflictKey g = ConflictKey f"
          "outranks lower g f"
          using better 2 True below [OF old] g(1) by (simp_all add: outranks_def)
        then have "replaced lower ?t f" unfolding replaced_def fs by blast
        then show ?thesis ..
      next
        case False
        then have f: "f = h" using 2 same_id [of h] by auto
        have "IsActive h \<or> replaced lower t h" using ok 2(1) by (auto simp: facts_ok_def)
        then show ?thesis
        proof
          assume "replaced lower t h"
          then obtain g' where "g' \<in> set (facts t)" "Supersedes g' = Some (FactID h) \<and> FactID h < FactID g' \<and> FUser g' = FUser h \<and>
              FType g' = FType h \<and> ConflictKey g' = ConflictKey h \<and> outranks lower g' h" by (auto simp: replaced_def)
          then have "?upd g' \<in> set (facts ?t)" "Supersedes (?upd g') = Some (FactID h) \<and> FactID h < FactID (?upd g') \<and> FUser (?upd g') = FUser h \<and>
              FType (?upd g') = FType h \<and> ConflictKey (?upd g') = ConflictKey h \<and> outranks lower (?upd g') h"
            unfolding fs keeps outranks_def by auto
          then show ?thesis unfolding f replaced_def by blast
        qed (simp add: f)
      qed
    qed (simp add: g(2))
  qed
  have "valid_payload (payload_of old)"
    using ok old last_about_in by (fastforce simp: facts_ok_def outbox_ok_def announced_def)
  then have "outbox_ok ?t"
    using ok ev unfolding facts_ok_def outbox_ok_def
    by (auto simp: sorted_wrt_append valid_payload_def payload_of_def intro: less_trans)
  with d bound out rep show ?thesis unfolding facts_ok_def by blast
qed

definition may_supersede :: "(string \<Rightarrow> string) \<Rightarrow> fact_write \<Rightarrow> fact_world \<Rightarrow> user_fact option \<Rightarrow> bool" where
  "may_supersede lower input t superseded \<longleftrightarrow>
     (case superseded of None \<Rightarrow> True
      | Some old \<Rightarrow> old \<in> set (facts t) \<and> conflicting (InUser input) (InType input) (InKey input) old \<and> shouldSupersede lower old input)"

lemma write_fact_ok:
  assumes ok: "facts_ok lower t" and s: "may_supersede lower input t superseded"
    and valid: "0 < InUser input" "InType input \<noteq> ''''" "TrimSpace (InContent input) \<noteq> ''''"
  shows "always (write_fact input superseded active) t (\<lambda>r t'. \<forall>x. r = Inr x \<longrightarrow> facts_ok lower t')"
proof (cases superseded)
  case None
  have "0 < next_fact t" using ok by (simp add: facts_ok_def outbox_ok_def)
  with None valid show ?thesis
    by (auto simp: write_fact_def createFactOutbox_def always_simps insertFact_def insertOutbox_def default_IsActive_def Let_def
        valid_payload_def payload_of_def intro!: add_fact_ok [OF ok] split: sum.split)
next
  case (Some old)
  then have old: "old \<in> set (facts t)" "FUser old = InUser input" "FType old = InType input" "ConflictKey old = Some (InKey input)"
    "shouldSupersede lower old input"
    using s by (auto simp: may_supersede_def conflicting_def)
  have "FactID old \<noteq> next_fact t" "0 < next_fact t" using ok old(1) by (force simp: facts_ok_def outbox_ok_def)+
  with Some old valid show ?thesis
    by (auto simp: write_fact_def createFactOutbox_def always_simps insertFact_def insertOutbox_def deactivateFact_def
        default_IsActive_def Let_def shouldSupersede_def outranks_def split: sum.split if_splits
        intro!: replace_fact_ok [OF ok] simp: valid_payload_def payload_of_def)
qed

lemma find_superseded_always:
  "always (find_superseded lower input) t (\<lambda>r t'. t' = t \<and> (\<forall>s a. r = Inr (s, a) \<longrightarrow> may_supersede lower input t s))"
  by (auto simp: find_superseded_def always_simps advisoryLock_def selectConflict_def may_supersede_def
      dest: first_ranked_in split: option.splits)

lemma Resolve_keeps: "keeps (facts_ok lower) (ResolveFactWithOutbox lower input)"
proof -
  have body: "keeps (facts_ok lower) (Transaction (tx_bind (find_superseded lower i) (\<lambda>(superseded, active). write_fact i superseded active)))"
    if v: "0 < InUser i" "InType i \<noteq> ''''" "TrimSpace (InContent i) \<noteq> ''''" for i
    unfolding yields_def
  proof (intro allI impI)
    fix t assume ok: "facts_ok lower t"
    have "always (tx_bind (find_superseded lower i) (\<lambda>(superseded, active). write_fact i superseded active)) t
        (\<lambda>r t'. case r of Inl e \<Rightarrow> True | Inr x \<Rightarrow> facts_ok lower t')"
    proof (rule always_bind [OF find_superseded_always])
      fix x :: "user_fact option \<times> bool" and t' assume a: "t' = t \<and> (\<forall>s a. Inr x = Inr (s, a) \<longrightarrow> may_supersede lower i t s)"
      obtain s act where x: "x = (s, act)" by fastforce
      with a have "t' = t" "may_supersede lower i t s" by auto
      then show "always (case x of (superseded, active) \<Rightarrow> write_fact i superseded active) t'
          (\<lambda>r t'. case r of Inl e \<Rightarrow> True | Inr x \<Rightarrow> facts_ok lower t')"
        unfolding x prod.case by (auto intro: always_mono [OF write_fact_ok [OF ok _ v]] split: sum.splits)
    qed simp
    from always_Transaction_keeps [OF this ok]
    show "always (Transaction (tx_bind (find_superseded lower i) (\<lambda>(superseded, active). write_fact i superseded active))) t
        (\<lambda>r t'. facts_ok lower t' \<and> (\<forall>x. r = Inr x \<longrightarrow> True))" by simp
  qed
  show ?thesis unfolding ResolveFactWithOutbox_def Let_def
    by (intro yields_if yields_fail body) (auto split: if_splits)
qed

lemma index_status_keeps: "keeps (facts_ok lower) (UpdateFactIndexStatus i status)"
proof -
  have "facts_ok lower (snd (setIndexStatus i status now t))" if ok: "facts_ok lower t" for now t
  proof -
    define u where "u = (\<lambda>f :: user_fact. if FactID f = i then f\<lparr>IndexStatus := status, UpdatedAt := now\<rparr> else f)"
    define t' where "t' = t\<lparr>facts := map u (facts t)\<rparr>"
    have same: "FactID (u f) = FactID f" "payload_of (u f) = payload_of f" "IsActive (u f) = IsActive f"
      "Supersedes (u f) = Supersedes f" "FUser (u f) = FUser f" "FType (u f) = FType f" "ConflictKey (u f) = ConflictKey f"
      "outranks lower (u f) h = outranks lower f h" "outranks lower h (u f) = outranks lower h f" for f h
      by (simp_all add: u_def payload_of_def outranks_def)
    have fs: "set (facts t') = u ` set (facts t)" and "map FactID (facts t') = map FactID (facts t)" "outbox t' = outbox t"
      "next_fact t' = next_fact t" by (simp_all add: t'_def same)
    have rep: "replaced lower t' (u f)" if "replaced lower t f" for f
    proof -
      from that obtain g where g: "g \<in> set (facts t)" "Supersedes g = Some (FactID f) \<and> FactID f < FactID g \<and> FUser g = FUser f \<and>
          FType g = FType f \<and> ConflictKey g = ConflictKey f \<and> outranks lower g f" by (auto simp: replaced_def)
      have "u g \<in> set (facts t')" using g(1) fs by auto
      with g(2) show ?thesis unfolding replaced_def by (intro bexI [of _ "u g"]) (simp_all add: same)
    qed
    have "FactID f' < next_fact t' \<and> announced t' f' \<and> (IsActive f' \<or> replaced lower t' f')" if f': "f' \<in> set (facts t')" for f'
    proof -
      from f' obtain f where f: "f \<in> set (facts t)" "f' = u f" unfolding fs by blast
      then have "FactID f < next_fact t" "announced t f" "IsActive f \<or> replaced lower t f" using ok by (auto simp: facts_ok_def)
      with rep [of f] show ?thesis
        unfolding f(2) announced_def same \<open>outbox t' = outbox t\<close> \<open>next_fact t' = next_fact t\<close> by blast
    qed
    moreover have "distinct (map FactID (facts t'))" using ok \<open>map FactID (facts t') = map FactID (facts t)\<close> by (simp add: facts_ok_def)
    moreover have "outbox_ok t'"
      using ok \<open>outbox t' = outbox t\<close> \<open>next_fact t' = next_fact t\<close> by (simp add: facts_ok_def outbox_ok_def t'_def)
    ultimately have "facts_ok lower t'" unfolding facts_ok_def by blast
    then show ?thesis by (simp add: setIndexStatus_def t'_def u_def)
  qed
  then show ?thesis unfolding UpdateFactIndexStatus_def by (rule keeps_stmt)
qed

definition no_facts :: fact_world where
  "no_facts = \<lparr>facts = [], outbox = [], next_fact = 1, next_outbox = 1\<rparr>"

datatype fact_request =
  Resolve fact_write
| Insert int string string rat string
| Indexed int string

definition serve_fact :: "(string \<Rightarrow> string) \<Rightarrow> fact_request \<Rightarrow> fact_world tx_state \<Rightarrow> fact_world tx_state" where
  "serve_fact lower q s =
     (case q of
        Resolve input \<Rightarrow> snd (ResolveFactWithOutbox lower input s)
      | Insert uid ty content conf conv \<Rightarrow> snd (InsertFactWithOutbox lower uid ty content conf conv s)
      | Indexed i status \<Rightarrow> snd (UpdateFactIndexStatus i status s))"

text \<open>
  C13 (invariant). The facts and their announcements never drift apart: after any writes and index
  updates from empty tables, wherever the database fails or loses the reply of a commit, the last
  event of the outbox about each fact announces the state it has now, the events are valid for the
  consumer and in the order of their ids, and a fact is inactive only because a later fact of the
  same user, type and conflict key supersedes it, with a confidence of at least 0.7 and no less
  confident than it or from a stronger source.
\<close>

theorem facts_stay_announced:
  "facts_ok lower (tables (fold (serve_fact lower) qs \<lparr>tables = no_facts, plan = p\<rparr>))"
proof -
  have "facts_ok lower (tables s) \<Longrightarrow> facts_ok lower (tables (fold (serve_fact lower) qs s))" for s
  proof (induction qs arbitrary: s)
    case (Cons q qs)
    have "facts_ok lower (tables (serve_fact lower q s))"
      using yieldsD [OF Resolve_keeps Cons.prems] yieldsD [OF index_status_keeps Cons.prems]
      by (cases q) (simp_all add: serve_fact_def InsertFactWithOutbox_def, (metis prod.collapse)+)
    with Cons.IH show ?case by simp
  qed simp
  moreover have "facts_ok lower no_facts" by (simp add: facts_ok_def outbox_ok_def no_facts_def)
  ultimately show ?thesis by simp
qed

text \<open>
  But a fact that is not confident enough to supersede the active one is stored active all the same,
  because the default of the column replaces the false that the code writes: two active facts
  contradict each other.
\<close>

definition likes :: "string \<Rightarrow> rat \<Rightarrow> fact_write" where
  "likes content conf = \<lparr>InUser = 7, InType = ''preference'', InKey = ''language'', InContent = content, InConfidence = conf,
     InSource = ''conversation'', InConv = ''c''\<rparr>"

definition likes_go :: fact_world where
  "likes_go = \<lparr>facts = [\<lparr>FactID = 1, FUser = 7, FType = ''preference'', FContent = ''Go'', Confidence = 9 / 10, FSource = ''conversation'',
       FSourceConv = ''c'', IsActive = True, Supersedes = None, ConflictKey = Some ''language'', IndexStatus = ''done'', CreatedAt = 1, UpdatedAt = 1\<rparr>],
     outbox = [], next_fact = 2, next_outbox = 1\<rparr>"

lemma quiet_inject [simp]: "quiet now t = quiet now t' \<longleftrightarrow> t = t'"
  by (simp add: quiet_def)

lemma losing_fact_is_stored_active:
  "map (\<lambda>f. (FContent f, IsActive f)) (facts (tables (snd (ResolveFactWithOutbox id (likes ''Rust'' (1 / 2)) (quiet 5 likes_go))))) =
     [(''Go'', True), (''Rust'', True)]"
proof -
  let ?i = "likes ''Rust'' (1 / 2)"
  have trims: "TrimSpace ''preference'' = ''preference''" "TrimSpace ''language'' = ''language''" "TrimSpace ''Rust'' = ''Rust''"
    by (simp_all add: TrimSpace_def is_space_def)
  have find: "find_superseded id ?i (quiet 5 likes_go) = (Inr (None, False), quiet 5 likes_go)"
    by (simp add: find_superseded_def likes_def likes_go_def tx_bind_def tx_then_def tx_return_def tx_fail_def advisoryLock_def
        selectConflict_def conflicting_def first_ranked_def shouldSupersede_def)
  have "\<exists>f t. write_fact ?i None False (quiet 5 likes_go) = (Inr f, quiet 5 t) \<and>
      map (\<lambda>f. (FContent f, IsActive f)) (facts t) = [(''Go'', True), (''Rust'', True)]"
    by (simp add: write_fact_def createFactOutbox_def likes_def likes_go_def tx_bind_def tx_then_def tx_return_def insertFact_def
        insertOutbox_def default_IsActive_def trims Let_def)
  then obtain f t where w: "write_fact ?i None False (quiet 5 likes_go) = (Inr f, quiet 5 t)"
    "map (\<lambda>f. (FContent f, IsActive f)) (facts t) = [(''Go'', True), (''Rust'', True)]" by (elim exE conjE)
  have "tx_bind (find_superseded id ?i) (\<lambda>(s, a). write_fact ?i s a) (quiet 5 likes_go) = (Inr f, quiet 5 t)"
    by (simp add: tx_bind_def tx_then_def find w)
  then have "Transaction (tx_bind (find_superseded id ?i) (\<lambda>(s, a). write_fact ?i s a)) (quiet 5 likes_go) = (Inr f, quiet 5 t)"
    by (rule Transaction_quiet_ok)
  moreover have "ResolveFactWithOutbox id ?i = Transaction (tx_bind (find_superseded id ?i) (\<lambda>(s, a). write_fact ?i s a))"
    by (simp add: ResolveFactWithOutbox_def likes_def trims allowedFactType_def Let_def)
  ultimately show ?thesis using w(2) by simp
qed

end
