(* ===== verification/Fact_Pipeline.thy ===== *)
theory Fact_Pipeline
  imports Fact_Memory
begin

text \<open>
  From the outbox of the facts to the vector index and back: the dispatcher
  (src/internal/rpc/agent/cdc/outbox_worker.go with memory/outbox_dao.go), the consumer
  (cdc/consumer_worker.go with UpsertFactVector of memory/long_memory_qdrant.go) and the retrieval of
  the facts for a prompt (RetrieveRelevantFactsWithOptions). Kafka is the log of the messages
  written; the vector index maps a fact's id to its point.
\<close>

subsection \<open>The dispatcher\<close>

record kafka_msg =
  KKey :: string
  KValue :: string

text \<open>
  encoding/json on envelopes and events, and the k-th answer of Kafka: on an error, how many of the
  messages were written all the same.
\<close>

record pipe_env =
  enc_envelope :: "fact_payload \<Rightarrow> goerr + string"
  dec_envelope :: "string \<Rightarrow> goerr + string"
  dec_event :: "string \<Rightarrow> goerr + fact_payload"
  broker :: "nat \<Rightarrow> nat \<times> goerr option"

record pipe =
  pdb :: "fact_world tx_state"
  klog :: "kafka_msg list"
  kwrites :: nat

definition is_pending :: "outbox_event \<Rightarrow> bool" where
  "is_pending e \<longleftrightarrow> ObStatus e = 0 \<or> ObStatus e = 2"

definition selectPending :: "nat \<Rightarrow> (fact_world, outbox_event list) sql" where
  [sql_defs]: "selectPending limit = (\<lambda>now t. (Inr (take limit (sort_key ObID (filter is_pending (outbox t)))), t))"

definition updateOutbox :: "(outbox_event \<Rightarrow> outbox_event) \<Rightarrow> int \<Rightarrow> (fact_world, unit) sql" where
  [sql_defs]: "updateOutbox f i = (\<lambda>now t. (Inr (), t\<lparr>outbox := map (\<lambda>e. if ObID e = i then f e else e) (outbox t)\<rparr>))"

definition ListPendingOutbox :: "int \<Rightarrow> outbox_event list fact_tx" where
  "ListPendingOutbox limit = stmt (selectPending (nat (if limit \<le> 0 then 100 else limit)))"

definition MarkOutboxSent :: "int \<Rightarrow> unit fact_tx" where
  "MarkOutboxSent i = stmt (updateOutbox (\<lambda>e. e\<lparr>ObStatus := 1, LastError := ''''\<rparr>) i)"

definition MarkOutboxFailed :: "int \<Rightarrow> string \<Rightarrow> unit fact_tx" where
  "MarkOutboxFailed i msg = stmt (updateOutbox (\<lambda>e. e\<lparr>ObStatus := 2, LastError := msg, RetryCount := RetryCount e + 1\<rparr>) i)"

text \<open>The errors of the marking calls are only logged.\<close>

definition ignoring :: "'a fact_tx \<Rightarrow> pipe \<Rightarrow> pipe" where
  "ignoring m w = w\<lparr>pdb := snd (m (pdb w))\<rparr>"

fun collect :: "pipe_env \<Rightarrow> outbox_event list \<Rightarrow> pipe \<Rightarrow> (kafka_msg list \<times> int list) \<times> pipe" where
  "collect env [] w = (([], []), w)"
| "collect env (ev # evs) w =
     (case enc_envelope env (Payload ev) of
        Inl err \<Rightarrow> collect env evs (ignoring (MarkOutboxFailed (ObID ev) (err_text err)) w)
      | Inr v \<Rightarrow>
          (let ((msgs, ids), w) = collect env evs w in
           ((\<lparr>KKey = BizKey ev, KValue = v\<rparr> # msgs, ObID ev # ids), w)))"

definition WriteMessages :: "pipe_env \<Rightarrow> kafka_msg list \<Rightarrow> pipe \<Rightarrow> goerr option \<times> pipe" where
  "WriteMessages env msgs w =
     (case broker env (kwrites w) of
        (n, err) \<Rightarrow>
          (err, w\<lparr>klog := klog w @ (if err = None then msgs else take n msgs), kwrites := kwrites w + 1\<rparr>))"

text \<open>dispatchBatch with fuel for its rounds; None is running out of it.\<close>

fun dispatchBatch :: "pipe_env \<Rightarrow> nat \<Rightarrow> pipe \<Rightarrow> goerr option option \<times> pipe" where
  "dispatchBatch env 0 w = (None, w)"
| "dispatchBatch env (Suc fuel) w =
     (case ListPendingOutbox 50 (pdb w) of
        (Inl err, s) \<Rightarrow> (Some (Some err), w\<lparr>pdb := s\<rparr>)
      | (Inr events, s) \<Rightarrow>
          if events = [] then (Some None, w\<lparr>pdb := s\<rparr>)
          else
            (let ((msgs, ids), w) = collect env events (w\<lparr>pdb := s\<rparr>) in
             if msgs = [] then dispatchBatch env fuel w
             else
               (let (err, w) = WriteMessages env msgs w in
                case err of
                  Some e \<Rightarrow> (Some (Some e), fold (\<lambda>i. ignoring (MarkOutboxFailed i (err_text e))) ids w)
                | None \<Rightarrow> dispatchBatch env fuel (fold (\<lambda>i. ignoring (MarkOutboxSent i)) ids w))))"

subsection \<open>The consumer\<close>

record point =
  VUser :: int
  VType :: string
  VConv :: string
  VActive :: bool

text \<open>The embedding model, and what Qdrant and the commit of an offset answer for the k-th message.\<close>

record index_env =
  codec :: pipe_env
  embed :: "string \<Rightarrow> goerr + rat list"
  upsert :: "nat \<Rightarrow> goerr option"
  commit :: "nat \<Rightarrow> goerr option"

record index_state =
  idb :: "fact_world tx_state"
  vindex :: "int \<Rightarrow> point option"
  committed :: nat

definition status_update :: "int \<Rightarrow> string \<Rightarrow> index_state \<Rightarrow> (goerr + unit) \<times> index_state" where
  "status_update i status st = (case UpdateFactIndexStatus i status (idb st) of (r, s) \<Rightarrow> (r, st\<lparr>idb := s\<rparr>))"

definition point_of :: "fact_payload \<Rightarrow> point" where
  "point_of p = \<lparr>VUser = plUser p, VType = plType p, VConv = plConv p, VActive = plActive p\<rparr>"

text \<open>The body of the loop, for the message at an offset.\<close>

definition consume :: "index_env \<Rightarrow> nat \<Rightarrow> string \<Rightarrow> index_state \<Rightarrow> index_state" where
  "consume env offset value st =
     (case dec_envelope (codec env) value of
        Inl _ \<Rightarrow> st
      | Inr payload \<Rightarrow>
          if payload = '''' then st
          else (case dec_event (codec env) payload of
             Inl _ \<Rightarrow> st
           | Inr e \<Rightarrow>
               if plFact e \<le> 0 \<or> plUser e \<le> 0 \<or> plType e = '''' \<or> plContent e = '''' then st
               else (case embed env (plContent e) of
                  Inl _ \<Rightarrow> snd (status_update (plFact e) ''failed'' st)
                | Inr vector \<Rightarrow>
                    if length vector = 0 then snd (status_update (plFact e) ''failed'' st)
                    else (case upsert env offset of
                       Some _ \<Rightarrow> snd (status_update (plFact e) ''failed'' st)
                     | None \<Rightarrow>
                         (let st = st\<lparr>vindex := (vindex st)(plFact e \<mapsto> point_of e)\<rparr> in
                          case status_update (plFact e) ''done'' st of
                            (Inl _, st) \<Rightarrow> st
                          | (Inr _, st) \<Rightarrow>
                              (case commit env offset of None \<Rightarrow> st\<lparr>committed := offset + 1\<rparr> | Some _ \<Rightarrow> st))))))"

fun RunFactIndexerConsumer :: "index_env \<Rightarrow> nat \<Rightarrow> string list \<Rightarrow> index_state \<Rightarrow> index_state" where
  "RunFactIndexerConsumer env offset [] st = st"
| "RunFactIndexerConsumer env offset (v # vs) st = RunFactIndexerConsumer env (offset + 1) vs (consume env offset v st)"

subsection \<open>A quiet dispatch delivers everything\<close>

definition pending :: "fact_world \<Rightarrow> outbox_event list" where
  "pending t = filter is_pending (outbox t)"

definition ordered :: "fact_world \<Rightarrow> bool" where
  "ordered t \<longleftrightarrow> sorted_wrt (<) (map ObID (outbox t))"

definition mark_sent :: "int set \<Rightarrow> fact_world \<Rightarrow> fact_world" where
  "mark_sent ids t = t\<lparr>outbox := map (\<lambda>e. if ObID e \<in> ids then e\<lparr>ObStatus := 1, LastError := ''''\<rparr> else e) (outbox t)\<rparr>"

lemma ordered_sort: "ordered t \<Longrightarrow> sort_key ObID (filter is_pending (outbox t)) = pending t"
proof -
  assume "ordered t"
  then have "sorted (map ObID (outbox t))" unfolding ordered_def by (rule strict_sorted_imp_sorted)
  then show ?thesis unfolding pending_def by (intro sort_key_id_if_sorted sorted_filter)
qed

lemma mark_all:
  "fold (\<lambda>i. ignoring (MarkOutboxSent i)) ids (w\<lparr>pdb := quiet now t\<rparr>) = w\<lparr>pdb := quiet now (mark_sent (set ids) t)\<rparr>"
proof (induction ids arbitrary: t)
  case Nil
  then show ?case by (simp add: mark_sent_def)
next
  case (Cons i ids)
  have "ignoring (MarkOutboxSent i) (w\<lparr>pdb := quiet now t\<rparr>) = w\<lparr>pdb := quiet now (mark_sent {i} t)\<rparr>"
    by (simp add: ignoring_def MarkOutboxSent_def updateOutbox_def mark_sent_def)
  moreover have "mark_sent (set ids) (mark_sent {i} t) = mark_sent (set (i # ids)) t"
    by (auto simp: mark_sent_def)
  ultimately show ?case using Cons [of "mark_sent {i} t"] by simp
qed

lemma mark_sent_frame:
  "map ObID (outbox (mark_sent ids t)) = map ObID (outbox t)" "map Payload (outbox (mark_sent ids t)) = map Payload (outbox t)"
  "facts (mark_sent ids t) = facts t" "ordered (mark_sent ids t) = ordered t"
proof -
  have "map ObID (map (\<lambda>e. if ObID e \<in> ids then e\<lparr>ObStatus := 1, LastError := ''''\<rparr> else e) es) = map ObID es"
    "map Payload (map (\<lambda>e. if ObID e \<in> ids then e\<lparr>ObStatus := 1, LastError := ''''\<rparr> else e) es) = map Payload es" for es
    by (induction es) auto
  note es = this [of "outbox t"]
  show m: "map ObID (outbox (mark_sent ids t)) = map ObID (outbox t)"
    "map Payload (outbox (mark_sent ids t)) = map Payload (outbox t)" "facts (mark_sent ids t) = facts t"
    unfolding mark_sent_def using es by simp_all
  show "ordered (mark_sent ids t) = ordered t" unfolding ordered_def m ..
qed

lemma pending_mark_sent: "pending (mark_sent ids t) = filter (\<lambda>e. ObID e \<notin> ids) (pending t)"
proof -
  have "filter is_pending (map (\<lambda>e. if ObID e \<in> ids then e\<lparr>ObStatus := 1, LastError := ''''\<rparr> else e) es) =
      filter (\<lambda>e. ObID e \<notin> ids) (filter is_pending es)" for es
    by (induction es) (auto simp: is_pending_def)
  from this [of "outbox t"] show ?thesis by (simp add: pending_def mark_sent_def)
qed

lemma pending_rest:
  assumes "ordered t"
  shows "filter (\<lambda>e. ObID e \<notin> ObID ` set (take n (pending t))) (pending t) = drop n (pending t)"
proof -
  have d: "distinct (map ObID (pending t))"
    using assms unfolding ordered_def pending_def by (simp add: strict_sorted_iff distinct_map_filter)
  then have "ObID ` set (take n (pending t)) \<inter> ObID ` set (drop n (pending t)) = {}"
    by (metis append_take_drop_id distinct_append map_append set_map)
  moreover have "filter (\<lambda>e. ObID e \<notin> ObID ` set a) (a @ b) = b" if "ObID ` set a \<inter> ObID ` set b = {}" for a b :: "outbox_event list"
    using that by (auto simp: filter_empty_conv filter_id_conv)
  ultimately have "filter (\<lambda>e. ObID e \<notin> ObID ` set (take n (pending t))) (take n (pending t) @ drop n (pending t)) = drop n (pending t)"
    by blast
  then show ?thesis unfolding append_take_drop_id .
qed

text \<open>Codecs whose events are read back as they were written.\<close>

definition faithful :: "pipe_env \<Rightarrow> fact_payload set \<Rightarrow> bool" where
  "faithful env ps \<longleftrightarrow> (\<forall>p \<in> ps. \<exists>v s. enc_envelope env p = Inr v \<and> dec_envelope env v = Inr s \<and> s \<noteq> '''' \<and> dec_event env s = Inr p)"

definition message :: "pipe_env \<Rightarrow> outbox_event \<Rightarrow> kafka_msg" where
  "message env e = \<lparr>KKey = BizKey e, KValue = (case enc_envelope env (Payload e) of Inr v \<Rightarrow> v | Inl _ \<Rightarrow> '''')\<rparr>"

lemma collect_faithful:
  shows "faithful env (Payload ` set es) \<Longrightarrow> collect env es w = ((map (message env) es, map ObID es), w)"
proof (induction es)
  case (Cons e es)
  obtain v where "enc_envelope env (Payload e) = Inr v" using Cons.prems by (auto simp: faithful_def)
  moreover have "faithful env (Payload ` set es)" using Cons.prems by (auto simp: faithful_def)
  ultimately show ?case using Cons.IH by (simp add: message_def)
qed simp

lemma dispatch_quiet:
  assumes b: "\<And>k. snd (broker env k) = None" and o: "ordered t" and n: "length (pending t) < fuel"
    and f: "faithful env (Payload ` set (outbox t))"
  shows "\<exists>t' k. dispatchBatch env fuel \<lparr>pdb = quiet now t, klog = l, kwrites = k0\<rparr> =
      (Some None, \<lparr>pdb = quiet now t', klog = l @ map (message env) (pending t), kwrites = k\<rparr>) \<and>
    pending t' = [] \<and> map Payload (outbox t') = map Payload (outbox t) \<and> facts t' = facts t"
  using o n f
proof (induction fuel arbitrary: t l k0)
  case (Suc fuel)
  let ?es = "take 50 (pending t)"
  have list: "ListPendingOutbox 50 (quiet now t) = (Inr ?es, quiet now t)"
    by (simp add: ListPendingOutbox_def selectPending_def ordered_sort [OF Suc.prems(1)])
  show ?case
  proof (cases "pending t = []")
    case True
    then show ?thesis by (simp add: list)
  next
    case False
    then have ne: "?es \<noteq> []" "map (message env) ?es \<noteq> []" by auto
    have f: "faithful env (Payload ` set ?es)"
      using Suc.prems(3) by (auto simp: faithful_def pending_def dest!: in_set_takeD)
    let ?t1 = "mark_sent (set (map ObID ?es)) t"
    let ?w = "\<lparr>pdb = quiet now t, klog = l, kwrites = k0\<rparr>"
    obtain m where m: "broker env k0 = (m, None)" using b [of k0] by (cases "broker env k0") simp
    have w: "WriteMessages env (map (message env) ?es) ?w =
        (None, \<lparr>pdb = quiet now t, klog = l @ map (message env) ?es, kwrites = Suc k0\<rparr>)"
      by (simp add: WriteMessages_def m)
    have marks: "fold (\<lambda>i. ignoring (MarkOutboxSent i)) (map ObID ?es) \<lparr>pdb = quiet now t, klog = l @ map (message env) ?es, kwrites = Suc k0\<rparr> =
        \<lparr>pdb = quiet now ?t1, klog = l @ map (message env) ?es, kwrites = Suc k0\<rparr>"
      using mark_all [where w = "\<lparr>pdb = quiet now t, klog = l @ map (message env) ?es, kwrites = Suc k0\<rparr>" and t = t and now = now and ids = "map ObID ?es"] by simp
    have step: "dispatchBatch env (Suc fuel) ?w =
        dispatchBatch env fuel \<lparr>pdb = quiet now ?t1, klog = l @ map (message env) ?es, kwrites = Suc k0\<rparr>"
      using ne by (simp add: list collect_faithful [OF f] w marks Let_def)
    have p: "pending ?t1 = drop 50 (pending t)"
      using pending_rest [OF Suc.prems(1), of 50] by (simp add: pending_mark_sent)
    have "0 < length (pending t)" using False by simp
    then have "length (pending t) - 50 < fuel" using Suc.prems(2) by linarith
    then have "length (pending ?t1) < fuel" unfolding p by simp
    moreover have "ordered ?t1" using Suc.prems(1) by (simp add: mark_sent_frame)
    moreover have "faithful env (Payload ` set (outbox ?t1))"
      using Suc.prems(3) arg_cong [OF mark_sent_frame(2), of set] by simp
    ultimately obtain t' k where "dispatchBatch env fuel \<lparr>pdb = quiet now ?t1, klog = l @ map (message env) ?es, kwrites = Suc k0\<rparr> =
        (Some None, \<lparr>pdb = quiet now t', klog = (l @ map (message env) ?es) @ map (message env) (drop 50 (pending t)), kwrites = k\<rparr>)"
      "pending t' = []" "map Payload (outbox t') = map Payload (outbox ?t1)" "facts t' = facts ?t1"
      using Suc.IH [of ?t1 "l @ map (message env) ?es" "Suc k0"] unfolding p by blast
    then show ?thesis
      unfolding step by (intro exI [of _ t'] exI [of _ k]) (simp add: mark_sent_frame flip: map_append)
  qed
qed simp

subsection \<open>Facts reach the index\<close>

definition all_well :: "index_env \<Rightarrow> fact_payload set \<Rightarrow> bool" where
  "all_well env ps \<longleftrightarrow> faithful (codec env) ps \<and> (\<forall>k. snd (broker (codec env) k) = None) \<and> (\<forall>c. \<exists>x xs. embed env c = Inr (x # xs)) \<and>
     (\<forall>k. upsert env k = None \<and> commit env k = None)"

definition add_point :: "fact_payload \<Rightarrow> (int \<Rightarrow> point option) \<Rightarrow> int \<Rightarrow> point option" where
  "add_point p m = m(plFact p \<mapsto> point_of p)"

lemma consume_quiet:
  assumes "all_well env ps" and "valid_payload (Payload e)" and "Payload e \<in> ps"
  shows "\<exists>t'. consume env offset (KValue (message (codec env) e)) \<lparr>idb = quiet now t, vindex = m, committed = c\<rparr> =
    \<lparr>idb = quiet now t', vindex = add_point (Payload e) m, committed = offset + 1\<rparr>"
proof -
  obtain v s where c: "enc_envelope (codec env) (Payload e) = Inr v" "dec_envelope (codec env) v = Inr s" "s \<noteq> ''''"
    "dec_event (codec env) s = Inr (Payload e)" using assms(1,3) unfolding all_well_def faithful_def by meson
  obtain x xs where "embed env (plContent (Payload e)) = Inr (x # xs)" using assms(1) unfolding all_well_def by blast
  moreover have "upsert env offset = None" "commit env offset = None" using assms(1) by (simp_all add: all_well_def)
  ultimately show ?thesis
    using c assms(2) by (auto simp: consume_def message_def valid_payload_def status_update_def UpdateFactIndexStatus_def
        setIndexStatus_def add_point_def)
qed

lemma consume_all_quiet:
  assumes "all_well env ps"
  shows "\<forall>e \<in> set es. valid_payload (Payload e) \<and> Payload e \<in> ps \<Longrightarrow>
    \<exists>t'. RunFactIndexerConsumer env offset (map (\<lambda>e. KValue (message (codec env) e)) es) \<lparr>idb = quiet now t, vindex = m, committed = offset\<rparr> =
      \<lparr>idb = quiet now t', vindex = fold add_point (map Payload es) m, committed = offset + length es\<rparr>"
proof (induction es arbitrary: offset t m)
  case (Cons e es)
  obtain t' where one: "consume env offset (KValue (message (codec env) e)) \<lparr>idb = quiet now t, vindex = m, committed = offset\<rparr> =
      \<lparr>idb = quiet now t', vindex = add_point (Payload e) m, committed = offset + 1\<rparr>"
    using consume_quiet [OF assms, of e offset now t m offset] Cons.prems by auto
  from Cons.IH [of "offset + 1" t' "add_point (Payload e) m"] Cons.prems show ?case
    by (simp add: one)
qed simp

lemma fold_points:
  "fold add_point ps m i = (case last_about i ps of None \<Rightarrow> m i | Some p \<Rightarrow> Some (point_of p))"
  by (induction ps rule: rev_induct) (auto simp: add_point_def)


text \<open>One fact, its event, and services that work.\<close>

definition go_fact :: user_fact where
  "go_fact = hd (facts likes_go)"

definition go_event :: outbox_event where
  "go_event = \<lparr>ObID = 1, ObType = ''user_fact_upserted'', BizKey = biz_key 1 True, Payload = payload_of go_fact, ObStatus = 0,
     LastError = '''', RetryCount = 0\<rparr>"

definition announced_go :: fact_world where
  "announced_go = likes_go\<lparr>outbox := [go_event], next_outbox := 2\<rparr>"

definition go_codec :: pipe_env where
  "go_codec = \<lparr>enc_envelope = (\<lambda>p. Inr (if plActive p then ''on'' else ''off'')), dec_envelope = Inr,
     dec_event = (\<lambda>s. Inr ((payload_of go_fact)\<lparr>plActive := (s = ''on'')\<rparr>)), broker = (\<lambda>_. (0, None))\<rparr>"

definition go_env :: index_env where
  "go_env = \<lparr>codec = go_codec, embed = (\<lambda>c. Inr [1]), upsert = Map.empty, commit = Map.empty\<rparr>"

lemmas go_defs = go_fact_def likes_go_def go_event_def announced_go_def go_codec_def go_env_def


subsection \<open>Where the pipeline fails\<close>

text \<open>
  dispatchBatch has no pause between its rounds, and goes on when marking fails: if the marks of an
  event fail while everything else works, it writes the same message again and again without end.
\<close>

definition marks_fail :: "nat \<Rightarrow> db_event" where
  "marks_fail k = (if even k then DbOk 0 else DbFail DrvCanceled 0)"

lemma unmarked_event_is_sent_forever:
  "dispatchBatch go_codec n \<lparr>pdb = \<lparr>tables = announced_go, plan = marks_fail\<rparr>, klog = l, kwrites = k\<rparr> =
     (None, \<lparr>pdb = \<lparr>tables = announced_go, plan = marks_fail\<rparr>, klog = l @ replicate n (message go_codec go_event), kwrites = k + n\<rparr>)"
proof (induction n arbitrary: l k)
  case (Suc n)
  have shift: "(\<lambda>i. marks_fail (Suc (Suc i))) = marks_fail" by (simp add: marks_fail_def fun_eq_iff)
  have list: "ListPendingOutbox 50 \<lparr>tables = announced_go, plan = marks_fail\<rparr> =
      (Inr [go_event], \<lparr>tables = announced_go, plan = \<lambda>i. marks_fail (Suc i)\<rparr>)"
    by (simp add: ListPendingOutbox_def selectPending_def stmt_def marks_fail_def is_pending_def announced_go_def go_event_def)
  have col: "collect go_codec [go_event] w = (([message go_codec go_event], [1]), w)" for w
    by (simp add: message_def go_defs payload_of_def)
  have wr: "WriteMessages go_codec ms w = (None, w\<lparr>klog := klog w @ ms, kwrites := kwrites w + 1\<rparr>)" for ms w
    by (simp add: WriteMessages_def go_codec_def)
  have mark: "ignoring (MarkOutboxSent i) \<lparr>pdb = \<lparr>tables = announced_go, plan = \<lambda>i. marks_fail (Suc i)\<rparr>, klog = l, kwrites = k\<rparr> =
      \<lparr>pdb = \<lparr>tables = announced_go, plan = marks_fail\<rparr>, klog = l, kwrites = k\<rparr>" for i l k
    using shift by (simp add: ignoring_def MarkOutboxSent_def stmt_def) (simp add: marks_fail_def)
  show ?case
    using Suc [of "l @ [message go_codec go_event]" "k + 1"]
    by (simp add: list col wr mark Let_def del: collect.simps)
qed simp

text \<open>
  A mark that is lost also revives a superseded fact: the event of its creation is sent again after
  the event of its deactivation, and the consumer takes the last message for the state.
\<close>

definition off_event :: outbox_event where
  "off_event = go_event\<lparr>ObID := 2, BizKey := biz_key 1 False, Payload := (payload_of go_fact)\<lparr>plActive := False\<rparr>\<rparr>"

lemma lost_mark_revives_fact:
  "map KValue (klog (snd (dispatchBatch go_codec 3
      \<lparr>pdb = \<lparr>tables = announced_go\<lparr>outbox := [go_event, off_event]\<rparr>, plan = \<lambda>k. if k = 1 then DbFail DrvCanceled 0 else DbOk 0\<rparr>,
       klog = [], kwrites = 0\<rparr>))) = [''on'', ''off'', ''on'']"
  by (simp add: numeral_3_eq_3 ListPendingOutbox_def selectPending_def stmt_def is_pending_def off_event_def go_defs payload_of_def
      WriteMessages_def ignoring_def MarkOutboxSent_def updateOutbox_def)

text \<open>
  A message whose embedding fails is skipped without a commit, but the commit of the next message
  covers it: after a restart it is not read again, and the fact stays out of the index.
\<close>

lemma skipped_message_is_lost:
  "let c = RunFactIndexerConsumer (go_env\<lparr>embed := (\<lambda>c. Inr []), upsert := Map.empty\<rparr>) 0 [''on''] \<lparr>idb = quiet 0 announced_go, vindex = Map.empty, committed = 0\<rparr>;
       d = RunFactIndexerConsumer go_env 1 [''on''] c
   in vindex c 1 = None \<and> committed c = 0 \<and> committed d = 2"
  by (simp add: consume_def go_defs payload_of_def status_update_def UpdateFactIndexStatus_def setIndexStatus_def add_point_def)

subsection \<open>Retrieval for a prompt\<close>

record retrieval_options =
  TopK :: nat
  TokenBudget :: int
  FactTypes :: "string list"
  Since :: "int option"
  Until :: "int option"

text \<open>The number of runes of a valid UTF-8 string: its bytes that continue no rune.\<close>

definition rune_len :: "string \<Rightarrow> int" where
  "rune_len s = int (length (filter (\<lambda>c. \<not> (128 \<le> (of_char c :: nat) \<and> (of_char c :: nat) < 192)) s))"

definition estimateFactTokens :: "string \<Rightarrow> int" where
  "estimateFactTokens v = (let n = rune_len v in if n = 0 then 0 else (n + 1) div 2)"

text \<open>The loop over the points; a point has the id of its payload, if it has one.\<close>

fun pick_facts ::
    "retrieval_options \<Rightarrow> int option list \<Rightarrow> (string \<times> string) list \<Rightarrow> int \<Rightarrow> user_fact list \<Rightarrow> user_fact list fact_tx" where
  "pick_facts opts [] seen used res = tx_return res"
| "pick_facts opts (pt # pts) seen used res =
     (case pt of
        None \<Rightarrow> pick_facts opts pts seen used res
      | Some factID \<Rightarrow>
          tx_then (GetFactByID factID) (\<lambda>r.
            case r of
              Inl err \<Rightarrow> pick_facts opts pts seen used res
            | Inr f \<Rightarrow>
                if \<not> IsActive f then pick_facts opts pts seen used res
                else if (case Since opts of None \<Rightarrow> False | Some t \<Rightarrow> CreatedAt f < t) then pick_facts opts pts seen used res
                else if (case Until opts of None \<Rightarrow> False | Some t \<Rightarrow> t < CreatedAt f) then pick_facts opts pts seen used res
                else if (FType f, FContent f) \<in> set seen then pick_facts opts pts seen used res
                else
                  (let cost = estimateFactTokens (FContent f) in
                   if 0 < TokenBudget opts \<and> TokenBudget opts < used + cost then pick_facts opts pts seen used res
                   else pick_facts opts pts ((FType f, FContent f) # seen) (used + cost) (res @ [f]))))"

text \<open>embedder is the embedding model, if there is one; search is what Qdrant answers for the filter.\<close>

definition RetrieveRelevantFactsWithOptions ::
    "(string \<Rightarrow> goerr + rat list) option \<Rightarrow> (int \<Rightarrow> retrieval_options \<Rightarrow> goerr + int option list) \<Rightarrow> int \<Rightarrow> string \<Rightarrow> retrieval_options \<Rightarrow>
     user_fact list fact_tx" where
  "RetrieveRelevantFactsWithOptions embedder search userID query opts =
     (if query = '''' then tx_return []
      else
        (let opts = opts\<lparr>TopK := (if TopK opts = 0 then 5 else TopK opts)\<rparr> in
         case embedder of
           None \<Rightarrow> tx_fail (ErrNew ''nil multimodal embedder'')
         | Some emb \<Rightarrow>
             (case emb query of
                Inl err \<Rightarrow> tx_fail err
              | Inr vector \<Rightarrow>
                  if length vector = 0 then tx_fail (ErrNew ''empty query embedding result'')
                  else (case search userID opts of
                     Inl err \<Rightarrow> tx_fail (Wrapf ''qdrant search relevant facts: '' err '''')
                   | Inr points \<Rightarrow> pick_facts opts points [] 0 []))))"

definition RetrieveSemanticFacts where
  "RetrieveSemanticFacts embedder search userID query limit =
     RetrieveRelevantFactsWithOptions embedder search userID query \<lparr>TopK = limit, TokenBudget = 1600,
       FactTypes = [''project'', ''identity'', ''preference'', ''habit'', ''goal'', ''background'', ''skill''], Since = None, Until = None\<rparr>"

definition RetrieveEpisodicMemory where
  "RetrieveEpisodicMemory embedder search userID query since until limit =
     RetrieveRelevantFactsWithOptions embedder search userID query
       \<lparr>TopK = limit, TokenBudget = 800, FactTypes = [''episodic''], Since = Some since, Until = Some until\<rparr>"

definition fact_tokens :: "user_fact list \<Rightarrow> int" where
  "fact_tokens fs = sum_list (map (\<lambda>f. estimateFactTokens (FContent f)) fs)"

text \<open>What a retrieval may show of the facts for the points it got.\<close>

definition retrieved_ok :: "retrieval_options \<Rightarrow> int option list \<Rightarrow> fact_world \<Rightarrow> user_fact list \<Rightarrow> bool" where
  "retrieved_ok opts pts t fs \<longleftrightarrow>
     (\<forall>f \<in> set fs. f \<in> set (facts t) \<and> Some (FactID f) \<in> set pts \<and> IsActive f \<and>
        (\<forall>s. Since opts = Some s \<longrightarrow> s \<le> CreatedAt f) \<and> (\<forall>u. Until opts = Some u \<longrightarrow> CreatedAt f \<le> u)) \<and>
     distinct (map (\<lambda>f. (FType f, FContent f)) fs) \<and> (0 < TokenBudget opts \<longrightarrow> fact_tokens fs \<le> TokenBudget opts)"

lemma pick_facts_always:
  assumes "retrieved_ok opts all t res" and "set pts \<subseteq> set all" and "used = fact_tokens res"
    and "set seen = (\<lambda>f. (FType f, FContent f)) ` set res"
  shows "always (pick_facts opts pts seen used res) t (\<lambda>r t'. t' = t \<and> (\<exists>fs. r = Inr fs \<and> retrieved_ok opts all t fs))"
  using assms(2-4,1)
proof (induction pts arbitrary: seen used res)
  case Nil
  then show ?case by (simp add: always_simps)
next
  case (Cons pt pts)
  let ?Q = "\<lambda>r t'. t' = t \<and> (\<exists>fs. r = Inr fs \<and> retrieved_ok opts all t fs)"
  have skip: "always (pick_facts opts pts seen used res) t ?Q" using Cons by simp
  show ?case
  proof (cases pt)
    case None
    with skip show ?thesis by simp
  next
    case (Some i)
    have take: "always (pick_facts opts pts ((FType f, FContent f) # seen) (used + estimateFactTokens (FContent f)) (res @ [f])) t ?Q"
      if f: "find (\<lambda>f. FactID f = i) (facts t) = Some f" "IsActive f" "\<not> (case Since opts of None \<Rightarrow> False | Some s \<Rightarrow> CreatedAt f < s)"
        "\<not> (case Until opts of None \<Rightarrow> False | Some u \<Rightarrow> u < CreatedAt f)" "(FType f, FContent f) \<notin> set seen"
        "\<not> (0 < TokenBudget opts \<and> TokenBudget opts < used + estimateFactTokens (FContent f))" for f
    proof (rule Cons.IH)
      have "f \<in> set (facts t)" "FactID f = i" using f(1) by (auto simp: find_Some_iff)
      moreover have "s \<le> CreatedAt f" if "Since opts = Some s" for s using f(3) that by simp
      moreover have "CreatedAt f \<le> u" if "Until opts = Some u" for u using f(4) that by simp
      ultimately show "retrieved_ok opts all t (res @ [f])"
        using Cons.prems f(2,5,6) Some by (auto simp: retrieved_ok_def fact_tokens_def)
    qed (use Cons.prems in \<open>auto simp: fact_tokens_def\<close>)
    show ?thesis
      using skip take Some
      by (auto simp: GetFactByID_def always_simps findFact_def Let_def split: option.split)
  qed
qed

text \<open>Qdrant answers points of the index that pass the filter; the index and the facts agree on the users.\<close>

definition filters :: "(int \<Rightarrow> point option) \<Rightarrow> (int \<Rightarrow> retrieval_options \<Rightarrow> goerr + int option list) \<Rightarrow> bool" where
  "filters index search \<longleftrightarrow>
     (\<forall>userID opts pts i. search userID opts = Inr pts \<longrightarrow> Some i \<in> set pts \<longrightarrow>
        (\<exists>pt. index i = Some pt \<and> VUser pt = userID \<and> VActive pt))"

definition users_agree :: "(int \<Rightarrow> point option) \<Rightarrow> fact_world \<Rightarrow> bool" where
  "users_agree index t \<longleftrightarrow> (\<forall>f \<in> set (facts t). \<forall>pt. index (FactID f) = Some pt \<longrightarrow> VUser pt = FUser f)"


definition go_index :: "int \<Rightarrow> point option" where
  "go_index = [1 \<mapsto> point_of (payload_of go_fact)]"

definition go_search :: "int \<Rightarrow> retrieval_options \<Rightarrow> goerr + int option list" where
  "go_search userID opts = Inr (if userID = 7 then [None, Some 1] else [])"


end
