(* ===== verification/Rag_Chunks.thy ===== *)
theory Rag_Chunks
  imports Token_Budget Complex_Main
begin

text \<open>
  The documents of a lesson for the agent (src/internal/rpc/agent/rag/chunker.go, retriever.go and
  workflow/indexer/main.go): a Markdown document is cut at its headings into parent chunks of bounded
  size and these into overlapping child windows; the indexer writes the children in batches; a search
  merges the children it finds and replaces them by their parents. Texts are lists of runes, and
  heads stands for the regular expression that finds the heading lines.
\<close>

subsection \<open>Windows\<close>

record chunk_config =
  ParentSize :: int
  ChildSize :: int
  Overlap :: int

definition DefaultChunkConfig :: chunk_config where
  "DefaultChunkConfig = \<lparr>ParentSize = 1600, ChildSize = 400, Overlap = 80\<rparr>"

definition validate_config :: "chunk_config \<Rightarrow> goerr option" where
  "validate_config c =
     (if ParentSize c < 1 \<or> ChildSize c < 1 \<or> ParentSize c < ChildSize c then Some (ErrNew ''invalid parent/child sizes'')
      else if Overlap c < 0 \<or> ChildSize c \<le> Overlap c then Some (ErrNew ''overlap must be smaller than child size'')
      else None)"

text \<open>
  The loop of splitBounded: None when it does not end or indexes out of range (a step that is zero
  or negative).
\<close>

partial_function (option) split_from :: "runes \<Rightarrow> int \<Rightarrow> int \<Rightarrow> int \<Rightarrow> runes list \<Rightarrow> runes list option" where
  "split_from rs sz step start chunks =
     (if start < 0 then None
      else if start < int (length rs) then
        (let stop = (if int (length rs) < start + sz then int (length rs) else start + sz);
             chunks = chunks @ [take (nat (stop - start)) (drop (nat start) rs)]
         in if stop = int (length rs) then Some chunks else split_from rs sz step (start + step) chunks)
      else Some chunks)"

lemmas split_from_code [code] = split_from.simps

definition splitBounded :: "runes \<Rightarrow> int \<Rightarrow> int \<Rightarrow> runes list option" where
  "splitBounded text sz overlap =
     (let rs = trim text in if rs = [] then Some [] else split_from rs sz (sz - overlap) 0 [])"

text \<open>What the windows put together give: each window after the first without its overlap.\<close>

fun joined :: "nat \<Rightarrow> runes list \<Rightarrow> runes" where
  "joined n [] = []"
| "joined n (c # cs) = c @ concat (map (drop n) cs)"

lemma split_from_windows:
  assumes "n < m" and "start < length rs"
  shows "\<exists>cs. split_from rs (int m) (int m - int n) (int start) acc = Some (acc @ cs) \<and> cs \<noteq> [] \<and>
    joined n cs = drop start rs \<and> (\<forall>c \<in> set cs. c \<noteq> [] \<and> length c \<le> m) \<and> hd cs = take m (drop start rs)"
  using assms(2)
proof (induction "length rs - start" arbitrary: start acc rule: less_induct)
  case less
  show ?case
  proof (cases "length rs \<le> start + m")
    case True
    then have "split_from rs (int m) (int m - int n) (int start) acc = Some (acc @ [drop start rs])"
      using less.prems by (subst split_from.simps) (auto simp: Let_def nat_diff_distrib)
    moreover have "take m (drop start rs) = drop start rs" using True by simp
    ultimately show ?thesis using True less.prems by (intro exI [of _ "[drop start rs]"]) auto
  next
    case False
    let ?c = "take m (drop start rs)" and ?k = "start + (m - n)"
    have k: "int ?k = int start + (int m - int n)" "?k < length rs" "length rs - ?k < length rs - start"
      using False assms(1) less.prems by auto
    have run: "split_from rs (int m) (int m - int n) (int start) acc = split_from rs (int m) (int m - int n) (int ?k) (acc @ [?c])"
      using False assms(1) less.prems unfolding k(1) by (subst split_from.simps) (simp add: Let_def)
    from less.hyps [OF k(3,2), of "acc @ [?c]"] obtain cs where cs:
      "split_from rs (int m) (int m - int n) (int ?k) (acc @ [?c]) = Some ((acc @ [?c]) @ cs)" "cs \<noteq> []"
      "joined n cs = drop ?k rs" "\<forall>c \<in> set cs. c \<noteq> [] \<and> length c \<le> m" "hd cs = take m (drop ?k rs)" by blast
    have long: "n \<le> length (hd cs)" unfolding cs(5) using False assms(1) less.prems by auto
    have "concat (map (drop n) cs) = drop n (joined n cs)" using cs(2) long by (cases cs) simp_all
    also have "\<dots> = drop (start + m) rs"
    proof -
      have "n + ?k = start + m" using assms(1) by simp
      then show ?thesis unfolding cs(3) by simp
    qed
    finally have "joined n (?c # cs) = drop start rs"
      by (metis add.commute append_take_drop_id drop_drop joined.simps(2))
    moreover have "?c \<noteq> [] \<and> length ?c \<le> m" using less.prems assms(1) by auto
    ultimately show ?thesis using run cs(1,4) by (intro exI [of _ "?c # cs"]) auto
  qed
qed

lemma splitBounded_windows:
  assumes "0 \<le> overlap" and "overlap < sz"
  obtains cs where "splitBounded text sz overlap = Some cs" "joined (nat overlap) cs = trim text"
    "\<forall>c \<in> set cs. c \<noteq> [] \<and> int (length c) \<le> sz" "cs = [] \<longleftrightarrow> trim text = []"
proof (cases "trim text = []")
  case True
  then show ?thesis using that [of "[]"] by (simp add: splitBounded_def)
next
  case False
  then have "0 < length (trim text)" by simp
  have "nat overlap < nat sz" "int (nat sz) = sz" "int (nat overlap) = overlap" using assms by auto
  note nats = this
  from split_from_windows [OF nats(1) \<open>0 < length (trim text)\<close>, of "[]"] obtain cs where
    "split_from (trim text) sz (sz - overlap) 0 [] = Some cs" "cs \<noteq> []" "joined (nat overlap) cs = trim text"
    "\<forall>c \<in> set cs. c \<noteq> [] \<and> length c \<le> nat sz" unfolding nats(2,3) by auto
  with False that show ?thesis by (simp add: splitBounded_def nat_le_iff [symmetric]) (metis nat_le_iff int_nat_eq nats(2) of_nat_le_iff)
qed

text \<open>Without the check of the configuration the loop does not end.\<close>

lemma split_with_full_overlap_never_ends: "splitBounded (ascii ''abc'') 2 2 = None"
proof -
  have "split_from (ascii ''abc'') 2 0 0 acc = None" for acc
  proof (cases "split_from (ascii ''abc'') 2 0 0 acc")
    case (Some cs)
    have "rs = ascii ''abc'' \<longrightarrow> sz = 2 \<longrightarrow> step = 0 \<longrightarrow> start = 0 \<longrightarrow> False"
      if "split_from rs sz step start ch = Some y" for rs sz step start ch y
    proof (rule split_from.raw_induct [OF _ that])
      fix f :: "runes \<Rightarrow> int \<Rightarrow> int \<Rightarrow> int \<Rightarrow> runes list \<Rightarrow> runes list option" and rs sz step start ch y
      assume "\<And>rs sz step start ch y. f rs sz step start ch = Some y \<Longrightarrow> rs = ascii ''abc'' \<longrightarrow> sz = 2 \<longrightarrow> step = 0 \<longrightarrow> start = 0 \<longrightarrow> False"
        and "(if start < 0 then None
          else if start < int (length rs) then
            (let stop = (if int (length rs) < start + sz then int (length rs) else start + sz);
                 chunks = ch @ [take (nat (stop - start)) (drop (nat start) rs)]
             in if stop = int (length rs) then Some chunks else f rs sz step (start + step) chunks)
          else Some ch) = Some y"
      then show "rs = ascii ''abc'' \<longrightarrow> sz = 2 \<longrightarrow> step = 0 \<longrightarrow> start = 0 \<longrightarrow> False"
        by (auto simp: Let_def ascii_def split: if_splits) fastforce
    qed
    with Some show ?thesis by blast
  qed  moreover have "trim (ascii ''abc'') = ascii ''abc''" "ascii ''abc'' \<noteq> []" by (simp_all add: trim_def rune_space_def ascii_def)
  ultimately show ?thesis by (simp add: splitBounded_def)
qed

subsection \<open>Chunks\<close>

record child_chunk =
  ChIndex :: nat
  ChText :: runes

record parent_chunk =
  PaIndex :: nat
  Heading :: runes
  PaText :: runes
  Children :: "child_chunk list"

text \<open>
  The loop over the headings: from the first position of a heading on, each section runs to the next
  heading; heads are the ranges of the heading lines.
\<close>

fun sections_from :: "runes \<Rightarrow> (nat \<times> nat) list \<Rightarrow> (runes \<times> runes) list" where
  "sections_from content [] = []"
| "sections_from content ((a, b) # idx) =
     (let stop = (case idx of [] \<Rightarrow> length content | (c, _) # _ \<Rightarrow> c)
      in (trim (take (b - a) (drop a content)), trim (take (stop - a) (drop a content))) # sections_from content idx)"

definition markdownSections :: "(runes \<Rightarrow> (nat \<times> nat) list) \<Rightarrow> runes \<Rightarrow> (runes \<times> runes) list" where
  "markdownSections heads content =
     (if content = [] then []
      else
        (case heads content of
           [] \<Rightarrow> [([], content)]
         | (a, b) # idx \<Rightarrow>
             (if trim (take a content) \<noteq> [] then [([], trim (take a content))] else []) @ sections_from content ((a, b) # idx)))"

definition child_chunks :: "runes list \<Rightarrow> child_chunk list" where
  "child_chunks ws = map (\<lambda>(i, w). \<lparr>ChIndex = i, ChText = trim w\<rparr>) (enumerate 0 ws)"

text \<open>The inner loop: the parts of a section become parents, with the number of parents so far.\<close>

fun add_parents :: "chunk_config \<Rightarrow> runes \<Rightarrow> runes list \<Rightarrow> parent_chunk list \<Rightarrow> parent_chunk list option" where
  "add_parents cfg heading [] parents = Some parents"
| "add_parents cfg heading (t # ts) parents =
     (case splitBounded (trim t) (ChildSize cfg) (Overlap cfg) of
        None \<Rightarrow> None
      | Some ws \<Rightarrow>
          add_parents cfg heading ts
            (if trim t \<noteq> []
             then parents @ [\<lparr>PaIndex = length parents, Heading = heading, PaText = trim t, Children = child_chunks ws\<rparr>]
             else parents))"

fun add_sections :: "chunk_config \<Rightarrow> (runes \<times> runes) list \<Rightarrow> parent_chunk list \<Rightarrow> parent_chunk list option" where
  "add_sections cfg [] parents = Some parents"
| "add_sections cfg ((heading, t) # ss) parents =
     (case splitBounded t (ParentSize cfg) 0 of
        None \<Rightarrow> None
      | Some ts \<Rightarrow>
          (case add_parents cfg heading ts parents of
             None \<Rightarrow> None
           | Some parents \<Rightarrow> add_sections cfg ss parents))"

text \<open>ChunkMarkdown; None when a loop does not end.\<close>

definition ChunkMarkdown ::
    "(runes \<Rightarrow> (nat \<times> nat) list) \<Rightarrow> runes \<Rightarrow> chunk_config \<Rightarrow> (goerr + parent_chunk list) option" where
  "ChunkMarkdown heads content cfg =
     (case validate_config cfg of
        Some err \<Rightarrow> Some (Inl err)
      | None \<Rightarrow> map_option Inr (add_sections cfg (markdownSections heads (trim content)) []))"

subsection \<open>The document is covered\<close>

text \<open>The ranges of matches: inside the text, in order and disjoint.\<close>

fun ranges_ok :: "nat \<Rightarrow> nat \<Rightarrow> (nat \<times> nat) list \<Rightarrow> bool" where
  "ranges_ok n lo [] \<longleftrightarrow> True"
| "ranges_ok n lo ((a, b) # idx) \<longleftrightarrow> lo \<le> a \<and> a < b \<and> b \<le> n \<and> ranges_ok n b idx"

definition inked :: "runes \<Rightarrow> runes" where
  "inked t = filter (\<lambda>r. \<not> rune_space r) t"

lemma inked_append [simp]: "inked (s @ t) = inked s @ inked t" "inked [] = []"
  by (simp_all add: inked_def)

lemma inked_drop: "inked (dropWhile rune_space t) = inked t"
  by (induction t) (auto simp: inked_def)

lemma inked_trim [simp]: "inked (trim t) = inked t"
proof -
  have "inked (rev t) = rev (inked t)" for t by (simp add: inked_def rev_filter)
  then show ?thesis by (simp add: trim_def inked_drop)
qed

lemma inked_concat: "inked (concat ts) = concat (map inked ts)"
  by (induction ts) simp_all

lemma sections_inked:
  "ranges_ok (length content) lo ((a, b) # idx) \<Longrightarrow>
     concat (map (\<lambda>q. inked (snd q)) (sections_from content ((a, b) # idx))) = inked (drop a content)"
proof (induction idx arbitrary: a b lo)
  case (Cons q idx)
  obtain c d where q: "q = (c, d)" by fastforce
  have "a \<le> c" "c \<le> length content" using Cons.prems q by auto
  then have "inked (take (c - a) (drop a content)) @ inked (drop c content) = inked (drop a content)"
    by (metis append_take_drop_id drop_drop inked_append(1) le_add_diff_inverse2 le_add_diff_inverse)
  moreover have "concat (map (\<lambda>q. inked (snd q)) (sections_from content ((c, d) # idx))) = inked (drop c content)"
    using Cons.IH [of b c d] Cons.prems q by auto
  ultimately show ?case using q by (simp add: Let_def)
qed (simp add: Let_def)

lemma markdown_inked:
  assumes "ranges_ok (length content) 0 (heads content)"
  shows "concat (map (\<lambda>q. inked (snd q)) (markdownSections heads content)) = inked content"
proof (cases "heads content")
  case (Cons q idx)
  obtain a b where q: "q = (a, b)" by fastforce
  have "inked (take a content) @ inked (drop a content) = inked content"
    by (metis append_take_drop_id inked_append(1))
  moreover have "concat (map (\<lambda>q. inked (snd q)) (sections_from content ((a, b) # idx))) = inked (drop a content)"
    using sections_inked assms Cons q by metis
  moreover have "inked (take a content) = []" if "trim (take a content) = []" using inked_trim [of "take a content"] that by simp
  moreover have "inked (trim (take a content)) = inked (take a content)" by simp
  ultimately show ?thesis using Cons q assms by (auto simp: markdownSections_def)
qed (simp add: markdownSections_def)

text \<open>A parent as it should be: in its place, not blank, within its size, and its children windows of its text.\<close>

definition parent_ok :: "chunk_config \<Rightarrow> nat \<Rightarrow> parent_chunk \<Rightarrow> bool" where
  "parent_ok cfg i p \<longleftrightarrow> PaIndex p = i \<and> PaText p \<noteq> [] \<and> trim (PaText p) = PaText p \<and> int (length (PaText p)) \<le> ParentSize cfg \<and>
     (\<exists>ws. Children p = child_chunks ws \<and> joined (nat (Overlap cfg)) ws = PaText p \<and> (\<forall>w \<in> set ws. int (length w) \<le> ChildSize cfg))"

definition parents_ok :: "chunk_config \<Rightarrow> parent_chunk list \<Rightarrow> bool" where
  "parents_ok cfg ps \<longleftrightarrow> (\<forall>i < length ps. parent_ok cfg i (ps ! i))"

lemma parents_ok_append: "parents_ok cfg ps \<Longrightarrow> parent_ok cfg (length ps) p \<Longrightarrow> parents_ok cfg (ps @ [p])"
  by (auto simp: parents_ok_def nth_append less_Suc_eq)

lemma length_trim: "length (trim t) \<le> length t"
  using length_dropWhile_le [of rune_space t] length_dropWhile_le [of rune_space "rev (dropWhile rune_space t)"]
  by (simp add: trim_def)

lemma trim_trim [simp]: "trim (trim t) = trim t"
proof -
  have t: "trim t = [] \<or> \<not> rune_space (hd (trim t)) \<and> \<not> rune_space (last (trim t))"
  proof (cases "trim t")
    case (Cons x xs)
    let ?r = "dropWhile rune_space (rev (dropWhile rune_space t))"
    have r: "?r \<noteq> []" "trim t = rev ?r" using Cons by (auto simp: trim_def)
    then have "\<not> rune_space (last (trim t))" using hd_dropWhile [of rune_space "rev (dropWhile rune_space t)"] by (simp add: last_rev)
    moreover have "last ?r = last (rev (dropWhile rune_space t))" using r(1) by (metis last_appendR takeWhile_dropWhile_id)
    then have "hd (trim t) = hd (dropWhile rune_space t)" using r by (metis hd_rev last_rev rev_is_Nil_conv dropWhile_eq_Nil_conv)
    moreover have "dropWhile rune_space t \<noteq> []"
    proof
      assume "dropWhile rune_space t = []"
      with r(1) show False by (simp only: rev.simps dropWhile.simps)
    qed
    then have "\<not> rune_space (hd (dropWhile rune_space t))" by (rule hd_dropWhile)
    ultimately show ?thesis by simp
  qed simp
  then have "dropWhile rune_space (trim t) = trim t" "dropWhile rune_space (rev (trim t)) = rev (trim t)"
    by (auto simp: dropWhile_eq_self_iff hd_rev)
  then show ?thesis unfolding trim_def [of "trim t"] by simp
qed

lemma add_parents_spec:
  assumes "validate_config cfg = None" and "parents_ok cfg ps" and "\<forall>t \<in> set ts. int (length t) \<le> ParentSize cfg"
  shows "\<exists>new. add_parents cfg heading ts ps = Some (ps @ new) \<and> parents_ok cfg (ps @ new) \<and>
    concat (map (\<lambda>p. inked (PaText p)) new) = concat (map inked ts)"
  using assms(2,3)
proof (induction ts arbitrary: ps)
  case (Cons t ts)
  have o: "0 \<le> Overlap cfg" "Overlap cfg < ChildSize cfg" using assms(1) by (auto simp: validate_config_def split: if_splits)
  obtain ws where ws: "splitBounded (trim t) (ChildSize cfg) (Overlap cfg) = Some ws" "joined (nat (Overlap cfg)) ws = trim (trim t)"
    "\<forall>c \<in> set ws. c \<noteq> [] \<and> int (length c) \<le> ChildSize cfg" "ws = [] \<longleftrightarrow> trim (trim t) = []"
    using splitBounded_windows [OF o, of "trim t"] by blast
  show ?case
  proof (cases "trim t = []")
    case True
    moreover have "inked t = []" using inked_trim [of t] True by simp
    ultimately show ?thesis using Cons ws(1) by auto
  next
    case False
    let ?p = "\<lparr>PaIndex = length ps, Heading = heading, PaText = trim t, Children = child_chunks ws\<rparr>"
    have "int (length (trim t)) \<le> ParentSize cfg" using length_trim [of t] Cons.prems(2) by fastforce
    then have "parent_ok cfg (length ps) ?p" using ws False by (auto simp: parent_ok_def)
    with Cons.prems parents_ok_append have "parents_ok cfg (ps @ [?p])" by blast
    from Cons.IH [OF this] Cons.prems(2) obtain new where
      "add_parents cfg heading ts (ps @ [?p]) = Some ((ps @ [?p]) @ new)" "parents_ok cfg ((ps @ [?p]) @ new)"
      "concat (map (\<lambda>p. inked (PaText p)) new) = concat (map inked ts)" by auto
    with False ws(1) show ?thesis by (intro exI [of _ "?p # new"]) simp
  qed
qed simp

lemma joined_zero: "joined 0 cs = concat cs"
  by (cases cs) simp_all

lemma add_sections_spec:
  assumes "validate_config cfg = None" and "parents_ok cfg ps"
  shows "\<exists>new. add_sections cfg ss ps = Some (ps @ new) \<and> parents_ok cfg (ps @ new) \<and>
    concat (map (\<lambda>p. inked (PaText p)) new) = concat (map (\<lambda>q. inked (snd q)) ss)"
  using assms(2)
proof (induction ss arbitrary: ps)
  case (Cons s ss)
  obtain heading t where s: "s = (heading, t)" by fastforce
  have o: "0 \<le> (0 :: int)" "0 < ParentSize cfg" using assms(1) by (auto simp: validate_config_def split: if_splits)
  obtain ts where ts: "splitBounded t (ParentSize cfg) 0 = Some ts" "joined (nat 0) ts = trim t"
    "\<forall>c \<in> set ts. c \<noteq> [] \<and> int (length c) \<le> ParentSize cfg" "ts = [] \<longleftrightarrow> trim t = []"
    by (rule splitBounded_windows [OF o, of t])
  obtain new where new: "add_parents cfg heading ts ps = Some (ps @ new)" "parents_ok cfg (ps @ new)"
    "concat (map (\<lambda>p. inked (PaText p)) new) = concat (map inked ts)"
    using add_parents_spec [OF assms(1) Cons.prems, of ts heading] ts(3) by blast
  obtain more where more: "add_sections cfg ss (ps @ new) = Some ((ps @ new) @ more)" "parents_ok cfg ((ps @ new) @ more)"
    "concat (map (\<lambda>p. inked (PaText p)) more) = concat (map (\<lambda>q. inked (snd q)) ss)"
    using Cons.IH [OF new(2)] by blast
  have "concat (map inked ts) = inked t" using ts(2) inked_trim [of t] by (simp add: joined_zero inked_concat [symmetric])
  with s ts(1) new more show ?case by (intro exI [of _ "new @ more"]) simp
qed simp

text \<open>
  C33 (functional). Nothing of a document is lost in its chunks: with a valid configuration, cutting
  ends; the parents are numbered in order, none is blank or larger than its size, and put one after
  the other their texts are the document's text up to white space, nothing missing, doubled or
  moved; and of each parent the children are windows of bounded size, in order, which put together,
  each after the first without the configured overlap, give the text of the parent. An invalid configuration is refused.
\<close>

theorem chunks_cover_document:
  assumes "ranges_ok (length (trim content)) 0 (heads (trim content))"
  shows "case validate_config cfg of
      Some err \<Rightarrow> ChunkMarkdown heads content cfg = Some (Inl err)
    | None \<Rightarrow> \<exists>ps. ChunkMarkdown heads content cfg = Some (Inr ps) \<and> parents_ok cfg ps \<and>
        concat (map (\<lambda>p. inked (PaText p)) ps) = inked content"
proof (cases "validate_config cfg")
  case None
  have "parents_ok cfg []" by (simp add: parents_ok_def)
  from add_sections_spec [OF None this, of "markdownSections heads (trim content)"] markdown_inked [where heads = heads and content = "trim content", OF assms] None
  show ?thesis by (auto simp: ChunkMarkdown_def)
qed (simp add: ChunkMarkdown_def)

text \<open>A short document with one heading, in small windows.\<close>

definition small_config :: chunk_config where
  "small_config = \<lparr>ParentSize = 5, ChildSize = 3, Overlap = 1\<rparr>"

definition small_doc :: runes where
  "small_doc = ascii ''ab # c def''"

definition small_heads :: "runes \<Rightarrow> (nat \<times> nat) list" where
  "small_heads t = [(3, 10)]"

theorem chunks_cover_document_witness:
  "\<exists>ps. ChunkMarkdown small_heads small_doc small_config = Some (Inr ps) \<and> parents_ok small_config ps \<and>
     concat (map (\<lambda>p. inked (PaText p)) ps) = ascii ''ab#cdef''"
proof -
  have t: "trim small_doc = small_doc" by code_simp
  have v: "validate_config small_config = None" by code_simp
  have i: "inked small_doc = ascii ''ab#cdef''" by code_simp
  have "ranges_ok (length (trim small_doc)) 0 (small_heads (trim small_doc))" unfolding t by code_simp
  from chunks_cover_document [of small_doc small_heads small_config, OF this] show ?thesis unfolding v i by simp
qed

text \<open>
  A window of white space only becomes a child without text; the embedding of an empty text fails,
  and the indexer ends at the first failure.
\<close>

lemma blank_child_of_wide_gap:
  "map ChText (child_chunks [ascii ''ab'', ascii ''   '', ascii ''cd'']) = [ascii ''ab'', [], ascii ''cd'']"
  by code_simp

subsection \<open>Indexing\<close>

record doc_chunk =
  DcID :: runes
  ParentID :: runes
  DcText :: runes
  ParentText :: runes
  DcHeading :: runes
  LessonID :: int
  Source :: runes
  ChunkIdx :: int
  ChildIdx :: int
  Score :: rat

text \<open>The conversion to int32.\<close>

definition wrap32 :: "int \<Rightarrow> int" where
  "wrap32 x = (x + 2 ^ 31) mod 2 ^ 32 - 2 ^ 31"

text \<open>
  The chunks of a document in the order of the indexer's loops; uuid is the SHA-1 UUID of the
  parent's and of the child's name.
\<close>

definition chunk_of :: "(nat \<Rightarrow> nat option \<Rightarrow> runes) \<Rightarrow> int \<Rightarrow> runes \<Rightarrow> parent_chunk \<Rightarrow> child_chunk \<Rightarrow> doc_chunk" where
  "chunk_of uuid lesson source p c =
     \<lparr>DcID = uuid (PaIndex p) (Some (ChIndex c)), ParentID = uuid (PaIndex p) None, DcText = ChText c, ParentText = PaText p,
      DcHeading = Heading p, LessonID = lesson, Source = source, ChunkIdx = wrap32 (int (PaIndex p)),
      ChildIdx = wrap32 (int (ChIndex c)), Score = 0\<rparr>"

definition index_chunks :: "(nat \<Rightarrow> nat option \<Rightarrow> runes) \<Rightarrow> int \<Rightarrow> runes \<Rightarrow> parent_chunk list \<Rightarrow> doc_chunk list" where
  "index_chunks uuid lesson source ps = concat (map (\<lambda>p. map (chunk_of uuid lesson source p) (Children p)) ps)"

lemma child_index: "c \<in> set (child_chunks ws) \<Longrightarrow> ChIndex c < length ws"
  by (auto simp: child_chunks_def in_set_enumerate_eq)

lemma map_ChIndex: "map ChIndex (child_chunks ws) = [0..<length ws]"
proof -
  have "map (ChIndex \<circ> (\<lambda>(i, w). \<lparr>ChIndex = i, ChText = trim w\<rparr>)) (enumerate k ws) = map fst (enumerate k ws)" for k
    by (induction ws arbitrary: k) simp_all
  then show ?thesis by (simp add: child_chunks_def)
qed

text \<open>The points of a document have different ids, so that none overwrites another.\<close>

lemma indexed_ids_distinct:
  assumes "parents_ok cfg ps" and "inj (\<lambda>(i, j). uuid i j)"
  shows "distinct (map DcID (index_chunks uuid lesson source ps))"
  using assms(1)
proof (induction ps rule: rev_induct)
  case (snoc p ps)
  have ok: "parents_ok cfg ps" using snoc.prems by (auto simp: parents_ok_def nth_append less_Suc_eq)
  have p: "parent_ok cfg (length ps) p" using snoc.prems by (auto simp: parents_ok_def)
  have before: "PaIndex q < length ps" if "q \<in> set ps" for q
    using ok that by (auto simp: parents_ok_def parent_ok_def in_set_conv_nth)
  obtain ws where ws: "Children p = child_chunks ws" "PaIndex p = length ps" using p by (auto simp: parent_ok_def)
  have inj: "uuid i j = uuid i' j' \<longleftrightarrow> i = i' \<and> j = j'" for i j i' j'
    using injD [OF assms(2), of "(i, j)" "(i', j')"] by auto
  have "map (\<lambda>c. uuid (length ps) (Some (ChIndex c))) (child_chunks ws) = map (\<lambda>j. uuid (length ps) (Some j)) [0..<length ws]"
    by (metis (no_types, lifting) map_ChIndex list.map_comp comp_def map_eq_conv)
  moreover have "distinct (map (\<lambda>j. uuid (length ps) (Some j)) [0..<length ws])"
    by (simp add: distinct_map inj_on_def inj)
  ultimately have "distinct (map (\<lambda>c. uuid (length ps) (Some (ChIndex c))) (child_chunks ws))" by metis
  moreover have "uuid (PaIndex q) (Some i) \<noteq> uuid (length ps) (Some j)" if "q \<in> set ps" for q i j
    using before [OF that] inj by auto
  ultimately show ?case using snoc.IH [OF ok] ws by (auto simp: index_chunks_def chunk_of_def comp_def)
qed (simp add: index_chunks_def)

subsection \<open>Search\<close>

definition docChunkKey :: "doc_chunk \<Rightarrow> runes" where
  "docChunkKey c = (if trim (DcID c) \<noteq> [] then DcID c
     else ascii (show_int (LessonID c)) @ ascii '':'' @ Source c @ ascii '':'' @ ascii (show_int (ChunkIdx c)) @ ascii '':'' @ DcText c)"

text \<open>The loops of mergeDocChunks and ExpandAndDeduplicateParents, with the keys seen.\<close>

fun merge_from :: "runes list \<Rightarrow> doc_chunk list \<Rightarrow> doc_chunk list" where
  "merge_from seen [] = []"
| "merge_from seen (c # cs) =
     (if docChunkKey c \<in> set seen then merge_from seen cs else c # merge_from (docChunkKey c # seen) cs)"

definition mergeDocChunks :: "doc_chunk list list \<Rightarrow> doc_chunk list" where
  "mergeDocChunks groups = merge_from [] (concat groups)"

fun expand_from :: "runes list \<Rightarrow> doc_chunk list \<Rightarrow> doc_chunk list" where
  "expand_from seen [] = []"
| "expand_from seen (c # cs) =
     (if ParentID c = [] \<or> ParentText c = [] then c # expand_from seen cs
      else if ParentID c \<in> set seen then expand_from seen cs
      else c\<lparr>DcID := ParentID c, DcText := ParentText c\<rparr> # expand_from (ParentID c # seen) cs)"

definition ExpandAndDeduplicateParents :: "doc_chunk list \<Rightarrow> doc_chunk list" where
  "ExpandAndDeduplicateParents children = expand_from [] children"

text \<open>vector and bm25 are the answers of the two searches; has_es and the query decide whether the second is made.\<close>

definition SearchHybridChildren ::
    "bool \<Rightarrow> runes \<Rightarrow> goerr + doc_chunk list \<Rightarrow> goerr + doc_chunk list \<Rightarrow> goerr + doc_chunk list" where
  "SearchHybridChildren has_es query vector bm25 =
     (case vector of
        Inl err \<Rightarrow> Inl err
      | Inr vs \<Rightarrow>
          if \<not> has_es \<or> trim query = [] then Inr vs
          else (case bm25 of Inl _ \<Rightarrow> Inr vs | Inr bs \<Rightarrow> Inr (mergeDocChunks [vs, bs])))"

definition SearchHybrid ::
    "bool \<Rightarrow> runes \<Rightarrow> goerr + doc_chunk list \<Rightarrow> goerr + doc_chunk list \<Rightarrow> goerr + doc_chunk list" where
  "SearchHybrid has_es query vector bm25 =
     (case SearchHybridChildren has_es query vector bm25 of
        Inl err \<Rightarrow> Inl err
      | Inr children \<Rightarrow> Inr (ExpandAndDeduplicateParents children))"

lemma merge_from_spec:
  "distinct (map docChunkKey (merge_from seen cs)) \<and> docChunkKey ` set (merge_from seen cs) = docChunkKey ` set cs - set seen \<and>
     set (merge_from seen cs) \<subseteq> set cs"
proof (induction cs arbitrary: seen)
  case (Cons c cs)
  show ?case using Cons [of seen] Cons [of "docChunkKey c # seen"] by auto
qed simp

text \<open>Merging keeps every chunk of the answers once, by its key.\<close>

lemma merged_once:
  "distinct (map docChunkKey (mergeDocChunks groups))"
  "docChunkKey ` set (mergeDocChunks groups) = docChunkKey ` set (concat groups)"
  "set (mergeDocChunks groups) \<subseteq> set (concat groups)"
  using merge_from_spec [of "[]" "concat groups"] by (simp_all add: mergeDocChunks_def)

definition with_parent :: "doc_chunk \<Rightarrow> bool" where
  "with_parent c \<longleftrightarrow> ParentID c \<noteq> [] \<and> ParentText c \<noteq> []"

lemma expand_from_spec:
  "distinct (map ParentID (filter with_parent (expand_from seen cs))) \<and>
   ParentID ` set (filter with_parent (expand_from seen cs)) = ParentID ` set (filter with_parent cs) - set seen \<and>
   (\<forall>d \<in> set (expand_from seen cs). with_parent d \<longrightarrow> DcID d = ParentID d \<and> DcText d = ParentText d)"
proof (induction cs arbitrary: seen)
  case (Cons c cs)
  have [simp]: "with_parent (c\<lparr>DcID := i, DcText := t\<rparr>) = with_parent c" for i t by (simp add: with_parent_def)
  let ?d = "c\<lparr>DcID := ParentID c, DcText := ParentText c\<rparr>"
  have run: "expand_from seen (c # cs) =
      (if \<not> with_parent c then c # expand_from seen cs
       else if ParentID c \<in> set seen then expand_from seen cs else ?d # expand_from (ParentID c # seen) cs)"
    by (simp add: with_parent_def)
  show ?case
  proof (cases "with_parent c \<and> ParentID c \<notin> set seen")
    case True
    then have "expand_from seen (c # cs) = ?d # expand_from (ParentID c # seen) cs" unfolding run by simp
    with True Cons [of "ParentID c # seen"] show ?thesis by (auto simp del: expand_from.simps)
  next
    case False
    with Cons [of seen] show ?thesis unfolding run by auto
  qed
qed simp

text \<open>
  (functional). A search gives every parent once: whatever the two searches answer, a hybrid search
  answers with an error only if the vector search does; among the chunks it gives no parent stands
  twice, the parents are just those of the children found, and each carries its own text and id,
  not those of a child.
\<close>

theorem parents_are_given_once:
  "case SearchHybrid has_es query vector bm25 of
     Inl err \<Rightarrow> vector = Inl err
   | Inr ds \<Rightarrow> \<exists>children. SearchHybridChildren has_es query vector bm25 = Inr children \<and>
       distinct (map ParentID (filter with_parent ds)) \<and>
       ParentID ` set (filter with_parent ds) = ParentID ` set (filter with_parent children) \<and>
       list_all (\<lambda>d. with_parent d \<longrightarrow> DcID d = ParentID d \<and> DcText d = ParentText d) ds"
proof (cases vector)
  case (Inr vs)
  then have "\<exists>children. SearchHybridChildren has_es query vector bm25 = Inr children"
    by (simp add: SearchHybridChildren_def split: sum.split)
  then obtain children where c: "SearchHybridChildren has_es query vector bm25 = Inr children" by blast
  then show ?thesis using expand_from_spec [of "[]" children]
    by (simp add: SearchHybrid_def ExpandAndDeduplicateParents_def list_all_iff)
qed (simp add: SearchHybrid_def SearchHybridChildren_def)

definition CitationID :: "doc_chunk \<Rightarrow> runes" where
  "CitationID c =
     (let heading = trim (dropWhile (\<lambda>r. r = 35) (DcHeading c)) in
      if heading \<noteq> [] then Source c @ [35] @ heading else Source c @ [35] @ ascii (show_int (ChunkIdx c)))"

end
