(* ===== verification/Doc_Search.thy ===== *)
theory Doc_Search
  imports Rag_Chunks
begin

text \<open>
  The stores of document chunks (src/internal/rpc/agent/workflow/indexer/main.go, rag/retriever.go and
  rag/elasticsearch.go): the indexer writes the chunks of a document in batches to Qdrant, as points
  with a payload, and to Elasticsearch, as documents; the two searches read them back. The two
  services are parameters: a write may fail after it has been applied in part, and a search answers
  anything that the stored points or documents allow. Vectors are left out of the points.
\<close>

subsection \<open>Writing\<close>

datatype pvalue = PStr runes | PInt int

type_synonym payload = "string \<rightharpoonup> pvalue"

definition get_string :: "pvalue option \<Rightarrow> runes" where
  "get_string v = (case v of Some (PStr s) \<Rightarrow> s | _ \<Rightarrow> [])"

definition get_integer :: "pvalue option \<Rightarrow> int" where
  "get_integer v = (case v of Some (PInt i) \<Rightarrow> i | _ \<Rightarrow> 0)"

text \<open>The payload the indexer builds for a child; i and j are the indexes of the parent and the child.\<close>

definition payload_of :: "int \<Rightarrow> int \<Rightarrow> doc_chunk \<Rightarrow> payload" where
  "payload_of i j c =
     [''lesson_id'' \<mapsto> PInt (LessonID c), ''source'' \<mapsto> PStr (Source c), ''parent_id'' \<mapsto> PStr (ParentID c),
      ''parent_text'' \<mapsto> PStr (ParentText c), ''heading'' \<mapsto> PStr (DcHeading c), ''chunk_idx'' \<mapsto> PInt i,
      ''child_idx'' \<mapsto> PInt j, ''text'' \<mapsto> PStr (DcText c)]"

definition index_items :: "(nat \<Rightarrow> nat option \<Rightarrow> runes) \<Rightarrow> int \<Rightarrow> runes \<Rightarrow> parent_chunk list \<Rightarrow> (payload \<times> doc_chunk) list" where
  "index_items uuid lesson source ps =
     concat (map (\<lambda>p. map (\<lambda>c. (payload_of (int (PaIndex p)) (int (ChIndex c)) (chunk_of uuid lesson source p c), chunk_of uuid lesson source p c))
       (Children p)) ps)"

text \<open>
  The stores: the points of the collection with their payload, and the documents of the index with
  their source (the id and the score are not part of it).
\<close>

record index_state =
  Points :: "runes \<rightharpoonup> payload"
  Docs :: "runes \<rightharpoonup> doc_chunk"

definition source_of :: "doc_chunk \<Rightarrow> doc_chunk" where
  "source_of c = c\<lparr>DcID := [], Score := 0\<rparr>"

text \<open>The outcome of one write: the error it ends with; with an error, the ids it was applied for.\<close>

record store_write =
  Failed :: "goerr option"
  Applied :: "runes \<Rightarrow> bool"

definition write_all :: "store_write \<Rightarrow> (runes \<times> 'a) list \<Rightarrow> (runes \<rightharpoonup> 'a) \<Rightarrow> (runes \<rightharpoonup> 'a)" where
  "write_all w kvs m = m ++ map_of (rev (filter (\<lambda>(k, _). Failed w = None \<or> Applied w k) kvs))"

definition upsertPoints :: "store_write \<Rightarrow> (payload \<times> doc_chunk) list \<Rightarrow> index_state \<Rightarrow> index_state \<times> goerr option" where
  "upsertPoints w items st =
     (st\<lparr>Points := write_all w (map (\<lambda>(pl, c). (DcID c, pl)) items) (Points st)\<rparr>, Failed w)"

text \<open>The bulk write skips chunks without an id or a text, and is not made at all when none is left.\<close>

definition BulkUpsertDocChunks :: "store_write \<Rightarrow> doc_chunk list \<Rightarrow> index_state \<Rightarrow> index_state \<times> goerr option" where
  "BulkUpsertDocChunks w chunks st =
     (let kept = filter (\<lambda>c. trim (DcID c) \<noteq> [] \<and> trim (DcText c) \<noteq> []) chunks in
      if kept = [] then (st, None)
      else (st\<lparr>Docs := write_all w (map (\<lambda>c. (DcID c, source_of c)) kept) (Docs st)\<rparr>, Failed w))"

definition write_batch :: "bool \<Rightarrow> store_write \<times> store_write \<Rightarrow> (payload \<times> doc_chunk) list \<Rightarrow> index_state \<Rightarrow> index_state \<times> goerr option" where
  "write_batch has_es ws buf st =
     (case upsertPoints (fst ws) buf st of
        (st, Some err) \<Rightarrow> (st, Some err)
      | (st, None) \<Rightarrow> if has_es then BulkUpsertDocChunks (snd ws) (map snd buf) st else (st, None))"

definition EmbedText :: "(runes \<Rightarrow> goerr + rat list) \<Rightarrow> runes \<Rightarrow> goerr + rat list" where
  "EmbedText embedding t = (if t = [] then Inl (ErrNew ''empty text'') else embedding t)"

text \<open>
  The loops over the children with their buffer, for batches of bs; the error, if any, is the one the
  program panics with. The writes of a batch are ws of the number of the batch.
\<close>

fun index_from ::
    "nat \<Rightarrow> bool \<Rightarrow> (runes \<Rightarrow> goerr + rat list) \<Rightarrow> (nat \<Rightarrow> store_write \<times> store_write) \<Rightarrow> nat \<Rightarrow> (payload \<times> doc_chunk) list \<Rightarrow> (payload \<times> doc_chunk) list \<Rightarrow>
     index_state \<Rightarrow> index_state \<times> goerr option" where
  "index_from bs has_es embedding ws n buf [] st = (if buf \<noteq> [] then write_batch has_es (ws n) buf st else (st, None))"
| "index_from bs has_es embedding ws n buf (item # items) st =
     (case EmbedText embedding (DcText (snd item)) of
        Inl err \<Rightarrow> (st, Some err)
      | Inr _ \<Rightarrow>
          (let buf = buf @ [item] in
           if bs \<le> length buf then
             (case write_batch has_es (ws n) buf st of
                (st, Some err) \<Rightarrow> (st, Some err)
              | (st, None) \<Rightarrow> index_from bs has_es embedding ws (Suc n) [] items st)
           else index_from bs has_es embedding ws n buf items st))"

definition index_document ::
    "(runes \<Rightarrow> (nat \<times> nat) list) \<Rightarrow> bool \<Rightarrow> (runes \<Rightarrow> goerr + rat list) \<Rightarrow> (nat \<Rightarrow> store_write \<times> store_write) \<Rightarrow> (nat \<Rightarrow> nat option \<Rightarrow> runes) \<Rightarrow>
     int \<Rightarrow> runes \<Rightarrow> runes \<Rightarrow> chunk_config \<Rightarrow> index_state \<Rightarrow> (index_state \<times> goerr option) option" where
  "index_document heads has_es embedding ws uuid lesson source content cfg st =
     (if lesson = 0 then Some (st, Some (ErrNew ''lesson id is required''))
      else
        (case ChunkMarkdown heads content cfg of
           None \<Rightarrow> None
         | Some (Inl err) \<Rightarrow> Some (st, Some err)
         | Some (Inr ps) \<Rightarrow>
             (if ps = [] then Some (st, None)
              else Some (index_from 32 has_es embedding ws 0 [] (index_items uuid lesson source ps) st))))"

subsection \<open>Reading\<close>

record scored_point =
  PtId :: "runes option"
  PtPayload :: "payload option"
  PtScore :: rat

text \<open>The loop body of SearchVector; a nil point is None.\<close>

definition read_point :: "int \<Rightarrow> scored_point option \<Rightarrow> doc_chunk option" where
  "read_point lesson point =
     (case point of
        None \<Rightarrow> None
      | Some p \<Rightarrow>
          (case PtPayload p of
             None \<Rightarrow> None
           | Some pl \<Rightarrow>
               (let text = get_string (pl ''text'') in
                if text = [] then None
                else Some \<lparr>DcID = (case PtId p of None \<Rightarrow> [] | Some i \<Rightarrow> i), ParentID = get_string (pl ''parent_id''), DcText = text,
                  ParentText = get_string (pl ''parent_text''), DcHeading = get_string (pl ''heading''), LessonID = lesson,
                  Source = get_string (pl ''source''), ChunkIdx = wrap32 (get_integer (pl ''chunk_idx'')),
                  ChildIdx = wrap32 (get_integer (pl ''child_idx'')), Score = PtScore p\<rparr>)))"

text \<open>query is the search of Qdrant for a lesson, a vector and a limit.\<close>

definition SearchVector ::
    "bool \<Rightarrow> (int \<Rightarrow> rat list \<Rightarrow> int \<Rightarrow> goerr + scored_point option list) \<Rightarrow> int \<Rightarrow> rat list \<Rightarrow> int \<Rightarrow> goerr + doc_chunk list" where
  "SearchVector usable query lesson vector limit =
     (if \<not> usable then Inl (ErrNew ''nil retriever'')
      else if lesson = 0 then Inl (ErrNew ''lesson id required'')
      else if vector = [] then Inl (ErrNew ''empty query vector'')
      else
        (case query lesson vector (if limit \<le> 0 then 3 else limit) of
           Inl err \<Rightarrow> Inl err
         | Inr points \<Rightarrow> Inr (List.map_filter (read_point lesson) points)))"

record es_hit =
  HitId :: runes
  HitScore :: rat
  HitSource :: doc_chunk

text \<open>The loop body of searchDocsOnce.\<close>

definition read_hit :: "es_hit \<Rightarrow> doc_chunk option" where
  "read_hit h =
     (if trim (DcText (HitSource h)) = [] then None
      else Some ((HitSource h)\<lparr>DcID := HitId h, Score := HitScore h\<rparr>))"

definition SearchDocs ::
    "bool \<Rightarrow> (int \<Rightarrow> runes \<Rightarrow> int \<Rightarrow> goerr + es_hit list) \<Rightarrow> int \<Rightarrow> runes \<Rightarrow> int \<Rightarrow> goerr + doc_chunk list" where
  "SearchDocs usable match lesson query limit =
     (if \<not> usable then Inl (ErrNew ''nil elasticsearch manager'')
      else if lesson = 0 then Inl (ErrNew ''lesson id required'')
      else if trim query = [] then Inr []
      else
        (case match lesson (trim query) (if limit \<le> 0 then 3 else limit) of
           Inl err \<Rightarrow> Inl err
         | Inr hits \<Rightarrow> Inr (List.map_filter read_hit hits)))"

text \<open>What the services answer: stored points and documents of the lesson asked for.\<close>

definition answers_points :: "index_state \<Rightarrow> (int \<Rightarrow> rat list \<Rightarrow> int \<Rightarrow> goerr + scored_point option list) \<Rightarrow> bool" where
  "answers_points st query \<longleftrightarrow> (\<forall>lesson vector limit ps p. query lesson vector limit = Inr ps \<longrightarrow> Some p \<in> set ps \<longrightarrow>
     (\<exists>i pl. PtId p = Some i \<and> PtPayload p = Some pl \<and> Points st i = Some pl \<and> pl ''lesson_id'' = Some (PInt lesson)))"

definition answers_docs :: "index_state \<Rightarrow> (int \<Rightarrow> runes \<Rightarrow> int \<Rightarrow> goerr + es_hit list) \<Rightarrow> bool" where
  "answers_docs st match \<longleftrightarrow> (\<forall>lesson query limit hs h. match lesson query limit = Inr hs \<longrightarrow> h \<in> set hs \<longrightarrow>
     Docs st (HitId h) = Some (HitSource h) \<and> LessonID (HitSource h) = lesson)"

subsection \<open>The stores hold what was indexed\<close>

text \<open>A payload that carries a chunk, indexes before their conversion to int32.\<close>

definition carries :: "payload \<Rightarrow> doc_chunk \<Rightarrow> bool" where
  "carries pl c \<longleftrightarrow> (\<exists>i j. pl = payload_of i j c \<and> ChunkIdx c = wrap32 i \<and> ChildIdx c = wrap32 j)"

definition stores_ok :: "doc_chunk set \<Rightarrow> index_state \<Rightarrow> bool" where
  "stores_ok S st \<longleftrightarrow> (\<forall>i pl. Points st i = Some pl \<longrightarrow> (\<exists>c \<in> S. DcID c = i \<and> carries pl c)) \<and>
     (\<forall>i d. Docs st i = Some d \<longrightarrow> (\<exists>c \<in> S. DcID c = i \<and> d = source_of c))"

lemma write_all_cases: "write_all w kvs m k = Some v \<Longrightarrow> (k, v) \<in> set kvs \<or> m k = Some v"
  by (auto simp: write_all_def map_add_Some_iff dest: map_of_SomeD)

lemma write_all_other: "k \<notin> fst ` set kvs \<Longrightarrow> write_all w kvs m k = m k"
  by (auto simp: write_all_def map_add_dom_app_simps(3) dom_map_of_conv_image_fst image_iff)

lemma write_all_done:
  assumes "Failed w = None" and "distinct (map fst kvs)" and "(k, v) \<in> set kvs"
  shows "write_all w kvs m k = Some v"
proof -
  have "map_of (rev kvs) k = Some v"
    using assms(2,3) by (intro map_of_is_SomeI) (simp_all add: rev_map [symmetric])
  then show ?thesis using assms(1) by (simp add: write_all_def map_add_find_right)
qed

lemma write_all_all:
  assumes "\<And>k v. m k = Some v \<Longrightarrow> P k v" and "\<And>k v. (k, v) \<in> set kvs \<Longrightarrow> P k v" and "write_all w kvs m k = Some v"
  shows "P k v"
  using write_all_cases [OF assms(3)] assms(1,2) by blast

lemma chunk_carries:
  "carries (payload_of (int (PaIndex p)) (int (ChIndex c)) (chunk_of uuid lesson source p c)) (chunk_of uuid lesson source p c)"
  unfolding carries_def by (intro exI conjI, rule refl) (simp_all add: chunk_of_def)

lemma item_carries: "(pl, c) \<in> set (index_items uuid lesson source ps) \<Longrightarrow> c \<in> set (index_chunks uuid lesson source ps) \<and> carries pl c"
  using chunk_carries by (auto simp: index_items_def index_chunks_def)

lemma map_snd_items: "map snd (index_items uuid lesson source ps) = index_chunks uuid lesson source ps"
  by (simp add: index_items_def index_chunks_def map_concat comp_def)

lemma write_batch_ok:
  assumes "stores_ok S st" and "\<forall>(pl, c) \<in> set buf. c \<in> S \<and> carries pl c"
  shows "stores_ok S (fst (write_batch has_es ws buf st))"
proof -
  have up: "stores_ok S (fst (upsertPoints w buf st))" for w
  proof -
    have "\<exists>c \<in> S. DcID c = i \<and> carries pl c" if "write_all w (map (\<lambda>(pl, c). (DcID c, pl)) buf) (Points st) i = Some pl" for i pl
      by (rule write_all_all [OF _ _ that]) (use assms in \<open>auto simp: stores_ok_def\<close>)
    with assms(1) show ?thesis by (simp add: stores_ok_def upsertPoints_def)
  qed
  have bulk: "stores_ok S (fst (BulkUpsertDocChunks w (map snd buf) st))" if st: "stores_ok S st" for w st
  proof -
    have "\<exists>c \<in> S. DcID c = i \<and> d = source_of c"
      if "write_all w (map (\<lambda>c. (DcID c, source_of c)) (filter (\<lambda>c. trim (DcID c) \<noteq> [] \<and> trim (DcText c) \<noteq> []) (map snd buf))) (Docs st) i = Some d"
      for i d
      by (rule write_all_all [OF _ _ that]) (use assms(2) st in \<open>auto simp: stores_ok_def\<close>)
    with st show ?thesis by (simp add: stores_ok_def BulkUpsertDocChunks_def Let_def)
  qed
  obtain st1 e where u: "upsertPoints (fst ws) buf st = (st1, e)" by fastforce
  have "stores_ok S st1" using up [of "fst ws"] u by simp
  then show ?thesis using bulk u by (cases e) (simp_all add: write_batch_def)
qed

lemma index_from_ok:
  assumes "stores_ok S st" and "\<forall>(pl, c) \<in> set (buf @ items). c \<in> S \<and> carries pl c"
  shows "stores_ok S (fst (index_from bs has_es embedding ws n buf items st))"
  using assms
proof (induction items arbitrary: n buf st)
  case Nil
  then show ?case using write_batch_ok [of S st buf] by simp
next
  case (Cons item items)
  have "stores_ok S (fst (write_batch has_es (ws n) (buf @ [item]) st))"
    by (rule write_batch_ok) (use Cons.prems in auto)
  with Cons.IH Cons.prems show ?case by (auto simp: Let_def split: sum.split prod.split option.split)
qed

text \<open>The chunks of a document, and the stores after any number of runs of the indexer with their chunks.\<close>

definition document_chunks :: "(runes \<Rightarrow> (nat \<times> nat) list) \<Rightarrow> (nat \<Rightarrow> nat option \<Rightarrow> runes) \<Rightarrow> int \<Rightarrow> runes \<Rightarrow> runes \<Rightarrow> chunk_config \<Rightarrow> doc_chunk set" where
  "document_chunks heads uuid lesson source content cfg =
     (case ChunkMarkdown heads content cfg of Some (Inr ps) \<Rightarrow> set (index_chunks uuid lesson source ps) | _ \<Rightarrow> {})"

inductive indexed :: "index_state \<Rightarrow> doc_chunk set \<Rightarrow> bool" where
  indexed_start: "indexed \<lparr>Points = Map.empty, Docs = Map.empty\<rparr> {}"
| indexed_run: "indexed st S \<Longrightarrow> index_document heads has_es embedding ws uuid lesson source content cfg st = Some (st', err) \<Longrightarrow>
    indexed st' (S \<union> document_chunks heads uuid lesson source content cfg)"

lemma stores_ok_mono: "stores_ok S st \<Longrightarrow> S \<subseteq> T \<Longrightarrow> stores_ok T st"
  unfolding stores_ok_def by blast

lemma indexed_stores_ok: "indexed st S \<Longrightarrow> stores_ok S st"
proof (induction rule: indexed.induct)
  case (indexed_run st S heads has_es embedding ws uuid lesson source content cfg st' err)
  let ?T = "S \<union> document_chunks heads uuid lesson source content cfg"
  have T: "stores_ok ?T st" using indexed_run.IH by (rule stores_ok_mono) simp
  show ?case
  proof (cases "st' = st")
    case False
    then obtain ps where ps: "ChunkMarkdown heads content cfg = Some (Inr ps)"
      "index_from 32 has_es embedding ws 0 [] (index_items uuid lesson source ps) st = (st', err)"
      using indexed_run.hyps(2) by (auto simp: index_document_def split: if_splits option.splits sum.splits)
    have "stores_ok ?T (fst (index_from 32 has_es embedding ws 0 [] (index_items uuid lesson source ps) st))"
      by (rule index_from_ok [OF T]) (use item_carries ps(1) in \<open>auto simp: document_chunks_def\<close>)
    then show ?thesis unfolding ps(2) by simp
  qed (use T in simp)
qed (simp add: stores_ok_def)

subsection \<open>What a search gives\<close>

lemma wrap32_wrap32 [simp]: "wrap32 (wrap32 x) = wrap32 x"
proof -
  have "(wrap32 x + 2 ^ 31) mod 2 ^ 32 = (x + 2 ^ 31) mod 2 ^ 32" by (simp add: wrap32_def)
  then show ?thesis by (simp add: wrap32_def [of "wrap32 x"]) (simp add: wrap32_def)
qed

text \<open>A point is read back as the chunk it was written for.\<close>

lemma read_point_carried:
  assumes "carries pl c" and "PtId p = Some (DcID c)" and "PtPayload p = Some pl" and "pl ''lesson_id'' = Some (PInt lesson)"
    and "read_point lesson (Some p) = Some d"
  shows "LessonID c = lesson \<and> d = c\<lparr>Score := PtScore p\<rparr>"
proof -
  obtain i j where pl: "pl = payload_of i j c" "ChunkIdx c = wrap32 i" "ChildIdx c = wrap32 j"
    using assms(1) by (auto simp: carries_def)
  have "LessonID c = lesson" using assms(4) unfolding pl(1) by (simp add: payload_of_def)
  then show ?thesis using assms(2,3,5) pl(2,3) unfolding pl(1)
    by (cases c) (auto simp: read_point_def payload_of_def get_string_def get_integer_def Let_def split: if_splits)
qed

definition scored_copy :: "doc_chunk set \<Rightarrow> int \<Rightarrow> doc_chunk \<Rightarrow> bool" where
  "scored_copy S lesson d \<longleftrightarrow> (\<exists>c \<in> S. LessonID c = lesson \<and> d = c\<lparr>Score := Score d\<rparr>)"

lemma in_map_filter: "y \<in> set (List.map_filter f xs) \<Longrightarrow> \<exists>x \<in> set xs. f x = Some y"
  by (auto simp: List.map_filter_def)

lemma vector_copies:
  assumes "stores_ok S st" and "answers_points st query" and "SearchVector usable query lesson vector limit = Inr ds" and "d \<in> set ds"
  shows "scored_copy S lesson d"
proof -
  obtain k ps where "query lesson vector k = Inr ps" "ds = List.map_filter (read_point lesson) ps"
    using assms(3) by (auto simp: SearchVector_def split: if_splits sum.splits)
  then obtain p where p: "query lesson vector k = Inr ps" "p \<in> set ps" "read_point lesson p = Some d"
    using in_map_filter assms(4) by metis
  then obtain q where q: "p = Some q" by (cases p) (simp_all add: read_point_def)
  obtain i pl where i: "PtId q = Some i" "PtPayload q = Some pl" "Points st i = Some pl" "pl ''lesson_id'' = Some (PInt lesson)"
    using assms(2) p q unfolding answers_points_def by blast
  obtain c where c: "c \<in> S" "DcID c = i" "carries pl c" using assms(1) i(3) by (auto simp: stores_ok_def)
  have "LessonID c = lesson \<and> d = c\<lparr>Score := PtScore q\<rparr>"
    by (rule read_point_carried [OF c(3) _ i(2,4)]) (use i(1) c(2) p(3) q in simp_all)
  with c(1) show ?thesis by (auto simp: scored_copy_def)
qed

lemma docs_copies:
  assumes "stores_ok S st" and "answers_docs st match" and "SearchDocs usable match lesson query limit = Inr ds" and "d \<in> set ds"
  shows "scored_copy S lesson d"
proof (cases "ds = []")
  case False
  then obtain q k hs where "match lesson q k = Inr hs" "ds = List.map_filter read_hit hs"
    using assms(3) by (auto simp: SearchDocs_def split: if_splits sum.splits)
  then obtain h where h: "match lesson q k = Inr hs" "h \<in> set hs" "read_hit h = Some d"
    using in_map_filter assms(4) by metis
  have hit: "Docs st (HitId h) = Some (HitSource h)" "LessonID (HitSource h) = lesson"
    using assms(2) h(1,2) unfolding answers_docs_def by blast+
  obtain c where c: "c \<in> S" "DcID c = HitId h" "HitSource h = source_of c" using assms(1) hit(1) unfolding stores_ok_def by blast
  have "d = c\<lparr>Score := HitScore h\<rparr>" using h(3) c(2,3) by (auto simp: read_hit_def source_of_def split: if_splits)
  moreover have "LessonID c = lesson" using hit(2) c(3) by (simp add: source_of_def)
  ultimately show ?thesis using c(1) by (auto simp: scored_copy_def)
qed (use assms(4) in simp)


text \<open>One document of one lesson, and searches that go through all points and documents with given ids.\<close>

definition no_failures :: "nat \<Rightarrow> store_write \<times> store_write" where
  "no_failures n = (let w = \<lparr>Failed = None, Applied = (\<lambda>_. True)\<rparr> in (w, w))"

definition plain_uuid :: "nat \<Rightarrow> nat option \<Rightarrow> runes" where
  "plain_uuid i j = (case j of None \<Rightarrow> [int i] | Some j \<Rightarrow> [int i, int j])"

definition unit_embedding :: "runes \<Rightarrow> goerr + rat list" where
  "unit_embedding t = Inr [1]"

definition scan_points :: "index_state \<Rightarrow> runes list \<Rightarrow> int \<Rightarrow> rat list \<Rightarrow> int \<Rightarrow> goerr + scored_point option list" where
  "scan_points st ids lesson vector limit =
     Inr (map (\<lambda>i. Some \<lparr>PtId = Some i, PtPayload = Points st i, PtScore = 1\<rparr>)
       (filter (\<lambda>i. case Points st i of None \<Rightarrow> False | Some pl \<Rightarrow> pl ''lesson_id'' = Some (PInt lesson)) ids))"

definition scan_docs :: "index_state \<Rightarrow> runes list \<Rightarrow> int \<Rightarrow> runes \<Rightarrow> int \<Rightarrow> goerr + es_hit list" where
  "scan_docs st ids lesson query limit =
     Inr (map (\<lambda>i. \<lparr>HitId = i, HitScore = 1, HitSource = the (Docs st i)\<rparr>)
       (filter (\<lambda>i. case Docs st i of None \<Rightarrow> False | Some d \<Rightarrow> LessonID d = lesson) ids))"

lemma scans_answer: "answers_points st (scan_points st ids)" "answers_docs st (scan_docs st ids)"
  by (auto simp: answers_points_def scan_points_def answers_docs_def scan_docs_def split: option.splits)


subsection \<open>An indexer that ends well\<close>

text \<open>A chunk is stored: its point carries it, and its document, when it has a text, is its source.\<close>

definition chunk_stored :: "bool \<Rightarrow> index_state \<Rightarrow> payload \<times> doc_chunk \<Rightarrow> bool" where
  "chunk_stored has_es st item \<longleftrightarrow> Points st (DcID (snd item)) = Some (fst item) \<and>
     (has_es \<longrightarrow> trim (DcID (snd item)) \<noteq> [] \<longrightarrow> trim (DcText (snd item)) \<noteq> [] \<longrightarrow> Docs st (DcID (snd item)) = Some (source_of (snd item)))"

lemma write_batch_stores:
  assumes "write_batch has_es ws buf st = (st', None)" and "distinct (map (DcID \<circ> snd) (old @ buf))"
    and "\<forall>item \<in> set old. chunk_stored has_es st item"
  shows "\<forall>item \<in> set (old @ buf). chunk_stored has_es st' item"
proof -
  let ?kept = "filter (\<lambda>c. trim (DcID c) \<noteq> [] \<and> trim (DcText c) \<noteq> []) (map snd buf)"
  let ?pts = "map (\<lambda>(pl, c). (DcID c, pl)) buf" and ?ds = "map (\<lambda>c. (DcID c, source_of c)) ?kept"
  have ok: "Failed (fst ws) = None" using assms(1) by (auto simp: write_batch_def upsertPoints_def split: option.splits)
  have pts: "Points st' = write_all (fst ws) ?pts (Points st)"
    using assms(1) ok by (auto simp: write_batch_def upsertPoints_def BulkUpsertDocChunks_def Let_def split: if_splits)
  have docs: "Docs st' = write_all (snd ws) ?ds (Docs st) \<and> (?kept \<noteq> [] \<longrightarrow> Failed (snd ws) = None)" if has_es
    using assms(1) ok that by (auto simp: write_batch_def upsertPoints_def BulkUpsertDocChunks_def Let_def write_all_def split: if_splits)
  have keys: "map fst ?pts = map (DcID \<circ> snd) buf" "map fst ?ds = map DcID ?kept" by (simp_all add: comp_def split_beta)
  have dist: "distinct (map (DcID \<circ> snd) buf)" "\<And>item. item \<in> set old \<Longrightarrow> DcID (snd item) \<notin> set (map (DcID \<circ> snd) buf)"
    using assms(2) by auto
  have dk: "distinct (map DcID ?kept)"
    by (rule distinct_map_filter) (use dist(1) in \<open>simp add: comp_def\<close>)
  have sub: "set (map DcID ?kept) \<subseteq> set (map (DcID \<circ> snd) buf)" by auto
  have "chunk_stored has_es st' item" if "item \<in> set old" for item
  proof -
    have "DcID (snd item) \<notin> fst ` set ?pts" "DcID (snd item) \<notin> fst ` set ?ds"
      using dist(2) [OF that] sub unfolding list.set_map [symmetric] keys by blast+
    with assms(3) that docs show ?thesis by (simp add: chunk_stored_def pts write_all_other)
  qed
  moreover have "chunk_stored has_es st' item" if item: "item \<in> set buf" for item
  proof -
    obtain pl c where q: "item = (pl, c)" by fastforce
    have "Points st' (DcID c) = Some pl" unfolding pts
    proof (rule write_all_done [OF ok])
      show "distinct (map fst ?pts)" unfolding keys(1) by (rule dist(1))
    qed (use item q in force)
    moreover have "Docs st' (DcID c) = Some (source_of c)" if "has_es" "trim (DcID c) \<noteq> []" "trim (DcText c) \<noteq> []"
    proof -
      have c: "c \<in> set ?kept" using that(2,3) item q by force
      then have "?kept \<noteq> []" by (metis empty_iff list.set(1))
      then have "Failed (snd ws) = None" using docs [OF that(1)] by blast
      then have "write_all (snd ws) ?ds (Docs st) (DcID c) = Some (source_of c)"
      proof (rule write_all_done)
        show "distinct (map fst ?ds)" unfolding keys(2) by (rule dk)
      qed (use c in simp)
      then show ?thesis using docs that(1) by simp
    qed
    ultimately show ?thesis using q by (simp add: chunk_stored_def)
  qed
  ultimately show ?thesis by auto
qed

lemma index_from_stores:
  assumes "index_from bs has_es embedding ws n buf items st = (st', None)"
    and "distinct (map (DcID \<circ> snd) (old @ buf @ items))" and "\<forall>item \<in> set old. chunk_stored has_es st item"
  shows "(\<forall>item \<in> set (old @ buf @ items). chunk_stored has_es st' item) \<and> (\<forall>item \<in> set items. DcText (snd item) \<noteq> [])"
  using assms
proof (induction items arbitrary: n buf st old)
  case Nil
  then have none: "(if buf \<noteq> [] then write_batch has_es (ws n) buf st else (st, None)) = (st', None)"
    and dist: "distinct (map (DcID \<circ> snd) (old @ buf))" by (simp_all add: comp_def)
  have "\<forall>item \<in> set (old @ buf). chunk_stored has_es st' item"
  proof (cases "buf = []")
    case False
    with none have "write_batch has_es (ws n) buf st = (st', None)" by simp
    then show ?thesis using dist Nil.prems(3) by (rule write_batch_stores)
  qed (use none Nil.prems(3) in simp)
  then show ?case by simp
next
  case (Cons item items)
  obtain v where v: "EmbedText embedding (DcText (snd item)) = Inr v"
    using Cons.prems(1) by (auto split: sum.splits)
  then have nonempty: "DcText (snd item) \<noteq> []" by (auto simp: EmbedText_def split: if_splits)
  show ?case
  proof (cases "bs \<le> length (buf @ [item])")
    case False
    then have "index_from bs has_es embedding ws n (buf @ [item]) items st = (st', None)"
      using Cons.prems(1) v by (simp add: Let_def)
    from Cons.IH [OF this, of old] Cons.prems(2,3) nonempty show ?thesis by simp
  next
    case True
    then obtain st1 where b: "write_batch has_es (ws n) (buf @ [item]) st = (st1, None)"
      and rest: "index_from bs has_es embedding ws (Suc n) [] items st1 = (st', None)"
      using Cons.prems(1) v by (auto simp: Let_def split: prod.splits option.splits)
    have "\<forall>q \<in> set (old @ buf @ [item]). chunk_stored has_es st1 q"
      by (rule write_batch_stores [OF b]) (use Cons.prems(2,3) in \<open>auto simp: comp_def\<close>)
    from Cons.IH [OF rest, of "old @ buf @ [item]"] this Cons.prems(2) nonempty show ?thesis by simp
  qed
qed



text \<open>
  A run for a new version of a document leaves the chunks of the old one that the new one does not
  overwrite, those of its further parents and children: a shorter document is found together
  with the rest of its old version.
\<close>

lemma old_chunks_stay:
  assumes "i \<notin> DcID ` (snd ` set (buf @ items))"
  shows "Points (fst (index_from bs has_es embedding ws n buf items st)) i = Points st i \<and>
    Docs (fst (index_from bs has_es embedding ws n buf items st)) i = Docs st i"
proof -
  have batch: "Points (fst (write_batch has_es w b st)) i = Points st i \<and> Docs (fst (write_batch has_es w b st)) i = Docs st i"
    if "i \<notin> DcID ` (snd ` set b)" for w b st
  proof -
    have "i \<notin> fst ` set (map (\<lambda>(pl, c). (DcID c, pl)) b)" using that by force
    moreover have "i \<notin> fst ` set (map (\<lambda>c. (DcID c, source_of c)) (filter (\<lambda>c. trim (DcID c) \<noteq> [] \<and> trim (DcText c) \<noteq> []) (map snd b)))"
      using that by force
    ultimately show ?thesis
      by (simp add: write_batch_def upsertPoints_def BulkUpsertDocChunks_def Let_def write_all_other split: option.split)
  qed
  show ?thesis using assms
  proof (induction items arbitrary: n buf st)
    case (Cons item items)
    then have b: "i \<notin> DcID ` (snd ` set (buf @ [item]))" by auto
    obtain st1 e where w: "write_batch has_es (ws n) (buf @ [item]) st = (st1, e)" by fastforce
    have "Points st1 i = Points st i" "Docs st1 i = Docs st i" using batch [OF b, of "ws n" st] w by simp_all
    moreover have "i \<notin> DcID ` (snd ` set ([] @ items))" "i \<notin> DcID ` (snd ` set ((buf @ [item]) @ items))"
      using Cons.prems by auto
    note Cons.IH [OF this(1)] Cons.IH [OF this(2)]
    ultimately show ?case using w by (simp add: Let_def split: sum.split option.split)
  qed (use batch in simp)
qed

text \<open>
  A gap of white space wider than a child window makes a child without text; the embedding of an
  empty text is refused, and the indexer ends there.
\<close>

lemma wide_gap_stops_indexer:
  "map_option snd (index_document (\<lambda>_. []) True unit_embedding no_failures plain_uuid 7 (ascii ''notes.md'') (ascii ''a        b'')
       \<lparr>ParentSize = 20, ChildSize = 3, Overlap = 0\<rparr> \<lparr>Points = Map.empty, Docs = Map.empty\<rparr>) = Some (Some (ErrNew ''empty text''))"
  by code_simp

end
