(* ===== verification/Rerank.thy ===== *)
theory Rerank
  imports Rag_Chunks
begin

text \<open>
  Reranking of the facts and document chunks found for a question
  (src/internal/rpc/agent/rerank/client.go and rerank.go): a cross-encoder service scores the texts,
  its answer is read in one of three forms, and the best ones are kept in falling order. A score is a
  rational number (the JSON numbers of an answer are finite). Whether the answer decodes as the one
  or the other form is what encoding/json says; the retries around a call are the parameter run.
\<close>

subsection \<open>The client\<close>

record rerank_result =
  ResIndex :: int
  ResScore :: rat

record rerank_response =
  Scores :: "rat list"
  DataScores :: "rat list"
  Results :: "rerank_result list"

text \<open>The loop of scoresFromResults over the results, then the one over seen.\<close>

fun fill_scores :: "rerank_result list \<Rightarrow> int \<Rightarrow> rat list \<Rightarrow> bool list \<Rightarrow> goerr + (rat list \<times> bool list)" where
  "fill_scores [] docCount scores seen = Inr (scores, seen)"
| "fill_scores (r # rs) docCount scores seen =
     (if ResIndex r < 0 \<or> docCount \<le> ResIndex r
      then Inl (ErrNew (''rerank result index '' @ show_int (ResIndex r) @ '' out of range docs '' @ show_int docCount))
      else fill_scores rs docCount (scores[nat (ResIndex r) := ResScore r]) (seen[nat (ResIndex r) := True]))"

fun first_unseen :: "nat \<Rightarrow> bool list \<Rightarrow> nat option" where
  "first_unseen i [] = None"
| "first_unseen i (ok # seen) = (if \<not> ok then Some i else first_unseen (Suc i) seen)"

definition scoresFromResults :: "rerank_result list \<Rightarrow> nat \<Rightarrow> goerr + rat list" where
  "scoresFromResults results docCount =
     (case fill_scores results (int docCount) (replicate docCount 0) (replicate docCount False) of
        Inl err \<Rightarrow> Inl err
      | Inr (scores, seen) \<Rightarrow>
          (case first_unseen 0 seen of
             Some i \<Rightarrow> Inl (ErrNew (''missing rerank score for doc index '' @ show_int (int i)))
           | None \<Rightarrow> Inr scores))"

text \<open>
  An answer of the service: its status, its body, and how the body decodes as an object and as a list
  of results.
\<close>

record rerank_reply =
  RrStatus :: int
  RrBody :: string
  AsObject :: "goerr + rerank_response"
  AsList :: "goerr + rerank_result list"

definition parseRerankScores :: "rerank_reply \<Rightarrow> nat \<Rightarrow> goerr + rat list" where
  "parseRerankScores r docCount =
     (let as_list =
        (case AsList r of
           Inl err \<Rightarrow> Inl (Wrapf ''unmarshal local bge rerank response failed: '' err ('', body='' @ RrBody r))
         | Inr results \<Rightarrow>
             (if results = [] then Inl (ErrNew (''empty local bge rerank response: body='' @ RrBody r))
              else scoresFromResults results docCount))
      in case AsObject r of
           Inr p \<Rightarrow>
             (if Scores p \<noteq> [] then Inr (Scores p)
              else if DataScores p \<noteq> [] then Inr (DataScores p)
              else if Results p \<noteq> [] then scoresFromResults (Results p) docCount
              else as_list)
         | Inl _ \<Rightarrow> as_list)"

text \<open>One call: the service is not reached (with the error), or answers.\<close>

definition scoreDocumentsOnce :: "nat \<Rightarrow> goerr + rerank_reply \<Rightarrow> goerr + rat list" where
  "scoreDocumentsOnce docCount answer =
     (case answer of
        Inl err \<Rightarrow> Inl (Wrapf ''call local bge rerank failed: '' err '''')
      | Inr r \<Rightarrow>
          (if RrStatus r < 200 \<or> 300 \<le> RrStatus r
           then Inl (ErrNew (''dependency returned HTTP '' @ show_int (RrStatus r) @ '': '' @ RrBody r))
           else
             (case parseRerankScores r docCount of
                Inl err \<Rightarrow> Inl err
              | Inr scores \<Rightarrow>
                  (if length scores \<noteq> docCount
                   then Inl (ErrNew (''rerank scores length '' @ show_int (int (length scores)) @ '' mismatch docs '' @ show_int (int docCount)))
                   else Inr scores))))"

text \<open>
  run is dependency.Do of the rerank policy: given the function of one call it makes calls, and answers
  with an error or with what one of them answered.
\<close>

definition scoreDocuments ::
    "((goerr + rerank_reply \<Rightarrow> goerr + rat list) \<Rightarrow> goerr + rat list) \<Rightarrow> runes list \<Rightarrow> goerr + rat list" where
  "scoreDocuments run docs =
     (if docs = [] then Inl (ErrNew ''empty rerank documents'')
      else if 50 < length docs
      then Inl (ErrNew (''rerank batch size '' @ show_int (int (length docs)) @ '' exceeds limit 50''))
      else run (scoreDocumentsOnce (length docs)))"

text \<open>The contract of the calls: a success is what one call answered.\<close>

definition answers_one_call :: "((goerr + rerank_reply \<Rightarrow> goerr + rat list) \<Rightarrow> goerr + rat list) \<Rightarrow> bool" where
  "answers_one_call run \<longleftrightarrow> (\<forall>f x. run f = Inr x \<longrightarrow> (\<exists>answer. f answer = Inr x))"

lemma one_call_length: "scoreDocumentsOnce n answer = Inr scores \<Longrightarrow> length scores = n"
  by (auto simp: scoreDocumentsOnce_def split: sum.splits if_splits)

lemma scored_length: "answers_one_call run \<Longrightarrow> scoreDocuments run docs = Inr scores \<Longrightarrow> length scores = length docs"
  unfolding scoreDocuments_def answers_one_call_def by (auto split: if_splits dest: one_call_length)

text \<open>The scores read from results: a score for every text, each the last one given for its index.\<close>

lemma fill_scores_spec:
  assumes "fill_scores rs (int n) sc se = Inr (sc', se')" and "length sc = n" and "length se = n"
  shows "length sc' = n \<and> length se' = n \<and>
    (\<forall>i < n. case find (\<lambda>r. ResIndex r = int i) (rev rs) of
        None \<Rightarrow> sc' ! i = sc ! i \<and> se' ! i = se ! i
      | Some r \<Rightarrow> sc' ! i = ResScore r \<and> se' ! i)"
  using assms
proof (induction rs arbitrary: sc se)
  case (Cons r rs)
  then have r: "0 \<le> ResIndex r" "ResIndex r < int n" by (auto split: if_splits)
  have find_app: "find P (xs @ [y]) = (case find P xs of None \<Rightarrow> (if P y then Some y else None) | Some z \<Rightarrow> Some z)"
    for P :: "rerank_result \<Rightarrow> bool" and xs y
    by (induction xs) simp_all
  have "fill_scores rs (int n) (sc[nat (ResIndex r) := ResScore r]) (se[nat (ResIndex r) := True]) = Inr (sc', se')"
    using Cons.prems(1) r by simp
  from Cons.IH [OF this] Cons.prems(2,3)
  have IH: "length sc' = n" "length se' = n" by simp_all
  from Cons.IH [OF \<open>fill_scores rs (int n) _ _ = _\<close>] Cons.prems(2,3)
  have read: "case find (\<lambda>r. ResIndex r = int i) (rev rs) of
        None \<Rightarrow> sc' ! i = sc[nat (ResIndex r) := ResScore r] ! i \<and> se' ! i = se[nat (ResIndex r) := True] ! i
      | Some r \<Rightarrow> sc' ! i = ResScore r \<and> se' ! i" if "i < n" for i
    using that by simp
  have "case find (\<lambda>r. ResIndex r = int i) (rev (r # rs)) of
        None \<Rightarrow> sc' ! i = sc ! i \<and> se' ! i = se ! i
      | Some r \<Rightarrow> sc' ! i = ResScore r \<and> se' ! i" if "i < n" for i
  proof (cases "find (\<lambda>r. ResIndex r = int i) (rev rs)")
    case None
    have "nat (ResIndex r) = i \<longleftrightarrow> ResIndex r = int i" using r by auto
    then show ?thesis using read [OF that] None that Cons.prems(2,3) by (simp add: find_app nth_list_update)
  qed (use read [OF that] in \<open>simp add: find_app\<close>)
  then show ?case using IH by blast
qed auto

lemma first_unseen_None: "first_unseen i seen = None \<longleftrightarrow> list_all id seen"
  by (induction i seen rule: first_unseen.induct) auto

text \<open>
  (functional). The scores of a list of results are aligned with the texts: reading it succeeds just
  when every index is one of a text and no text is without a score, in any order, and then the score
  of every text is the last one given for it.
\<close>

theorem rerank_scores_are_aligned:
  "case scoresFromResults results n of
     Inl _ \<Rightarrow> (\<exists>r \<in> set results. ResIndex r < 0 \<or> int n \<le> ResIndex r) \<or> (\<exists>i < n. find (\<lambda>r. ResIndex r = int i) results = None)
   | Inr scores \<Rightarrow> length scores = n \<and> list_all (\<lambda>r. 0 \<le> ResIndex r \<and> ResIndex r < int n) results \<and>
       map Some scores = map (\<lambda>i. map_option ResScore (find (\<lambda>r. ResIndex r = int i) (rev results))) [0..<n]"
proof -
  have range: "fill_scores rs (int n) sc se = Inr y \<Longrightarrow> list_all (\<lambda>r. 0 \<le> ResIndex r \<and> ResIndex r < int n) rs"
    and fails: "fill_scores rs (int n) sc se = Inl e \<Longrightarrow> \<exists>r \<in> set rs. ResIndex r < 0 \<or> int n \<le> ResIndex r"
    for rs sc se y e
    by (induction rs arbitrary: sc se) (auto split: if_splits)
  show ?thesis
  proof (cases "fill_scores results (int n) (replicate n 0) (replicate n False)")
    case (Inl e)
    then show ?thesis using fails [OF Inl] by (simp add: scoresFromResults_def)
  next
    case (Inr y)
    obtain sc se where y: "y = (sc, se)" by fastforce
    have spec: "length sc = n \<and> length se = n \<and> (\<forall>i < n. case find (\<lambda>r. ResIndex r = int i) (rev results) of
        None \<Rightarrow> sc ! i = replicate n 0 ! i \<and> se ! i = replicate n False ! i
      | Some r \<Rightarrow> sc ! i = ResScore r \<and> se ! i)"
      by (rule fill_scores_spec) (use Inr y in simp_all)
    have seen: "se ! i \<longleftrightarrow> find (\<lambda>r. ResIndex r = int i) (rev results) \<noteq> None" if "i < n" for i
      using spec that by (auto split: option.splits)
    have rev_find: "find P (rev rs) = None \<longleftrightarrow> find P rs = None" for P and rs :: "rerank_result list"
      by (simp add: find_None_iff)
    show ?thesis
    proof (cases "first_unseen 0 se")
      case None
      then have "map Some sc = map (\<lambda>i. map_option ResScore (find (\<lambda>r. ResIndex r = int i) (rev results))) [0..<n]"
        using spec seen by (intro nth_equalityI) (auto simp: first_unseen_None list_all_length split: option.splits)
      then show ?thesis using None Inr y spec range [OF Inr] by (simp add: scoresFromResults_def)
    next
      case (Some k)
      then have "\<not> list_all id se" using first_unseen_None [of 0 se] by simp
      then obtain i where "i < n" "\<not> se ! i" using spec by (auto simp: list_all_length)
      then show ?thesis using Some Inr y seen rev_find by (auto simp: scoresFromResults_def)
    qed
  qed
qed

subsection \<open>Ranking\<close>

text \<open>A score with the index of its text; a stable sort by falling score.\<close>

definition sortByScore :: "rat list \<Rightarrow> (nat \<times> rat) list" where
  "sortByScore scores = sort_key (\<lambda>q. - snd q) (enumerate 0 scores)"

text \<open>The loop over the ranked scores, up to topK picks.\<close>

fun take_ranked :: "(rat \<Rightarrow> bool) \<Rightarrow> (nat \<Rightarrow> rat \<Rightarrow> 'a) \<Rightarrow> nat \<Rightarrow> (nat \<times> rat) list \<Rightarrow> 'a list \<Rightarrow> 'a list" where
  "take_ranked drop_it pick topK [] res = res"
| "take_ranked drop_it pick topK ((i, s) # rs) res =
     (if drop_it s then take_ranked drop_it pick topK rs res
      else
        (let res = res @ [pick i s] in if topK \<le> length res then res else take_ranked drop_it pick topK rs res))"

text \<open>score is scoreDocuments for the query.\<close>

definition rerank_docs ::
    "bool \<Rightarrow> (runes \<Rightarrow> runes list \<Rightarrow> goerr + rat list) \<Rightarrow> runes \<Rightarrow> doc_chunk list \<Rightarrow> int \<Rightarrow> doc_chunk list \<times> goerr option" where
  "rerank_docs configured score query chunks topK =
     (if length chunks \<le> 1 \<or> \<not> configured \<or> trim query = [] then (chunks, None)
      else
        (let topK = (if topK \<le> 0 then 3 else topK);
             idxMap = filter (\<lambda>i. trim (DcText (chunks ! i)) \<noteq> []) [0..<length chunks];
             docs = map (\<lambda>i. trim (DcText (chunks ! i))) idxMap in
         if length docs \<le> 1 then (chunks, None)
         else
           (case score (trim query) docs of
              Inl err \<Rightarrow> (chunks, Some err)
            | Inr scores \<Rightarrow>
                (let res = take_ranked (\<lambda>s. s \<le> 0) (\<lambda>i s. (chunks ! (idxMap ! i))\<lparr>Score := s\<rparr>) (nat topK) (sortByScore scores) []
                 in if res = [] then (chunks, None) else (res, None)))))"

text \<open>
  The facts, which may be nil; content reads the Content of one. The threshold is the float64 nearest
  to 0.2.
\<close>

definition minScoreThreshold :: rat where
  "minScoreThreshold = 3602879701896397 / 18014398509481984"

definition fact_text :: "('f \<Rightarrow> runes) \<Rightarrow> 'f option \<Rightarrow> runes" where
  "fact_text content f = (case f of None \<Rightarrow> [] | Some f \<Rightarrow> trim (content f))"

definition rerank_facts ::
    "bool \<Rightarrow> (runes \<Rightarrow> runes list \<Rightarrow> goerr + rat list) \<Rightarrow> ('f \<Rightarrow> runes) \<Rightarrow> runes \<Rightarrow> 'f option list \<Rightarrow> int \<Rightarrow> 'f option list \<times> goerr option" where
  "rerank_facts configured score content query facts topK =
     (if length facts \<le> 1 \<or> \<not> configured \<or> trim query = [] then (facts, None)
      else
        (let topK = (if topK \<le> 0 then 5 else topK);
             idxMap = filter (\<lambda>i. fact_text content (facts ! i) \<noteq> []) [0..<length facts];
             docs = map (\<lambda>i. fact_text content (facts ! i)) idxMap in
         if length docs \<le> 1 then (facts, None)
         else
           (case score (trim query) docs of
              Inl err \<Rightarrow> (facts, Some err)
            | Inr scores \<Rightarrow>
                (let res = take_ranked (\<lambda>s. s < minScoreThreshold) (\<lambda>i s. facts ! (idxMap ! i)) (nat topK) (sortByScore scores) []
                 in if res = [] then (facts, None) else (res, None)))))"

lemma take_ranked_spec:
  assumes "length res < k"
  shows "take_ranked dr pick k rs res = res @ map (\<lambda>(i, s). pick i s) (take (k - length res) (filter (\<lambda>(i, s). \<not> dr s) rs))"
  using assms
proof (induction rs arbitrary: res)
  case (Cons q rs)
  obtain i s where q: "q = (i, s)" by fastforce
  show ?case
  proof (cases "dr s")
    case False
    show ?thesis
    proof (cases "k \<le> Suc (length res)")
      case True
      then have "k - length res = Suc 0" using Cons.prems by simp
      with False q True show ?thesis by (simp add: Let_def)
    next
      case more: False
      then have "k - length res = Suc (k - length (res @ [pick i s]))" by simp
      with False q more Cons.IH [of "res @ [pick i s]"] show ?thesis by (simp add: Let_def)
    qed
  qed (use Cons q in simp)
qed simp

text \<open>
  What both loops keep: at most topK of the scored texts, each once, none with a score that is
  dropped, in falling order, and all of a score above that of the last one kept.
\<close>

definition best_of :: "(rat \<Rightarrow> bool) \<Rightarrow> rat list \<Rightarrow> nat \<Rightarrow> nat list \<Rightarrow> bool" where
  "best_of dr scores k js \<longleftrightarrow> length js \<le> k \<and> distinct js \<and> list_all (\<lambda>j. j < length scores \<and> \<not> dr (scores ! j)) js \<and>
     sorted_wrt (\<lambda>i j. scores ! j \<le> scores ! i) js \<and>
     (\<forall>i < length scores. \<not> dr (scores ! i) \<longrightarrow> i \<in> set js \<or> length js = k \<and> (\<forall>j \<in> set js. scores ! i \<le> scores ! j))"

lemma in_fst:
  assumes "j \<in> set (map fst qs)"
  obtains s where "(j, s) \<in> set qs"
  using assms by auto

lemma take_ranked_best:
  assumes "0 < k"
  obtains js where "take_ranked dr pick k (sortByScore scores) [] = map (\<lambda>j. pick j (scores ! j)) js" "best_of dr scores k js"
proof -
  let ?kept = "filter (\<lambda>(i, s). \<not> dr s) (sortByScore scores)"
  let ?top = "take k ?kept"
  have set_all: "set (sortByScore scores) = set (enumerate 0 scores)" by (simp only: sortByScore_def set_sort)
  then have val: "s = scores ! i \<and> i < length scores \<and> \<not> dr s" if "(i, s) \<in> set ?kept" for i s
    using that by (auto simp: in_set_enumerate_eq)
  have snd_val: "snd p = scores ! fst p" if "p \<in> set ?kept" for p
    using val [of "fst p" "snd p"] that by (simp only: prod.collapse)
  have in_top: "(i, s) \<in> set ?top \<Longrightarrow> (i, s) \<in> set ?kept" for i s by (rule in_set_takeD)
  have "distinct (sortByScore scores)" by (simp add: sortByScore_def distinct_sort distinct_enumerate)
  then have "distinct ?kept" by (rule distinct_filter)
  moreover have "inj_on fst (set ?kept)"
  proof (rule inj_onI)
    fix p q assume "p \<in> set ?kept" "q \<in> set ?kept" "fst p = fst q"
    then show "p = q" using snd_val [of p] snd_val [of q] by (simp only: prod_eq_iff)
  qed
  ultimately have dist: "distinct (map fst ?kept)" by (simp add: distinct_map)
  have "sorted (map (\<lambda>q. - snd q) (sortByScore scores))" by (simp add: sortByScore_def)
  then have "sorted_wrt (\<lambda>p q. snd q \<le> snd p) (sortByScore scores)" by (simp add: sorted_map)
  then have falling: "sorted_wrt (\<lambda>p q. snd q \<le> snd p) ?kept" by (rule sorted_wrt_filter)
  have run: "take_ranked dr pick k (sortByScore scores) [] = map (\<lambda>(i, s). pick i s) ?top"
    using take_ranked_spec [of "[]" k dr pick "sortByScore scores"] assms by simp
  also have "\<dots> = map (\<lambda>j. pick j (scores ! j)) (map fst ?top)"
    unfolding map_map
  proof (rule map_cong [OF refl])
    fix q assume "q \<in> set ?top"
    then show "(\<lambda>(i, s). pick i s) q = ((\<lambda>j. pick j (scores ! j)) \<circ> fst) q"
      using snd_val [OF in_set_takeD] by (simp only: split_beta comp_def)
  qed
  finally have picks: "take_ranked dr pick k (sortByScore scores) [] = map (\<lambda>j. pick j (scores ! j)) (map fst ?top)" .
  have "sorted_wrt (\<lambda>p q. snd q \<le> snd p) ?top" using falling by (rule sorted_wrt_take)
  then have sorted: "sorted_wrt (\<lambda>i j. scores ! j \<le> scores ! i) (map fst ?top)"
    unfolding sorted_wrt_map
  proof (rule sorted_wrt_mono_rel [rotated])
    fix p q assume "p \<in> set ?top" "q \<in> set ?top" "snd q \<le> snd p"
    then show "scores ! fst q \<le> scores ! fst p" using snd_val [OF in_set_takeD] by (simp only:)
  qed
  have best: "i \<in> set (map fst ?top) \<or> length (map fst ?top) = k \<and> (\<forall>j \<in> set (map fst ?top). scores ! i \<le> scores ! j)"
    if "i < length scores" "\<not> dr (scores ! i)" for i
  proof (cases "i \<in> set (map fst ?top)")
    case False
    have "(i, scores ! i) \<in> set (sortByScore scores)" using that(1) unfolding set_all by (simp add: in_set_enumerate_eq)
    then have "(i, scores ! i) \<in> set ?kept" using that(2) by simp
    then have "(i, scores ! i) \<in> set (?top @ drop k ?kept)" by (simp only: append_take_drop_id)
    moreover have "(i, scores ! i) \<notin> set ?top"
    proof
      assume "(i, scores ! i) \<in> set ?top"
      then have "fst (i, scores ! i) \<in> fst ` set ?top" by (rule imageI)
      with False show False by (simp only: list.set_map fst_conv not_True_eq_False)
    qed
    ultimately have rest: "(i, scores ! i) \<in> set (drop k ?kept)" by (simp only: set_append Un_iff simp_thms)
    then have "drop k ?kept \<noteq> []" by (metis list.set(1) empty_iff)
    then have "k < length ?kept" by (simp only: drop_eq_Nil not_le)
    then have "length ?top = k" by (simp only: length_take min.absorb2 less_imp_le)
    moreover have "scores ! i \<le> scores ! j" if "j \<in> set (map fst ?top)" for j
    proof -
      from that obtain s where j: "(j, s) \<in> set ?top" by (rule in_fst)
      have "sorted_wrt (\<lambda>p q. snd q \<le> snd p) (?top @ drop k ?kept)" using falling by (simp only: append_take_drop_id)
      then have "snd (i, scores ! i) \<le> snd (j, s)" unfolding sorted_wrt_append using j rest by blast
      moreover have "s = scores ! j" using snd_val [OF in_set_takeD, OF j] by (simp only: fst_conv snd_conv)
      ultimately show ?thesis by (simp only: snd_conv)
    qed
    ultimately show ?thesis by (simp only: length_map) blast
  qed simp
  have "best_of dr scores k (map fst ?top)" unfolding best_of_def
  proof (intro conjI)
    show "distinct (map fst ?top)" using dist by (simp only: take_map [symmetric] distinct_take)
    show "list_all (\<lambda>j. j < length scores \<and> \<not> dr (scores ! j)) (map fst ?top)" unfolding list_all_iff
    proof
      fix j assume "j \<in> set (map fst ?top)"
      then obtain s where "(j, s) \<in> set ?top" by (rule in_fst)
      from val [OF in_top [OF this]] show "j < length scores \<and> \<not> dr (scores ! j)" by blast
    qed
    show "length (map fst ?top) \<le> k" by simp
  qed (use sorted best in blast)+
  with picks that show ?thesis by blast
qed


text \<open>Two chunks, of which the service scores the second higher; the results come in the wrong order.\<close>

definition two_chunks :: "doc_chunk list" where
  "two_chunks = map (\<lambda>t. \<lparr>DcID = [], ParentID = [], DcText = ascii t, ParentText = [], DcHeading = [], LessonID = 3, Source = ascii ''notes.md'',
     ChunkIdx = 0, ChildIdx = 0, Score = 0\<rparr>) [''maps'', ''sets'']"

definition one_answer :: "goerr + rerank_reply" where
  "one_answer = Inr \<lparr>RrStatus = 200, RrBody = '''', AsObject = Inl (ErrNew ''array''),
     AsList = Inr [\<lparr>ResIndex = 1, ResScore = 9 / 10\<rparr>, \<lparr>ResIndex = 0, ResScore = 1 / 10\<rparr>]\<rparr>"


text \<open>The same for facts; a nil fact or one without text is never picked out.\<close>

lemma fact_reranking_selects:
  assumes "answers_one_call run" and "rerank_facts configured (\<lambda>_. scoreDocuments run) content query facts topK = (res, err)"
    and "idx = filter (\<lambda>i. fact_text content (facts ! i) \<noteq> []) [0..<length facts]"
  shows "res = facts \<or> err = None \<and> res \<noteq> [] \<and>
    (\<exists>scores js. scoreDocuments run (map (\<lambda>i. fact_text content (facts ! i)) idx) = Inr scores \<and> length scores = length idx \<and>
      best_of (\<lambda>s. s < minScoreThreshold) scores (if topK \<le> 0 then 5 else nat topK) js \<and>
      res = map (\<lambda>j. facts ! (idx ! j)) js)"
proof (cases "res = facts")
  case changed: False
  let ?docs = "map (\<lambda>i. fact_text content (facts ! i)) idx"
  let ?k = "if topK \<le> 0 then 5 else nat topK"
  have k: "nat (if topK \<le> 0 then 5 else topK) = ?k" "0 < ?k" by simp_all
  obtain scores where sc: "scoreDocuments run ?docs = Inr scores"
    and r: "take_ranked (\<lambda>s. s < minScoreThreshold) (\<lambda>i s. facts ! (idx ! i)) ?k (sortByScore scores) [] = res" "res \<noteq> []" "err = None"
    using assms(2) changed unfolding rerank_facts_def Let_def k(1) assms(3) [symmetric] by (auto split: if_split_asm sum.split_asm)
  obtain js where "res = map (\<lambda>j. facts ! (idx ! j)) js" "best_of (\<lambda>s. s < minScoreThreshold) scores ?k js"
    by (rule take_ranked_best [OF k(2), of "\<lambda>s. s < minScoreThreshold" "\<lambda>i s. facts ! (idx ! i)" scores]) (simp only: r(1))
  moreover have "length scores = length idx" using scored_length [OF assms(1) sc] by simp
  ultimately show ?thesis using r(2,3) sc by blast
qed simp

text \<open>More texts than a batch takes are never scored: the result is what was given, with an error.\<close>

lemma too_many_docs_unranked:
  "50 < length docs \<Longrightarrow> \<exists>err. scoreDocuments run docs = Inl err"
  by (auto simp: scoreDocuments_def)

end
