(* ===== verification/Api_Tokens.thy ===== *)
theory Api_Tokens
  imports Prelude
begin

text \<open>
  Tokens of the HTTP facade (src/internal/api/utils/jwt/jwt.go, utils/wsauth/token.go and
  service/user.go): a login gives an access and a refresh token, a refresh token is exchanged for a new
  pair, and every request names its user by a token. The JWT library is a parameter: sign for
  signing the claims of a token with the secret and parse for checking signature and expiry. JSON
  numbers are read as float64, which is written out.
\<close>

subsection \<open>Numbers of a token\<close>

text \<open>The integer nearest to n among those with 53 bits, ties to even: what float64 keeps of it.\<close>

fun bits :: "nat \<Rightarrow> nat" where
  "bits n = (if n = 0 then 0 else Suc (bits (n div 2)))"

declare bits.simps [simp del]

lemma bits_0 [simp]: "bits 0 = 0"
  by (subst bits.simps) simp

definition round53 :: "nat \<Rightarrow> nat" where
  "round53 n =
     (if bits n \<le> 53 then n
      else
        (let k = bits n - 53; q = n div 2 ^ k; r = n mod 2 ^ k in
         (if 2 ^ (k - 1) < r \<or> r = 2 ^ (k - 1) \<and> odd q then Suc q else q) * 2 ^ k))"

text \<open>int64(v) of the claim v.(float64).\<close>

definition claim_int64 :: "int \<Rightarrow> int" where
  "claim_int64 i = wrap64 (if i < 0 then - int (round53 (nat (- i))) else int (round53 (nat i)))"

lemma bits_less: "n < 2 ^ bits n"
proof (induction n rule: bits.induct)
  case (1 n)
  show ?case
  proof (cases "n = 0")
    case False
    then have "n div 2 < 2 ^ bits (n div 2)" using 1 by simp
    then show ?thesis using False by (subst bits.simps) auto
  qed simp
qed

lemma bits_least: "n < 2 ^ k \<Longrightarrow> bits n \<le> k"
proof (induction n arbitrary: k rule: bits.induct)
  case (1 n)
  show ?case
  proof (cases "n = 0")
    case False
    with 1(2) obtain l where k: "k = Suc l" by (cases k) auto
    with 1(2) have "n div 2 < 2 ^ l" by auto
    with 1(1) [OF False] k show ?thesis using False by (subst bits.simps) simp
  qed simp
qed

text \<open>An id with at most 53 bits before its trailing zeros is kept.\<close>

lemma round53_exact:
  assumes "m < 2 ^ 53"
  shows "round53 (m * 2 ^ j) = m * 2 ^ j"
proof (cases "bits (m * 2 ^ j) \<le> 53")
  case False
  let ?n = "m * 2 ^ j" and ?k = "bits (m * 2 ^ j) - 53"
  have "?n < 2 ^ (53 + j)" using assms by (simp add: power_add)
  then have "?k \<le> j" using bits_least [of ?n "53 + j"] by simp
  then have "2 ^ ?k dvd ?n" by (simp add: le_imp_power_dvd)
  then show ?thesis using False by (simp add: round53_def Let_def)
qed (simp add: round53_def)

lemma claim_int64_exact:
  assumes "uid = int m * 2 ^ j" and "m < 2 ^ 53" and "in_int64 uid"
  shows "claim_int64 uid = uid"
proof -
  have uid: "uid = int (m * 2 ^ j)" using assms(1) by simp
  have "claim_int64 (int (m * 2 ^ j)) = wrap64 (int (round53 (m * 2 ^ j)))" by (simp only: claim_int64_def nat_int of_nat_less_0_iff if_False)
  also have "\<dots> = int (m * 2 ^ j)" unfolding round53_exact [OF assms(2)] using assms(3) uid by (intro wrap64_id) simp
  finally show ?thesis unfolding uid .
qed

text \<open>Rounding again changes nothing.\<close>

lemma round53_form: "\<exists>m j. round53 n = m * 2 ^ j \<and> m < 2 ^ 53"
proof (cases "bits n \<le> 53")
  case True
  then have "n < 2 ^ 53" using bits_less [of n] by (meson less_le_trans one_le_numeral power_increasing)
  then show ?thesis using True by (intro exI [of _ n] exI [of _ 0]) (simp add: round53_def)
next
  case False
  let ?k = "bits n - 53" and ?q = "n div 2 ^ (bits n - 53)"
  have "n < 2 ^ (53 + ?k)" using bits_less [of n] False by simp
  then have q: "?q < 2 ^ 53" by (simp add: power_add less_mult_imp_div_less)
  obtain b where b: "round53 n = b * 2 ^ ?k" "b \<le> Suc ?q" using False by (auto simp: round53_def Let_def)
  show ?thesis
  proof (cases "b = 2 ^ 53")
    case True
    then show ?thesis using b(1) by (intro exI [of _ 1] exI [of _ "53 + ?k"]) (simp add: power_add)
  next
    case False
    then show ?thesis using b q by (intro exI [of _ b] exI [of _ ?k]) simp
  qed
qed

lemma round53_round53: "round53 (round53 n) = round53 n"
  using round53_form [of n] round53_exact by metis

lemma round53_bound:
  assumes "n \<le> 2 ^ 63"
  shows "round53 n \<le> 2 ^ 63"
proof (cases "n = 2 ^ 63 \<or> bits n \<le> 53")
  case True
  then show ?thesis using assms round53_exact [of 1 63] by (auto simp: round53_def)
next
  case False
  let ?k = "bits n - 53" and ?q = "n div 2 ^ (bits n - 53)"
  have "bits n \<le> 63" using bits_least [of n 63] False assms by simp
  have "n < 2 ^ (53 + ?k)" using bits_less [of n] False by simp
  then have "?q < 2 ^ 53" by (simp add: power_add less_mult_imp_div_less)
  then have "Suc ?q * 2 ^ ?k \<le> 2 ^ 53 * 2 ^ ?k" by (intro mult_le_mono1) simp
  also have "\<dots> = 2 ^ (53 + ?k)" by (simp only: power_add)
  also have "\<dots> \<le> 2 ^ 63" using \<open>bits n \<le> 63\<close> False by (intro power_increasing) simp_all
  finally have "Suc ?q * 2 ^ ?k \<le> 2 ^ 63" .
  moreover have "round53 n \<le> Suc ?q * 2 ^ ?k" using False by (simp add: round53_def Let_def)
  ultimately show ?thesis by (rule le_trans [rotated])
qed

lemma claim_int64_range: "in_int64 (claim_int64 i)"
  by (simp add: claim_int64_def wrap64_range)

lemma claim_int64_twice:
  assumes "in_int64 i"
  shows "claim_int64 (claim_int64 i) = claim_int64 i"
proof (cases "i < 0")
  case True
  let ?r = "round53 (nat (- i))"
  have "?r \<le> 2 ^ 63" using assms True by (intro round53_bound) (auto simp: in_int64_def)
  then have "in_int64 (- int ?r)" by (simp add: in_int64_def)
  then have c: "claim_int64 i = - int ?r" using True by (simp add: claim_int64_def)
  show ?thesis
  proof (cases "?r = 0")
    case False
    then show ?thesis unfolding c using \<open>in_int64 (- int ?r)\<close> by (simp add: claim_int64_def round53_round53)
  next
    case zero: True
    have "claim_int64 i = 0" unfolding c using zero by (simp only: of_nat_0 minus_zero)
    moreover have "claim_int64 0 = 0" by (simp add: claim_int64_def round53_def wrap64_def)
    ultimately show ?thesis by (simp only:)
  qed
next
  case False
  let ?r = "round53 (nat i)"
  have le: "?r \<le> 2 ^ 63" using assms False by (intro round53_bound) (auto simp: in_int64_def)
  show ?thesis
  proof (cases "?r = 2 ^ 63")
    case True
    then have "claim_int64 i = - (2 ^ 63)" using False by (simp add: claim_int64_def wrap64_def)
    moreover have "claim_int64 (- (2 ^ 63)) = - (2 ^ 63)"
      using round53_exact [of 1 63] by (simp add: claim_int64_def wrap64_def)
    ultimately show ?thesis by simp
  next
    case less: False
    then have "in_int64 (int ?r)" using le by (simp add: in_int64_def)
    then have c: "claim_int64 i = int ?r" using False by (simp add: claim_int64_def)
    then show ?thesis unfolding c using \<open>in_int64 (int ?r)\<close> by (simp add: claim_int64_def round53_round53)
  qed
qed

subsection \<open>Tokens\<close>

text \<open>Times are nanoseconds; the expiry claim is in seconds.\<close>

record claims =
  ClUser :: int
  Exp :: int
  Typ :: "string option"

record 'tok token_env =
  sign :: "claims \<Rightarrow> 'tok"
  parse :: "int \<Rightarrow> 'tok \<Rightarrow> claims option"

abbreviation sec :: int where "sec \<equiv> 1000000000"

abbreviation week :: int where "week \<equiv> 7 * 24 * 3600 * sec"

abbreviation access_ttl :: int where "access_ttl \<equiv> 20 * 60 * sec"

definition GenerateRefreshToken :: "'tok token_env \<Rightarrow> int \<Rightarrow> int \<Rightarrow> 'tok" where
  "GenerateRefreshToken env now uid = sign env \<lparr>ClUser = uid, Exp = (now + week) div sec, Typ = Some ''refresh''\<rparr>"

definition ParseRefreshToken :: "'tok token_env \<Rightarrow> int \<Rightarrow> 'tok \<Rightarrow> goerr + int" where
  "ParseRefreshToken env now t =
     (case parse env now t of
        None \<Rightarrow> Inl (ErrNew ''invalid token'')
      | Some c \<Rightarrow> if Typ c \<noteq> Some ''refresh'' then Inl (ErrNew ''invalid refresh token'') else Inr (claim_int64 (ClUser c)))"

definition GenerateAccessToken :: "'tok token_env \<Rightarrow> int \<Rightarrow> int \<Rightarrow> 'tok \<times> int" where
  "GenerateAccessToken env now uid =
     (sign env \<lparr>ClUser = uid, Exp = (now + access_ttl) div sec, Typ = Some ''access''\<rparr>, now + access_ttl)"

definition ParseAccessToken :: "'tok token_env \<Rightarrow> int \<Rightarrow> 'tok \<Rightarrow> goerr + int" where
  "ParseAccessToken env now t =
     (case parse env now t of None \<Rightarrow> Inl (ErrNew ''invalid token'') | Some c \<Rightarrow> Inr (claim_int64 (ClUser c)))"

text \<open>The token that the login middleware makes from PayloadFunc, and what IdentityHandler reads of one.\<close>

definition login_token :: "'tok token_env \<Rightarrow> int \<Rightarrow> int \<Rightarrow> 'tok" where
  "login_token env now uid = sign env \<lparr>ClUser = uid, Exp = (now + access_ttl) div sec, Typ = None\<rparr>"

definition IdentityHandler :: "claims \<Rightarrow> int" where
  "IdentityHandler c = claim_int64 (ClUser c)"

text \<open>The keys auth:refresh:<user>, with their deadlines.\<close>

record 'tok sessions =
  refresh_keys :: "int \<Rightarrow> ('tok \<times> int) option"

text \<open>The outcome of the Set; a failing one may still have been applied.\<close>

datatype set_outcome = Set_ok | Set_lost | Set_failed

definition set_refresh :: "int \<Rightarrow> int \<Rightarrow> 'tok \<Rightarrow> set_outcome \<Rightarrow> 'tok sessions \<Rightarrow> 'tok sessions" where
  "set_refresh now uid t out st =
     (if out = Set_failed then st else st\<lparr>refresh_keys := (refresh_keys st)(uid \<mapsto> (t, now + week))\<rparr>)"

definition LoginResponse :: "'tok token_env \<Rightarrow> int \<Rightarrow> int \<Rightarrow> set_outcome \<Rightarrow> 'tok sessions \<Rightarrow> 'tok sessions \<times> (goerr + 'tok \<times> 'tok)" where
  "LoginResponse env now uid out st =
     (if uid = 0 then (st, Inl (ErrNew ''missing uid''))
      else
        (let refresh = GenerateRefreshToken env now uid; st = set_refresh now uid refresh out st in
         if out \<noteq> Set_ok then (st, Inl (ErrNew ''refresh token error''))
         else (st, Inr (login_token env now uid, refresh))))"

text \<open>Authenticator: reply is the answer of the user service to the name and password.\<close>

definition login_request ::
    "'tok token_env \<Rightarrow> int \<Rightarrow> goerr + int \<Rightarrow> set_outcome \<Rightarrow> 'tok sessions \<Rightarrow> 'tok sessions \<times> (goerr + 'tok \<times> 'tok)" where
  "login_request env now reply out st =
     (case reply of Inl err \<Rightarrow> (st, Inl err) | Inr uid \<Rightarrow> LoginResponse env now uid out st)"

text \<open>get_ok: the Get of the key does not fail.\<close>

definition RefreshToken ::
    "'tok token_env \<Rightarrow> int \<Rightarrow> 'tok \<Rightarrow> bool \<Rightarrow> set_outcome \<Rightarrow> 'tok sessions \<Rightarrow> 'tok sessions \<times> (goerr + 'tok \<times> 'tok)" where
  "RefreshToken env now refresh get_ok out st =
     (case ParseRefreshToken env now refresh of
        Inl err \<Rightarrow> (st, Inl err)
      | Inr uid \<Rightarrow>
          (let val = (case refresh_keys st uid of Some (t, d) \<Rightarrow> if now < d then Some t else None | None \<Rightarrow> None) in
           if \<not> get_ok \<or> val \<noteq> Some refresh then (st, Inl (ErrNew ''refresh token invalid''))
           else
             (let access = fst (GenerateAccessToken env now uid); newRefreshToken = GenerateRefreshToken env now uid in
              (set_refresh now uid newRefreshToken out st, Inr (access, newRefreshToken)))))"

text \<open>What the library is used for: a signed token is parsed to its claims until it expires.\<close>

definition lib_ok :: "'tok token_env \<Rightarrow> bool" where
  "lib_ok env \<longleftrightarrow> (\<forall>now c. parse env now (sign env c) = (if now < Exp c * sec then Some c else None))"

definition parses_for :: "'tok token_env \<Rightarrow> 'tok \<Rightarrow> int \<Rightarrow> int \<Rightarrow> bool" where
  "parses_for env t uid till \<longleftrightarrow> (\<forall>now < till. ParseAccessToken env now t = Inr uid)"

lemma exp_bound: "now < t + d - sec \<Longrightarrow> now < (t + d) div sec * sec" for now :: int
  by (simp add: minus_mod_eq_div_mult [symmetric])

text \<open>The session of a user is alive until a time: the key holds the token, which is one of the user's.\<close>

definition session_live :: "'tok token_env \<Rightarrow> int \<Rightarrow> 'tok \<Rightarrow> int \<Rightarrow> 'tok sessions \<Rightarrow> bool" where
  "session_live env uid t till st \<longleftrightarrow> (\<exists>d. refresh_keys st uid = Some (t, d) \<and> till \<le> d) \<and>
     (\<forall>now < till. ParseRefreshToken env now t = Inr uid)"

lemma refresh_token_parses:
  assumes "lib_ok env" and "claim_int64 uid = uid" and "now < t + week - sec"
  shows "ParseRefreshToken env now (GenerateRefreshToken env t uid) = Inr uid"
  using assms exp_bound [OF assms(3)] by (simp add: ParseRefreshToken_def GenerateRefreshToken_def lib_ok_def)

lemma access_token_parses:
  assumes "lib_ok env" and "claim_int64 uid = uid"
  shows "parses_for env (fst (GenerateAccessToken env t uid)) uid (t + access_ttl - sec)"
    "parses_for env (login_token env t uid) uid (t + access_ttl - sec)"
  using assms exp_bound [of _ t access_ttl]
  by (simp_all add: parses_for_def ParseAccessToken_def GenerateAccessToken_def login_token_def lib_ok_def)

lemma stored_session_live:
  assumes "lib_ok env" and "claim_int64 uid = uid" and "out \<noteq> Set_failed"
  shows "session_live env uid (GenerateRefreshToken env t uid) (t + week - sec) (set_refresh t uid (GenerateRefreshToken env t uid) out st)"
  using assms refresh_token_parses [OF assms(1,2)] by (simp add: session_live_def set_refresh_def)

text \<open>
  (roundtrip). A login opens a session that goes on: for a user whose id float64 keeps, a login with
  its key stored gives an access token that names the user for its time, and a refresh token; and
  with the refresh token of a session that is alive, each refresh in its time whose key is stored
  gives an access token that names the user and again a session that is alive, with the new token.
\<close>

theorem sessions_go_on:
  assumes "lib_ok env" and "claim_int64 uid = uid" and "uid \<noteq> 0"
  shows "(\<exists>st' a r. login_request env t (Inr uid) Set_ok st = (st', Inr (a, r)) \<and>
      parses_for env a uid (t + access_ttl - sec) \<and> session_live env uid r (t + week - sec) st') \<and>
    (session_live env uid r till st \<and> t < till \<longrightarrow>
      (\<exists>st' a r'. RefreshToken env t r True Set_ok st = (st', Inr (a, r')) \<and>
        parses_for env a uid (t + access_ttl - sec) \<and> session_live env uid r' (t + week - sec) st'))"
proof (intro conjI impI)
  show "\<exists>st' a r. login_request env t (Inr uid) Set_ok st = (st', Inr (a, r)) \<and>
      parses_for env a uid (t + access_ttl - sec) \<and> session_live env uid r (t + week - sec) st'"
    using assms(3) access_token_parses(2) [OF assms(1,2)] stored_session_live [OF assms(1,2), of Set_ok]
    by (simp add: login_request_def LoginResponse_def Let_def)
  assume live: "session_live env uid r till st \<and> t < till"
  then obtain d where "refresh_keys st uid = Some (r, d)" "t < d" "ParseRefreshToken env t r = Inr uid"
    by (fastforce simp: session_live_def)
  then show "\<exists>st' a r'. RefreshToken env t r True Set_ok st = (st', Inr (a, r')) \<and>
      parses_for env a uid (t + access_ttl - sec) \<and> session_live env uid r' (t + week - sec) st'"
    using access_token_parses(1) [OF assms(1,2)] stored_session_live [OF assms(1,2), of Set_ok]
    by (simp add: RefreshToken_def Let_def)
qed

text \<open>A library whose tokens are the claims themselves.\<close>

definition plain_tokens :: "claims token_env" where
  "plain_tokens = \<lparr>sign = (\<lambda>c. c), parse = (\<lambda>now c. if now < Exp c * sec then Some c else None)\<rparr>"

lemma plain_tokens_ok: "lib_ok plain_tokens"
  by (simp add: lib_ok_def plain_tokens_def)

text \<open>An id as Snowflake makes them, the first of its millisecond on node 1.\<close>

definition first_id :: int where
  "first_id = 480000000000 * 2 ^ 22 + 2 ^ 12"

lemma first_id_kept: "claim_int64 first_id = first_id"
  by (rule claim_int64_exact [of _ "480000000000 * 2 ^ 10 + 1" 12]) (simp_all add: first_id_def in_int64_def)

theorem sessions_go_on_witness:
  "\<exists>st1 a r st2 a' r'. login_request plain_tokens 0 (Inr first_id) Set_ok \<lparr>refresh_keys = Map.empty\<rparr> = (st1, Inr (a, r)) \<and>
     RefreshToken plain_tokens sec r True Set_ok st1 = (st2, Inr (a', r')) \<and> parses_for plain_tokens a' first_id (sec + access_ttl - sec)"
proof -
  have n: "first_id \<noteq> 0" by (simp add: first_id_def)
  note step = sessions_go_on [OF plain_tokens_ok first_id_kept n]
  obtain st1 a r where 1: "login_request plain_tokens 0 (Inr first_id) Set_ok \<lparr>refresh_keys = Map.empty\<rparr> = (st1, Inr (a, r))"
    "session_live plain_tokens first_id r (0 + week - sec) st1"
    using step [of 0 "\<lparr>refresh_keys = Map.empty\<rparr>" r "0"] by blast
  obtain st2 a' r' where "RefreshToken plain_tokens sec r True Set_ok st1 = (st2, Inr (a', r'))" "parses_for plain_tokens a' first_id (sec + access_ttl - sec)"
    using step [of sec st1 r "0 + week - sec"] 1(2) by auto
  with 1(1) show ?thesis by blast
qed

subsection \<open>Whom tokens name\<close>

text \<open>
  Runs of logins and refreshes, with the claims that were signed and the users whose name and
  password the user service accepted. No token is forged: one that parses was signed before.
\<close>

inductive run_of :: "'tok token_env \<Rightarrow> 'tok sessions \<Rightarrow> claims set \<Rightarrow> int set \<Rightarrow> bool" for env :: "'tok token_env" where
  run_start: "run_of env \<lparr>refresh_keys = Map.empty\<rparr> {} {}"
| run_login: "run_of env st signed users \<Longrightarrow> in_int64 uid \<Longrightarrow> login_request env now (Inr uid) out st = (st', res) \<Longrightarrow>
    run_of env st' (signed \<union> {\<lparr>ClUser = uid, Exp = (now + access_ttl) div sec, Typ = None\<rparr>,
      \<lparr>ClUser = uid, Exp = (now + week) div sec, Typ = Some ''refresh''\<rparr>}) (insert uid users)"
| run_refresh: "run_of env st signed users \<Longrightarrow> parse env now t = Some c \<Longrightarrow> c \<in> signed \<Longrightarrow>
    RefreshToken env now t get_ok out st = (st', res) \<Longrightarrow>
    run_of env st' (signed \<union> {\<lparr>ClUser = claim_int64 (ClUser c), Exp = (now + access_ttl) div sec, Typ = Some ''access''\<rparr>,
      \<lparr>ClUser = claim_int64 (ClUser c), Exp = (now + week) div sec, Typ = Some ''refresh''\<rparr>}) users"
| run_bad_refresh: "run_of env st signed users \<Longrightarrow> parse env now t = None \<Longrightarrow>
    RefreshToken env now t get_ok out st = (st', res) \<Longrightarrow> run_of env st' signed users"

lemma signed_users:
  "run_of env st signed users \<Longrightarrow> c \<in> signed \<Longrightarrow> \<exists>uid \<in> users. in_int64 uid \<and> claim_int64 (ClUser c) = claim_int64 uid"
proof (induction arbitrary: c rule: run_of.induct)
  case (run_refresh st signed users now t c0 get_ok out st' res)
  obtain uid where uid: "uid \<in> users" "in_int64 uid" "claim_int64 (ClUser c0) = claim_int64 uid"
    using run_refresh.IH [OF run_refresh.hyps(3)] by blast
  have "claim_int64 (claim_int64 (ClUser c0)) = claim_int64 uid" unfolding uid(3) using uid(2) by (rule claim_int64_twice)
  with run_refresh.prems run_refresh.IH uid(1,2) show ?case by auto
qed auto



text \<open>
  C31 (safety). Refresh tokens rotate: a refresh succeeds only with the very token stored for its user,
  which Redis still holds; and once the new token is stored, also with a reply that was lost, the old one is
  refused, at any time, if the two differ.
\<close>

theorem refresh_tokens_rotate:
  assumes "RefreshToken env now t get_ok out st = (st', Inr (a, t'))"
  shows "\<exists>uid d. ParseRefreshToken env now t = Inr uid \<and> refresh_keys st uid = Some (t, d) \<and> now < d \<and>
    (out \<noteq> Set_failed \<and> t' \<noteq> t \<and> (\<forall>now2. case ParseRefreshToken env now2 t of Inl _ \<Rightarrow> True | Inr v \<Rightarrow> v = uid) \<longrightarrow>
      (\<forall>now2 get_ok2 out2. \<exists>err. RefreshToken env now2 t get_ok2 out2 st' = (st', Inl err)))"
proof -
  obtain uid where uid: "ParseRefreshToken env now t = Inr uid"
    using assms by (cases "ParseRefreshToken env now t") (auto simp: RefreshToken_def)
  then obtain d where d: "refresh_keys st uid = Some (t, d)" "now < d" "st' = set_refresh now uid t' out st"
    using assms by (auto simp: RefreshToken_def Let_def split: if_splits option.splits)
  have "\<exists>err. RefreshToken env now2 t get_ok2 out2 st' = (st', Inl err)"
    if "out \<noteq> Set_failed" "t' \<noteq> t" "\<forall>now2. case ParseRefreshToken env now2 t of Inl _ \<Rightarrow> True | Inr v \<Rightarrow> v = uid"
    for now2 get_ok2 out2
  proof (cases "ParseRefreshToken env now2 t")
    case (Inr v)
    with that(3) have "v = uid" by (metis sum.simps(6))
    with that(1,2) Inr d(3) show ?thesis by (auto simp: RefreshToken_def set_refresh_def Let_def)
  qed (simp add: RefreshToken_def)
  with uid d show ?thesis by blast
qed

theorem refresh_tokens_rotate_witness:
  "\<exists>st a t st' a' t'. login_request plain_tokens 0 (Inr first_id) Set_ok \<lparr>refresh_keys = Map.empty\<rparr> = (st, Inr (a, t)) \<and>
     RefreshToken plain_tokens sec t True Set_ok st = (st', Inr (a', t')) \<and>
     (\<exists>err. RefreshToken plain_tokens (2 * sec) t True Set_ok st' = (st', Inl err))"
proof -
  let ?t = "GenerateRefreshToken plain_tokens 0 first_id" and ?t' = "GenerateRefreshToken plain_tokens sec first_id"
  have n: "first_id \<noteq> 0" by (simp add: first_id_def)
  obtain st a where l: "login_request plain_tokens 0 (Inr first_id) Set_ok \<lparr>refresh_keys = Map.empty\<rparr> = (st, Inr (a, ?t))"
    "refresh_keys st first_id = Some (?t, week)"
    using n by (simp add: login_request_def LoginResponse_def set_refresh_def Let_def)
  have parses: "ParseRefreshToken plain_tokens now ?t = (if now < week then Inr first_id else Inl (ErrNew ''invalid token''))" for now
    by (simp add: ParseRefreshToken_def GenerateRefreshToken_def plain_tokens_def first_id_kept)
  obtain st' a' where r: "RefreshToken plain_tokens sec ?t True Set_ok st = (st', Inr (a', ?t'))"
    using l(2) by (simp add: RefreshToken_def parses Let_def)
  have new: "?t' \<noteq> ?t" by (simp add: GenerateRefreshToken_def plain_tokens_def)
  have "case ParseRefreshToken plain_tokens now2 ?t of Inl _ \<Rightarrow> True | Inr v \<Rightarrow> v = first_id" for now2 by (simp add: parses)
  moreover have "ParseRefreshToken plain_tokens sec ?t = Inr first_id" by (simp add: parses)
  ultimately have "\<exists>err. RefreshToken plain_tokens (2 * sec) ?t True Set_ok st' = (st', Inl err)"
    using refresh_tokens_rotate [OF r] new by (metis set_outcome.distinct(3) sum.inject(2))
  with l(1) r show ?thesis by blast
qed

subsection \<open>Where it fails\<close>

text \<open>Two users who register in the same millisecond: the second id is the first plus one, and float64 does not keep it.\<close>

lemma second_user_is_taken_for_first:
  "claim_int64 (first_id + 1) = first_id"
proof -
  let ?n = "480000000000 * 2 ^ 22 + 2 ^ 12 + 1 :: nat"
  have "bits ?n \<le> 61" by (rule bits_least) simp
  moreover have "\<not> bits ?n \<le> 60"
  proof
    assume "bits ?n \<le> 60"
    then have "(2 :: nat) ^ bits ?n \<le> 2 ^ 60" by (rule power_increasing) simp
    with bits_less [of ?n] have "?n < 2 ^ 60" by (rule less_le_trans)
    then show False by simp
  qed
  ultimately have "bits ?n = 61" by simp
  then have "round53 ?n = 480000000000 * 2 ^ 22 + 2 ^ 12" by (simp add: round53_def Let_def)
  moreover have "first_id + 1 = int ?n" by (simp add: first_id_def)
  ultimately have "claim_int64 (first_id + 1) = wrap64 (int (480000000000 * 2 ^ 22 + 2 ^ 12))"
    by (simp only: claim_int64_def nat_int of_nat_less_0_iff if_False)
  then show ?thesis by (simp add: first_id_def wrap64_def)
qed

lemma second_user_acts_as_first:
  "ParseAccessToken plain_tokens 0 (login_token plain_tokens 0 (first_id + 1)) = Inr first_id"
  by (simp add: ParseAccessToken_def login_token_def plain_tokens_def second_user_is_taken_for_first)

text \<open>A refresh token passes as an access token, for a week and after its rotation.\<close>

lemma refresh_token_passes_as_access:
  assumes "lib_ok env" and "claim_int64 uid = uid"
  shows "parses_for env (GenerateRefreshToken env t uid) uid (t + week - sec)"
  using assms exp_bound [of _ t week] by (simp add: parses_for_def ParseAccessToken_def GenerateRefreshToken_def lib_ok_def)

text \<open>When the Set fails the client gets a new token all the same, and that one is refused.\<close>

lemma unstored_rotation_is_refused:
  assumes "RefreshToken env now t get_ok Set_failed st = (st', Inr (a, t'))" and "t' \<noteq> t"
    and "ParseRefreshToken env now t = Inr uid" and "ParseRefreshToken env now2 t' = Inr uid"
  shows "RefreshToken env now2 t' True out2 st' = (st', Inl (ErrNew ''refresh token invalid''))"
proof -
  have "refresh_keys st uid \<noteq> None" "st' = st" "fst (the (refresh_keys st uid)) = t"
    using assms(1,3) by (auto simp: RefreshToken_def set_refresh_def Let_def split: if_splits option.splits)
  with assms(2,4) show ?thesis by (auto simp: RefreshToken_def Let_def split: if_splits)
qed

subsection \<open>The token of a WebSocket\<close>

definition ascii_lower :: "string \<Rightarrow> string" where
  "ascii_lower = map (\<lambda>c. let n = of_char c :: nat in if 65 \<le> n \<and> n \<le> 90 then char_of (n + 32) else c)"

definition Token :: "string \<Rightarrow> string \<Rightarrow> string \<Rightarrow> bool \<Rightarrow> string" where
  "Token header cookie query allowQuery =
     (let authorization = TrimSpace header in
      if 7 < length authorization \<and> ascii_lower (take 7 authorization) = ''bearer '' \<and> TrimSpace (drop 7 authorization) \<noteq> ''''
      then TrimSpace (drop 7 authorization)
      else if TrimSpace cookie \<noteq> '''' then TrimSpace cookie
      else if allowQuery then TrimSpace query
      else '''')"

text \<open>Without the option no token is taken from the URL.\<close>

lemma query_needs_option: "Token header cookie query False = Token header cookie query' False"
  by (simp add: Token_def)

lemma token_transports:
  "Token ''Bearer header-token'' ''cookie-token'' ''query-token'' True = ''header-token''"
  "Token '''' ''cookie-token'' ''query-token'' True = ''cookie-token''"
  "Token '''' '''' ''query-token'' False = ''''"
  "Token '''' '''' ''query-token'' True = ''query-token''"
  by code_simp+

end
