(* ===== verification/Rate_Limit.thy ===== *)
theory Rate_Limit
  imports Prelude Complex_Main
begin

text \<open>
  The token bucket in Redis (src/internal/api/utils/ratelimit/redis_bucket.go). The script runs as
  one step on the key; its numbers, doubles in Lua, are rationals here. A key that was not written for
  its time to live is gone; Redis has its own clock, so whether the key is gone is an input of
  the step.
\<close>

subsection \<open>The script\<close>

record bucket =
  tokens :: rat
  ts :: rat

definition bucket_script :: "rat \<Rightarrow> rat \<Rightarrow> rat \<Rightarrow> rat \<Rightarrow> bucket option \<Rightarrow> bucket option \<times> bool" where
  "bucket_script rate capacity now requested b =
     (let tk = (case b of None \<Rightarrow> capacity | Some b \<Rightarrow> tokens b);
          last = (case b of None \<Rightarrow> now | Some b \<Rightarrow> ts b);
          delta = (if now - last < 0 then 0 else now - last);
          tk = tk + delta * rate;
          tk = (if capacity < tk then capacity else tk)
      in if requested \<le> tk then (Some \<lparr>tokens = tk - requested, ts = now\<rparr>, True)
         else (Some \<lparr>tokens = tk, ts = now\<rparr>, False))"

text \<open>
  AllowRedis with the checks of NewRedisTokenBucket and Allow; key_empty: the key is the empty string, reply: the
  error of the call, if any. A call that ends with an error may have run the script.
\<close>

definition AllowRedis ::
    "bool \<Rightarrow> bool \<Rightarrow> rat \<Rightarrow> int \<Rightarrow> int \<Rightarrow> rat \<Rightarrow> goerr option \<Rightarrow> bool \<Rightarrow> bucket option \<Rightarrow> bucket option \<times> (goerr + bool)" where
  "AllowRedis nil_client key_empty rate capacity n now reply applied b =
     (if nil_client then (b, Inl (ErrNew ''nil redis client''))
      else if key_empty then (b, Inl (ErrNew ''empty redis key''))
      else if rate \<le> 0 then (b, Inl (ErrNew ''rate must be positive''))
      else if capacity \<le> 0 then (b, Inl (ErrNew ''capacity must be positive''))
      else if n \<le> 0 then (b, Inr True)
      else
        (case reply of
           Some err \<Rightarrow> (if applied then fst (bucket_script rate (of_int capacity) now (of_int n) b) else b, Inl err)
         | None \<Rightarrow> (let (b, allowed) = bucket_script rate (of_int capacity) now (of_int n) b in (b, Inr allowed))))"

subsection \<open>A sequence of calls\<close>

text \<open>A call: the client's clock, the number of tokens, what Redis does, and whether the key has expired before.\<close>

record call =
  Now :: rat
  Num :: int
  Reply :: "goerr option"
  Ran :: bool
  Gone :: bool

definition one_call :: "rat \<Rightarrow> int \<Rightarrow> call \<Rightarrow> bucket option \<Rightarrow> bucket option \<times> (goerr + bool)" where
  "one_call rate capacity c b = AllowRedis False False rate capacity (Num c) (Now c) (Reply c) (Ran c) (if Gone c then None else b)"

fun calls :: "rat \<Rightarrow> int \<Rightarrow> call list \<Rightarrow> bucket option \<Rightarrow> (goerr + bool) list" where
  "calls rate capacity [] b = []"
| "calls rate capacity (c # cs) b = (case one_call rate capacity c b of (b, res) \<Rightarrow> res # calls rate capacity cs b)"

text \<open>
  The clocks agree: no call is earlier than the one before it, and a key is only gone when enough time has
  passed since it was written to fill the bucket (its time to live is at least capacity / rate).
\<close>

fun clocks_ok :: "rat \<Rightarrow> int \<Rightarrow> rat \<Rightarrow> call list \<Rightarrow> bucket option \<Rightarrow> bool" where
  "clocks_ok rate capacity t [] b \<longleftrightarrow> True"
| "clocks_ok rate capacity t (c # cs) b \<longleftrightarrow> t \<le> Now c \<and>
     (case b of None \<Rightarrow> True | Some k \<Rightarrow> Gone c \<longrightarrow> of_int capacity \<le> (Now c - ts k) * rate) \<and>
     clocks_ok rate capacity (Now c) cs (fst (one_call rate capacity c b))"

fun granted :: "call list \<Rightarrow> (goerr + bool) list \<Rightarrow> int" where
  "granted (c # cs) (r # rs) = (if r = Inr True \<and> 0 < Num c then Num c else 0) + granted cs rs"
| "granted cs rs = 0"

text \<open>What the bucket holds at a time, and that it is well-formed.\<close>

definition level :: "rat \<Rightarrow> int \<Rightarrow> rat \<Rightarrow> bucket option \<Rightarrow> rat" where
  "level rate capacity now b = (case b of None \<Rightarrow> of_int capacity | Some b \<Rightarrow> min (of_int capacity) (tokens b + (now - ts b) * rate))"

definition bucket_ok :: "int \<Rightarrow> rat \<Rightarrow> bucket option \<Rightarrow> bool" where
  "bucket_ok capacity now b \<longleftrightarrow> (case b of None \<Rightarrow> True | Some b \<Rightarrow> 0 \<le> tokens b \<and> tokens b \<le> of_int capacity \<and> ts b \<le> now)"

lemma level_bounds:
  assumes "bucket_ok capacity now b" and "0 < rate" and "0 < capacity"
  shows "0 \<le> level rate capacity now b" "level rate capacity now b \<le> of_int capacity"
  using assms by (auto simp: bucket_ok_def level_def split: option.splits)

lemma script_level:
  assumes "bucket_ok capacity now b" and "0 < rate" and "0 < capacity" and "0 < n"
    and "bucket_script rate (of_int capacity) now (of_int n) b = (b', allowed)"
  shows "bucket_ok capacity now b' \<and> level rate capacity now b' = level rate capacity now b - (if allowed then of_int n else 0)"
proof -
  let ?l = "level rate capacity now b"
  have l: "0 \<le> ?l" "?l \<le> of_int capacity" by (rule level_bounds [OF assms(1-3)])+
  have "bucket_script rate (of_int capacity) now (of_int n) b =
      (if of_int n \<le> ?l then (Some \<lparr>tokens = ?l - of_int n, ts = now\<rparr>, True) else (Some \<lparr>tokens = ?l, ts = now\<rparr>, False))"
    using assms(1) by (auto simp: bucket_script_def level_def bucket_ok_def Let_def min_def not_less split: option.splits)
  with assms(4,5) l show ?thesis by (auto simp: bucket_ok_def level_def split: if_splits)
qed

text \<open>Time only adds what the rate gives, also when the key goes.\<close>

lemma level_later:
  assumes "0 < rate" and "t \<le> now" and "bucket_ok capacity t b" and "0 < capacity"
    and "case b of None \<Rightarrow> True | Some k \<Rightarrow> g \<longrightarrow> of_int capacity \<le> (now - ts k) * rate"
  shows "level rate capacity now (if g then None else b) \<le> level rate capacity t b + (now - t) * rate"
    and "bucket_ok capacity now (if g then None else b)"
proof -
  have "0 \<le> (now - t) * rate" using assms(1,2) by simp
  then have "level rate capacity now b \<le> level rate capacity t b + (now - t) * rate"
    by (auto simp: level_def min_def algebra_simps split: option.split)
  moreover have "level rate capacity now (if g then None else b) \<le> level rate capacity now b"
    using assms(3,5) by (auto simp: level_def bucket_ok_def split: option.splits)
  ultimately show "level rate capacity now (if g then None else b) \<le> level rate capacity t b + (now - t) * rate" by linarith
  show "bucket_ok capacity now (if g then None else b)"
    using assms(2,3) by (auto simp: bucket_ok_def split: option.splits)
qed

lemma one_call_level:
  assumes "0 < rate" and "0 < capacity" and "bucket_ok capacity t b" and "t \<le> Now c"
    and "case b of None \<Rightarrow> True | Some k \<Rightarrow> Gone c \<longrightarrow> of_int capacity \<le> (Now c - ts k) * rate"
    and "one_call rate capacity c b = (b', res)"
  shows "bucket_ok capacity (Now c) b' \<and>
    level rate capacity (Now c) b' + (if res = Inr True \<and> 0 < Num c then of_int (Num c) else 0) \<le> level rate capacity t b + (Now c - t) * rate"
proof -
  let ?b = "if Gone c then None else b"
  note later = level_later [OF assms(1,4,3,2,5)]
  show ?thesis
  proof (cases "Num c \<le> 0")
    case True
    then have "b' = ?b" using assms(1,2,6) by (simp add: one_call_def AllowRedis_def)
    then show ?thesis using later True by simp
  next
    case False
    obtain b1 ok where s: "bucket_script rate (of_int capacity) (Now c) (of_int (Num c)) ?b = (b1, ok)" by fastforce
    have spec: "bucket_ok capacity (Now c) b1 \<and> level rate capacity (Now c) b1 = level rate capacity (Now c) ?b - (if ok then of_int (Num c) else 0)"
      by (rule script_level [OF later(2) assms(1,2) _ s]) (use False in simp)
    have "0 < (of_int (Num c) :: rat)" using False by simp
    with spec s later assms(1,2,6) False show ?thesis
      by (cases "Reply c"; cases ok; cases "Ran c") (auto simp: one_call_def AllowRedis_def)
  qed
qed

lemma granted_bound:
  assumes "0 < rate" and "0 < capacity"
  shows "clocks_ok rate capacity t cs b \<Longrightarrow> bucket_ok capacity t b \<Longrightarrow>
    of_int (granted cs (calls rate capacity cs b)) \<le> level rate capacity t b + (Now (last (\<lparr>Now = t, Num = 0, Reply = None, Ran = False, Gone = False\<rparr> # cs)) - t) * rate"
proof (induction cs arbitrary: t b)
  case Nil
  then show ?case using level_bounds(1) [OF Nil.prems(2) assms] by simp
next
  case (Cons c cs)
  obtain b1 res where one: "one_call rate capacity c b = (b1, res)" by fastforce
  have step: "bucket_ok capacity (Now c) b1 \<and>
      level rate capacity (Now c) b1 + (if res = Inr True \<and> 0 < Num c then of_int (Num c) else 0) \<le> level rate capacity t b + (Now c - t) * rate"
    by (rule one_call_level [OF assms Cons.prems(2) _ _ one]) (use Cons.prems(1) in auto)
  let ?l = "Now (last (\<lparr>Now = Now c, Num = 0, Reply = None, Ran = False, Gone = False\<rparr> # cs))"
  have "of_int (granted cs (calls rate capacity cs b1)) \<le> level rate capacity (Now c) b1 + (?l - Now c) * rate"
    by (rule Cons.IH) (use Cons.prems(1) one step in auto)
  moreover have "Now (last (\<lparr>Now = t, Num = 0, Reply = None, Ran = False, Gone = False\<rparr> # c # cs)) = ?l" by (cases cs) simp_all
  moreover define g where "g = (if res = Inr True \<and> 0 < Num c then Num c else 0)"
  then have "granted (c # cs) (calls rate capacity (c # cs) b) = g + granted cs (calls rate capacity cs b1)"
    "level rate capacity (Now c) b1 + of_int g \<le> level rate capacity t b + (Now c - t) * rate"
    using one step by (simp, cases "res = Inr True \<and> 0 < Num c") auto
  ultimately show ?case by (simp only: of_int_add) (simp add: algebra_simps)
qed

text \<open>The bucket after calls, and what holds of the calls that follow.\<close>

fun after_calls :: "rat \<Rightarrow> int \<Rightarrow> call list \<Rightarrow> bucket option \<Rightarrow> bucket option" where
  "after_calls rate capacity [] b = b"
| "after_calls rate capacity (c # cs) b = after_calls rate capacity cs (fst (one_call rate capacity c b))"

lemma calls_append:
  "calls rate capacity (cs @ ds) b = calls rate capacity cs b @ calls rate capacity ds (after_calls rate capacity cs b)"
  by (induction cs arbitrary: b) (auto split: prod.split)

lemma length_calls [simp]: "length (calls rate capacity cs b) = length cs"
  by (induction cs arbitrary: b) (auto split: prod.split)

lemma clocks_after:
  assumes "0 < rate" and "0 < capacity"
  shows "clocks_ok rate capacity t (cs @ d # ds) b \<Longrightarrow> bucket_ok capacity t b \<Longrightarrow>
    clocks_ok rate capacity (Now d) (d # ds) (after_calls rate capacity cs b) \<and> bucket_ok capacity (Now d) (after_calls rate capacity cs b)"
proof (induction cs arbitrary: t b)
  case Nil
  then show ?case by (auto simp: bucket_ok_def split: option.splits)
next
  case (Cons c cs)
  obtain b1 res where one: "one_call rate capacity c b = (b1, res)" by fastforce
  have "bucket_ok capacity (Now c) b1"
    using one_call_level [OF assms Cons.prems(2) _ _ one] Cons.prems(1) by auto
  with Cons.IH [of "Now c" b1] Cons.prems(1) one show ?case by simp
qed


text \<open>After an answer and a pause, three answers in one moment where two are allowed at once.\<close>

definition answer_at :: "rat \<Rightarrow> call" where
  "answer_at t = \<lparr>Now = t, Num = 1, Reply = None, Ran = True, Gone = False\<rparr>"


text \<open>
  The time of the last call is stored also when it lies before the one in the key. Two servers
  whose clocks differ by a second fill the bucket again and again: of any number of answers
  given in the same moment through the two in turn, all are granted.
\<close>

fun in_turn :: "nat \<Rightarrow> call list" where
  "in_turn 0 = []"
| "in_turn (Suc n) = answer_at 0 # answer_at 1 # in_turn n"

lemma skewed_clocks_grant_all:
  "calls 10 20 (in_turn n) (Some \<lparr>tokens = 19, ts = 1\<rparr>) = replicate (2 * n) (Inr True)"
proof (induction n)
  case (Suc n)
  have 1: "one_call 10 20 (answer_at 0) (Some \<lparr>tokens = 19, ts = 1\<rparr>) = (Some \<lparr>tokens = 18, ts = 0\<rparr>, Inr True)"
    and 2: "one_call 10 20 (answer_at 1) (Some \<lparr>tokens = 18, ts = 0\<rparr>) = (Some \<lparr>tokens = 19, ts = 1\<rparr>, Inr True)"
    by (simp_all add: answer_at_def one_call_def AllowRedis_def bucket_script_def)
  show ?case using Suc by (simp add: 1 2)
qed simp

end
