(* ===== verification/Quiz_Socket.thy ===== *)
theory Quiz_Socket
  imports Api_Tokens Rate_Limit
begin

text \<open>
  The WebSocket of the quiz (src/internal/api/service/quiz_ws.go, and publishQuizQuestion of quiz.go):
  a connection is registered with the user of its token and the lesson of its query; answers
  pass the rate limit and go to the quiz service; the counts of an answer go to the connections of the teacher,
  a new question through Redis to those of its lesson. The quiz service is a parameter.
\<close>

subsection \<open>State\<close>

record conn_meta =
  MLesson :: int
  MUser :: int

datatype 'v quiz_msg =
    QuizError string
  | QuizStats int 'v
  | QuizQuestion int int 'v

text \<open>
  The registered connections, what was written to each, the connections whose writes fail, the ones
  that were closed, and the buckets of the users.
\<close>

record 'v quiz_state =
  WsConnsQuiz :: "nat \<Rightarrow> conn_meta option"
  written :: "nat \<Rightarrow> 'v quiz_msg list"
  broken :: "nat \<Rightarrow> bool"
  closed :: "nat \<Rightarrow> bool"
  answer_limits :: "int \<Rightarrow> bucket option"

subsection \<open>Connecting\<close>

definition QuizConnection :: "bool \<Rightarrow> string token_env \<Rightarrow> int \<Rightarrow> string \<Rightarrow> string \<Rightarrow> string \<Rightarrow> string \<Rightarrow> (int \<times> string) + conn_meta" where
  "QuizConnection allowQuery env now header cookie query lesson_id =
     (let token = Token header cookie query allowQuery in
      if token = '''' then Inl (401, ''missing token'')
      else
        (case ParseAccessToken env now token of
           Inl err \<Rightarrow> Inl (401, err_text err)
         | Inr uid \<Rightarrow>
             (case atoi lesson_id of
                None \<Rightarrow> Inl (400, ''invalid lesson id'')
              | Some ilid \<Rightarrow> Inr \<lparr>MLesson = ilid, MUser = uid\<rparr>)))"

text \<open>The start and the deferred end of ansHandler.\<close>

definition open_conn :: "nat \<Rightarrow> conn_meta \<Rightarrow> 'v quiz_state \<Rightarrow> 'v quiz_state" where
  "open_conn i m st = st\<lparr>WsConnsQuiz := (WsConnsQuiz st)(i \<mapsto> m)\<rparr>"

definition end_conn :: "nat \<Rightarrow> 'v quiz_state \<Rightarrow> 'v quiz_state" where
  "end_conn i st = st\<lparr>WsConnsQuiz := (WsConnsQuiz st)(i := None), closed := (closed st)(i := True)\<rparr>"

definition WriteJSON :: "nat \<Rightarrow> 'v quiz_msg \<Rightarrow> 'v quiz_state \<Rightarrow> 'v quiz_state" where
  "WriteJSON i m st = (if broken st i \<or> closed st i then st else st\<lparr>written := (written st)(i := written st i @ [m])\<rparr>)"

subsection \<open>Broadcasts\<close>

text \<open>
  The targets are the registered connections that match; each is written to, and closed when the
  write fails. The loop writes each connection once, so that its order does not matter.
\<close>

definition broadcast_to :: "(conn_meta \<Rightarrow> bool) \<Rightarrow> 'v quiz_msg \<Rightarrow> 'v quiz_state \<Rightarrow> 'v quiz_state" where
  "broadcast_to P m st =
     (let target = (\<lambda>i. case WsConnsQuiz st i of None \<Rightarrow> False | Some meta \<Rightarrow> P meta) in
      st\<lparr>written := (\<lambda>i. if target i \<and> \<not> broken st i \<and> \<not> closed st i then written st i @ [m] else written st i),
        closed := (\<lambda>i. closed st i \<or> target i \<and> broken st i)\<rparr>)"

definition broadcastToTeacher :: "int \<Rightarrow> 'v quiz_msg \<Rightarrow> 'v quiz_state \<Rightarrow> 'v quiz_state" where
  "broadcastToTeacher userid = broadcast_to (\<lambda>meta. MUser meta = userid)"

definition broadcastQuizToLesson :: "int \<Rightarrow> 'v quiz_msg \<Rightarrow> 'v quiz_state \<Rightarrow> 'v quiz_state" where
  "broadcastQuizToLesson lessonid = broadcast_to (\<lambda>meta. MLesson meta = lessonid)"

subsection \<open>Answers\<close>

record 'v quiz_info =
  TeacherID :: int
  QuizID :: int
  Stats :: 'v

text \<open>A reply: nil, or a code with a message and the data, if any.\<close>

datatype 'v answer_reply = NoReply | AnswerReply int string "'v quiz_info option"

text \<open>
  One round of the loop of ansHandler for an answer that was read; rpc is the call of TorFAnswer with the
  user of the connection, and the limiter is called with the clock and the answer of Redis of this round.
\<close>

definition handle_answer ::
    "(int \<Rightarrow> goerr + 'v answer_reply) \<Rightarrow> call \<Rightarrow> nat \<Rightarrow> conn_meta \<Rightarrow> 'v quiz_state \<Rightarrow> 'v quiz_state" where
  "handle_answer rpc c i meta st =
     (let (b, res) = one_call 10 20 (c\<lparr>Num := 1\<rparr>) (answer_limits st (MUser meta));
          st = st\<lparr>answer_limits := (answer_limits st)(MUser meta := b)\<rparr>
      in case res of
           Inl _ \<Rightarrow> WriteJSON i (QuizError ''rate limit error'') st
         | Inr False \<Rightarrow> WriteJSON i (QuizError ''too many answers'') st
         | Inr True \<Rightarrow>
             (case rpc (MUser meta) of
                Inl err \<Rightarrow> WriteJSON i (QuizError (err_text err)) st
              | Inr NoReply \<Rightarrow> WriteJSON i (QuizError ''empty response'') st
              | Inr (AnswerReply cd msg info) \<Rightarrow>
                  (if cd \<noteq> 0 then WriteJSON i (QuizError msg) st
                   else (case info of None \<Rightarrow> st | Some q \<Rightarrow> broadcastToTeacher (TeacherID q) (QuizStats (QuizID q) (Stats q)) st))))"

subsection \<open>Questions\<close>

text \<open>What goes through the channel quiz:broadcast, from this facade and from the quiz service.\<close>

datatype 'v wire =
    WireQuestion int int 'v     \<comment> \<open>lesson, question, content with options\<close>
  | WireStats int int 'v        \<comment> \<open>teacher, question, counts\<close>

text \<open>publishQuizQuestion: without Redis to the connections of this server, else to all servers.\<close>

definition publishQuizQuestion :: "bool \<Rightarrow> int \<Rightarrow> int \<Rightarrow> 'v \<Rightarrow> 'v quiz_state \<Rightarrow> 'v quiz_state \<times> 'v wire option" where
  "publishQuizQuestion has_redis lesson quizID content st =
     (if \<not> has_redis then (broadcastQuizToLesson lesson (QuizQuestion lesson quizID content) st, None)
      else (st, Some (WireQuestion lesson quizID content)))"

text \<open>
  RunQuizRedisSubscriber for one message: the numbers of its JSON are float64, and what is written on
  is the decoded message.
\<close>

definition RunQuizRedisSubscriber :: "'v wire \<Rightarrow> 'v quiz_state \<Rightarrow> 'v quiz_state" where
  "RunQuizRedisSubscriber m st =
     (case m of
        WireStats teacher quizID stats \<Rightarrow>
          (if 0 < claim_int64 teacher
           then broadcastToTeacher (claim_int64 teacher) (QuizStats (claim_int64 quizID) stats) st else st)
      | WireQuestion lesson quizID content \<Rightarrow>
          (if 0 < claim_int64 lesson
           then broadcastQuizToLesson (claim_int64 lesson) (QuizQuestion (claim_int64 lesson) (claim_int64 quizID) content) st else st))"

subsection \<open>Who gets what\<close>

definition reachable_conn :: "(conn_meta \<Rightarrow> bool) \<Rightarrow> 'v quiz_state \<Rightarrow> nat \<Rightarrow> bool" where
  "reachable_conn P st i \<longleftrightarrow> (\<exists>m. WsConnsQuiz st i = Some m \<and> P m) \<and> \<not> broken st i \<and> \<not> closed st i"

lemma broadcast_written:
  "written (broadcast_to P m st) i = written st i @ (if reachable_conn P st i then [m] else [])"
  by (auto simp: broadcast_to_def reachable_conn_def Let_def split: option.splits)

text \<open>
  (functional). A question reaches its lesson and nobody else: when the lesson's id is one that float64
  keeps, a question that is published is written, by every server that receives it, once to each open
  connection of the lesson, with the lesson's id, and to no other connection.
\<close>

theorem question_reaches_its_lesson:
  assumes "claim_int64 lesson = lesson" and "0 < lesson" and "publishQuizQuestion True lesson q content st0 = (st1, Some m)"
  shows "st1 = st0 \<and> written (RunQuizRedisSubscriber m st) i =
    written st i @ (if reachable_conn (\<lambda>meta. MLesson meta = lesson) st i then [QuizQuestion lesson (claim_int64 q) content] else [])"
  using assms by (auto simp: publishQuizQuestion_def RunQuizRedisSubscriber_def broadcastQuizToLesson_def broadcast_written)

definition one_listener :: "int \<Rightarrow> unit quiz_state" where
  "one_listener lesson = \<lparr>WsConnsQuiz = [0 \<mapsto> \<lparr>MLesson = lesson, MUser = 5\<rparr>], written = (\<lambda>_. []), broken = (\<lambda>_. False), closed = (\<lambda>_. False),
     answer_limits = (\<lambda>_. None)\<rparr>"

theorem question_reaches_its_lesson_witness:
  "written (RunQuizRedisSubscriber (WireQuestion first_id 9 ()) (one_listener first_id)) 0 = [QuizQuestion first_id (claim_int64 9) ()]"
proof -
  have "publishQuizQuestion True first_id 9 () (one_listener 1) = (one_listener 1, Some (WireQuestion first_id 9 ()))"
    by (simp add: publishQuizQuestion_def)
  from question_reaches_its_lesson [OF first_id_kept _ this, of "one_listener first_id" 0] show ?thesis
    by (simp add: first_id_def one_listener_def reachable_conn_def)
qed

text \<open>The question of a lesson whose id float64 does not keep goes to another lesson, and not to its own.\<close>

lemma question_goes_to_other_lesson:
  "written (RunQuizRedisSubscriber (WireQuestion (first_id + 1) 9 ()) (one_listener first_id)) 0 \<noteq> []"
  "written (RunQuizRedisSubscriber (WireQuestion (first_id + 1) 9 ()) (one_listener (first_id + 1))) 0 = []"
proof -
  have "0 < first_id" by (simp add: first_id_def)
  then show "written (RunQuizRedisSubscriber (WireQuestion (first_id + 1) 9 ()) (one_listener first_id)) 0 \<noteq> []"
    "written (RunQuizRedisSubscriber (WireQuestion (first_id + 1) 9 ()) (one_listener (first_id + 1))) 0 = []"
    by (simp_all add: RunQuizRedisSubscriber_def broadcastQuizToLesson_def second_user_is_taken_for_first broadcast_written reachable_conn_def one_listener_def)
qed

text \<open>
  (safety). An answer is guarded and its counts are the teacher's: whatever the quiz service
  replies, without a token of the rate limit the service is not asked; only the sender gets an error; and the
  counts are written to no connection but those of the teacher the service names.
\<close>

theorem answers_are_guarded:
  "(snd (one_call 10 20 (c\<lparr>Num := 1\<rparr>) (answer_limits st (MUser meta))) \<noteq> Inr True \<longrightarrow>
      handle_answer rpc c i meta st = handle_answer rpc' c i meta st) \<and>
   (\<forall>j. \<exists>ms. written (handle_answer rpc c i meta st) j = written st j @ ms \<and> length ms \<le> 1 \<and>
      (\<forall>m \<in> set ms. case m of
          QuizError _ \<Rightarrow> j = i
        | QuizStats q v \<Rightarrow> (\<exists>msg info teacher. rpc (MUser meta) = Inr (AnswerReply 0 msg (Some info)) \<and> QuizID info = q \<and> Stats info = v \<and>
            WsConnsQuiz st j = Some teacher \<and> MUser teacher = TeacherID info)
        | QuizQuestion _ _ _ \<Rightarrow> False))"
proof
  obtain b res where one: "one_call 10 20 (c\<lparr>Num := 1\<rparr>) (answer_limits st (MUser meta)) = (b, res)" by fastforce
  then show "snd (one_call 10 20 (c\<lparr>Num := 1\<rparr>) (answer_limits st (MUser meta))) \<noteq> Inr True \<longrightarrow>
      handle_answer rpc c i meta st = handle_answer rpc' c i meta st"
    by (auto simp: handle_answer_def Let_def split: sum.split bool.split)
  show "\<forall>j. \<exists>ms. written (handle_answer rpc c i meta st) j = written st j @ ms \<and> length ms \<le> 1 \<and>
      (\<forall>m \<in> set ms. case m of
          QuizError _ \<Rightarrow> j = i
        | QuizStats q v \<Rightarrow> (\<exists>msg info teacher. rpc (MUser meta) = Inr (AnswerReply 0 msg (Some info)) \<and> QuizID info = q \<and> Stats info = v \<and>
            WsConnsQuiz st j = Some teacher \<and> MUser teacher = TeacherID info)
        | QuizQuestion _ _ _ \<Rightarrow> False)"
    (is "\<forall>j. ?good j (handle_answer rpc c i meta st)")
  proof
    fix j
    let ?st = "st\<lparr>answer_limits := (answer_limits st)(MUser meta := b)\<rparr>"
    have err: "?good j (WriteJSON i (QuizError e) ?st)" for e
      by (cases "j = i \<and> \<not> broken st i \<and> \<not> closed st i") (auto simp: WriteJSON_def)
    have same: "?good j ?st" by simp
    show "?good j (handle_answer rpc c i meta st)"
    proof (cases res)
      case (Inl e)
      then show ?thesis using err by (simp add: handle_answer_def one)
    next
      case (Inr ok)
      show ?thesis
      proof (cases "ok \<and> (\<exists>msg info. rpc (MUser meta) = Inr (AnswerReply 0 msg (Some info)))")
        case True
        then obtain msg info where r: "rpc (MUser meta) = Inr (AnswerReply 0 msg (Some info))" by blast
        have "handle_answer rpc c i meta st = broadcastToTeacher (TeacherID info) (QuizStats (QuizID info) (Stats info)) ?st"
          using True Inr r by (simp add: handle_answer_def one)
        then show ?thesis using r by (auto simp: broadcastToTeacher_def broadcast_written reachable_conn_def)
      next
        case False
        then have "(\<exists>e. handle_answer rpc c i meta st = WriteJSON i (QuizError e) ?st) \<or> handle_answer rpc c i meta st = ?st"
          using Inr by (auto simp: handle_answer_def one Let_def split: bool.split sum.split answer_reply.split option.split)
        then show ?thesis using err same by auto
      qed
    qed
  qed
qed

theorem answers_are_guarded_witness:
  "handle_answer (\<lambda>_. Inl (ErrNew '''')) (answer_at 0) 0 \<lparr>MLesson = 1, MUser = 5\<rparr> ((one_listener 1)\<lparr>answer_limits := [5 \<mapsto> \<lparr>tokens = 0, ts = 0\<rparr>]\<rparr>) =
   handle_answer (\<lambda>_. Inr NoReply) (answer_at 0) 0 \<lparr>MLesson = 1, MUser = 5\<rparr> ((one_listener 1)\<lparr>answer_limits := [5 \<mapsto> \<lparr>tokens = 0, ts = 0\<rparr>]\<rparr>)"
  by (rule answers_are_guarded [THEN conjunct1, rule_format])
    (simp add: answer_at_def one_call_def AllowRedis_def bucket_script_def)

text \<open>
  A connection is registered for any lesson: nothing looks whether the user belongs to it, and the
  questions of the lesson reach whoever connects.
\<close>

lemma any_lesson_is_joined:
  assumes "ParseAccessToken env now (Token header cookie query allowQuery) = Inr uid" and "Token header cookie query allowQuery \<noteq> ''''"
    and "in_int64 lesson"
  shows "QuizConnection allowQuery env now header cookie query (show_int lesson) = Inr \<lparr>MLesson = lesson, MUser = uid\<rparr>"
  using assms by (simp add: QuizConnection_def atoi_show_int Let_def)

end
