(* ===== verification/User_Cdc.thy ===== *)
theory User_Cdc
  imports Cached_Rows
begin

text \<open>
  The worker that adds new users to the Bloom filter (src/internal/rpc/user/cdc/cdc.go): it reads the
  change events of the user table from a Kafka partition, one after the other, and commits the offset
  behind each. Kafka is a log with a committed offset; a reader that starts again reads from there.
\<close>

subsection \<open>The worker\<close>

text \<open>An event of the log decodes to a user's id, or not.\<close>

type_synonym event_log = "int option list"

record bloom_worker =
  position :: nat
  committed :: nat
  filters :: blooms

text \<open>
  One round of the loop for a message that was fetched. add: the outcome of BF.ADD, an error may come
  after it was applied; commit: whether the commit succeeds.
\<close>

datatype add_outcome = Add_ok | Add_lost | Add_failed

definition bf_add :: "int \<Rightarrow> add_outcome \<Rightarrow> bloom_worker \<Rightarrow> bloom_worker" where
  "bf_add uid out w =
     (if out = Add_failed then w else w\<lparr>filters := snd (bloom_exec (MAdd BloomKey [uid]) (filters w))\<rparr>)"

definition commit_messages :: "nat \<Rightarrow> bool \<Rightarrow> bloom_worker \<Rightarrow> bloom_worker" where
  "commit_messages offset ok w = (if ok then w\<lparr>committed := max (committed w) (Suc offset)\<rparr> else w)"

definition worker_round :: "event_log \<Rightarrow> add_outcome \<Rightarrow> bool \<Rightarrow> bloom_worker \<Rightarrow> bloom_worker" where
  "worker_round log out ok w =
     (if length log \<le> position w then w
      else
        (let m = position w; w = w\<lparr>position := Suc m\<rparr> in
         case log ! m of
           None \<Rightarrow> commit_messages m ok w
         | Some uid \<Rightarrow>
             (let w = bf_add uid out w in
              if out \<noteq> Add_ok then w else commit_messages m ok w)))"

subsection \<open>Runs\<close>

text \<open>
  The worker's rounds, ends and new starts, with the offsets whose BF.ADD failed since the last one;
  the log may grow, and others may add to the filter.
\<close>

inductive worker_run :: "event_log \<Rightarrow> bloom_worker \<Rightarrow> nat set \<Rightarrow> bool" where
  worker_start: "worker_run log \<lparr>position = 0, committed = 0, filters = b\<rparr> {}"
| worker_step: "worker_run log w skipped \<Longrightarrow>
    worker_run log (worker_round log out ok w) (if position w < length log \<and> out \<noteq> Add_ok then insert (position w) skipped else skipped)"
| worker_restart: "worker_run log w skipped \<Longrightarrow> worker_run log (w\<lparr>position := committed w\<rparr>) skipped"
| log_grows: "worker_run log w skipped \<Longrightarrow> worker_run (log @ grown) w skipped"
| filter_grows: "worker_run log w skipped \<Longrightarrow> worker_run log (w\<lparr>filters := snd (bloom_exec (MAdd BloomKey ids) (filters w))\<rparr>) skipped"

definition in_filter :: "bloom_worker \<Rightarrow> int \<Rightarrow> bool" where
  "in_filter w uid \<longleftrightarrow> uid \<in> set (added (filters w) BloomKey)"

definition covered :: "event_log \<Rightarrow> bloom_worker \<Rightarrow> nat set \<Rightarrow> nat \<Rightarrow> bool" where
  "covered log w skipped n \<longleftrightarrow> n \<le> length log \<and> (\<forall>m < n. \<forall>uid. log ! m = Some uid \<longrightarrow> in_filter w uid \<or> m \<in> skipped)"

lemma round_covered:
  assumes "covered log w skipped (committed w)" and "covered log w skipped (position w)"
    and s: "s' = (if position w < length log \<and> out \<noteq> Add_ok then insert (position w) skipped else skipped)"
  shows "covered log (worker_round log out ok w) s' (committed (worker_round log out ok w)) \<and>
    covered log (worker_round log out ok w) s' (position (worker_round log out ok w))"
proof (cases "length log \<le> position w")
  case True
  then show ?thesis using assms by (simp add: worker_round_def)
next
  case False
  let ?w = "worker_round log out ok w"
  have keep: "in_filter ?w uid" if "in_filter w uid" for uid
    using that False by (auto simp: worker_round_def in_filter_def bf_add_def commit_messages_def added_def Let_def split: option.splits)
  have new: "in_filter ?w uid \<or> position w \<in> s'" if "log ! position w = Some uid" for uid
    using that False s by (auto simp: worker_round_def in_filter_def bf_add_def commit_messages_def added_def Let_def split: option.splits)
  have "skipped \<subseteq> s'" using s by auto
  have "position ?w = Suc (position w)" "committed ?w \<le> max (committed w) (Suc (position w))"
    using False by (auto simp: worker_round_def bf_add_def commit_messages_def Let_def split: option.split)
  moreover have "covered log ?w s' (max (committed w) (Suc (position w)))"
    unfolding covered_def
  proof (intro conjI allI impI)
    fix m uid assume m: "m < max (committed w) (Suc (position w))" "log ! m = Some uid"
    show "in_filter ?w uid \<or> m \<in> s'"
    proof (cases "m = position w")
      case False
      with m have "m < committed w \<or> m < position w" by auto
      then have "in_filter w uid \<or> m \<in> skipped" using assms(1,2) m(2) unfolding covered_def by blast
      then show ?thesis using keep \<open>skipped \<subseteq> s'\<close> by blast
    qed (use new m in blast)
  qed (use assms(1) False in \<open>auto simp: covered_def\<close>)
  ultimately show ?thesis unfolding covered_def by auto
qed

lemma run_covered: "worker_run log w skipped \<Longrightarrow> covered log w skipped (committed w) \<and> covered log w skipped (position w)"
proof (induction rule: worker_run.induct)
  case (worker_step log w skipped out ok)
  then show ?case using round_covered [OF _ _ refl] by blast
next
  case (log_grows log w skipped grown)
  then show ?case by (auto simp: covered_def nth_append)
qed (auto simp: covered_def in_filter_def added_def split: option.splits)



text \<open>
  A failed BF.ADD is not tried again: the loop goes on with the next message, whose commit covers
  the failed one, so that a worker that starts again does not read it. The user stays unknown to the
  filter.
\<close>

lemma failed_add_is_passed_over:
  "let w = worker_round [Some 7, Some 8] Add_ok True (worker_round [Some 7, Some 8] Add_failed True \<lparr>position = 0, committed = 0, filters = (\<lambda>_. None)\<rparr>)
   in committed w = 2 \<and> added (filters w) BloomKey = [8]"
  by (simp add: worker_round_def commit_messages_def bf_add_def Let_def added_def)

end
